(* ===== verification/Prelude.thy ===== *)
theory Prelude
  imports Main "HOL-Library.Monad_Syntax"
begin

text \<open>
  Shared material of the development: the collections of rewrite rules the component proofs
  pass to the simplifier, and the generic facts on lists, options and partial-correctness
  computations that several components use.

  Conventions of the whole library.  A C function that dereferences memory is a function into
  an \<open>option\<close>: \<open>None\<close> means that the C code does not return normally (it dereferences a null
  or dangling pointer, reads past the end of an array, fails an \<open>assert\<close>, or loops for ever);
  loops over linked data are \<^theory_text>\<open>partial_function (option)\<close> definitions, so that their
  termination is a theorem and not an assumption.
\<close>

named_theorems heap_simps "reading a field of an item after an update of the item heap"
named_theorems frame_simps "fields of the process state that an operation leaves alone"
named_theorems cstring_simps "C string functions on NUL-terminated byte lists"

section \<open>Lists\<close>

text \<open>The pointer to the first element of a list segment that ends at \<open>e\<close>.\<close>

definition hd_ptr :: "'a list \<Rightarrow> 'a option \<Rightarrow> 'a option" where
  "hd_ptr xs e = (case xs of [] \<Rightarrow> e | x # _ \<Rightarrow> Some x)"

text \<open>The pointer to the last element of a list segment that is entered from \<open>p\<close>.\<close>

definition last_ptr :: "'a option \<Rightarrow> 'a list \<Rightarrow> 'a option" where
  "last_ptr p xs = (if xs = [] then p else Some (last xs))"

lemma hd_ptr_simps [simp]:
  "hd_ptr [] e = e" "hd_ptr (x # xs) e = Some x"
  by (simp_all add: hd_ptr_def)

lemma last_ptr_simps [simp]:
  "last_ptr p [] = p" "last_ptr p (x # xs) = last_ptr (Some x) xs"
  "last_ptr p (xs @ [y]) = Some y"
  by (simp_all add: last_ptr_def)

lemma hd_ptr_append: "hd_ptr (xs @ ys) e = hd_ptr xs (hd_ptr ys e)"
  by (cases xs) simp_all

lemma last_ptr_append: "last_ptr p (xs @ ys) = last_ptr (last_ptr p xs) ys"
  by (simp add: last_ptr_def)

lemma hd_ptr_ne: "xs \<noteq> [] \<Longrightarrow> hd_ptr xs e = Some (hd xs)"
  by (cases xs) simp_all

lemma last_ptr_ne: "xs \<noteq> [] \<Longrightarrow> last_ptr p xs = Some (last xs)"
  by (simp add: last_ptr_def)

lemma takeWhile_all: "(\<And>x. x \<in> set xs \<Longrightarrow> P x) \<Longrightarrow> takeWhile P xs = xs"
  by (simp add: takeWhile_eq_all_conv)

lemma takeWhile_stop: "(\<And>x. x \<in> set xs \<Longrightarrow> P x) \<Longrightarrow> \<not> P y \<Longrightarrow> takeWhile P (xs @ y # ys) = xs"
  by (induction xs) auto

lemma dropWhile_stop: "(\<And>x. x \<in> set xs \<Longrightarrow> P x) \<Longrightarrow> \<not> P y \<Longrightarrow> dropWhile P (xs @ y # ys) = y # ys"
  by (induction xs) auto

section \<open>Computations that may not return\<close>

lemma bind_Some_conv: "(m \<bind> f = Some y) = (\<exists>x. m = Some x \<and> f x = Some y)"
  by (cases m) simp_all

lemma bind_mono_impl:
  assumes "m \<bind> f = Some y" and "\<And>x. f x = Some y \<Longrightarrow> g x = Some y"
  shows "m \<bind> g = Some y"
  using assms by (cases m) simp_all

text \<open>The order of \<^theory_text>\<open>partial_function (option)\<close>, in a form that rule proofs can use.\<close>

lemma option_ord_iff: "option_ord x y \<longleftrightarrow> (\<forall>r. x = Some r \<longrightarrow> y = Some r)"
  by (cases x) (auto simp: flat_ord_def)

end
