(* ===== verification/Items.thy ===== *)
theory Items
  imports Prelude
begin

text \<open>
  The data of \<^verbatim>\<open>include/pcut/datadef.h\<close>: items of the list of tests and suites, their extras, and
  the memory they live in.  All items are statically allocated, so the memory is a finite map
  from addresses to structures; a pointer is an address or null, and reading through a null or
  dangling pointer has no result.  Function pointers are opaque: what a user function does is
  given to the runner as a parameter.
\<close>

section \<open>Structures\<close>

type_synonym addr = nat
type_synonym ptr = "addr option"
type_synonym fptr = nat

datatype kind =
    PCUT_KIND_SKIP
  | PCUT_KIND_NESTED
  | PCUT_KIND_SETUP
  | PCUT_KIND_TEARDOWN
  | PCUT_KIND_TESTSUITE
  | PCUT_KIND_TEST

text \<open>The numeric value of the C enumeration, which \<open>pcut_print_items\<close> prints.\<close>

fun kind_code :: "kind \<Rightarrow> int" where
  "kind_code PCUT_KIND_SKIP = 0"
| "kind_code PCUT_KIND_NESTED = 1"
| "kind_code PCUT_KIND_SETUP = 2"
| "kind_code PCUT_KIND_TEARDOWN = 3"
| "kind_code PCUT_KIND_TESTSUITE = 4"
| "kind_code PCUT_KIND_TEST = 5"

datatype extra_type = PCUT_EXTRA_TIMEOUT | PCUT_EXTRA_SKIP | PCUT_EXTRA_LAST

datatype main_extra_type =
    PCUT_MAIN_EXTRA_PREINIT_HOOK
  | PCUT_MAIN_EXTRA_INIT_HOOK
  | PCUT_MAIN_EXTRA_REPORT_XML
  | PCUT_MAIN_EXTRA_LAST

record pcut_extra =
  extra_type :: extra_type
  timeout :: int

record pcut_main_extra =
  main_extra_type :: main_extra_type
  init_hook :: "fptr option"
  preinit_hook :: "fptr option"

text \<open>
  \<open>extras\<close> and \<open>main_extras\<close> point to arrays; the list holds the elements from the pointer to
  the end of the array, and reading past it has no result.  The C field \<open>next\<close> is \<open>nxt\<close> here
  and \<open>id\<close> is \<open>ident\<close>.  \<open>ident\<close> is an unbounded integer: the number of statically allocated
  items of a program stays far below \<open>INT_MAX\<close>.
\<close>

record pcut_item =
  previous :: ptr
  nxt :: ptr
  ident :: int
  kind :: kind
  item_name :: string
  test_func :: "fptr option"
  setup_func :: "fptr option"
  teardown_func :: "fptr option"
  extras :: "pcut_extra list option"
  main_extras :: "pcut_main_extra list option"
  nested :: ptr

section \<open>Memory\<close>

type_synonym heap = "addr \<rightharpoonup> pcut_item"

text \<open>Assignment to a field, \<open>a->field = v\<close>: no result if \<open>a\<close> is not allocated.\<close>

definition upd :: "addr \<Rightarrow> (pcut_item \<Rightarrow> pcut_item) \<Rightarrow> heap \<Rightarrow> heap option" where
  "upd a f h = (case h a of None \<Rightarrow> None | Some it \<Rightarrow> Some (h(a \<mapsto> f it)))"

lemma upd_Some [heap_simps]: "h a = Some it \<Longrightarrow> upd a f h = Some (h(a \<mapsto> f it))"
  by (simp add: upd_def)

lemma upd_SomeE:
  assumes "upd a f h = Some h'"
  obtains it where "h a = Some it" "h' = h(a \<mapsto> f it)"
  using assms by (auto simp: upd_def split: option.splits)

text \<open>What kind of item an address holds (\<open>PCUT_KIND_SKIP\<close> off the heap).\<close>

definition kind_at :: "heap \<Rightarrow> addr \<Rightarrow> kind" where
  "kind_at h a = (case h a of None \<Rightarrow> PCUT_KIND_SKIP | Some it \<Rightarrow> kind it)"

lemma kind_at_Some [heap_simps]: "h a = Some it \<Longrightarrow> kind_at h a = kind it"
  by (simp add: kind_at_def)

lemma kind_at_upd [heap_simps]:
  "kind_at (h(a \<mapsto> it)) b = (if b = a then kind it else kind_at h b)"
  by (simp add: kind_at_def)

section \<open>Doubly linked segments\<close>

text \<open>
  \<open>dll h p as e\<close>: the addresses \<open>as\<close> form a doubly linked segment of the heap that is entered
  from \<open>p\<close> and left to \<open>e\<close>.
\<close>

fun dll :: "heap \<Rightarrow> ptr \<Rightarrow> addr list \<Rightarrow> ptr \<Rightarrow> bool" where
  "dll h p [] e = True"
| "dll h p (a # as) e =
     (case h a of None \<Rightarrow> False
      | Some it \<Rightarrow> previous it = p \<and> nxt it = hd_ptr as e \<and> dll h (Some a) as e)"

lemma dll_append: "dll h p (as @ bs) e \<longleftrightarrow> dll h p as (hd_ptr bs e) \<and> dll h (last_ptr p as) bs e"
  by (induction as arbitrary: p) (auto simp: hd_ptr_append split: option.splits)

lemma dll_alloc: "dll h p as e \<Longrightarrow> a \<in> set as \<Longrightarrow> \<exists>it. h a = Some it"
  by (induction as arbitrary: p) (auto split: option.splits)

text \<open>Only the links matter: heaps with the same links on the segment have the same segment.\<close>

lemma dll_cong:
  assumes "dll h p as e"
    and "\<And>a it. a \<in> set as \<Longrightarrow> h a = Some it \<Longrightarrow>
          \<exists>it'. h' a = Some it' \<and> previous it' = previous it \<and> nxt it' = nxt it"
  shows "dll h' p as e"
  using assms
proof (induction as arbitrary: p)
  case (Cons a as)
  then obtain it where it: "h a = Some it" by (auto split: option.splits)
  with Cons.prems(2) obtain it' where "h' a = Some it'" "previous it' = previous it" "nxt it' = nxt it"
    by (meson list.set_intros(1))
  with Cons it show ?case by auto
qed simp

lemma dll_upd_other [heap_simps]: "a \<notin> set as \<Longrightarrow> dll (h(a := x)) p as e = dll h p as e"
  by (induction as arbitrary: p) (auto split: option.split)

lemma dll_nth_split: "dll h p (as @ a # bs) e \<Longrightarrow>
  \<exists>it. h a = Some it \<and> previous it = last_ptr p as \<and> nxt it = hd_ptr bs e"
  by (auto simp: dll_append split: option.splits)

end
