(* ===== verification/ItemList.thy ===== *)
theory ItemList
  imports Items
begin

text \<open>
  The list component, \<^verbatim>\<open>src/list.c\<close>.  The macros of \<^verbatim>\<open>tests.h\<close> build a list that is linked backwards
  only; \<open>pcut_fix_list_get_real_head\<close> turns it into a doubly linked list, splices the
  imported lists in, hides skipped tests and numbers the items.
\<close>

section \<open>Traversal\<close>

text \<open>The loop of \<open>pcut_get_real_next\<close>, entered with an allocated item.\<close>

partial_function (option) real_next_loop :: "heap \<Rightarrow> addr \<Rightarrow> ptr option" where [code]:
  "real_next_loop h a =
     do { it \<leftarrow> h a;
          case nxt it of
            None \<Rightarrow> Some None
          | Some b \<Rightarrow>
              do { itb \<leftarrow> h b;
                   if kind itb = PCUT_KIND_SKIP then real_next_loop h b
                   else Some (Some b) } }"

definition pcut_get_real_next :: "heap \<Rightarrow> ptr \<Rightarrow> ptr option" where
  "pcut_get_real_next h item = (case item of None \<Rightarrow> Some None | Some a \<Rightarrow> real_next_loop h a)"

definition pcut_get_real :: "heap \<Rightarrow> ptr \<Rightarrow> ptr option" where
  "pcut_get_real h item =
     (case item of
        None \<Rightarrow> Some None
      | Some a \<Rightarrow>
          do { it \<leftarrow> h a;
               if kind it = PCUT_KIND_SKIP then pcut_get_real_next h item else Some item })"

section \<open>Numbering, skipping and counting\<close>

partial_function (option) set_ids_loop :: "heap \<Rightarrow> int \<Rightarrow> ptr \<Rightarrow> heap option" where [code]:
  "set_ids_loop h i it =
     (case it of
        None \<Rightarrow> Some h
      | Some a \<Rightarrow>
          do { h \<leftarrow> upd a (ident_update (\<lambda>_. i)) h;
               it \<leftarrow> pcut_get_real_next h (Some a);
               set_ids_loop h (i + 1) it })"

definition set_ids :: "heap \<Rightarrow> ptr \<Rightarrow> heap option" where
  "set_ids h first =
     (case first of
        None \<Rightarrow> None
      | Some a \<Rightarrow>
          do { it \<leftarrow> h a;
               first \<leftarrow> (if kind it = PCUT_KIND_SKIP then pcut_get_real_next h first
                         else Some first);
               set_ids_loop h 1 first })"

text \<open>The loop over the extras of a test: does it meet \<open>PCUT_EXTRA_SKIP\<close> before the end mark?\<close>

fun has_skip_extra :: "pcut_extra list \<Rightarrow> bool option" where
  "has_skip_extra [] = None"
| "has_skip_extra (x # xs) =
     (case extra_type x of
        PCUT_EXTRA_LAST \<Rightarrow> Some False
      | PCUT_EXTRA_SKIP \<Rightarrow> Some True
      | PCUT_EXTRA_TIMEOUT \<Rightarrow> has_skip_extra xs)"

partial_function (option) detect_skipped_loop :: "heap \<Rightarrow> ptr \<Rightarrow> heap option" where [code]:
  "detect_skipped_loop h it =
     (case it of
        None \<Rightarrow> Some h
      | Some a \<Rightarrow>
          do { item \<leftarrow> h a;
               h \<leftarrow> (if kind item \<noteq> PCUT_KIND_TEST then Some h
                     else do { xs \<leftarrow> extras item;
                               skip \<leftarrow> has_skip_extra xs;
                               if skip then upd a (kind_update (\<lambda>_. PCUT_KIND_SKIP)) h
                               else Some h });
               it \<leftarrow> pcut_get_real_next h (Some a);
               detect_skipped_loop h it })"

definition detect_skipped_tests :: "heap \<Rightarrow> ptr \<Rightarrow> heap option" where
  "detect_skipped_tests h first =
     (case first of
        None \<Rightarrow> None
      | Some a \<Rightarrow>
          do { it \<leftarrow> h a;
               first \<leftarrow> (if kind it = PCUT_KIND_SKIP then pcut_get_real_next h first
                         else Some first);
               detect_skipped_loop h first })"

partial_function (option) count_tests_loop :: "heap \<Rightarrow> ptr \<Rightarrow> int \<Rightarrow> int option" where [code]:
  "count_tests_loop h it count =
     (case it of
        None \<Rightarrow> Some count
      | Some a \<Rightarrow>
          do { item \<leftarrow> h a;
               it \<leftarrow> pcut_get_real_next h (Some a);
               count_tests_loop h it (if kind item = PCUT_KIND_TEST then count + 1 else count) })"

definition pcut_count_tests :: "heap \<Rightarrow> ptr \<Rightarrow> int option" where
  "pcut_count_tests h it = count_tests_loop h it 0"

section \<open>Splicing and fixing\<close>

text \<open>
  \<open>inline_nested_lists\<close> and \<open>pcut_fix_list_get_real_head\<close> call each other; the first takes the
  second as its argument \<open>fix_list\<close> and the recursion is closed below.
\<close>

definition inline_nested_lists ::
    "(heap \<Rightarrow> addr \<Rightarrow> (heap \<times> addr) option) \<Rightarrow> heap \<Rightarrow> addr \<Rightarrow> heap option" where
  "inline_nested_lists fix_list h nestd =
     do { it \<leftarrow> h nestd;
          if kind it \<noteq> PCUT_KIND_NESTED then Some h
          else
            (case nested it of
               None \<Rightarrow> upd nestd (kind_update (\<lambda>_. PCUT_KIND_SKIP)) h
             | Some l \<Rightarrow>
                 do { (h, first) \<leftarrow> fix_list h l;
                      it \<leftarrow> h nestd;
                      l \<leftarrow> nested it;
                      h \<leftarrow> upd l (nxt_update (\<lambda>_. nxt it)) h;
                      it \<leftarrow> h nestd;
                      h \<leftarrow> (case nxt it of
                               None \<Rightarrow> Some h
                             | Some n \<Rightarrow> upd n (previous_update (\<lambda>_. Some l)) h);
                      h \<leftarrow> upd nestd (nxt_update (\<lambda>_. Some first)) h;
                      h \<leftarrow> upd first (previous_update (\<lambda>_. Some nestd)) h;
                      upd nestd (kind_update (\<lambda>_. PCUT_KIND_SKIP)) h }) }"

text \<open>The loop of \<open>pcut_fix_list_get_real_head\<close>: \<open>next\<close> is the item handled before \<open>it\<close>.\<close>

partial_function (option) fix_loop ::
    "heap \<Rightarrow> addr \<Rightarrow> ptr \<Rightarrow> (heap \<Rightarrow> addr \<Rightarrow> (heap \<times> addr) option) \<Rightarrow> (heap \<times> addr) option" where [code]:
  "fix_loop h nx it fix_list =
     (case it of
        None \<Rightarrow> Some (h, nx)
      | Some a \<Rightarrow>
          do { h \<leftarrow> upd a (nxt_update (\<lambda>_. Some nx)) h;
               h \<leftarrow> inline_nested_lists fix_list h a;
               item \<leftarrow> h a;
               fix_loop h a (previous item) fix_list })"

text \<open>More results of the inner function give more results of the loop: the recursion has a least
  solution.\<close>

lemma inline_nested_lists_mono_impl:
  assumes "inline_nested_lists F h a = Some r"
    and "\<And>h l r. F h l = Some r \<Longrightarrow> G h l = Some r"
  shows "inline_nested_lists G h a = Some r"
proof -
  from assms(1) obtain it where it: "h a = Some it"
    by (auto simp: inline_nested_lists_def bind_Some_conv)
  show ?thesis
  proof (cases "kind it = PCUT_KIND_NESTED \<and> nested it \<noteq> None")
    case True
    then obtain l where l: "nested it = Some l" by blast
    with assms(1) it True obtain h1 first where F: "F h l = Some (h1, first)"
      by (auto simp: inline_nested_lists_def bind_Some_conv)
    then have G: "G h l = Some (h1, first)" by (rule assms(2))
    from assms(1) it True l F G show ?thesis
      by (simp add: inline_nested_lists_def)
  next
    case False
    with assms(1) it show ?thesis
      by (cases "nested it") (auto simp: inline_nested_lists_def split: if_splits)
  qed
qed

lemma fix_loop_mono_impl:
  assumes "fix_loop h n p F = Some r"
    and FG: "\<And>h l r. F h l = Some r \<Longrightarrow> G h l = Some r"
  shows "fix_loop h n p G = Some r"
proof -
  have "\<forall>G. (\<forall>h l r. F h l = Some r \<longrightarrow> G h l = Some r) \<longrightarrow> fix_loop h n p G = Some r"
  proof (rule fix_loop.raw_induct [where P = "\<lambda>h n p F r. \<forall>G. (\<forall>h l r. F h l = Some r \<longrightarrow> G h l = Some r)
        \<longrightarrow> fix_loop h n p G = Some r", OF _ assms(1)], intro allI impI)
    fix fl h n p F r and G :: "heap \<Rightarrow> addr \<Rightarrow> (heap \<times> addr) option"
    assume IH: "\<And>h n p F r. fl h n p F = Some r \<Longrightarrow>
          \<forall>G. (\<forall>h l r. F h l = Some r \<longrightarrow> G h l = Some r) \<longrightarrow> fix_loop h n p G = Some r"
      and eq: "(case p of None \<Rightarrow> Some (h, n)
          | Some a \<Rightarrow> do { h \<leftarrow> upd a (nxt_update (\<lambda>_. Some n)) h;
               h \<leftarrow> inline_nested_lists F h a; item \<leftarrow> h a; fl h a (previous item) F }) = Some r"
      and G: "\<forall>h l r. F h l = Some r \<longrightarrow> G h l = Some r"
    have IH': "fix_loop h n p G = Some r" if "fl h n p F = Some r" for h n p r
      using IH [OF that] G by blast
    have inl: "inline_nested_lists G h a = Some r" if "inline_nested_lists F h a = Some r" for h a r
      using inline_nested_lists_mono_impl [OF that] G by blast
    show "fix_loop h n p G = Some r"
      using eq by (subst fix_loop.simps)
        (auto simp: bind_Some_conv split: option.splits dest!: inl IH')
  qed
  with FG show ?thesis by blast
qed

lemma inline_nested_lists_mono [partial_function_mono]:
  assumes "\<And>h l. mono_option (\<lambda>f. B f h l)"
  shows "mono_option (\<lambda>f. inline_nested_lists (B f) h a)"
  using assms unfolding monotone_def option_ord_iff
  by (blast intro: inline_nested_lists_mono_impl)

lemma fix_loop_mono [partial_function_mono]:
  assumes "\<And>h l. mono_option (\<lambda>f. B f h l)"
  shows "mono_option (\<lambda>f. fix_loop h n p (B f))"
  using assms unfolding monotone_def option_ord_iff
  by (blast intro: fix_loop_mono_impl)

partial_function (option) pcut_fix_list_get_real_head ::
    "heap \<Rightarrow> addr \<Rightarrow> (heap \<times> addr) option" where [code]:
  "pcut_fix_list_get_real_head h last_item =
     do { h \<leftarrow> upd last_item (nxt_update (\<lambda>_. None)) h;
          h \<leftarrow> inline_nested_lists pcut_fix_list_get_real_head h last_item;
          item \<leftarrow> h last_item;
          (h, next) \<leftarrow> fix_loop h last_item (previous item) pcut_fix_list_get_real_head;
          h \<leftarrow> detect_skipped_tests h (Some next);
          h \<leftarrow> set_ids h (Some next);
          Some (h, next) }"

section \<open>Traversals of a fixed list\<close>

text \<open>Items with actual content: those that a traversal visits.\<close>

definition reals :: "heap \<Rightarrow> addr list \<Rightarrow> addr list" where
  "reals h as = filter (\<lambda>a. kind_at h a \<noteq> PCUT_KIND_SKIP) as"

lemma reals_simps [simp]:
  "reals h [] = []"
  "reals h (a # as) = (if kind_at h a = PCUT_KIND_SKIP then reals h as else a # reals h as)"
  "reals h (as @ bs) = reals h as @ reals h bs"
  by (simp_all add: reals_def)

lemma reals_cong: "(\<And>a. a \<in> set as \<Longrightarrow> kind_at h' a = kind_at h a) \<Longrightarrow> reals h' as = reals h as"
  by (simp add: reals_def cong: filter_cong)

lemma set_reals: "set (reals h as) = {a \<in> set as. kind_at h a \<noteq> PCUT_KIND_SKIP}"
  by (auto simp: reals_def)

lemma real_next_loop_dll:
  "dll h p (a # as) None \<Longrightarrow> real_next_loop h a = Some (hd_ptr (reals h as) None)"
proof (induction as arbitrary: a p)
  case Nil
  then show ?case by (subst real_next_loop.simps) (auto split: option.splits)
next
  case (Cons b as)
  then have "dll h (Some a) (b # as) None" by (auto split: option.splits)
  from Cons.IH [OF this] Cons.prems show ?case
    by (subst real_next_loop.simps) (auto simp: kind_at_Some split: option.splits)
qed

lemma real_next_split:
  "dll h p (bs @ a # cs) None \<Longrightarrow> pcut_get_real_next h (Some a) = Some (hd_ptr (reals h cs) None)"
  by (auto simp: pcut_get_real_next_def dll_append simp del: dll.simps intro: real_next_loop_dll)

lemma get_real_dll:
  "dll h p as None \<Longrightarrow> pcut_get_real h (hd_ptr as None) = Some (hd_ptr (reals h as) None)"
proof (cases as)
  case (Cons a cs)
  moreover assume "dll h p as None"
  ultimately show ?thesis
    using real_next_split [of h p "[]" a cs]
    by (auto simp: pcut_get_real_def kind_at_Some split: option.splits)
qed (simp add: pcut_get_real_def)

text \<open>The prefix of \<open>set_ids\<close> and \<open>detect_skipped_tests\<close> that looks for the first item.\<close>

lemma first_real_dll:
  assumes "dll h p (a # as) None"
  shows "do { it \<leftarrow> h a; first \<leftarrow> (if kind it = PCUT_KIND_SKIP then pcut_get_real_next h (Some a)
              else Some (Some a)); f first } = f (hd_ptr (reals h (a # as)) None)"
  using assms real_next_split [of h p "[]" a as]
  by (auto simp: kind_at_Some split: option.splits)

lemma count_tests_loop_dll:
  "dll h p (bs @ cs) None \<Longrightarrow> count_tests_loop h (hd_ptr (reals h cs) None) n =
     Some (n + int (length (filter (\<lambda>a. kind_at h a = PCUT_KIND_TEST) cs)))"
proof (induction cs arbitrary: bs n)
  case Nil
  show ?case by (subst count_tests_loop.simps) simp
next
  case (Cons c cs)
  from Cons.prems have dll: "dll h p ((bs @ [c]) @ cs) None" by simp
  from dll_alloc [OF Cons.prems, of c] obtain it where it: "h c = Some it" by auto
  show ?case
  proof (cases "kind it = PCUT_KIND_SKIP")
    case True
    with Cons.IH [OF dll] it show ?thesis by (simp add: kind_at_Some)
  next
    case False
    with Cons.IH [OF dll] it real_next_split [OF Cons.prems] show ?thesis
      by (subst count_tests_loop.simps) (simp add: kind_at_Some)
  qed
qed

lemma count_tests_dll:
  assumes "dll h p as None"
  shows "pcut_count_tests h (hd_ptr as None) =
    Some (int (length (filter (\<lambda>a. kind_at h a = PCUT_KIND_TEST) as)))"
proof (cases as)
  case Nil
  then show ?thesis by (simp add: pcut_count_tests_def count_tests_loop.simps)
next
  case (Cons a cs)
  with assms obtain it where it: "h a = Some it" by (auto split: option.splits)
  have *: "count_tests_loop h (hd_ptr (reals h cs) None) n =
      Some (n + int (length (filter (\<lambda>a. kind_at h a = PCUT_KIND_TEST) cs)))" for n
    using assms Cons count_tests_loop_dll [of h p "[a]" cs n] by simp
  have "pcut_get_real_next h (Some a) = Some (hd_ptr (reals h cs) None)"
    using assms Cons real_next_split [of h p "[]" a cs] by simp
  with it Cons * show ?thesis
    by (simp add: pcut_count_tests_def kind_at_Some count_tests_loop.simps [of h "Some a"])
qed

section \<open>What numbering and hiding do\<close>

text \<open>Adjusting one item of the memory; \<open>upd\<close> on an allocated address.\<close>

definition adj :: "addr \<Rightarrow> (pcut_item \<Rightarrow> pcut_item) \<Rightarrow> heap \<Rightarrow> heap" where
  "adj a f h = h(a := map_option f (h a))"

lemma adj_apply [heap_simps]: "adj a f h b = (if b = a then map_option f (h b) else h b)"
  by (simp add: adj_def)

lemma upd_adj: "h a = Some it \<Longrightarrow> upd a f h = Some (adj a f h)"
  by (simp add: upd_def adj_def)

lemma dll_adj_other [heap_simps]: "a \<notin> set as \<Longrightarrow> dll (adj a f h) p as e = dll h p as e"
  by (simp add: adj_def dll_upd_other)

lemma dll_adj_links:
  assumes "dll h p as e" and "\<And>it. previous (f it) = previous it \<and> nxt (f it) = nxt it"
  shows "dll (adj a f h) p as e"
  using assms(1) by (rule dll_cong) (auto simp: adj_apply assms(2))

lemma kind_at_adj_same [heap_simps]: "(\<And>it. kind (f it) = kind it) \<Longrightarrow> kind_at (adj a f h) b = kind_at h b"
  by (auto simp: kind_at_def adj_apply split: option.splits)

fun number :: "heap \<Rightarrow> int \<Rightarrow> addr list \<Rightarrow> heap" where
  "number h i [] = h"
| "number h i (a # as) = number (adj a (ident_update (\<lambda>_. i)) h) (i + 1) as"

lemma number_other: "a \<notin> set as \<Longrightarrow> number h i as a = h a"
  by (induction as arbitrary: h i) (auto simp: adj_apply)

lemma number_nth:
  "distinct as \<Longrightarrow> k < length as \<Longrightarrow>
   number h i as (as ! k) = map_option (ident_update (\<lambda>_. i + int k)) (h (as ! k))"
proof (induction as arbitrary: h i k)
  case (Cons a as)
  then show ?case
    by (cases k) (auto simp: number_other adj_apply in_set_conv_nth algebra_simps)
qed simp

lemma dll_number: "dll h p as e \<Longrightarrow> dll (number h i bs) p as e"
  by (induction bs arbitrary: h i) (simp_all add: dll_adj_links)

lemma set_ids_loop_dll:
  "dll h p (bs @ cs) None \<Longrightarrow>
   set_ids_loop h i (hd_ptr (reals h cs) None) = Some (number h i (reals h cs))"
proof (induction cs arbitrary: bs h i)
  case Nil
  show ?case by (subst set_ids_loop.simps) simp
next
  case (Cons c cs)
  let ?h = "adj c (ident_update (\<lambda>_. i)) h"
  from dll_alloc [OF Cons.prems, of c] obtain it where it: "h c = Some it" by auto
  show ?case
  proof (cases "kind it = PCUT_KIND_SKIP")
    case True
    with Cons.IH [of h "bs @ [c]"] Cons.prems it show ?thesis by (simp add: kind_at_Some)
  next
    case False
    have r: "reals ?h cs = reals h cs" by (rule reals_cong) (simp add: kind_at_adj_same)
    have dll: "dll ?h p (bs @ c # cs) None" using Cons.prems by (simp add: dll_adj_links)
    then have "dll ?h p ((bs @ [c]) @ cs) None" by simp
    from Cons.IH [OF this] False it real_next_split [OF dll] r show ?thesis
      by (subst set_ids_loop.simps) (simp add: kind_at_Some upd_adj)
  qed
qed

lemma set_ids_dll:
  assumes "dll h p (a # as) None"
  shows "set_ids h (Some a) = Some (number h 1 (reals h (a # as)))"
  using set_ids_loop_dll [of h p "[]" "a # as" 1] assms
  by (simp add: set_ids_def first_real_dll [OF assms] del: reals_simps dll.simps)

text \<open>Tests whose extras hide them; \<open>extras_ok\<close>: the extras of a test are a terminated array.\<close>

definition skip_marked :: "pcut_item \<Rightarrow> bool" where
  "skip_marked it = (case extras it of None \<Rightarrow> False | Some xs \<Rightarrow> has_skip_extra xs = Some True)"

definition extras_ok :: "pcut_item \<Rightarrow> bool" where
  "extras_ok it \<longleftrightarrow> (kind it = PCUT_KIND_TEST \<longrightarrow>
     (case extras it of None \<Rightarrow> False | Some xs \<Rightarrow> has_skip_extra xs \<noteq> None))"

lemma extras_ok_nxt [simp]: "extras_ok (it\<lparr>nxt := p\<rparr>) = extras_ok it"
  by (simp add: extras_ok_def)

definition hide :: "pcut_item \<Rightarrow> pcut_item" where
  "hide it = (if kind it = PCUT_KIND_TEST \<and> skip_marked it then it\<lparr>kind := PCUT_KIND_SKIP\<rparr> else it)"

lemma hide_links [simp]: "previous (hide it) = previous it" "nxt (hide it) = nxt it"
  by (simp_all add: hide_def)

definition hide_all :: "heap \<Rightarrow> addr list \<Rightarrow> heap" where
  "hide_all h as = (\<lambda>a. if a \<in> set as then map_option hide (h a) else h a)"

lemma dll_hide_all: "dll h p as e \<Longrightarrow> dll (hide_all h bs) p as e"
  by (erule dll_cong) (simp add: hide_all_def)

lemma hide_all_Cons:
  "a \<notin> set as \<Longrightarrow> hide_all (adj a hide h) as = hide_all h (a # as)"
  by (auto simp: hide_all_def adj_apply fun_eq_iff)

lemma hide_all_skip:
  "h a = Some it \<Longrightarrow> kind it \<noteq> PCUT_KIND_TEST \<Longrightarrow> hide_all h (a # as) = hide_all h as"
  by (auto simp: hide_all_def fun_eq_iff hide_def)

lemma detect_step:
  assumes "h a = Some it" and "extras_ok it"
  shows "(if kind it \<noteq> PCUT_KIND_TEST then Some h
          else do { xs \<leftarrow> extras it; skip \<leftarrow> has_skip_extra xs;
                    if skip then upd a (kind_update (\<lambda>_. PCUT_KIND_SKIP)) h else Some h })
         = Some (adj a hide h)"
  using assms
  by (auto simp: extras_ok_def hide_def skip_marked_def upd_def adj_def fun_eq_iff
      split: option.splits)

lemma detect_skipped_loop_dll:
  "dll h p (bs @ cs) None \<Longrightarrow> distinct cs \<Longrightarrow>
   (\<And>a it. a \<in> set cs \<Longrightarrow> h a = Some it \<Longrightarrow> extras_ok it) \<Longrightarrow>
   detect_skipped_loop h (hd_ptr (reals h cs) None) = Some (hide_all h cs)"
proof (induction cs arbitrary: bs h)
  case Nil
  show ?case by (subst detect_skipped_loop.simps) (simp add: hide_all_def)
next
  case (Cons c cs)
  let ?h = "adj c hide h"
  from dll_alloc [OF Cons.prems(1), of c] obtain it where it: "h c = Some it" by auto
  show ?case
  proof (cases "kind it = PCUT_KIND_SKIP")
    case True
    have "detect_skipped_loop h (hd_ptr (reals h cs) None) = Some (hide_all h cs)"
      by (rule Cons.IH [of h "bs @ [c]"]) (use Cons.prems in auto)
    with True it show ?thesis by (simp add: kind_at_Some hide_all_skip)
  next
    case False
    have dll: "dll ?h p (bs @ c # cs) None" using Cons.prems(1) by (simp add: dll_adj_links)
    have r: "reals ?h cs = reals h cs"
      by (rule reals_cong) (use Cons.prems(2) in \<open>auto simp: kind_at_def adj_apply\<close>)
    from dll have "dll ?h p ((bs @ [c]) @ cs) None" by simp
    then have "detect_skipped_loop ?h (hd_ptr (reals ?h cs) None) = Some (hide_all ?h cs)"
      by (rule Cons.IH) (use Cons.prems(2,3) in \<open>auto simp: adj_apply split: if_splits\<close>)
    then have "detect_skipped_loop ?h (hd_ptr (reals h cs) None) = Some (hide_all h (c # cs))"
      using Cons.prems(2) by (simp add: r hide_all_Cons)
    moreover have "extras_ok it" by (rule Cons.prems(3) [OF _ it]) simp
    ultimately show ?thesis
      using False it real_next_split [OF dll] r
      by (subst detect_skipped_loop.simps)
        (simp only: option.case Option.bind.simps detect_step reals_simps hd_ptr_simps if_False
          kind_at_Some)
  qed
qed

lemma detect_skipped_dll:
  assumes "dll h p (a # as) None" and "distinct (a # as)"
    and "\<And>b it. b \<in> set (a # as) \<Longrightarrow> h b = Some it \<Longrightarrow> extras_ok it"
  shows "detect_skipped_tests h (Some a) = Some (hide_all h (a # as))"
  using detect_skipped_loop_dll [of h p "[]" "a # as"] assms
  by (simp add: detect_skipped_tests_def first_real_dll [OF assms(1)] del: reals_simps dll.simps)

section \<open>The lists the macros declare\<close>

text \<open>
  The abstract view of a backward list, newest item first as the links go: an item of its own,
  or an import of a nested list.  \<open>order\<close> is the order of the fixed list.
\<close>

datatype src = Leaf addr | Import addr "src list"

fun src_addr :: "src \<Rightarrow> addr" where
  "src_addr (Leaf a) = a"
| "src_addr (Import a ys) = a"

fun flat :: "src \<Rightarrow> addr list" and order :: "src list \<Rightarrow> addr list" where
  "flat (Leaf a) = [a]"
| "flat (Import a ys) = a # order ys"
| "order [] = []"
| "order (x # xs) = order xs @ flat x"

lemma flat_Cons: "flat x = src_addr x # tl (flat x)"
  by (cases x) simp_all

text \<open>
  \<open>chain h p xs\<close>: in the heap, the backward links from \<open>p\<close> declare \<open>xs\<close>.  A nested list ends
  with an item of its own (the \<open>PCUT_EXPORT\<close> item), as \<open>inline_nested_lists\<close> needs.
\<close>

fun chain :: "heap \<Rightarrow> ptr \<Rightarrow> src list \<Rightarrow> bool" and node :: "heap \<Rightarrow> src \<Rightarrow> bool" where
  "chain h p [] \<longleftrightarrow> p = None"
| "chain h p (x # xs) \<longleftrightarrow> p = Some (src_addr x) \<and> node h x \<and>
     (case h (src_addr x) of None \<Rightarrow> False | Some it \<Rightarrow> chain h (previous it) xs)"
| "node h (Leaf a) \<longleftrightarrow>
     (case h a of None \<Rightarrow> False | Some it \<Rightarrow> kind it = PCUT_KIND_NESTED \<longrightarrow> nested it = None)"
| "node h (Import a ys) \<longleftrightarrow>
     (case h a of None \<Rightarrow> False
      | Some it \<Rightarrow> kind it = PCUT_KIND_NESTED \<and> chain h (nested it) ys) \<and>
     (case ys of Leaf _ # _ \<Rightarrow> True | _ \<Rightarrow> False)"

lemma chain_node_cong:
  "(\<And>a. a \<in> set (order xs) \<Longrightarrow> h' a = h a) \<Longrightarrow> chain h' p xs = chain h p xs"
  "(\<And>a. a \<in> set (flat x) \<Longrightarrow> h' a = h a) \<Longrightarrow> node h' x = node h x"
proof (induction h p xs and h x rule: chain_node.induct)
  case (2 h p x xs)
  have "h' (src_addr x) = h (src_addr x)" using "2.prems" by (cases x) auto
  with 2 show ?case by (auto split: option.splits)
qed (auto split: option.splits)

text \<open>
  How an item of the fixed list relates to the declared one: the data is the same, an import and
  a skip-marked test are hidden, and only an item that is not hidden has got a new id.
\<close>

definition core :: "pcut_item \<Rightarrow> pcut_item" where
  "core it = it\<lparr>previous := None, nxt := None, ident := 0, kind := PCUT_KIND_SKIP\<rparr>"

definition link_kind :: "pcut_item \<Rightarrow> kind" where
  "link_kind it = (if kind it = PCUT_KIND_NESTED then PCUT_KIND_SKIP else kind it)"

definition final_kind :: "pcut_item \<Rightarrow> kind" where
  "final_kind it =
     (if kind it = PCUT_KIND_NESTED \<or> kind it = PCUT_KIND_TEST \<and> skip_marked it
      then PCUT_KIND_SKIP else kind it)"

definition relinked :: "pcut_item \<Rightarrow> pcut_item \<Rightarrow> bool" where
  "relinked it it' \<longleftrightarrow> core it' = core it \<and> kind it' = kind it \<and> ident it' = ident it"

definition linked :: "pcut_item \<Rightarrow> pcut_item \<Rightarrow> bool" where
  "linked it it' \<longleftrightarrow> core it' = core it \<and> (kind it' = link_kind it \<or> kind it' = final_kind it) \<and>
     (final_kind it = PCUT_KIND_SKIP \<longrightarrow> ident it' = ident it)"

definition fixed :: "pcut_item \<Rightarrow> pcut_item \<Rightarrow> bool" where
  "fixed it it' \<longleftrightarrow> core it' = core it \<and> kind it' = final_kind it \<and>
     (final_kind it = PCUT_KIND_SKIP \<longrightarrow> ident it' = ident it)"

lemmas rel_defs = relinked_def linked_def fixed_def

lemma core_links [simp]:
  "core (it\<lparr>previous := p\<rparr>) = core it" "core (it\<lparr>nxt := p\<rparr>) = core it"
  "core (it\<lparr>ident := i\<rparr>) = core it" "core (it\<lparr>kind := k\<rparr>) = core it"
  by (simp_all add: core_def)

lemma core_extras: "core it' = core it \<Longrightarrow> extras it' = extras it"
  by (cases it, cases it') (simp add: core_def)

lemma relinked_refl [simp]: "relinked it it"
  by (simp add: relinked_def)

lemma relinked_upd [simp]:
  "relinked it (it'\<lparr>previous := p\<rparr>) = relinked it it'" "relinked it (it'\<lparr>nxt := p\<rparr>) = relinked it it'"
  by (simp_all add: relinked_def)

lemma linked_relinked: "linked it it' \<Longrightarrow> relinked it' it'' \<Longrightarrow> linked it it''"
  by (auto simp: rel_defs)

lemma relinked_trans: "relinked it it' \<Longrightarrow> relinked it' it'' \<Longrightarrow> relinked it it''"
  by (auto simp: rel_defs)

lemma relinked_linked: "relinked it it' \<Longrightarrow> linked it' it'' \<Longrightarrow> linked it it''"
  using core_extras [of it' it]
  by (auto simp: rel_defs link_kind_def final_kind_def skip_marked_def)

lemma fixed_linked: "fixed it it' \<Longrightarrow> linked it it'"
  by (auto simp: rel_defs)

text \<open>Two heaps related item by item on a set of addresses, and equal elsewhere.\<close>

definition hrel :: "(addr \<Rightarrow> pcut_item \<Rightarrow> pcut_item \<Rightarrow> bool) \<Rightarrow> heap \<Rightarrow> heap \<Rightarrow> bool" where
  "hrel R h h' \<longleftrightarrow> (\<forall>a. rel_option (R a) (h a) (h' a))"

lemma hrelI:
  assumes "\<And>a. h a = None \<Longrightarrow> h' a = None"
    and "\<And>a it. h a = Some it \<Longrightarrow> \<exists>it'. h' a = Some it' \<and> R a it it'"
  shows "hrel R h h'"
  unfolding hrel_def
proof
  fix a
  show "rel_option (R a) (h a) (h' a)"
    using assms(1) [of a] assms(2) [of a] by (cases "h a") (auto simp: rel_option_iff)
qed

lemma hrelD: "hrel R h h' \<Longrightarrow> h a = Some it \<Longrightarrow> \<exists>it'. h' a = Some it' \<and> R a it it'"
  unfolding hrel_def by (drule spec [where x = a]) (auto simp: rel_option_iff split: option.splits)

lemma hrel_None: "hrel R h h' \<Longrightarrow> h a = None \<Longrightarrow> h' a = None"
  unfolding hrel_def by (drule spec [where x = a]) (auto simp: rel_option_iff split: option.splits)

lemma hrel_trans:
  assumes "hrel R h h1" and "hrel S h1 h2"
    and "\<And>a x y z. R a x y \<Longrightarrow> S a y z \<Longrightarrow> T a x z"
  shows "hrel T h h2"
  using assms by (intro hrelI) (auto dest: hrel_None, blast dest: hrelD)

text \<open>Linking a segment: \<open>as\<close> is newly linked, \<open>bs\<close> had been and only gets new links.\<close>

definition link_rel :: "addr list \<Rightarrow> addr list \<Rightarrow> addr \<Rightarrow> pcut_item \<Rightarrow> pcut_item \<Rightarrow> bool" where
  "link_rel as bs a it it' \<longleftrightarrow>
     (if a \<in> set as then linked it it' else if a \<in> set bs then relinked it it' else it' = it)"

definition fix_rel :: "addr list \<Rightarrow> addr \<Rightarrow> pcut_item \<Rightarrow> pcut_item \<Rightarrow> bool" where
  "fix_rel as a it it' \<longleftrightarrow> (if a \<in> set as then fixed it it' else it' = it)"

lemma dll_set_first:
  "dll h p (f # as) e \<Longrightarrow> f \<notin> set as \<Longrightarrow> dll (adj f (previous_update (\<lambda>_. q)) h) q (f # as) e"
  by (auto simp: adj_def dll_upd_other split: option.splits)

lemma dll_set_last:
  "dll h p (as @ [l]) e \<Longrightarrow> l \<notin> set as \<Longrightarrow> dll (adj l (nxt_update (\<lambda>_. e')) h) p (as @ [l]) e'"
  by (auto simp: adj_def dll_append dll_upd_other split: option.splits)

text \<open>Splicing one item: \<open>x\<close> is linked before the segment \<open>ns\<close>.\<close>

definition inline_ok :: "heap \<Rightarrow> addr list \<Rightarrow> src \<Rightarrow> ptr \<Rightarrow> heap \<Rightarrow> bool" where
  "inline_ok h ns x p h' \<longleftrightarrow>
     dll h' p (flat x @ ns) None \<and> hrel (link_rel (flat x) ns) h h'"

lemma inline_leaf:
  assumes "node h (Leaf a)" and "dll h p (a # ns) None" and "a \<notin> set ns"
  shows "\<exists>h'. inline_nested_lists F h a = Some h' \<and> inline_ok h ns (Leaf a) p h'"
proof -
  from assms(1) obtain it where it: "h a = Some it" "kind it = PCUT_KIND_NESTED \<longrightarrow> nested it = None"
    by (auto split: option.splits)
  show ?thesis
  proof (cases "kind it = PCUT_KIND_NESTED")
    case True
    let ?h = "adj a (kind_update (\<lambda>_. PCUT_KIND_SKIP)) h"
    have "dll ?h p (a # ns) None" using assms(2) by (rule dll_adj_links) simp
    moreover have "hrel (link_rel [a] ns) h ?h"
      using it True
      by (intro hrelI) (auto simp: adj_apply link_rel_def linked_def link_kind_def final_kind_def)
    ultimately show ?thesis
      using it True by (auto simp: inline_nested_lists_def upd_adj inline_ok_def)
  next
    case False
    with it assms(2) show ?thesis
      by (auto simp: inline_nested_lists_def inline_ok_def link_rel_def linked_def link_kind_def
          intro!: hrelI)
  qed
qed

lemma hrel_adj:
  assumes "hrel R h h1" and "\<And>it it'. h a = Some it \<Longrightarrow> R a it it' \<Longrightarrow> S a it (f it')"
    and "\<And>b it it'. b \<noteq> a \<Longrightarrow> R b it it' \<Longrightarrow> S b it it'"
  shows "hrel S h (adj a f h1)"
proof (rule hrelI)
  fix b assume "h b = None"
  with assms(1) have "h1 b = None" by (rule hrel_None)
  then show "adj a f h1 b = None" by (auto simp: adj_apply)
next
  fix b it assume hb: "h b = Some it"
  with assms(1) obtain it' where "h1 b = Some it'" "R b it it'" by (blast dest: hrelD)
  with assms(2) [of it it'] assms(3) [of b it it'] hb show "\<exists>it'. adj a f h1 b = Some it' \<and> S b it it'"
    by (cases "b = a") (simp_all add: adj_apply)
qed

text \<open>A change of the links of an item that is already linked keeps the relation.\<close>

lemma link_rel_links:
  assumes "hrel (link_rel as bs) h h1" and "a \<in> set as \<union> set bs"
    and "\<And>it. relinked it (f it)"
  shows "hrel (link_rel as bs) h (adj a f h1)"
  using assms(1)
proof (rule hrel_adj)
  fix it it' assume "link_rel as bs a it it'"
  moreover have "relinked it' (f it')" by (rule assms(3))
  ultimately show "link_rel as bs a it (f it')"
    using assms(2) by (auto simp: link_rel_def intro: linked_relinked relinked_trans split: if_splits)
qed

text \<open>The five assignments of \<open>inline_nested_lists\<close> after the nested list has been fixed.\<close>

definition splice :: "addr \<Rightarrow> addr \<Rightarrow> addr \<Rightarrow> ptr \<Rightarrow> heap \<Rightarrow> heap" where
  "splice a l f nx h =
     adj a (kind_update (\<lambda>_. PCUT_KIND_SKIP))
       (adj f (previous_update (\<lambda>_. Some a))
         (adj a (nxt_update (\<lambda>_. Some f))
           ((case nx of None \<Rightarrow> id | Some n \<Rightarrow> adj n (previous_update (\<lambda>_. Some l)))
             (adj l (nxt_update (\<lambda>_. nx)) h))))"

lemma inline_splice:
  assumes "h a = Some it" "kind it = PCUT_KIND_NESTED" "nested it = Some l"
    and "F h l = Some (h1, f)" and "h1 a = Some it1" "nested it1 = Some l" "nxt it1 = nx"
    and "a \<noteq> l" "a \<noteq> f" "nx \<noteq> Some a" "h1 l \<noteq> None" "h1 f \<noteq> None"
    and "\<And>n. nx = Some n \<Longrightarrow> h1 n \<noteq> None"
  shows "inline_nested_lists F h a = Some (splice a l f nx h1)"
  using assms
  by (cases nx) (auto simp: inline_nested_lists_def splice_def upd_def adj_def)

lemma splice_dll_prefix:
  assumes dll: "dll h None (as @ [l]) None" "dll h (Some a) ns None"
    and dist: "distinct (a # as @ [l] @ ns)"
    and h2: "h2 = (case hd_ptr ns None of None \<Rightarrow> id | Some n \<Rightarrow> adj n (previous_update (\<lambda>_. Some l)))
             (adj l (nxt_update (\<lambda>_. hd_ptr ns None)) h)"
  shows "dll h2 None (as @ [l]) (hd_ptr ns None) \<and> dll h2 (Some l) ns None \<and> h2 a = h a"
proof -
  let ?h = "adj l (nxt_update (\<lambda>_. hd_ptr ns None)) h"
  have 1: "dll ?h None (as @ [l]) (hd_ptr ns None)"
    using dll(1) dist by (intro dll_set_last) auto
  have 2: "dll ?h (Some a) ns None" using dll(2) dist by (simp add: dll_adj_other)
  show ?thesis
  proof (cases ns)
    case Nil
    with 1 dist h2 show ?thesis by (simp add: adj_apply)
  next
    case (Cons n ms)
    have "dll h2 None (as @ [l]) (hd_ptr ns None)"
      using 1 dist Cons h2 by (simp add: dll_adj_other del: dll.simps)
    moreover have "dll h2 (Some l) (n # ms) None"
      using 2 dist Cons h2 by (simp add: dll_set_first del: dll.simps)
    ultimately show ?thesis using dist Cons h2 by (simp add: adj_apply)
  qed
qed

lemma splice_dll:
  assumes "h a = Some it" "previous it = p"
    and "dll h None (as @ [l]) None" "dll h (Some a) ns None"
    and dist: "distinct (a # as @ [l] @ ns)" and f: "f = hd (as @ [l])"
  shows "dll (splice a l f (hd_ptr ns None) h) p (a # (as @ [l]) @ ns) None"
proof -
  define h2 where "h2 = (case hd_ptr ns None of None \<Rightarrow> id | Some n \<Rightarrow> adj n (previous_update (\<lambda>_. Some l)))
             (adj l (nxt_update (\<lambda>_. hd_ptr ns None)) h)"
  from splice_dll_prefix [OF assms(3,4) dist h2_def] assms(1)
  have 2: "dll h2 None (as @ [l]) (hd_ptr ns None)" "dll h2 (Some l) ns None" "h2 a = Some it"
    by simp_all
  define h3 where "h3 = adj a (nxt_update (\<lambda>_. Some f)) h2"
  have 3: "dll h3 None (as @ [l]) (hd_ptr ns None)" "dll h3 (Some l) ns None"
    using 2 dist by (simp_all add: h3_def dll_adj_other)
  obtain fs where fs: "as @ [l] = f # fs" using f by (cases "as @ [l]") auto
  have dist': "distinct (a # (f # fs) @ ns)" using dist by (simp flip: fs)
  define h4 where "h4 = adj f (previous_update (\<lambda>_. Some a)) h3"
  have "dll h4 (Some a) (as @ [l]) (hd_ptr ns None)"
    using 3(1) dist' unfolding h4_def fs by (intro dll_set_first) auto
  moreover have "dll h4 (Some l) ns None" using 3(2) dist' by (simp add: h4_def dll_adj_other)
  ultimately have "dll h4 (Some a) ((as @ [l]) @ ns) None" by (subst dll_append) simp
  moreover have "h4 a = Some (it\<lparr>nxt := Some f\<rparr>)"
    using 2(3) dist' by (auto simp: h4_def h3_def adj_apply)
  moreover have "hd_ptr ((as @ [l]) @ ns) None = Some f" by (simp only: fs append_Cons hd_ptr_simps)
  ultimately have "dll h4 p (a # (as @ [l]) @ ns) None" using assms(2) by simp
  then show ?thesis
    unfolding splice_def h4_def h3_def h2_def by (rule dll_adj_links) simp
qed

lemma splice_rel:
  assumes "hrel (link_rel as (a # ns)) h h1" "h a = Some it" "kind it = PCUT_KIND_NESTED"
    and "a \<notin> set as" "l \<in> set as" "f \<in> set as"
  shows "hrel (link_rel (a # as) ns) h (splice a l f (hd_ptr ns None) h1)"
proof -
  have "hrel (link_rel as (a # ns)) h (adj l (nxt_update (\<lambda>_. hd_ptr ns None)) h1)" (is "hrel _ h ?h1")
    using assms(1) by (rule link_rel_links) (simp_all add: assms(5))
  then have "hrel (link_rel as (a # ns)) h
      ((case hd_ptr ns None of None \<Rightarrow> id | Some n \<Rightarrow> adj n (previous_update (\<lambda>_. Some l))) ?h1)"
    (is "hrel _ h ?h2") by (cases ns) (auto intro: link_rel_links)
  then have "hrel (link_rel as (a # ns)) h (adj a (nxt_update (\<lambda>_. Some f)) ?h2)" (is "hrel _ h ?h3")
    by (rule link_rel_links) simp_all
  then have "hrel (link_rel as (a # ns)) h (adj f (previous_update (\<lambda>_. Some a)) ?h3)"
    by (rule link_rel_links) (simp_all add: assms(6))
  then show ?thesis
    unfolding splice_def
    by (rule hrel_adj)
      (use assms(2-4) in \<open>auto simp: link_rel_def rel_defs link_kind_def final_kind_def\<close>)
qed

lemma inline_import:
  assumes node: "node h (Import a ys)" and dll: "dll h p (a # ns) None"
    and dist: "distinct (a # order ys @ ns)"
    and fixl: "\<And>l. chain h (Some l) ys \<Longrightarrow>
      \<exists>h1. F h l = Some (h1, hd (order ys)) \<and> dll h1 None (order ys) None \<and> hrel (fix_rel (order ys)) h h1"
  shows "\<exists>h'. inline_nested_lists F h a = Some h' \<and> inline_ok h ns (Import a ys) p h'"
proof -
  from node obtain it l zs where it: "h a = Some it" "kind it = PCUT_KIND_NESTED" "nested it = Some l"
    and ys: "ys = Leaf l # zs" and "chain h (Some l) ys"
    by (auto split: option.splits list.splits src.splits)
  with fixl obtain h1 where F: "F h l = Some (h1, hd (order ys))"
    and dll1: "dll h1 None (order ys) None" and rel1: "hrel (fix_rel (order ys)) h h1" by blast
  have ord: "order ys = order zs @ [l]" using ys by simp
  have f: "hd (order ys) \<in> set (order ys)" by (rule hd_in_set) (simp add: ord)
  have l: "l \<in> set (order ys)" using ord by simp
  have keep: "h1 b = h b" if "b \<notin> set (order ys)" for b
    using rel1 that by (cases "h b") (auto simp: fix_rel_def dest: hrel_None hrelD)
  have a1: "h1 a = Some it" using keep dist it by simp
  have nx: "nxt it = hd_ptr ns None" "previous it = p" and "dll h (Some a) ns None"
    using dll it by auto
  moreover have "h1 b = h b" if "b \<in> set ns" for b using keep that dist by auto
  ultimately have dns: "dll h1 (Some a) ns None" by (auto elim: dll_cong)
  have "dll (splice a l (hd (order ys)) (nxt it) h1) p (a # order ys @ ns) None"
    using splice_dll [of h1 a it p "order zs" l ns] a1 nx dll1 dns dist by (simp add: ord)
  moreover have "hrel (link_rel (order ys) (a # ns)) h h1"
    using rel1 by (rule hrel_trans [where S = "\<lambda>_. (=)"])
      (auto simp: fix_rel_def link_rel_def fixed_linked intro: hrelI)
  then have "hrel (link_rel (a # order ys) ns) h (splice a l (hd (order ys)) (nxt it) h1)"
    using splice_rel [of "order ys" a ns h h1 it l "hd (order ys)"] it l f nx dist by simp
  moreover have n: "nxt it \<noteq> Some a" "\<And>n. nxt it = Some n \<Longrightarrow> h1 n \<noteq> None"
    using nx dist dns by (cases ns; auto split: option.splits)+
  moreover have "h1 l \<noteq> None" "h1 (hd (order ys)) \<noteq> None" "a \<noteq> l" "a \<noteq> hd (order ys)"
    using dll_alloc [OF dll1 l] dll_alloc [OF dll1 f] dist l f by auto
  ultimately show ?thesis
    using inline_splice [of h a it l F h1 "hd (order ys)" it "nxt it"] it F a1
    by (auto simp: inline_ok_def)
qed

section \<open>Correctness of the fixing\<close>

text \<open>The premise on declared lists, and the result of fixing one.\<close>

definition decls_ok :: "heap \<Rightarrow> addr \<Rightarrow> src list \<Rightarrow> bool" where
  "decls_ok h l xs \<longleftrightarrow> chain h (Some l) xs \<and> distinct (order xs) \<and>
     (\<forall>a \<in> set (order xs). case h a of None \<Rightarrow> False | Some it \<Rightarrow> extras_ok it)"

definition fix_ok :: "heap \<Rightarrow> addr \<Rightarrow> src list \<Rightarrow> (heap \<times> addr) option \<Rightarrow> bool" where
  "fix_ok h l xs r \<longleftrightarrow>
     (\<exists>h'. r = Some (h', hd (order xs)) \<and> dll h' None (order xs) None \<and>
        hrel (fix_rel (order xs)) h h' \<and>
        (\<forall>k < length (reals h' (order xs)).
           map_option ident (h' (reals h' (order xs) ! k)) = Some (1 + int k)))"

lemma order_not_Nil: "xs \<noteq> [] \<Longrightarrow> order xs \<noteq> []"
  by (cases xs; cases "hd xs") auto

lemma chain_alloc:
  "chain h p xs \<Longrightarrow> a \<in> set (order xs) \<Longrightarrow> h a \<noteq> None"
  "node h x \<Longrightarrow> a \<in> set (flat x) \<Longrightarrow> h a \<noteq> None"
  by (induction h p xs and h x rule: chain_node.induct) (auto split: option.splits)

text \<open>One step of the loop, given that nested lists are fixed correctly.\<close>

lemma inline_correct:
  assumes "node h x" "dll h p (src_addr x # ns) None" "distinct (flat x @ ns)"
    and "\<And>a. a \<in> set (flat x) \<Longrightarrow> case h a of None \<Rightarrow> False | Some it \<Rightarrow> extras_ok it"
    and IH: "\<And>ys h l. length (order ys) < length (flat x) \<Longrightarrow> decls_ok h l ys \<Longrightarrow> fix_ok h l ys (F h l)"
  shows "\<exists>h'. inline_nested_lists F h (src_addr x) = Some h' \<and> inline_ok h ns x p h'"
proof (cases x)
  case (Leaf a)
  with assms(1-3) inline_leaf [of h a p ns F] show ?thesis by simp
next
  case (Import a ys)
  have "\<exists>h1. F h l = Some (h1, hd (order ys)) \<and> dll h1 None (order ys) None \<and> hrel (fix_rel (order ys)) h h1"
    if "chain h (Some l) ys" for l
  proof -
    have "decls_ok h l ys" using that assms(3,4) Import by (auto simp: decls_ok_def)
    with IH [of ys h l] Import show ?thesis by (auto simp: fix_ok_def)
  qed
  with inline_import [of h a ys p ns F] assms(1-3) Import show ?thesis by simp
qed

definition loop_ok :: "heap \<Rightarrow> addr list \<Rightarrow> addr list \<Rightarrow> (heap \<times> addr) option \<Rightarrow> bool" where
  "loop_ok h as ns r \<longleftrightarrow> (\<exists>h'. r = Some (h', hd (as @ ns)) \<and> dll h' None (as @ ns) None \<and>
     hrel (link_rel as ns) h h')"

lemma link_rel_trans:
  assumes "hrel (link_rel as bs) h h1" and "hrel (link_rel cs (as @ bs)) h1 h2"
    and "set as \<inter> set bs = {}" "set cs \<inter> set (as @ bs) = {}"
  shows "hrel (link_rel (cs @ as) bs) h h2"
  using assms(1,2)
proof (rule hrel_trans)
  fix a x y z assume "link_rel as bs a x y" "link_rel cs (as @ bs) a y z"
  with assms(3,4) show "link_rel (cs @ as) bs a x z"
    by (auto simp: link_rel_def intro: linked_relinked relinked_trans split: if_splits)
qed

text \<open>Linking one item and splicing it, as the loop and the head of the function do.\<close>

definition step_ok :: "heap \<Rightarrow> addr \<Rightarrow> src \<Rightarrow> src list \<Rightarrow> addr list \<Rightarrow> heap \<Rightarrow> bool" where
  "step_ok h a x xs ns h2 \<longleftrightarrow>
     (case h2 a of None \<Rightarrow> False | Some it2 \<Rightarrow> chain h2 (previous it2) xs \<and>
        dll h2 (previous it2) (a # tl (flat x) @ ns) None) \<and>
     hrel (link_rel (flat x) ns) h h2 \<and> (\<forall>b \<in> set (order xs). h2 b = h b)"

lemma node_adj_nxt:
  assumes "node h x" and "distinct (flat x)"
  shows "node (adj (src_addr x) (nxt_update (\<lambda>_. n)) h) x"
proof (cases x)
  case (Import b ys)
  then have "chain (adj b (nxt_update (\<lambda>_. n)) h) p ys = chain h p ys" for p
    using assms(2) by (intro chain_node_cong) (auto simp: adj_apply)
  with assms(1) Import show ?thesis by (auto simp: adj_apply split: option.splits)
qed (use assms in \<open>auto simp: adj_apply split: option.splits\<close>)

lemma step_ok_inline:
  assumes chain: "chain h (Some a) (x # xs)" and it: "h a = Some it"
    and dist: "distinct (order (x # xs) @ ns)"
    and inl: "inline_ok (adj a (nxt_update (\<lambda>_. n)) h) ns x (previous it) h2"
  shows "step_ok h a x xs ns h2"
proof -
  have a: "a = src_addr x" and ch: "chain h (previous it) xs"
    using chain it by (auto split: option.splits)
  have a_in: "a \<in> set (flat x)" by (subst flat_Cons) (simp add: a)
  have dll2: "dll h2 (previous it) (flat x @ ns) None"
    and rel12: "hrel (link_rel (flat x) ns) (adj a (nxt_update (\<lambda>_. n)) h) h2"
    using inl by (auto simp: inline_ok_def)
  have "hrel (\<lambda>b it it'. if b = a then relinked it it' else it' = it) h (adj a (nxt_update (\<lambda>_. n)) h)"
    by (rule hrelI) (auto simp: adj_apply)
  then have rel2: "hrel (link_rel (flat x) ns) h h2"
    using rel12 by (rule hrel_trans)
      (use a_in in \<open>auto simp: link_rel_def intro: relinked_linked split: if_splits\<close>)
  have same: "h2 b = h b" if "b \<in> set (order xs)" for b
  proof -
    have "b \<notin> set (flat x)" "b \<notin> set ns" using that dist by auto
    then show ?thesis
      using hrelD [OF rel2, of b] hrel_None [OF rel2, of b] by (cases "h b") (auto simp: link_rel_def)
  qed
  have "a # tl (flat x) @ ns = flat x @ ns"
    using flat_Cons [of x] by (metis a append_Cons)
  with dll2 have dll: "dll h2 (previous it) (a # tl (flat x) @ ns) None" by (simp only:)
  then obtain it2 where "h2 a = Some it2" "previous it2 = previous it"
    by (auto split: option.splits)
  moreover have "chain h2 (previous it) xs"
    using chain_node_cong(1) [of xs h2 h "previous it"] same ch by blast
  ultimately show ?thesis using dll rel2 same by (simp add: step_ok_def)
qed

lemma link_step:
  assumes chain: "chain h (Some a) (x # xs)" and dll: "dll h (Some a) ns None"
    and dist: "distinct (order (x # xs) @ ns)"
    and ok: "\<forall>b \<in> set (order (x # xs)). case h b of None \<Rightarrow> False | Some it \<Rightarrow> extras_ok it"
    and IH: "\<And>ys h l. length (order ys) < length (order (x # xs)) \<Longrightarrow> decls_ok h l ys \<Longrightarrow> fix_ok h l ys (F h l)"
  obtains h2 where
    "do { h \<leftarrow> upd a (nxt_update (\<lambda>_. hd_ptr ns None)) h; inline_nested_lists F h a } = Some h2"
    "step_ok h a x xs ns h2"
proof -
  define h1 where "h1 = adj a (nxt_update (\<lambda>_. hd_ptr ns None)) h"
  from chain obtain it where a: "a = src_addr x" and node: "node h x" and it: "h a = Some it"
    by (auto split: option.splits)
  have "a \<in> set (flat x)" by (subst flat_Cons) (simp add: a)
  then have "a \<notin> set ns" using dist by auto
  with dll it have dll1: "dll h1 (previous it) (a # ns) None"
    by (simp add: h1_def adj_apply dll_adj_other)
  have ok1: "case h1 b of None \<Rightarrow> False | Some it \<Rightarrow> extras_ok it" if "b \<in> set (flat x)" for b
  proof -
    have "case h b of None \<Rightarrow> False | Some it \<Rightarrow> extras_ok it" using ok that by simp
    then show ?thesis by (cases "b = a") (auto simp: h1_def adj_apply split: option.splits)
  qed
  have "\<exists>h2. inline_nested_lists F h1 a = Some h2 \<and> inline_ok h1 ns x (previous it) h2"
    unfolding a
  proof (rule inline_correct)
    show "node h1 x" unfolding h1_def a by (rule node_adj_nxt [OF node]) (use dist in simp)
    show "dll h1 (previous it) (src_addr x # ns) None" using dll1 by (simp only: a)
    show "distinct (flat x @ ns)" using dist by simp
  qed (use ok1 IH in auto)
  then obtain h2 where "inline_nested_lists F h1 a = Some h2" "inline_ok h1 ns x (previous it) h2"
    by blast
  with step_ok_inline [OF chain it dist] it show ?thesis
    by (intro that [of h2]) (auto simp: h1_def upd_adj)
qed

lemma fix_loop_correct:
  "chain h p xs \<Longrightarrow> dll h p (n # ns) None \<Longrightarrow> distinct (order xs @ n # ns) \<Longrightarrow>
   (\<forall>a \<in> set (order xs). case h a of None \<Rightarrow> False | Some it \<Rightarrow> extras_ok it) \<Longrightarrow>
   (\<And>ys h l. length (order ys) < length (order xs) \<Longrightarrow> decls_ok h l ys \<Longrightarrow> fix_ok h l ys (F h l)) \<Longrightarrow>
   loop_ok h (order xs) (n # ns) (fix_loop h n p F)"
proof (induction xs arbitrary: h p n ns)
  case Nil
  then show ?case
    by (subst fix_loop.simps) (auto simp: loop_ok_def link_rel_def intro!: hrelI)
next
  case (Cons x xs)
  from Cons.prems(1) obtain a where p: "p = Some a" by auto
  obtain h2 where inl: "do { h \<leftarrow> upd a (nxt_update (\<lambda>_. hd_ptr (n # ns) None)) h;
      inline_nested_lists F h a } = Some h2" and step: "step_ok h a x xs (n # ns) h2"
    by (rule link_step [of h a x xs "n # ns" F]) (use Cons.prems p in auto)
  then obtain it2 where it2: "h2 a = Some it2" "chain h2 (previous it2) xs"
    "dll h2 (previous it2) (a # tl (flat x) @ n # ns) None"
    and rel: "hrel (link_rel (flat x) (n # ns)) h h2" "\<forall>b \<in> set (order xs). h2 b = h b"
    by (auto simp: step_ok_def split: option.splits)
  have flat: "a # tl (flat x) @ n # ns = flat x @ n # ns"
    using flat_Cons [of x] Cons.prems(1) p by (metis append_Cons chain.simps(2) option.inject)
  have "loop_ok h2 (order xs) (a # tl (flat x) @ n # ns) (fix_loop h2 a (previous it2) F)"
  proof (rule Cons.IH [OF it2(2,3)])
    show "distinct (order xs @ a # tl (flat x) @ n # ns)" using Cons.prems(3) by (simp only: flat) simp
    show "\<forall>b\<in>set (order xs). case h2 b of None \<Rightarrow> False | Some it \<Rightarrow> extras_ok it"
      using rel(2) Cons.prems(4) by simp
  qed (use Cons.prems(5) in auto)
  then obtain h' where h': "fix_loop h2 a (previous it2) F = Some (h', hd (order xs @ flat x @ n # ns))"
    "dll h' None (order xs @ flat x @ n # ns) None" "hrel (link_rel (order xs) (flat x @ n # ns)) h2 h'"
    unfolding loop_ok_def by (auto simp only: flat)
  have "hrel (link_rel (order xs @ flat x) (n # ns)) h h'"
    by (rule link_rel_trans [OF rel(1) h'(3)]) (use Cons.prems(3) in auto)
  with h' p it2 inl show ?case
    by (subst fix_loop.simps) (auto simp: loop_ok_def bind_Some_conv)
qed

lemma linked_extras_ok: "linked it it' \<Longrightarrow> extras_ok it \<Longrightarrow> extras_ok it'"
  using core_extras [of it' it]
  by (auto simp: linked_def link_kind_def final_kind_def extras_ok_def split: if_splits option.splits)

lemma linked_hide: "linked it it' \<Longrightarrow> fixed it (hide it')"
  using core_extras [of it' it]
  by (auto simp: rel_defs link_kind_def final_kind_def hide_def skip_marked_def split: if_splits)

lemma fixed_number:
  "fixed it it' \<Longrightarrow> kind it' \<noteq> PCUT_KIND_SKIP \<Longrightarrow> fixed it (it'\<lparr>ident := i\<rparr>)"
  by (simp add: fixed_def)

lemma hide_all_rel:
  assumes "hrel (link_rel as []) h h3"
  shows "hrel (fix_rel as) h (hide_all h3 as)"
  using assms
  by (auto simp: hide_all_def fix_rel_def link_rel_def linked_hide
      intro!: hrelI dest: hrel_None hrelD)

lemma kind_at_number [heap_simps]: "kind_at (number h i as) a = kind_at h a"
  by (induction as arbitrary: h i) (simp_all add: kind_at_adj_same)

lemma number_rel:
  assumes rel: "hrel (fix_rel as) h h4" and dist: "distinct as"
  shows "hrel (fix_rel as) h (number h4 i (reals h4 as))"
proof (rule hrelI)
  fix a assume "h a = None"
  with rel have "h4 a = None" by (rule hrel_None)
  then have "a \<notin> set (reals h4 as)" by (auto simp: set_reals kind_at_def)
  with \<open>h4 a = None\<close> show "number h4 i (reals h4 as) a = None" by (simp add: number_other)
next
  fix a it assume "h a = Some it"
  with rel obtain it' where it': "h4 a = Some it'" "fix_rel as a it it'" by (blast dest: hrelD)
  show "\<exists>it'. number h4 i (reals h4 as) a = Some it' \<and> fix_rel as a it it'"
  proof (cases "a \<in> set (reals h4 as)")
    case True
    then obtain k where k: "k < length (reals h4 as)" "reals h4 as ! k = a"
      by (auto simp: in_set_conv_nth)
    from True it' have "a \<in> set as" "kind it' \<noteq> PCUT_KIND_SKIP"
      by (auto simp: set_reals kind_at_Some)
    moreover have "distinct (reals h4 as)" using dist by (simp add: reals_def)
    then have "number h4 i (reals h4 as) a = Some (it'\<lparr>ident := i + int k\<rparr>)"
      using number_nth [of "reals h4 as" k h4 i] k it' by simp
    ultimately show ?thesis using it'(2) by (simp add: fix_rel_def fixed_number)
  qed (use it' in \<open>simp add: number_other\<close>)
qed

text \<open>The end of the function, on a list that is linked.\<close>

lemma hide_and_number:
  assumes dll: "dll h3 None as None" and rel: "hrel (link_rel as []) h h3" and dist: "distinct as"
    and "as \<noteq> []" and ok: "\<forall>a \<in> set as. case h a of None \<Rightarrow> False | Some it \<Rightarrow> extras_ok it"
  shows "\<exists>h'. do { h4 \<leftarrow> detect_skipped_tests h3 (Some (hd as)); set_ids h4 (Some (hd as)) } = Some h' \<and>
    dll h' None as None \<and> hrel (fix_rel as) h h' \<and>
    (\<forall>k < length (reals h' as). map_option ident (h' (reals h' as ! k)) = Some (1 + int k))"
proof -
  define h4 where "h4 = hide_all h3 as"
  define h' where "h' = number h4 1 (reals h4 as)"
  from \<open>as \<noteq> []\<close> have as: "as = hd as # tl as" by simp
  have ok3: "extras_ok it" if "b \<in> set as" "h3 b = Some it" for b it
  proof -
    have "case h b of None \<Rightarrow> False | Some it \<Rightarrow> extras_ok it" using ok that by blast
    with hrelD [OF rel, of b] that show ?thesis
      by (auto simp: link_rel_def intro: linked_extras_ok split: option.splits)
  qed
  have d4: "detect_skipped_tests h3 (Some (hd as)) = Some h4"
    using detect_skipped_dll [of h3 None "hd as" "tl as"] dll dist ok3
    by (simp only: as [symmetric] h4_def)
  have dll4: "dll h4 None as None" using dll by (simp add: h4_def dll_hide_all)
  have "set_ids h4 (Some (hd as)) = Some h'"
    using set_ids_dll [of h4 None "hd as" "tl as"] dll4 by (simp only: as [symmetric] h'_def)
  moreover have "dll h' None as None" using dll4 by (simp add: h'_def dll_number)
  moreover have "hrel (fix_rel as) h h4" using rel by (simp add: h4_def hide_all_rel)
  then have "hrel (fix_rel as) h h'" unfolding h'_def by (rule number_rel [OF _ dist])
  moreover have r: "reals h' as = reals h4 as" by (simp add: h'_def reals_def kind_at_number)
  have "map_option ident (h' (reals h' as ! k)) = Some (1 + int k)" if "k < length (reals h' as)" for k
  proof -
    have "reals h4 as ! k \<in> set (reals h4 as)" using that r by simp
    then obtain it where "h4 (reals h4 as ! k) = Some it"
      by (auto simp: set_reals dest: dll_alloc [OF dll4])
    moreover have "distinct (reals h4 as)" using dist by (simp add: reals_def)
    ultimately show ?thesis
      using number_nth [of "reals h4 as" k h4 1] that r by (simp add: h'_def)
  qed
  ultimately show ?thesis using d4 by simp
qed

theorem fix_list_correct: "decls_ok h l xs \<Longrightarrow> fix_ok h l xs (pcut_fix_list_get_real_head h l)"
proof (induction "length (order xs)" arbitrary: h l xs rule: less_induct)
  case less
  let ?F = pcut_fix_list_get_real_head
  from less.prems have ch: "chain h (Some l) xs" and dist: "distinct (order xs)"
    and ex: "\<forall>a \<in> set (order xs). case h a of None \<Rightarrow> False | Some it \<Rightarrow> extras_ok it"
    by (auto simp: decls_ok_def)
  from ch obtain x xs' where xs: "xs = x # xs'" and l: "l = src_addr x" by (cases xs) auto
  obtain h2 where inl: "do { h \<leftarrow> upd l (nxt_update (\<lambda>_. hd_ptr [] None)) h; inline_nested_lists ?F h l } = Some h2"
    and step: "step_ok h l x xs' [] h2"
    by (rule link_step [of h l x xs' "[]" ?F]) (use ch dist ex less.hyps xs in auto)
  then obtain it2 where it2: "h2 l = Some it2" "chain h2 (previous it2) xs'"
    "dll h2 (previous it2) (l # tl (flat x)) None"
    and rel: "hrel (link_rel (flat x) []) h h2" "\<forall>b \<in> set (order xs'). h2 b = h b"
    by (auto simp: step_ok_def split: option.splits)
  have flat: "l # tl (flat x) = flat x" using flat_Cons [of x] l by simp
  have "loop_ok h2 (order xs') (l # tl (flat x)) (fix_loop h2 l (previous it2) ?F)"
    by (rule fix_loop_correct [OF it2(2,3)])
      (use dist ex rel(2) less.hyps xs flat in \<open>auto simp del: flat.simps\<close>)
  then obtain h3 where h3: "fix_loop h2 l (previous it2) ?F = Some (h3, hd (order xs))"
    "dll h3 None (order xs) None" "hrel (link_rel (order xs') (flat x)) h2 h3"
    unfolding loop_ok_def xs order.simps flat by auto
  have rel3: "hrel (link_rel (order xs) []) h h3"
    using link_rel_trans [of "flat x" "[]" h h2 "order xs'" h3] rel(1) h3(3) dist xs by simp
  have "order xs \<noteq> []" using xs flat by auto
  from hide_and_number [OF h3(2) rel3 dist this ex] obtain h'
    where h': "do { h4 \<leftarrow> detect_skipped_tests h3 (Some (hd (order xs))); set_ids h4 (Some (hd (order xs))) } = Some h'"
      "dll h' None (order xs) None" "hrel (fix_rel (order xs)) h h'"
      "\<forall>k < length (reals h' (order xs)). map_option ident (h' (reals h' (order xs) ! k)) = Some (1 + int k)"
    by blast
  have "?F h l = Some (h', hd (order xs))"
    using inl it2(1) h3(1) h'(1)
    by (subst pcut_fix_list_get_real_head.simps) (auto simp: bind_Some_conv)
  with h' show ?case by (simp add: fix_ok_def)
qed

end
