(* ===== verification/CString.thy ===== *)
theory CString
  imports Prelude "HOL-Library.Char_ord"
begin

text \<open>
  The string functions of the library: \<^verbatim>\<open>src/os/stdc.c\<close> and \<^verbatim>\<open>src/helper.c\<close>, over the functions of
  the C standard library that they call.  A \<open>char *\<close> is the list of the bytes from the pointer to
  the end of the array it points into; a function that would read past that end has no result.
  A C string is such a list with a terminating zero byte; \<open>cstr s\<close> makes one from a HOL string.
\<close>

abbreviation NUL :: char where "NUL \<equiv> CHR 0x00"
abbreviation NL :: char where "NL \<equiv> CHR 0x0A"

type_synonym bytes = "char list"

definition cstr :: "string \<Rightarrow> bytes" where
  "cstr s = s @ [NUL]"

text \<open>Strings that contain no zero byte: what a C string can hold.\<close>

definition nul_free :: "string \<Rightarrow> bool" where
  "nul_free s \<longleftrightarrow> NUL \<notin> set s"

lemma nul_free_simps [simp]:
  "nul_free []" "nul_free (c # s) \<longleftrightarrow> c \<noteq> NUL \<and> nul_free s"
  "nul_free (s @ t) \<longleftrightarrow> nul_free s \<and> nul_free t"
  by (auto simp: nul_free_def)

lemma nul_free_take [simp]: "nul_free s \<Longrightarrow> nul_free (take n s)"
  by (auto simp: nul_free_def dest: in_set_takeD)

section \<open>The standard library\<close>

fun c_strlen :: "bytes \<Rightarrow> nat option" where
  "c_strlen [] = None"
| "c_strlen (c # cs) = (if c = NUL then Some 0 else map_option Suc (c_strlen cs))"

definition byte :: "char \<Rightarrow> int" where
  "byte c = int (of_char c)"

fun c_strcmp :: "bytes \<Rightarrow> bytes \<Rightarrow> int option" where
  "c_strcmp (x # xs) (y # ys) =
     (if x \<noteq> y then Some (byte x - byte y) else if x = NUL then Some 0 else c_strcmp xs ys)"
| "c_strcmp _ _ = None"

fun c_strncmp :: "bytes \<Rightarrow> bytes \<Rightarrow> nat \<Rightarrow> int option" where
  "c_strncmp xs ys 0 = Some 0"
| "c_strncmp (x # xs) (y # ys) (Suc n) =
     (if x \<noteq> y then Some (byte x - byte y) else if x = NUL then Some 0 else c_strncmp xs ys n)"
| "c_strncmp _ _ (Suc n) = None"

text \<open>\<open>strchr\<close> gives the offset of the first occurrence, if there is one before the end.\<close>

fun c_strchr :: "bytes \<Rightarrow> char \<Rightarrow> nat option option" where
  "c_strchr [] c = None"
| "c_strchr (x # xs) c =
     (if x = c then Some (Some 0) else if x = NUL then Some None
      else map_option (map_option Suc) (c_strchr xs c))"

definition is_space :: "char \<Rightarrow> bool" where
  "is_space c \<longleftrightarrow> c \<in> {CHR '' '', CHR 0x09, CHR 0x0A, CHR 0x0B, CHR 0x0C, CHR 0x0D}"

definition is_digit :: "char \<Rightarrow> bool" where
  "is_digit c \<longleftrightarrow> 48 \<le> byte c \<and> byte c \<le> 57"

definition is_alpha :: "char \<Rightarrow> bool" where
  "is_alpha c \<longleftrightarrow> 65 \<le> byte c \<and> byte c \<le> 90 \<or> 97 \<le> byte c \<and> byte c \<le> 122"

definition digits_val :: "string \<Rightarrow> int" where
  "digits_val ds = foldl (\<lambda>n d. 10 * n + (byte d - 48)) 0 ds"

text \<open>\<open>strtol\<close> in base 10, for a 64-bit \<open>long\<close>: out-of-range values saturate.\<close>

definition clamp_long :: "int \<Rightarrow> int" where
  "clamp_long v = max (- (2 ^ 63)) (min (2 ^ 63 - 1) v)"

definition c_strtol10 :: "bytes \<Rightarrow> int option" where
  "c_strtol10 s =
     (case dropWhile is_space s of
        [] \<Rightarrow> None
      | c # cs \<Rightarrow>
          (let neg = (c = CHR ''-'');
               ds = (if c = CHR ''-'' \<or> c = CHR ''+'' then cs else c # cs);
               v = digits_val (takeWhile is_digit ds)
           in if dropWhile is_digit ds = [] then None
              else Some (clamp_long (if neg then - v else v))))"

text \<open>Conversion to a 32-bit \<open>int\<close>; \<open>atoi\<close> is \<open>(int) strtol(s, NULL, 10)\<close>.\<close>

definition to_int :: "int \<Rightarrow> int" where
  "to_int v = (v + 2 ^ 31) mod 2 ^ 32 - 2 ^ 31"

definition c_atoi :: "bytes \<Rightarrow> int option" where
  "c_atoi s = map_option to_int (c_strtol10 s)"

text \<open>Storing bytes into an array at an offset: no result past the end of the array.\<close>

definition store :: "bytes \<Rightarrow> nat \<Rightarrow> bytes \<Rightarrow> bytes option" where
  "store buf off bs =
     (if off + length bs \<le> length buf
      then Some (take off buf @ bs @ drop (off + length bs) buf) else None)"

text \<open>\<open>vsnprintf\<close> of an already formatted text: at most \<open>sz\<close> bytes, always terminated.\<close>

definition c_snprintf :: "bytes \<Rightarrow> nat \<Rightarrow> nat \<Rightarrow> string \<Rightarrow> bytes option" where
  "c_snprintf buf off sz txt =
     (if sz = 0 then Some buf else store buf off (take (sz - 1) txt @ [NUL]))"

text \<open>\<open>%d\<close>: decimal notation.\<close>

definition digit_char :: "nat \<Rightarrow> char" where
  "digit_char d = char_of (48 + d)"

fun show_nat :: "nat \<Rightarrow> string" where
  "show_nat n = (if n < 10 then [digit_char n] else show_nat (n div 10) @ [digit_char (n mod 10)])"

declare show_nat.simps [simp del]

definition show_int :: "int \<Rightarrow> string" where
  "show_int i = (if i < 0 then CHR ''-'' # show_nat (nat (- i)) else show_nat (nat i))"

text \<open>
  \<open>vsnprintf\<close> formatting of the directives that the assertion macros use.  A pointer and a double
  come with their implementation-defined rendering.  A directive that is malformed, not one of
  these, or has no argument of its type is undefined behaviour; surplus arguments are ignored.
\<close>

datatype farg = FStr string | FInt int | FLongLong int | FPtr string | FDouble string

fun vformat :: "string \<Rightarrow> farg list \<Rightarrow> string option" where
  "vformat [] args = Some []"
| "vformat (c # fs) args =
     (if c \<noteq> CHR ''%'' then map_option ((#) c) (vformat fs args)
      else
        (case fs of
           [] \<Rightarrow> None
         | d # fs1 \<Rightarrow>
             if d = CHR ''%'' then map_option ((#) d) (vformat fs1 args)
             else if d = CHR ''s'' then
               (case args of FStr s # as \<Rightarrow> map_option ((@) s) (vformat fs1 as) | _ \<Rightarrow> None)
             else if d = CHR ''d'' then
               (case args of FInt i # as \<Rightarrow> map_option ((@) (show_int i)) (vformat fs1 as) | _ \<Rightarrow> None)
             else if d = CHR ''p'' then
               (case args of FPtr s # as \<Rightarrow> map_option ((@) s) (vformat fs1 as) | _ \<Rightarrow> None)
             else if d = CHR ''l'' then
               (case fs1 of
                  e # fs2 \<Rightarrow>
                    if e = CHR ''f'' then
                      (case args of FDouble s # as \<Rightarrow> map_option ((@) s) (vformat fs2 as) | _ \<Rightarrow> None)
                    else if e = CHR ''l'' then
                      (case fs2 of
                         g # fs3 \<Rightarrow>
                           if g = CHR ''d'' then
                             (case args of
                                FLongLong i # as \<Rightarrow> map_option ((@) (show_int i)) (vformat fs3 as)
                              | _ \<Rightarrow> None)
                           else None
                       | [] \<Rightarrow> None)
                    else None
                | [] \<Rightarrow> None)
             else None))"

section \<open>Functions of the library\<close>

definition pcut_str_equals :: "bytes \<Rightarrow> bytes \<Rightarrow> bool option" where
  "pcut_str_equals a b = map_option (\<lambda>d. d = 0) (c_strcmp a b)"

definition pcut_str_start_equals :: "bytes \<Rightarrow> bytes \<Rightarrow> nat \<Rightarrow> bool option" where
  "pcut_str_start_equals a b len = map_option (\<lambda>d. d = 0) (c_strncmp a b len)"

definition pcut_str_size :: "bytes \<Rightarrow> nat option" where
  "pcut_str_size s = c_strlen s"

definition pcut_str_to_int :: "bytes \<Rightarrow> int option" where
  "pcut_str_to_int s = c_atoi s"

definition pcut_str_find_char :: "bytes \<Rightarrow> char \<Rightarrow> nat option option" where
  "pcut_str_find_char haystack needle = c_strchr haystack needle"

text \<open>
  \<open>pcut_str_error\<close> stores the description of an error code, which \<open>strerror\<close> gives (or null),
  with \<open>strncpy(buffer, str, size - 1)\<close>, which pads with zero bytes, and a final zero byte.
\<close>

definition pcut_str_error :: "(int \<Rightarrow> string option) \<Rightarrow> int \<Rightarrow> bytes \<Rightarrow> nat \<Rightarrow> bytes option" where
  "pcut_str_error strerror err buffer sz =
     (let str = (case strerror err of None \<Rightarrow> ''(strerror failure)'' | Some s \<Rightarrow> s)
      in if sz = 0 then None
         else do { buffer \<leftarrow> store buffer 0
                     (take (sz - 1) str @ replicate (sz - 1 - length str) NUL);
                   store buffer (sz - 1) [NUL] })"

definition pcut_snprintf :: "bytes \<Rightarrow> nat \<Rightarrow> string \<Rightarrow> bytes option" where
  "pcut_snprintf dest sz txt = c_snprintf dest 0 sz txt"

lemmas pcut_str_defs = pcut_str_equals_def pcut_str_start_equals_def pcut_str_size_def
  pcut_str_to_int_def pcut_str_find_char_def pcut_snprintf_def

section \<open>Facts on C strings\<close>

lemma strlen_app [cstring_simps]: "nul_free s \<Longrightarrow> c_strlen (s @ NUL # r) = Some (length s)"
  by (induction s) auto

lemma strlen_cstr [cstring_simps]: "nul_free s \<Longrightarrow> c_strlen (cstr s) = Some (length s)"
  by (simp add: cstr_def strlen_app)

lemma strlen_None_iff: "c_strlen s = None \<longleftrightarrow> nul_free s"
  by (induction s) auto

lemma strlen_Some_iff:
  "c_strlen s = Some n \<longleftrightarrow> n < length s \<and> s ! n = NUL \<and> nul_free (take n s)"
proof (induction s arbitrary: n)
  case (Cons c s)
  then show ?case by (cases n) auto
qed simp

lemma byte_eq [simp]: "byte x = byte y \<longleftrightarrow> x = y"
  by (simp add: byte_def)

lemma strcmp_cstr [cstring_simps]:
  "nul_free a \<Longrightarrow> nul_free b \<Longrightarrow> \<exists>d. c_strcmp (cstr a) (cstr b) = Some d \<and> (d = 0 \<longleftrightarrow> a = b)"
proof (induction a arbitrary: b)
  case Nil
  then show ?case by (cases b) (auto simp: cstr_def)
next
  case (Cons x a)
  show ?case
  proof (cases b)
    case Nil
    with Cons.prems show ?thesis by (auto simp: cstr_def)
  next
    case (Cons y b')
    with Cons.prems Cons.IH [of b'] show ?thesis
      by (auto simp: cstr_def)
  qed
qed

lemma strncmp_cstr [cstring_simps]:
  "nul_free a \<Longrightarrow> nul_free b \<Longrightarrow>
   \<exists>d. c_strncmp (a @ NUL # r) (b @ NUL # t) (length b) = Some d \<and> (d = 0 \<longleftrightarrow> take (length b) a = b)"
proof (induction b arbitrary: a)
  case (Cons y b)
  show ?case
  proof (cases a)
    case Nil
    with Cons.prems show ?thesis by auto
  next
    case (Cons x a')
    with Cons.prems Cons.IH [of a'] show ?thesis by auto
  qed
qed simp

lemma strchr_app [cstring_simps]:
  "nul_free s \<Longrightarrow> c \<noteq> NUL \<Longrightarrow> c \<notin> set s \<Longrightarrow> c_strchr (s @ NUL # r) c = Some None"
  "nul_free s \<Longrightarrow> c \<notin> set s \<Longrightarrow> c_strchr (s @ c # r) c = Some (Some (length s))"
  by (induction s) auto

lemma store_length: "store buf off bs = Some buf' \<Longrightarrow> length buf' = length buf"
  by (auto simp: store_def split: if_splits)

lemma snprintf_length: "c_snprintf buf off n txt = Some buf' \<Longrightarrow> length buf' = length buf"
  by (auto simp: c_snprintf_def store_length split: if_splits)

subsection \<open>Decimal round trip\<close>

lemma byte_digit: "d < 10 \<Longrightarrow> byte (digit_char d) = 48 + int d"
  by (simp add: byte_def digit_char_def)

lemma is_digit_char: "d < 10 \<Longrightarrow> is_digit (digit_char d)"
  by (simp add: is_digit_def byte_digit)

lemma show_nat_digits: "list_all is_digit (show_nat n)"
proof (induction n rule: show_nat.induct)
  case (1 n)
  then show ?case by (subst show_nat.simps) (simp add: is_digit_char)
qed

lemma digits_val_snoc: "digits_val (ds @ [d]) = 10 * digits_val ds + (byte d - 48)"
  by (simp add: digits_val_def)

lemma digits_val_show_nat: "digits_val (show_nat n) = int n"
proof (induction n rule: show_nat.induct)
  case (1 n)
  show ?case
  proof (cases "n < 10")
    case True
    then show ?thesis by (subst show_nat.simps) (simp add: digits_val_def byte_digit)
  next
    case False
    have "int n = 10 * int (n div 10) + int (n mod 10)"
      by (metis mult_div_mod_eq of_nat_add of_nat_mult of_nat_numeral)
    with 1 False show ?thesis
      by (subst show_nat.simps) (simp add: digits_val_snoc byte_digit)
  qed
qed

lemma show_nat_ne: "show_nat n \<noteq> []"
  by (subst show_nat.simps) simp

lemma digit_not_special: "is_digit c \<Longrightarrow> \<not> is_space c \<and> c \<noteq> CHR ''-'' \<and> c \<noteq> CHR ''+'' \<and> c \<noteq> NUL"
  by (auto simp: is_digit_def is_space_def byte_def)

lemma strtol_show_nat:
  assumes "\<not> is_digit c"
  shows "c_strtol10 (show_nat n @ c # r) = Some (clamp_long (int n))"
proof -
  obtain d ds where ds: "show_nat n = d # ds" using show_nat_ne by (cases "show_nat n") auto
  then have "is_digit d" using show_nat_digits [of n] by simp
  moreover have "takeWhile is_digit (show_nat n @ c # r) = show_nat n"
    "dropWhile is_digit (show_nat n @ c # r) = c # r"
    using show_nat_digits [of n] assms
    by (auto simp: list_all_iff intro: takeWhile_stop dropWhile_stop)
  ultimately show ?thesis
    using digit_not_special [of d] digits_val_show_nat [of n] ds
    by (auto simp: c_strtol10_def Let_def simp del: dropWhile_eq_Nil_conv)
qed

lemma to_int_id: "- (2 ^ 31) \<le> v \<Longrightarrow> v < 2 ^ 31 \<Longrightarrow> to_int (clamp_long v) = v"
  by (simp add: to_int_def clamp_long_def)

text \<open>Reading back a printed non-negative \<open>int\<close>.\<close>

lemma atoi_show_int: "0 \<le> i \<Longrightarrow> i < 2 ^ 31 \<Longrightarrow> pcut_str_to_int (cstr (show_int i)) = Some i"
  using strtol_show_nat [of NUL "nat i" "[]"] to_int_id [of i]
  by (simp add: pcut_str_to_int_def c_atoi_def cstr_def show_int_def is_digit_def byte_def)

lemma show_nat_nul_free [simp]: "nul_free (show_nat n)"
  using show_nat_digits [of n] digit_not_special by (auto simp: nul_free_def list_all_iff)

lemma show_int_nul_free [simp]: "nul_free (show_int i)"
  by (simp add: show_int_def)

text \<open>A format without directives is printed as it is.\<close>

lemma vformat_plain: "CHR ''%'' \<notin> set fs \<Longrightarrow> vformat fs args = Some fs"
  by (induction fs) auto

lemma vformat_app: "CHR ''%'' \<notin> set fs \<Longrightarrow> vformat (fs @ gs) args = map_option ((@) fs) (vformat gs args)"
  by (cases "vformat gs args"; induction fs) auto

end
