(* ===== verification/Printing.thy ===== *)
theory Printing
  imports ItemList CString
begin

text \<open>
  Printing the list of items, \<^verbatim>\<open>src/print.c\<close>: \<open>pcut_print_items\<close> for debugging and \<open>pcut_print_tests\<close>
  for the option \<open>-l\<close>.
\<close>

section \<open>Operations\<close>

fun print_item :: "pcut_item \<Rightarrow> string" where
  "print_item it =
     (case kind it of
        PCUT_KIND_TEST \<Rightarrow> ''TEST '' @ item_name it @ [NL]
      | PCUT_KIND_TESTSUITE \<Rightarrow> ''SUITE '' @ item_name it @ [NL]
      | PCUT_KIND_SKIP \<Rightarrow> []
      | PCUT_KIND_NESTED \<Rightarrow> ''NESTED ...'' @ [NL]
      | k \<Rightarrow> ''UNKNOWN ('' @ show_int (kind_code k) @ '')'' @ [NL])"

partial_function (option) print_items_loop :: "heap \<Rightarrow> ptr \<Rightarrow> string option" where [code]:
  "print_items_loop h it =
     (case it of
        None \<Rightarrow> Some []
      | Some a \<Rightarrow>
          do { item \<leftarrow> h a;
               out \<leftarrow> print_items_loop h (nxt item);
               Some (print_item item @ out) })"

definition pcut_print_items :: "heap \<Rightarrow> ptr \<Rightarrow> string option" where
  "pcut_print_items h first =
     do { out \<leftarrow> print_items_loop h first;
          Some (''====>'' @ [NL] @ out @ ''----'' @ [NL]) }"

text \<open>No result for a kind of item that fails the \<open>assert\<close>.\<close>

fun print_test :: "pcut_item \<Rightarrow> string option" where
  "print_test it =
     (case kind it of
        PCUT_KIND_TESTSUITE \<Rightarrow>
          Some (''  Suite `'' @ item_name it @ [CHR 0x27] @ '' ['' @ show_int (ident it) @ '']'' @ [NL])
      | PCUT_KIND_TEST \<Rightarrow>
          Some (''    Test `'' @ item_name it @ [CHR 0x27] @ '' ['' @ show_int (ident it) @ '']'' @ [NL])
      | PCUT_KIND_SETUP \<Rightarrow> Some []
      | PCUT_KIND_TEARDOWN \<Rightarrow> Some []
      | PCUT_KIND_SKIP \<Rightarrow> None
      | PCUT_KIND_NESTED \<Rightarrow> None)"

partial_function (option) print_tests_loop :: "heap \<Rightarrow> ptr \<Rightarrow> string option" where [code]:
  "print_tests_loop h it =
     (case it of
        None \<Rightarrow> Some []
      | Some a \<Rightarrow>
          do { item \<leftarrow> h a;
               line \<leftarrow> print_test item;
               it \<leftarrow> pcut_get_real_next h (Some a);
               out \<leftarrow> print_tests_loop h it;
               Some (line @ out) })"

definition pcut_print_tests :: "heap \<Rightarrow> ptr \<Rightarrow> string option" where
  "pcut_print_tests h first = do { it \<leftarrow> pcut_get_real h first; print_tests_loop h it }"

section \<open>On a well-formed list\<close>

lemma print_items_loop_dll:
  "dll h p as None \<Longrightarrow>
   print_items_loop h (hd_ptr as None) = Some (concat (map (\<lambda>a. print_item (the (h a))) as))"
proof (induction as arbitrary: p)
  case Nil
  show ?case by (subst print_items_loop.simps) simp
next
  case (Cons a as)
  then obtain it where it: "h a = Some it" "nxt it = hd_ptr as None" "dll h (Some a) as None"
    by (auto split: option.splits)
  from Cons.IH [OF it(3)] it(1,2) show ?case
    by (subst print_items_loop.simps) (simp del: print_item.simps)
qed

text \<open>The printed line of an item that is a suite or a test; nothing for the others.\<close>

definition test_line :: "pcut_item \<Rightarrow> string" where
  "test_line it = (case print_test it of None \<Rightarrow> [] | Some l \<Rightarrow> l)"

lemma print_tests_loop_dll:
  "dll h p (bs @ cs) None \<Longrightarrow> (\<And>a. a \<in> set cs \<Longrightarrow> kind_at h a \<noteq> PCUT_KIND_NESTED) \<Longrightarrow>
   print_tests_loop h (hd_ptr (reals h cs) None) = Some (concat (map (\<lambda>a. test_line (the (h a))) (reals h cs)))"
proof (induction cs arbitrary: bs)
  case Nil
  show ?case by (subst print_tests_loop.simps) simp
next
  case (Cons c cs)
  from Cons.prems have dll: "dll h p ((bs @ [c]) @ cs) None" by simp
  from dll_alloc [OF Cons.prems(1), of c] obtain it where it: "h c = Some it" by auto
  show ?case
  proof (cases "kind it = PCUT_KIND_SKIP")
    case True
    with Cons.IH [OF dll] Cons.prems(2) it show ?thesis by (simp add: kind_at_Some)
  next
    case False
    moreover have "kind it \<noteq> PCUT_KIND_NESTED" using Cons.prems(2) [of c] it by (simp add: kind_at_Some)
    ultimately have "print_test it = Some (test_line it)"
      by (cases "kind it") (simp_all add: test_line_def)
    with False Cons.IH [OF dll] Cons.prems(2) it real_next_split [OF Cons.prems(1)] show ?thesis
      by (subst print_tests_loop.simps) (simp add: kind_at_Some del: print_test.simps)
  qed
qed

lemma print_tests_dll:
  assumes "dll h p as None" and "\<And>a. a \<in> set as \<Longrightarrow> kind_at h a \<noteq> PCUT_KIND_NESTED"
  shows "pcut_print_tests h (hd_ptr as None) = Some (concat (map (\<lambda>a. test_line (the (h a))) (reals h as)))"
  using get_real_dll [OF assms(1)] print_tests_loop_dll [of h p "[]" as] assms
  by (simp add: pcut_print_tests_def)

end
