(* ===== verification/Output.thy ===== *)
theory Output
  imports CString
begin

text \<open>
  The output of a test, \<^verbatim>\<open>src/report/report.c\<close>: the child process prints its error messages into
  its standard output with a prefix of zero bytes (\<open>pcut_print_fail_message\<close>), and the parent
  separates them from the text the test printed (\<open>parse_command_output\<close>).  The main result is
  that the second undoes the first.
\<close>

section \<open>Printing a failure message\<close>

text \<open>The bytes that \<open>pcut_print_fail_message\<close> prints; a null pointer or an empty message: none.\<close>

definition pcut_print_fail_message :: "bytes option \<Rightarrow> string option" where
  "pcut_print_fail_message msg =
     (case msg of
        None \<Rightarrow> Some []
      | Some m \<Rightarrow>
          do { n \<leftarrow> pcut_str_size m;
               if n = 0 then Some []
               else Some ([NUL, NUL, NUL] @ take n m @ [NL, NUL]) })"

section \<open>Parsing the output of a test\<close>

definition BUFFER_SIZE :: nat where
  "BUFFER_SIZE = 4096"

text \<open>Subtraction on \<open>size_t\<close> (64 bits).\<close>

definition size_sub :: "nat \<Rightarrow> nat \<Rightarrow> nat" where
  "size_sub a b = (if b \<le> a then a - b else 2 ^ 64 + a - b)"

text \<open>
  The loop that counts zero bytes.  \<open>full\<close> is the rest of the array from the pointer and \<open>n\<close> the
  variable \<open>full_output_size\<close>.  The result is \<open>Some None\<close> where the C code returns, and otherwise
  the number of zeros with the new pointer and size.
\<close>

fun skip_zeros :: "bytes \<Rightarrow> nat \<Rightarrow> nat \<Rightarrow> (nat \<times> bytes \<times> nat) option option" where
  "skip_zeros [] n zeros = None"
| "skip_zeros (c # cs) n zeros =
     (if c \<noteq> NUL then Some (Some (zeros, c # cs, n))
      else if size_sub n 1 = 0 then Some None
      else skip_zeros cs (size_sub n 1) (zeros + 1))"

lemma skip_zeros_length: "skip_zeros full n z = Some (Some (z', full', n')) \<Longrightarrow> length full' \<le> length full"
  by (induction full n z rule: skip_zeros.induct) (fastforce split: if_splits)+

lemma strlen_less: "pcut_str_size s = Some n \<Longrightarrow> n < length s"
  by (simp add: pcut_str_size_def strlen_Some_iff)

text \<open>
  The outer loop.  The two output buffers are given with the number of bytes stored so far: the
  C code moves the pointer and decreases the size instead.
\<close>

function (sequential) parse_loop ::
    "bytes \<Rightarrow> nat \<Rightarrow> bytes \<Rightarrow> nat \<Rightarrow> bytes \<Rightarrow> nat \<Rightarrow> (bytes \<times> bytes) option" where
  "parse_loop full n stdio so err eo =
     (case skip_zeros full n 0 of
        None \<Rightarrow> None
      | Some None \<Rightarrow> Some (stdio, err)
      | Some (Some (zeros, full1, n1)) \<Rightarrow>
          (case pcut_str_size full1 of
             None \<Rightarrow> None
           | Some len \<Rightarrow>
               if zeros < 2 then
                 (if len > length stdio - so then Some (stdio, err)
                  else (case store stdio so (take len full1) of
                          None \<Rightarrow> None
                        | Some stdio1 \<Rightarrow>
                            parse_loop (drop (len + 1) full1) (size_sub n1 (len + 1))
                              stdio1 (so + len) err eo))
               else
                 (if len > length err - eo then Some (stdio, err)
                  else (case store err eo (take len full1) of
                          None \<Rightarrow> None
                        | Some err1 \<Rightarrow>
                            parse_loop (drop (len + 1) full1) (size_sub n1 (len + 1))
                              stdio so err1 (eo + len)))))"
  by pat_completeness auto
termination
  by (relation "measure (\<lambda>(full, _). length full)")
    (auto dest!: skip_zeros_length strlen_less)

declare parse_loop.simps [simp del]

text \<open>
  \<open>parse_command_output\<close>, for an array \<open>full_output\<close> of \<open>n\<close> bytes and output buffers of the
  given sizes, which are first filled with zero bytes.
\<close>

definition parse_command_output :: "bytes \<Rightarrow> nat \<Rightarrow> nat \<Rightarrow> nat \<Rightarrow> (bytes \<times> bytes) option" where
  "parse_command_output full_output n stdio_size error_size =
     (let stdio = replicate stdio_size NUL; err = replicate error_size NUL;
          last_index = size_sub n 1
      in if last_index \<ge> length full_output then None
         else if full_output ! last_index \<noteq> NUL then Some (stdio, err)
         else parse_loop full_output n stdio 0 err 0)"

section \<open>The parser inverts the printing\<close>

text \<open>What a test process writes: text of its own, and failure messages.\<close>

datatype chunk = Text string | Fail string

fun frame :: "chunk \<Rightarrow> string" where
  "frame (Text s) = s"
| "frame (Fail m) = [NUL, NUL, NUL] @ m @ [NL, NUL]"

fun stdio_text :: "chunk list \<Rightarrow> string" where
  "stdio_text [] = []"
| "stdio_text (Text s # cs) = s @ stdio_text cs"
| "stdio_text (Fail m # cs) = stdio_text cs"

fun error_text :: "chunk list \<Rightarrow> string" where
  "error_text [] = []"
| "error_text (Text s # cs) = error_text cs"
| "error_text (Fail m # cs) = m @ NL # error_text cs"

fun chunk_ok :: "chunk \<Rightarrow> bool" where
  "chunk_ok (Text s) \<longleftrightarrow> nul_free s"
| "chunk_ok (Fail m) \<longleftrightarrow> nul_free m"

lemma print_fail_frame:
  "nul_free m \<Longrightarrow> m \<noteq> [] \<Longrightarrow> pcut_print_fail_message (Some (m @ NUL # r)) = Some (frame (Fail m))"
  by (simp add: pcut_print_fail_message_def pcut_str_size_def strlen_app)

lemma size_sub_le [simp]: "b \<le> a \<Longrightarrow> size_sub a b = a - b"
  by (simp add: size_sub_def)

lemma skip_zeros_replicate:
  "n = k + length full \<Longrightarrow> full \<noteq> [] \<Longrightarrow> hd full \<noteq> NUL \<Longrightarrow>
   skip_zeros (replicate k NUL @ full) n z = Some (Some (z + k, full, length full))"
proof (induction k arbitrary: n z)
  case 0
  then show ?case by (cases full) auto
next
  case (Suc k)
  then show ?case by simp
qed

lemma skip_zeros_end: "n = Suc k \<Longrightarrow> skip_zeros (replicate n NUL) n z = Some None"
proof (induction k arbitrary: n z)
  case (Suc k)
  then show ?case by simp
qed simp

text \<open>A buffer that holds \<open>s\<close> and zero bytes after it.\<close>

definition filled :: "string \<Rightarrow> nat \<Rightarrow> bytes" where
  "filled s n = s @ replicate (n - length s) NUL"

lemma filled_length [simp]: "length s \<le> n \<Longrightarrow> length (filled s n) = n"
  by (simp add: filled_def)

lemma store_filled:
  "length s + length t \<le> n \<Longrightarrow> store (filled s n) (length s) t = Some (filled (s @ t) n)"
  by (simp add: store_def filled_def)

lemma skip_zeros_msg:
  assumes "nul_free m" "m \<noteq> []"
  shows "skip_zeros (replicate z NUL @ m @ NUL # r) (length (replicate z NUL @ m @ NUL # r)) 0
    = Some (Some (z, m @ NUL # r, length (m @ NUL # r)))"
  using assms skip_zeros_replicate [of "z + length (m @ NUL # r)" z "m @ NUL # r" 0]
  by (cases m) auto

text \<open>One round of the loop: a text after fewer than two zeros, or an error after two or more.\<close>

lemma parse_text:
  assumes "nul_free m" "m \<noteq> []" and fits: "length (s @ m) \<le> ss" and "z < 2"
    and full: "full = replicate z NUL @ m @ NUL # r"
  shows "parse_loop full (length full) (filled s ss) (length s) e eo =
    parse_loop r (length r) (filled (s @ m) ss) (length (s @ m)) e eo"
proof -
  have "\<not> ss - length s < length m" using fits by auto
  then show ?thesis
    using assms store_filled [of s m ss] unfolding full
    by (subst parse_loop.simps, subst skip_zeros_msg) (simp_all add: pcut_str_size_def strlen_app)
qed

lemma parse_error:
  assumes "nul_free m" "m \<noteq> []" and fits: "length (e @ m) \<le> es" and "2 \<le> z"
    and full: "full = replicate z NUL @ m @ NUL # r"
  shows "parse_loop full (length full) b so (filled e es) (length e) =
    parse_loop r (length r) b so (filled (e @ m) es) (length (e @ m))"
proof -
  have "\<not> es - length e < length m" using fits by auto
  then show ?thesis
    using assms store_filled [of e m es] unfolding full
    by (subst parse_loop.simps, subst skip_zeros_msg) (simp_all add: pcut_str_size_def strlen_app)
qed

lemma parse_zeros: "0 < k \<Longrightarrow> parse_loop (replicate k NUL) k b so e eo = Some (b, e)"
  using skip_zeros_end [of k "k - 1" 0] by (subst parse_loop.simps) simp

lemma parse_frames:
  "list_all chunk_ok cs \<Longrightarrow> 2 \<le> k \<Longrightarrow>
   length (s @ stdio_text cs) \<le> ss \<Longrightarrow> length (e @ error_text cs) \<le> es \<Longrightarrow>
   full = concat (map frame cs) @ replicate k NUL \<Longrightarrow>
   parse_loop full (length full) (filled s ss) (length s) (filled e es) (length e) =
     Some (filled (s @ stdio_text cs) ss, filled (e @ error_text cs) es)"
proof (induction "length cs" arbitrary: cs s e full rule: less_induct)
  case less
  obtain j where k: "k = Suc j" "0 < j" using less.prems(2) by (cases k) auto
  note IH = less.hyps [OF _ _ less.prems(2) _ _ refl]
  consider (nil) "cs = []" | (blank) cs' where "cs = Text [] # cs'"
    | (single) t where "cs = [Text t]" "t \<noteq> []"
    | (merge) t u cs' where "cs = Text t # Text u # cs'"
    | (both) t m cs' where "cs = Text t # Fail m # cs'" "t \<noteq> []"
    | (fail) m cs' where "cs = Fail m # cs'"
    by (metis chunk.exhaust list.exhaust)
  then show ?case
  proof cases
    case nil
    with less.prems k show ?thesis by (simp add: parse_zeros del: replicate_Suc)
  next
    case blank
    with less.prems IH [of cs' s e] show ?thesis by simp
  next
    case single
    with less.prems k have "full = replicate 0 NUL @ t @ NUL # replicate j NUL" by simp
    from parse_text [OF _ single(2) _ _ this, of s ss "filled e es" "length e"] single less.prems k
    show ?thesis by (simp add: parse_zeros)
  next
    case merge
    with less.prems IH [of "Text (t @ u) # cs'" s e] show ?thesis by simp
  next
    case both
    let ?r = "concat (map frame cs') @ replicate k NUL"
    let ?f1 = "replicate 2 NUL @ (m @ [NL]) @ NUL # ?r"
    have "full = replicate 0 NUL @ t @ NUL # ?f1" using less.prems(5) both by (simp add: numeral_2_eq_2)
    from parse_text [OF _ both(2) _ _ this, of s ss "filled e es" "length e"]
      parse_error [of "m @ [NL]" e es 2 ?f1 ?r "filled (s @ t) ss" "length (s @ t)"]
      IH [of cs' "s @ t" "e @ m @ [NL]"] both less.prems
    show ?thesis by simp
  next
    case fail
    let ?r = "concat (map frame cs') @ replicate k NUL"
    have "full = replicate 3 NUL @ (m @ [NL]) @ NUL # ?r"
      using less.prems(5) fail by (simp add: numeral_3_eq_3)
    from parse_error [OF _ _ _ _ this, of e es "filled s ss" "length s"]
      IH [of cs' s "e @ m @ [NL]"] fail less.prems
    show ?thesis by simp
  qed
qed

lemma last_replicate_nth: "0 < k \<Longrightarrow> (xs @ replicate k c) ! (length xs + k - 1) = c"
  by (auto simp: nth_append)

text \<open>The round trip for the buffers of the report.\<close>

lemma parse_command_output_frames:
  assumes "list_all chunk_ok cs" and "2 \<le> k"
    and "length (stdio_text cs) \<le> ss" and "length (error_text cs) \<le> es"
    and full: "full = concat (map frame cs) @ replicate k NUL"
  shows "parse_command_output full (length full) ss es =
    Some (filled (stdio_text cs) ss, filled (error_text cs) es)"
proof -
  have "parse_loop full (length full) (filled [] ss) 0 (filled [] es) 0 =
     Some (filled (stdio_text cs) ss, filled (error_text cs) es)"
    using parse_frames [of cs k "[]" ss "[]" es full] assms by simp
  moreover have "full ! (length full - 1) = NUL"
    using last_replicate_nth [of k "concat (map frame cs)" NUL] assms(2) by (simp add: full)
  ultimately show ?thesis
    using assms(2) by (simp add: parse_command_output_def filled_def full Let_def)
qed

section \<open>Safety\<close>

text \<open>The parser never reads or writes outside the buffers if the output ends with two zero bytes.\<close>

lemma skip_zeros_safe:
  "n = length full \<Longrightarrow> full \<noteq> [] \<Longrightarrow> last full = NUL \<Longrightarrow>
   skip_zeros full n z = Some None \<or>
   (\<exists>z' full' p. skip_zeros full n z = Some (Some (z', full', length full')) \<and> full = p @ full' \<and>
      full' \<noteq> [] \<and> hd full' \<noteq> NUL)"
proof (induction full arbitrary: n z)
  case (Cons c cs)
  show ?case
  proof (cases "c = NUL \<and> cs \<noteq> []")
    case True
    with Cons.IH [of "length cs" "z + 1"] Cons.prems show ?thesis
      by (auto simp: Cons_eq_append_conv)
  next
    case False
    with Cons.prems show ?thesis by (auto intro: exI [of _ "[]"])
  qed
qed simp

definition zero_ended :: "bytes \<Rightarrow> bool" where
  "zero_ended full \<longleftrightarrow> (\<exists>p. full = p @ [NUL, NUL]) \<or> full = [NUL]"

lemma zero_ended_rest:
  assumes "zero_ended (p @ full)" and "full \<noteq> []" "hd full \<noteq> NUL" and "c_strlen full = Some len"
  shows "zero_ended (drop (len + 1) full)"
proof -
  from assms(1-3) obtain q where q: "full = q @ [NUL, NUL]"
    by (cases full rule: rev_cases; cases "butlast full" rule: rev_cases)
      (auto simp: zero_ended_def append_eq_append_conv2 Cons_eq_append_conv append_eq_Cons_conv)
  with assms(3) have "q \<noteq> []" by auto
  have "len \<le> length q"
  proof (rule ccontr)
    assume "\<not> len \<le> length q"
    then have "take len full = q @ NUL # take (len - length q - 1) [NUL]"
      by (cases "len - length q") (simp_all add: q take_Cons')
    with assms(4) show False by (simp add: strlen_Some_iff)
  qed
  then consider "len = length q" | "len < length q" by linarith
  then show ?thesis by cases (auto simp: zero_ended_def q)
qed

lemma parse_loop_safe:
  "n = length full \<Longrightarrow> zero_ended full \<Longrightarrow> so \<le> length stdio \<Longrightarrow> eo \<le> length err \<Longrightarrow>
   parse_loop full n stdio so err eo \<noteq> None"
proof (induction "length full" arbitrary: full n stdio so err eo rule: less_induct)
  case less
  have full: "full \<noteq> []" "last full = NUL" using less.prems(2) by (auto simp: zero_ended_def)
  from skip_zeros_safe [OF less.prems(1) full, of 0] show ?case
  proof (elim disjE exE conjE)
    assume "skip_zeros full n 0 = Some None"
    then show ?case by (subst parse_loop.simps) simp
  next
    fix z full1 p
    assume sz: "skip_zeros full n 0 = Some (Some (z, full1, length full1))"
      and p: "full = p @ full1" "full1 \<noteq> []" "hd full1 \<noteq> NUL"
    have "NUL \<in> set full1" using full p by (metis last_appendR last_in_set)
    then obtain len where len: "pcut_str_size full1 = Some len"
      by (cases "c_strlen full1") (auto simp: pcut_str_size_def strlen_None_iff nul_free_def)
    define rest where "rest = drop (len + 1) full1"
    have rest: "zero_ended rest" "length rest < length full" "size_sub (length full1) (len + 1) = length rest"
      using zero_ended_rest [of p full1 len] less.prems(2) p strlen_less [OF len] len
      by (simp_all add: pcut_str_size_def rest_def)
    note IH = less.hyps [OF rest(2) refl rest(1)]
    have *: "length (take len full1) = len" using strlen_less [OF len] by simp
    have t_ok: "store stdio so (take len full1) = Some b \<Longrightarrow> len \<le> length stdio - so \<Longrightarrow>
        parse_loop rest (length rest) b (so + len) err eo \<noteq> None" for b
      using IH [of "so + len" b eo err] store_length [of stdio so _ b] less.prems(3,4) by simp
    have e_ok: "store err eo (take len full1) = Some b \<Longrightarrow> len \<le> length err - eo \<Longrightarrow>
        parse_loop rest (length rest) stdio so b (eo + len) \<noteq> None" for b
      using IH [of so stdio "eo + len" b] store_length [of err eo _ b] less.prems(3,4) by simp
    have st: "len \<le> length stdio - so \<Longrightarrow> store stdio so (take len full1) \<noteq> None"
      "len \<le> length err - eo \<Longrightarrow> store err eo (take len full1) \<noteq> None"
      using * less.prems(3,4) by (auto simp: store_def)
    have "parse_loop full n stdio so err eo =
      (if z < 2 then if len > length stdio - so then Some (stdio, err)
          else case store stdio so (take len full1) of None \<Rightarrow> None
             | Some b \<Rightarrow> parse_loop rest (length rest) b (so + len) err eo
        else if len > length err - eo then Some (stdio, err)
          else case store err eo (take len full1) of None \<Rightarrow> None
             | Some b \<Rightarrow> parse_loop rest (length rest) stdio so b (eo + len))"
      by (subst parse_loop.simps)
        (simp only: sz len option.case prod.case rest(3) rest_def [symmetric] cong: option.case_cong)
    with t_ok e_ok st show ?case by (auto split: option.split simp: not_less)
  qed
qed

lemma parse_command_output_safe:
  assumes "full = p @ [NUL, NUL]"
  shows "parse_command_output full (length full) ss es \<noteq> None"
proof -
  have "parse_loop full (length full) (replicate ss NUL) 0 (replicate es NUL) 0 \<noteq> None"
    by (rule parse_loop_safe) (use assms in \<open>auto simp: zero_ended_def\<close>)
  then show ?thesis using assms by (simp add: parse_command_output_def Let_def nth_append)
qed

text \<open>An output with fewer non-zero bytes than the buffers have leaves both buffers terminated.\<close>

definition text_bytes :: "bytes \<Rightarrow> nat" where
  "text_bytes full = length (filter (\<lambda>c. c \<noteq> NUL) full)"

lemma skip_zeros_text_bytes:
  "skip_zeros full n z = Some (Some (z', full1, n1)) \<Longrightarrow> text_bytes full1 = text_bytes full"
  by (induction full n z rule: skip_zeros.induct) (auto simp: text_bytes_def split: if_splits)

lemma text_bytes_rest:
  assumes "c_strlen full = Some len"
  shows "text_bytes full = len + text_bytes (drop (len + 1) full)"
proof -
  from assms have len: "len < length full" "full ! len = NUL" "nul_free (take len full)"
    by (auto simp: strlen_Some_iff)
  then have split: "full = take len full @ NUL # drop (len + 1) full"
    using id_take_nth_drop [of len full] by simp
  have f: "filter (\<lambda>c. c \<noteq> NUL) (take len full) = take len full"
    using len(3) by (auto simp: filter_id_conv nul_free_def)
  have "text_bytes full = text_bytes (take len full @ NUL # drop (len + 1) full)"
    using split by (rule arg_cong)
  also have "\<dots> = len + text_bytes (drop (len + 1) full)"
    using len(1) by (simp add: text_bytes_def f)
  finally show ?thesis .
qed

definition ends_zero :: "bytes \<Rightarrow> bool" where
  "ends_zero b \<longleftrightarrow> b \<noteq> [] \<and> last b = NUL"

lemma store_ends_zero:
  "store buf off t = Some buf' \<Longrightarrow> off + length t < length buf \<Longrightarrow> ends_zero buf \<Longrightarrow> ends_zero buf'"
  by (auto simp: store_def ends_zero_def split: if_splits)

text \<open>A round of the parser stops or moves one text to the output or to the messages.\<close>

lemma parse_loop_cases:
  assumes "parse_loop full n stdio so err eo = Some (a, b)"
  obtains (stop) "a = stdio" "b = err"
  | (to_output) z full1 n1 len s1 where "skip_zeros full n 0 = Some (Some (z, full1, n1))" "c_strlen full1 = Some len"
      "store stdio so (take len full1) = Some s1"
      "parse_loop (drop (len + 1) full1) (size_sub n1 (len + 1)) s1 (so + len) err eo = Some (a, b)"
  | (to_messages) z full1 n1 len e1 where "skip_zeros full n 0 = Some (Some (z, full1, n1))" "c_strlen full1 = Some len"
      "store err eo (take len full1) = Some e1"
      "parse_loop (drop (len + 1) full1) (size_sub n1 (len + 1)) stdio so e1 (eo + len) = Some (a, b)"
proof (cases "skip_zeros full n 0")
  case None
  with assms show ?thesis by (subst (asm) parse_loop.simps) simp
next
  case skip: (Some r)
  show ?thesis
  proof (cases r)
    case None
    with assms skip stop show ?thesis by (subst (asm) parse_loop.simps) simp
  next
    case (Some q)
    with skip obtain z full1 n1 where sz: "skip_zeros full n 0 = Some (Some (z, full1, n1))" by (cases q) auto
    with assms obtain len where len: "c_strlen full1 = Some len"
      by (subst (asm) parse_loop.simps) (auto simp: pcut_str_size_def split: option.splits)
    show ?thesis
    proof (cases "z < 2")
      case True
      with assms sz len show ?thesis using stop to_output [OF sz len]
        by (subst (asm) parse_loop.simps) (simp add: pcut_str_size_def split: if_splits option.splits)
    next
      case False
      with assms sz len show ?thesis using stop to_messages [OF sz len]
        by (subst (asm) parse_loop.simps) (simp add: pcut_str_size_def split: if_splits option.splits)
    qed
  qed
qed

lemma parse_loop_ends_zero:
  "parse_loop full n stdio so err eo = Some (a, b) \<Longrightarrow> ends_zero stdio \<Longrightarrow> ends_zero err \<Longrightarrow>
   so + text_bytes full < length stdio \<Longrightarrow> eo + text_bytes full < length err \<Longrightarrow> ends_zero a \<and> ends_zero b"
proof (induction "length full" arbitrary: full n stdio so err eo rule: less_induct)
  case less
  have split: "text_bytes full = len + text_bytes (drop (len + 1) full1)" "length (take len full1) = len"
    "length (drop (len + 1) full1) < length full"
    if "skip_zeros full n 0 = Some (Some (z, full1, n1))" "c_strlen full1 = Some len" for z full1 n1 len
    using text_bytes_rest [OF that(2)] skip_zeros_text_bytes [OF that(1)] skip_zeros_length [OF that(1)] that(2)
    by (auto simp: strlen_Some_iff)
  from less.prems(1) show ?case
  proof (cases rule: parse_loop_cases)
    case stop
    with less.prems show ?thesis by simp
  next
    case (to_output z full1 n1 len s1)
    note sp = split [OF to_output(1,2)]
    from store_ends_zero [OF to_output(3)] store_length [OF to_output(3)] sp less.prems(2,4) have "ends_zero s1" "length s1 = length stdio" by auto
    with less.hyps [OF sp(3) to_output(4)] less.prems sp show ?thesis by simp
  next
    case (to_messages z full1 n1 len e1)
    note sp = split [OF to_messages(1,2)]
    from store_ends_zero [OF to_messages(3)] store_length [OF to_messages(3)] sp less.prems(3,5) have "ends_zero e1" "length e1 = length err" by auto
    with less.hyps [OF sp(3) to_messages(4)] less.prems sp show ?thesis by simp
  qed
qed

lemma parse_command_output_terminated:
  assumes "full = p @ [NUL, NUL]" and "text_bytes full < ss" and "text_bytes full < es"
  shows "\<exists>a b. parse_command_output full (length full) ss es = Some (a, b) \<and> ends_zero a \<and> ends_zero b"
proof -
  obtain a b where ab: "parse_command_output full (length full) ss es = Some (a, b)"
    using parse_command_output_safe [OF assms(1), of ss es] by auto
  have last: "full ! (length full - 1) = NUL" "full \<noteq> []" using assms(1) by (simp_all add: nth_append)
  have "parse_loop full (length full) (replicate ss NUL) 0 (replicate es NUL) 0 = Some (a, b)"
    using ab last by (cases full) (simp_all add: parse_command_output_def Let_def)
  from parse_loop_ends_zero [OF this] assms ab show ?thesis by (auto simp: ends_zero_def)
qed

end
