(* ===== verification/Lines.thy ===== *)
theory Lines
  imports CString
begin

text \<open>
  Printing a message line by line.  \<^verbatim>\<open>src/report/tap.c\<close> and \<^verbatim>\<open>src/report/xml.c\<close> share the loop of their
  functions \<open>print_by_lines\<close>; the first prints a prefix before each line.  The loop cuts the
  message in place: it overwrites each newline with a zero byte before it prints the line.
\<close>

text \<open>The bytes \<open>%s\<close> prints: up to the terminating zero byte.\<close>

definition c_text :: "bytes \<Rightarrow> string option" where
  "c_text buf = map_option (\<lambda>n. take n buf) (c_strlen buf)"

lemma c_text_app [cstring_simps]: "nul_free s \<Longrightarrow> c_text (s @ NUL # r) = Some s"
  by (simp add: c_text_def strlen_app)

lemma c_text_cstr [cstring_simps]: "nul_free s \<Longrightarrow> c_text (cstr s) = Some s"
  by (simp add: cstr_def c_text_app)

text \<open>
  The loop from the position of \<open>message\<close>; the result is what is printed and the new contents of
  the array from there on.
\<close>

lemma strchr_less: "c_strchr s c = Some (Some k) \<Longrightarrow> k < length s"
  by (induction s arbitrary: k) (auto split: if_splits)

function (sequential) print_lines :: "string \<Rightarrow> bytes \<Rightarrow> (string \<times> bytes) option" where
  "print_lines prefix message =
     (case pcut_str_find_char message NL of
        None \<Rightarrow> None
      | Some None \<Rightarrow>
          (case c_text message of
             None \<Rightarrow> None
           | Some line \<Rightarrow>
               Some (if line \<noteq> [] then prefix @ line @ [NL] else [], message))
      | Some (Some k) \<Rightarrow>
          (case c_text (take k message @ [NUL]) of
             None \<Rightarrow> None
           | Some line \<Rightarrow>
               (case print_lines prefix (drop (k + 1) message) of
                  None \<Rightarrow> None
                | Some (out, rest) \<Rightarrow>
                    Some (prefix @ line @ [NL] @ out, take k message @ [NUL] @ rest))))"
  by pat_completeness auto
termination
  by (relation "measure (\<lambda>(_, message). length message)")
    (auto simp: pcut_str_find_char_def dest: strchr_less)

declare print_lines.simps [simp del]

section \<open>The lines of a text\<close>

text \<open>A text is cut at its newlines; a final newline does not start another line.\<close>

function text_lines :: "string \<Rightarrow> string list" where
  "text_lines [] = []"
| "text_lines (c # s) = takeWhile (\<lambda>d. d \<noteq> NL) (c # s) # text_lines (drop 1 (dropWhile (\<lambda>d. d \<noteq> NL) (c # s)))"
  by pat_completeness auto
termination
  by (relation "measure length") (auto simp: less_Suc_eq_le intro: le_trans [OF diff_le_self length_dropWhile_le])

declare text_lines.simps(2) [simp del]

lemma text_lines_single: "NL \<notin> set s \<Longrightarrow> s \<noteq> [] \<Longrightarrow> text_lines s = [s]"
proof (cases s)
  case (Cons c cs)
  assume "NL \<notin> set s"
  then have "takeWhile (\<lambda>d. d \<noteq> NL) (c # cs) = c # cs" "dropWhile (\<lambda>d. d \<noteq> NL) (c # cs) = []"
    using Cons by (auto intro!: takeWhile_all)
  with Cons show ?thesis by (simp only: text_lines.simps drop_Nil)
qed simp

lemma text_lines_NL: "NL \<notin> set s \<Longrightarrow> text_lines (s @ NL # t) = s # text_lines t"
proof -
  assume s: "NL \<notin> set s"
  then have "takeWhile (\<lambda>d. d \<noteq> NL) (s @ NL # t) = s" "dropWhile (\<lambda>d. d \<noteq> NL) (s @ NL # t) = NL # t"
    by (auto intro!: takeWhile_stop dropWhile_stop)
  then show ?thesis by (cases s) (simp_all add: text_lines.simps(2))
qed

text \<open>No line contains a newline, and the lines with their newlines are the text.\<close>

lemma text_lines_clean: "l \<in> set (text_lines s) \<Longrightarrow> NL \<notin> set l"
proof (induction s rule: text_lines.induct)
  case (2 c s)
  then show ?case by (auto simp: text_lines.simps(2) dest: set_takeWhileD)
qed simp

lemma text_lines_concat:
  "concat (map (\<lambda>l. l @ [NL]) (text_lines s)) = (if s = [] \<or> last s = NL then s else s @ [NL])"
proof (induction "length s" arbitrary: s rule: less_induct)
  case less
  show ?case
  proof (cases "NL \<in> set s")
    case True
    then obtain a b where s: "s = a @ NL # b" "NL \<notin> set a" by (meson split_list_first)
    with less [of b] show ?thesis by (simp add: text_lines_NL)
  next
    case False
    then show ?thesis by (cases "s = []") (auto simp: text_lines_single dest: last_in_set)
  qed
qed

lemma print_lines_text:
  "nul_free s \<Longrightarrow> \<exists>buf. print_lines prefix (s @ NUL # r) =
     Some (concat (map (\<lambda>l. prefix @ l @ [NL]) (text_lines s)), buf)"
proof (induction "length s" arbitrary: s rule: less_induct)
  case less
  show ?case
  proof (cases "NL \<in> set s")
    case True
    then obtain a b where s: "s = a @ NL # b" "NL \<notin> set a" by (meson split_list_first)
    with less.hyps [of b] less.prems obtain buf where
      "print_lines prefix (b @ NUL # r) = Some (concat (map (\<lambda>l. prefix @ l @ [NL]) (text_lines b)), buf)"
      by auto
    with s less.prems show ?thesis
      by (subst print_lines.simps)
        (simp add: pcut_str_find_char_def strchr_app text_lines_NL c_text_app)
  next
    case False
    with less.prems show ?thesis
      by (subst print_lines.simps; cases "s = []")
        (simp_all add: pcut_str_find_char_def strchr_app text_lines_single c_text_app
          strchr_app(1) [of "[]", simplified] c_text_app [of "[]", simplified])
  qed
qed

text \<open>The array keeps its length.\<close>

lemma print_lines_length: "print_lines prefix m = Some (out, m') \<Longrightarrow> length m' = length m"
proof (induction "length m" arbitrary: m out m' rule: less_induct)
  case less
  show ?case
  proof (cases "\<exists>k. c_strchr m NL = Some (Some k)")
    case True
    then obtain k where k: "c_strchr m NL = Some (Some k)" by blast
    with less.prems obtain o' r where r: "print_lines prefix (drop (k + 1) m) = Some (o', r)"
      "m' = take k m @ [NUL] @ r"
      by (subst (asm) print_lines.simps)
        (auto simp: pcut_str_find_char_def split: option.splits)
    moreover have "k < length m" by (rule strchr_less [OF k])
    moreover from less.hyps [OF _ r(1)] this have "length r = length m - (k + 1)" by simp
    ultimately show ?thesis by simp
  next
    case False
    with less.prems show ?thesis
      by (subst (asm) print_lines.simps) (auto simp: pcut_str_find_char_def split: option.splits)
  qed
qed

lemma print_lines_text_length:
  "nul_free s \<Longrightarrow> \<exists>buf. print_lines prefix (s @ NUL # r) =
     Some (concat (map (\<lambda>l. prefix @ l @ [NL]) (text_lines s)), buf) \<and> length buf = length s + Suc (length r)"
  using print_lines_text [of s prefix r] print_lines_length by fastforce

end
