(* ===== verification/Tap.thy ===== *)
theory Tap
  imports Lines ItemList
begin

text \<open>
  The test-anything-protocol report, \<^verbatim>\<open>src/report/tap.c\<close>: four counters and one function for each
  callback of \<open>pcut_report_ops_t\<close>.  A callback returns the new counters and what it prints.
  Messages are arrays that the callback cuts into lines in place, so their new contents are
  part of the result.
\<close>

record tap_state =
  test_counter :: int
  failed_test_counter :: int
  tests_in_suite :: int
  failed_tests_in_suite :: int

definition tap_zero :: tap_state where
  "tap_zero = \<lparr>test_counter = 0, failed_test_counter = 0, tests_in_suite = 0, failed_tests_in_suite = 0\<rparr>"

definition PCUT_OUTCOME_PASS :: int where "PCUT_OUTCOME_PASS = 0"
definition PCUT_OUTCOME_FAIL :: int where "PCUT_OUTCOME_FAIL = 1"
definition PCUT_OUTCOME_INTERNAL_ERROR :: int where "PCUT_OUTCOME_INTERNAL_ERROR = 2"
definition PCUT_OUTCOME_BAD_INVOCATION :: int where "PCUT_OUTCOME_BAD_INVOCATION = 3"

lemmas outcome_defs = PCUT_OUTCOME_PASS_def PCUT_OUTCOME_FAIL_def
  PCUT_OUTCOME_INTERNAL_ERROR_def PCUT_OUTCOME_BAD_INVOCATION_def

section \<open>Callbacks\<close>

definition tap_init :: "heap \<Rightarrow> ptr \<Rightarrow> tap_state \<Rightarrow> (tap_state \<times> string) option" where
  "tap_init h all_items st =
     do { tests_total \<leftarrow> pcut_count_tests h all_items;
          Some (st\<lparr>test_counter := 0, failed_test_counter := 0\<rparr>, ''1..'' @ show_int tests_total @ [NL]) }"

definition tap_suite_start :: "pcut_item \<Rightarrow> tap_state \<Rightarrow> tap_state \<times> string" where
  "tap_suite_start suite st =
     (st\<lparr>tests_in_suite := 0, failed_tests_in_suite := 0\<rparr>,
      ''#> Starting suite '' @ item_name suite @ ''.'' @ [NL])"

definition tap_suite_done :: "pcut_item \<Rightarrow> tap_state \<Rightarrow> tap_state \<times> string" where
  "tap_suite_done suite st =
     (st, if failed_tests_in_suite st = 0
          then ''#> Finished suite '' @ item_name suite @ '' (passed).'' @ [NL]
          else ''#> Finished suite '' @ item_name suite @ '' (failed '' @
            show_int (failed_tests_in_suite st) @ '' of '' @ show_int (tests_in_suite st) @ '').'' @ [NL])"

definition tap_test_start :: "tap_state \<Rightarrow> tap_state" where
  "tap_test_start st =
     st\<lparr>tests_in_suite := tests_in_suite st + 1, test_counter := test_counter st + 1\<rparr>"

definition print_by_lines :: "bytes option \<Rightarrow> string \<Rightarrow> (string \<times> bytes option) option" where
  "print_by_lines message prefix =
     (case message of
        None \<Rightarrow> Some ([], None)
      | Some [] \<Rightarrow> None
      | Some (c # cs) \<Rightarrow>
          if c = NUL then Some ([], message)
          else map_option (\<lambda>(out, m). (out, Some m)) (print_lines prefix (c # cs)))"

type_synonym messages = "bytes option \<times> bytes option \<times> bytes option"

definition tap_test_done ::
    "pcut_item \<Rightarrow> int \<Rightarrow> messages \<Rightarrow> tap_state \<Rightarrow> (tap_state \<times> string \<times> messages) option" where
  "tap_test_done test outcome msgs st =
     (case msgs of (error_message, teardown_error_message, extra_output) \<Rightarrow>
       (let test_name = item_name test;
            st = (if outcome \<noteq> PCUT_OUTCOME_PASS
                  then st\<lparr>failed_tests_in_suite := failed_tests_in_suite st + 1,
                          failed_test_counter := failed_test_counter st + 1\<rparr>
                  else st);
            status_str = (if outcome = PCUT_OUTCOME_PASS then ''ok'' else ''not ok'');
            fail_error_str = (if outcome = PCUT_OUTCOME_PASS then ''''
                              else if outcome = PCUT_OUTCOME_FAIL then '' failed'' else '' aborted'')
        in do { (out1, error_message) \<leftarrow> print_by_lines error_message ''# error: '';
                (out2, teardown_error_message) \<leftarrow> print_by_lines teardown_error_message ''# error: '';
                (out3, extra_output) \<leftarrow> print_by_lines extra_output ''# stdio: '';
                Some (st, status_str @ '' '' @ show_int (test_counter st) @ '' '' @ test_name @
                      fail_error_str @ [NL] @ out1 @ out2 @ out3,
                      (error_message, teardown_error_message, extra_output)) }))"

definition tap_done :: "tap_state \<Rightarrow> tap_state \<times> string" where
  "tap_done st =
     (st, if failed_test_counter st = 0 then ''#> Done: all tests passed.'' @ [NL]
          else ''#> Done: '' @ show_int (failed_test_counter st) @ '' of '' @
            show_int (test_counter st) @ '' tests failed.'' @ [NL])"

section \<open>What the callbacks print\<close>

text \<open>The text of a message: none for a null pointer, else up to the terminating zero byte.\<close>

definition msg_text :: "bytes option \<Rightarrow> string option" where
  "msg_text m = (case m of None \<Rightarrow> Some [] | Some b \<Rightarrow> c_text b)"

definition prefixed :: "string \<Rightarrow> string \<Rightarrow> string" where
  "prefixed prefix s = concat (map (\<lambda>l. prefix @ l @ [NL]) (text_lines s))"

lemma c_text_split: "c_text b = Some s \<Longrightarrow> \<exists>r. b = s @ NUL # r \<and> nul_free s"
proof -
  assume "c_text b = Some s"
  then obtain n where n: "n < length b" "b ! n = NUL" "nul_free (take n b)" "s = take n b"
    by (auto simp: c_text_def strlen_Some_iff)
  then have "b = take n b @ NUL # drop (Suc n) b" using id_take_nth_drop [of n b] by simp
  with n show ?thesis by blast
qed

text \<open>A callback leaves null pointers null and keeps the length of the arrays.\<close>

definition same_shape :: "messages \<Rightarrow> messages \<Rightarrow> bool" where
  "same_shape m m' \<longleftrightarrow> (case (m, m') of ((e, t, x), (e', t', x')) \<Rightarrow>
     map_option length e' = map_option length e \<and> map_option length t' = map_option length t \<and>
     map_option length x' = map_option length x)"

lemma print_by_lines_text:
  assumes "msg_text m = Some s"
  shows "\<exists>m'. print_by_lines m prefix = Some (prefixed prefix s, m') \<and>
    map_option length m' = map_option length m"
proof (cases m)
  case None
  with assms show ?thesis by (simp add: print_by_lines_def msg_text_def prefixed_def)
next
  case (Some b)
  with assms obtain r where b: "b = s @ NUL # r" "nul_free s"
    by (auto simp: msg_text_def dest: c_text_split)
  show ?thesis
  proof (cases s)
    case Nil
    with Some b show ?thesis by (simp add: print_by_lines_def prefixed_def)
  next
    case (Cons c cs)
    with Some b print_lines_text_length [OF b(2), of prefix r] show ?thesis
      by (auto simp: print_by_lines_def prefixed_def)
  qed
qed

text \<open>The report of a finished test, as a text.\<close>

definition tap_result :: "string \<Rightarrow> int \<Rightarrow> int \<Rightarrow> string \<Rightarrow> string \<Rightarrow> string \<Rightarrow> string" where
  "tap_result name n outcome err terr out =
     (if outcome = PCUT_OUTCOME_PASS then ''ok '' else ''not ok '') @ show_int n @ '' '' @ name @
     (if outcome = PCUT_OUTCOME_PASS then '''' else if outcome = PCUT_OUTCOME_FAIL then '' failed''
      else '' aborted'') @ [NL] @
     prefixed ''# error: '' err @ prefixed ''# error: '' terr @ prefixed ''# stdio: '' out"

lemma tap_test_done_text:
  assumes "msg_text e = Some es" "msg_text t = Some ts" "msg_text x = Some xs"
  shows "\<exists>msgs. tap_test_done test outcome (e, t, x) st =
    Some (if outcome \<noteq> PCUT_OUTCOME_PASS
          then st\<lparr>failed_tests_in_suite := failed_tests_in_suite st + 1,
                  failed_test_counter := failed_test_counter st + 1\<rparr> else st,
      tap_result (item_name test) (test_counter st) outcome es ts xs, msgs) \<and>
    same_shape (e, t, x) msgs"
proof -
  obtain e' t' x' where "print_by_lines e ''# error: '' = Some (prefixed ''# error: '' es, e')" "map_option length e' = map_option length e"
    "print_by_lines t ''# error: '' = Some (prefixed ''# error: '' ts, t')" "map_option length t' = map_option length t"
    "print_by_lines x ''# stdio: '' = Some (prefixed ''# stdio: '' xs, x')" "map_option length x' = map_option length x"
    using print_by_lines_text assms by metis
  then show ?thesis by (simp add: tap_test_done_def tap_result_def same_shape_def Let_def)
qed

end
