(* ===== verification/Xml.thy ===== *)
theory Xml
  imports Tap
begin

text \<open>
  The XML report, \<^verbatim>\<open>src/report/xml.c\<close>: three counters and one function for each callback of
  \<open>pcut_report_ops_t\<close>.  As in the other report, a callback returns the new counters, what it
  prints and the new contents of the messages, which it cuts into lines in place.  The C function
  \<open>print_by_lines\<close> of this file is \<open>xml_print_by_lines\<close> here.
\<close>

record xml_state =
  xml_test_counter :: int
  xml_tests_in_suite :: int
  xml_failed_tests_in_suite :: int

definition xml_zero :: xml_state where
  "xml_zero = \<lparr>xml_test_counter = 0, xml_tests_in_suite = 0, xml_failed_tests_in_suite = 0\<rparr>"

abbreviation TAB :: char where "TAB \<equiv> CHR 0x09"
abbreviation DQ :: char where "DQ \<equiv> CHR 0x22"

section \<open>Callbacks\<close>

definition xml_init :: "heap \<Rightarrow> ptr \<Rightarrow> xml_state \<Rightarrow> (xml_state \<times> string) option" where
  "xml_init h all_items st =
     do { tests_total \<leftarrow> pcut_count_tests h all_items;
          Some (st\<lparr>xml_test_counter := 0\<rparr>,
            ''<?xml version='' @ [DQ] @ ''1.0'' @ [DQ] @ ''?>'' @ [NL] @
            ''<report tests-total='' @ [DQ] @ show_int tests_total @ [DQ] @ ''>'' @ [NL]) }"

definition xml_suite_start :: "pcut_item \<Rightarrow> xml_state \<Rightarrow> xml_state \<times> string" where
  "xml_suite_start suite st =
     (st\<lparr>xml_tests_in_suite := 0, xml_failed_tests_in_suite := 0\<rparr>,
      [TAB] @ ''<suite name='' @ [DQ] @ item_name suite @ [DQ] @ ''>'' @ [NL])"

definition xml_suite_done :: "pcut_item \<Rightarrow> xml_state \<Rightarrow> xml_state \<times> string" where
  "xml_suite_done suite st =
     (st, [TAB] @ ''</suite><!-- '' @ item_name suite @ '': '' @ show_int (xml_failed_tests_in_suite st) @
        '' / '' @ show_int (xml_tests_in_suite st) @ '' -->'' @ [NL])"

definition xml_test_start :: "xml_state \<Rightarrow> xml_state" where
  "xml_test_start st =
     st\<lparr>xml_tests_in_suite := xml_tests_in_suite st + 1, xml_test_counter := xml_test_counter st + 1\<rparr>"

definition xml_print_by_lines :: "bytes option \<Rightarrow> string \<Rightarrow> (string \<times> bytes option) option" where
  "xml_print_by_lines message element_name =
     (case message of
        None \<Rightarrow> Some ([], None)
      | Some [] \<Rightarrow> None
      | Some (c # cs) \<Rightarrow>
          if c = NUL then Some ([], message)
          else map_option (\<lambda>(out, m).
            ([TAB, TAB, TAB] @ ''<'' @ element_name @ ''><![CDATA['' @ out @
             '']]></'' @ element_name @ ''>'' @ [NL], Some m)) (print_lines [] (c # cs)))"

definition xml_test_done ::
    "pcut_item \<Rightarrow> int \<Rightarrow> messages \<Rightarrow> xml_state \<Rightarrow> (xml_state \<times> string \<times> messages) option" where
  "xml_test_done test outcome msgs st =
     (case msgs of (error_message, teardown_error_message, extra_output) \<Rightarrow>
       (let test_name = item_name test;
            st = (if outcome \<noteq> PCUT_OUTCOME_PASS
                  then st\<lparr>xml_failed_tests_in_suite := xml_failed_tests_in_suite st + 1\<rparr> else st);
            status_str = (if outcome = PCUT_OUTCOME_PASS then ''pass''
                          else if outcome = PCUT_OUTCOME_FAIL then ''fail'' else ''error'')
        in do { (out1, error_message) \<leftarrow> xml_print_by_lines error_message ''error-message'';
                (out2, teardown_error_message) \<leftarrow> xml_print_by_lines teardown_error_message ''error-message'';
                (out3, extra_output) \<leftarrow> xml_print_by_lines extra_output ''standard-output'';
                Some (st, [TAB, TAB] @ ''<testcase name='' @ [DQ] @ test_name @ [DQ] @ '' status='' @
                      [DQ] @ status_str @ [DQ] @ ''>'' @ [NL] @ out1 @ out2 @ out3 @
                      [TAB, TAB] @ ''</testcase><!-- '' @ test_name @ '' -->'' @ [NL],
                      (error_message, teardown_error_message, extra_output)) }))"

definition xml_done :: "xml_state \<Rightarrow> xml_state \<times> string" where
  "xml_done st = (st, ''</report>'' @ [NL])"

section \<open>What the callbacks print\<close>

text \<open>An element around a text: nothing for the empty text, and every line is terminated.\<close>

definition cdata :: "string \<Rightarrow> string \<Rightarrow> string" where
  "cdata element s =
     (if s = [] then []
      else [TAB, TAB, TAB] @ ''<'' @ element @ ''><![CDATA['' @
        (if last s = NL then s else s @ [NL]) @ '']]></'' @ element @ ''>'' @ [NL])"

lemma xml_print_by_lines_text:
  assumes "msg_text m = Some s"
  shows "\<exists>m'. xml_print_by_lines m element = Some (cdata element s, m') \<and>
    map_option length m' = map_option length m"
proof (cases m)
  case None
  with assms show ?thesis by (simp add: xml_print_by_lines_def msg_text_def cdata_def)
next
  case (Some b)
  with assms obtain r where b: "b = s @ NUL # r" "nul_free s"
    by (auto simp: msg_text_def dest: c_text_split)
  show ?thesis
  proof (cases s)
    case Nil
    with Some b show ?thesis by (simp add: xml_print_by_lines_def cdata_def)
  next
    case (Cons c cs)
    with Some b print_lines_text_length [OF b(2), of "[]" r] text_lines_concat [of s] show ?thesis
      by (auto simp: xml_print_by_lines_def cdata_def)
  qed
qed

text \<open>The report of a finished test, as a text.\<close>

definition xml_result :: "string \<Rightarrow> int \<Rightarrow> string \<Rightarrow> string \<Rightarrow> string \<Rightarrow> string" where
  "xml_result name outcome err terr out =
     [TAB, TAB] @ ''<testcase name='' @ [DQ] @ name @ [DQ] @ '' status='' @ [DQ] @
     (if outcome = PCUT_OUTCOME_PASS then ''pass''
      else if outcome = PCUT_OUTCOME_FAIL then ''fail'' else ''error'') @ [DQ] @ ''>'' @ [NL] @
     cdata ''error-message'' err @ cdata ''error-message'' terr @ cdata ''standard-output'' out @
     [TAB, TAB] @ ''</testcase><!-- '' @ name @ '' -->'' @ [NL]"

lemma xml_test_done_text:
  assumes "msg_text e = Some es" "msg_text t = Some ts" "msg_text x = Some xs"
  shows "\<exists>msgs. xml_test_done test outcome (e, t, x) st =
    Some (if outcome \<noteq> PCUT_OUTCOME_PASS
          then st\<lparr>xml_failed_tests_in_suite := xml_failed_tests_in_suite st + 1\<rparr> else st,
      xml_result (item_name test) outcome es ts xs, msgs) \<and>
    same_shape (e, t, x) msgs"
proof -
  obtain e' t' x' where "xml_print_by_lines e ''error-message'' = Some (cdata ''error-message'' es, e')"
    "map_option length e' = map_option length e"
    "xml_print_by_lines t ''error-message'' = Some (cdata ''error-message'' ts, t')"
    "map_option length t' = map_option length t"
    "xml_print_by_lines x ''standard-output'' = Some (cdata ''standard-output'' xs, x')"
    "map_option length x' = map_option length x"
    using xml_print_by_lines_text assms by metis
  then show ?thesis by (simp add: xml_test_done_def xml_result_def same_shape_def Let_def)
qed

end
