(* ===== verification/State.thy ===== *)
theory State
  imports Output Xml
begin

text \<open>
  The state of a process that runs the library, and how a call can end.  The static variables of
  \<^verbatim>\<open>src/main.c\<close>, \<^verbatim>\<open>src/run.c\<close>, \<^verbatim>\<open>src/assert.c\<close>, \<^verbatim>\<open>src/report/*.c\<close> and \<^verbatim>\<open>src/os/*.c\<close> are the
  fields of one record, next to the memory of the items, the state of the user's code (any type)
  and the trace of what the process has done so far.
\<close>

section \<open>How a call ends\<close>

text \<open>
  A call returns, or leaves by \<open>longjmp\<close> to \<open>start_test_jump\<close>, or ends the process, or does
  something that C does not define.  \<open>Hung\<close> is a process that never ends by itself.
\<close>

datatype proc_end = Exited int | Signaled int | Hung

datatype 'a outcome = Returned 'a | Jumped | Ended proc_end | Fault

definition and_then ::
    "'a outcome \<times> 's \<Rightarrow> ('a \<Rightarrow> 's \<Rightarrow> 'b outcome \<times> 's) \<Rightarrow> 'b outcome \<times> 's" where
  "and_then m k =
     (case m of (r, s) \<Rightarrow>
       (case r of Returned x \<Rightarrow> k x s | Jumped \<Rightarrow> (Jumped, s) | Ended e \<Rightarrow> (Ended e, s) | Fault \<Rightarrow> (Fault, s)))"

text \<open>A computation that may be undefined, as a step of a process.\<close>

definition lift_opt :: "'a option \<Rightarrow> 's \<Rightarrow> ('a \<Rightarrow> 's \<Rightarrow> 'b outcome \<times> 's) \<Rightarrow> 'b outcome \<times> 's" where
  "lift_opt m s k = (case m of None \<Rightarrow> (Fault, s) | Some x \<Rightarrow> k x s)"

lemma and_then_simps [simp]:
  "and_then (Returned x, s) k = k x s"
  "and_then (Jumped, s) k = (Jumped, s)"
  "and_then (Ended e, s) k = (Ended e, s)"
  "and_then (Fault, s) k = (Fault, s)"
  by (simp_all add: and_then_def)

lemma lift_opt_simps [simp]:
  "lift_opt None s k = (Fault, s)" "lift_opt (Some x) s k = k x s"
  by (simp_all add: lift_opt_def)

lemma and_then_cong [fundef_cong]:
  "m = m' \<Longrightarrow> (\<And>x t. m' = (Returned x, t) \<Longrightarrow> k x t = k' x t) \<Longrightarrow> and_then m k = and_then m' k'"
  by (cases m'; cases "fst m'") auto

lemma lift_opt_cong [fundef_cong]:
  "m = m' \<Longrightarrow> s = s' \<Longrightarrow> (\<And>x. m' = Some x \<Longrightarrow> k x s' = k' x s') \<Longrightarrow> lift_opt m s k = lift_opt m' s' k'"
  by (cases m') auto

lemma and_then_assoc: "and_then (and_then m k) j = and_then m (\<lambda>x s. and_then (k x s) j)"
  by (cases m; cases "fst m") auto

section \<open>What a process does\<close>

text \<open>It prints to its two output streams, and time passes (in seconds).\<close>

datatype act = Out string | Err string | Sleep nat

fun stdout_of :: "act list \<Rightarrow> string" where
  "stdout_of [] = []"
| "stdout_of (Out s # as) = s @ stdout_of as"
| "stdout_of (Err s # as) = stdout_of as"
| "stdout_of (Sleep n # as) = stdout_of as"

fun stderr_of :: "act list \<Rightarrow> string" where
  "stderr_of [] = []"
| "stderr_of (Out s # as) = stderr_of as"
| "stderr_of (Err s # as) = s @ stderr_of as"
| "stderr_of (Sleep n # as) = stderr_of as"

fun time_of :: "act list \<Rightarrow> nat" where
  "time_of [] = 0"
| "time_of (Out s # as) = time_of as"
| "time_of (Err s # as) = time_of as"
| "time_of (Sleep n # as) = n + time_of as"

lemma stdout_of_append [simp]: "stdout_of (as @ bs) = stdout_of as @ stdout_of bs"
  by (induction as rule: stdout_of.induct) auto

lemma stderr_of_append [simp]: "stderr_of (as @ bs) = stderr_of as @ stderr_of bs"
  by (induction as rule: stderr_of.induct) auto

lemma time_of_append [simp]: "time_of (as @ bs) = time_of as + time_of bs"
  by (induction as rule: time_of.induct) auto

section \<open>The record\<close>

datatype run_mode = PCUT_RUN_MODE_FORKING | PCUT_RUN_MODE_SINGLE

text \<open>The structures of report callbacks a program has: \<open>report_ops\<close> points to one of them.\<close>

datatype handler = Report_tap | Report_xml

text \<open>\<open>current_suite\<close> points to an item of the list or to the static \<open>default_suite\<close>.\<close>

datatype suite_ptr = No_suite | Suite addr | Default_suite

definition MAX_MESSAGE_LENGTH :: nat where "MAX_MESSAGE_LENGTH = 256"
definition MESSAGE_BUFFER_COUNT :: nat where "MESSAGE_BUFFER_COUNT = 2"
definition OUTPUT_BUFFER_SIZE :: nat where "OUTPUT_BUFFER_SIZE = 8192"

lemmas size_defs = MAX_MESSAGE_LENGTH_def MESSAGE_BUFFER_COUNT_def OUTPUT_BUFFER_SIZE_def BUFFER_SIZE_def

record 'u process =
  items :: heap
  pcut_run_mode :: run_mode
  report_ops :: "handler option"
  tap :: tap_state
  xml :: xml_state
  buffer_for_extra_output :: bytes
  buffer_for_error_messages :: bytes
  error_message_buffer :: bytes
  extra_output_buffer :: bytes
  message_buffer :: "bytes list"
  message_buffer_index :: nat
  execute_teardown_on_failure :: bool
  report_test_result :: bool
  print_test_error :: bool
  leave_means_exit :: bool
  current_test :: ptr
  current_suite :: suite_ptr
  default_suite :: pcut_item
  default_suite_initialized :: bool
  prev_message :: "nat option"
  user :: 'u
  trace :: "act list"

definition zero_item :: pcut_item where
  "zero_item = \<lparr>previous = None, nxt = None, ident = 0, kind = PCUT_KIND_SKIP, item_name = [],
     test_func = None, setup_func = None, teardown_func = None, extras = None,
     main_extras = None, nested = None\<rparr>"

text \<open>The state when the process starts: static storage is zero.\<close>

definition start_state :: "heap \<Rightarrow> 'u \<Rightarrow> 'u process" where
  "start_state h u =
     \<lparr>items = h, pcut_run_mode = PCUT_RUN_MODE_FORKING, report_ops = None,
      tap = tap_zero, xml = xml_zero,
      buffer_for_extra_output = replicate BUFFER_SIZE NUL,
      buffer_for_error_messages = replicate BUFFER_SIZE NUL,
      error_message_buffer = replicate OUTPUT_BUFFER_SIZE NUL,
      extra_output_buffer = replicate OUTPUT_BUFFER_SIZE NUL,
      message_buffer = replicate MESSAGE_BUFFER_COUNT (replicate (MAX_MESSAGE_LENGTH + 1) NUL),
      message_buffer_index = 0,
      execute_teardown_on_failure = False, report_test_result = False, print_test_error = False,
      leave_means_exit = False, current_test = None, current_suite = No_suite,
      default_suite = zero_item, default_suite_initialized = False, prev_message = None, user = u, trace = []\<rparr>"

definition emit :: "string \<Rightarrow> 'u process \<Rightarrow> 'u process" where
  "emit txt s = s\<lparr>trace := trace s @ [Out txt]\<rparr>"

text \<open>Following a pointer to an item.\<close>

definition deref :: "ptr \<Rightarrow> 'u process \<Rightarrow> pcut_item option" where
  "deref p s = (case p of None \<Rightarrow> None | Some a \<Rightarrow> items s a)"

lemma deref_Some [simp]: "deref (Some a) s = items s a"
  by (simp add: deref_def)

end
