(* ===== verification/Report.thy ===== *)
theory Report
  imports State
begin

text \<open>
  The dispatch of \<^verbatim>\<open>src/report/report.c\<close>: a report is a structure of callbacks
  (\<open>struct pcut_report_ops\<close> of \<^verbatim>\<open>src/internal.h\<close>), any of which can be null, and the functions
  \<open>pcut_report_*\<close> call the one that is registered.  What a callback promises is the locale
  \<open>report_backend\<close>; both reports of the library are instances of it.
\<close>

section \<open>Callback structures\<close>

text \<open>The static variables of the two reports.\<close>

type_synonym reports = "tap_state \<times> xml_state"

record pcut_report_ops =
  op_init :: "(heap \<Rightarrow> ptr \<Rightarrow> reports \<Rightarrow> (reports \<times> string) option) option"
  op_done :: "(reports \<Rightarrow> reports \<times> string) option"
  op_suite_start :: "(pcut_item \<Rightarrow> reports \<Rightarrow> reports \<times> string) option"
  op_suite_done :: "(pcut_item \<Rightarrow> reports \<Rightarrow> reports \<times> string) option"
  op_test_start :: "(pcut_item \<Rightarrow> reports \<Rightarrow> reports \<times> string) option"
  op_test_done ::
    "(pcut_item \<Rightarrow> int \<Rightarrow> messages \<Rightarrow> reports \<Rightarrow> (reports \<times> string \<times> messages) option) option"

definition on_tap :: "(tap_state \<Rightarrow> tap_state \<times> 'a) \<Rightarrow> reports \<Rightarrow> reports \<times> 'a" where
  "on_tap f r = (case f (fst r) of (t, x) \<Rightarrow> ((t, snd r), x))"

definition on_xml :: "(xml_state \<Rightarrow> xml_state \<times> 'a) \<Rightarrow> reports \<Rightarrow> reports \<times> 'a" where
  "on_xml f r = (case f (snd r) of (t, x) \<Rightarrow> ((fst r, t), x))"

definition pcut_report_tap :: pcut_report_ops where
  "pcut_report_tap =
     \<lparr>op_init = Some (\<lambda>h p r. map_option (\<lambda>(t, out). ((t, snd r), out)) (tap_init h p (fst r))),
      op_done = Some (on_tap tap_done),
      op_suite_start = Some (\<lambda>suite. on_tap (tap_suite_start suite)),
      op_suite_done = Some (\<lambda>suite. on_tap (tap_suite_done suite)),
      op_test_start = Some (\<lambda>test. on_tap (\<lambda>t. (tap_test_start t, []))),
      op_test_done = Some (\<lambda>test outcome msgs r.
        map_option (\<lambda>(t, out). ((t, snd r), out)) (tap_test_done test outcome msgs (fst r)))\<rparr>"

definition pcut_report_xml :: pcut_report_ops where
  "pcut_report_xml =
     \<lparr>op_init = Some (\<lambda>h p r. map_option (\<lambda>(t, out). ((fst r, t), out)) (xml_init h p (snd r))),
      op_done = Some (on_xml xml_done),
      op_suite_start = Some (\<lambda>suite. on_xml (xml_suite_start suite)),
      op_suite_done = Some (\<lambda>suite. on_xml (xml_suite_done suite)),
      op_test_start = Some (\<lambda>test. on_xml (\<lambda>t. (xml_test_start t, []))),
      op_test_done = Some (\<lambda>test outcome msgs r.
        map_option (\<lambda>(t, out). ((fst r, t), out)) (xml_test_done test outcome msgs (snd r)))\<rparr>"

fun ops_of :: "handler \<Rightarrow> pcut_report_ops" where
  "ops_of Report_tap = pcut_report_tap"
| "ops_of Report_xml = pcut_report_xml"

section \<open>Dispatch\<close>

definition reports_of :: "'u process \<Rightarrow> reports" where
  "reports_of s = (tap s, xml s)"

definition set_reports :: "reports \<Rightarrow> 'u process \<Rightarrow> 'u process" where
  "set_reports r s = s\<lparr>tap := fst r, xml := snd r\<rparr>"

text \<open>
  \<open>REPORT_CALL\<close>: nothing happens without a registered report or when its callback is null.
\<close>

definition the_op :: "(pcut_report_ops \<Rightarrow> 'f option) \<Rightarrow> 'u process \<Rightarrow> 'f option" where
  "the_op op s = (case report_ops s of None \<Rightarrow> None | Some h \<Rightarrow> op (ops_of h))"

definition pcut_report_register_handler :: "handler \<Rightarrow> 'u process \<Rightarrow> 'u process" where
  "pcut_report_register_handler h s = s\<lparr>report_ops := Some h\<rparr>"

definition pcut_report_init :: "ptr \<Rightarrow> 'u process \<Rightarrow> unit outcome \<times> 'u process" where
  "pcut_report_init all_items s =
     (case the_op op_init s of
        None \<Rightarrow> (Returned (), s)
      | Some f \<Rightarrow> lift_opt (f (items s) all_items (reports_of s)) s
          (\<lambda>(r, out) s. (Returned (), emit out (set_reports r s))))"

text \<open>The callbacks that take one item, and print something.\<close>

definition report_item_call ::
    "(pcut_report_ops \<Rightarrow> (pcut_item \<Rightarrow> reports \<Rightarrow> reports \<times> string) option) \<Rightarrow> ptr \<Rightarrow>
     'u process \<Rightarrow> unit outcome \<times> 'u process" where
  "report_item_call op p s =
     (case the_op op s of
        None \<Rightarrow> (Returned (), s)
      | Some f \<Rightarrow> lift_opt (deref p s) s
          (\<lambda>it s. case f it (reports_of s) of
             (r, out) \<Rightarrow> (Returned (), if out = [] then set_reports r s else emit out (set_reports r s))))"

definition pcut_report_suite_start :: "ptr \<Rightarrow> 'u process \<Rightarrow> unit outcome \<times> 'u process" where
  "pcut_report_suite_start suite s = report_item_call op_suite_start suite s"

definition pcut_report_suite_done :: "ptr \<Rightarrow> 'u process \<Rightarrow> unit outcome \<times> 'u process" where
  "pcut_report_suite_done suite s = report_item_call op_suite_done suite s"

definition pcut_report_test_start :: "ptr \<Rightarrow> 'u process \<Rightarrow> unit outcome \<times> 'u process" where
  "pcut_report_test_start test s = report_item_call op_test_start test s"

text \<open>The messages are arrays; the result is their contents after the callback.\<close>

definition pcut_report_test_done ::
    "ptr \<Rightarrow> int \<Rightarrow> messages \<Rightarrow> 'u process \<Rightarrow> messages outcome \<times> 'u process" where
  "pcut_report_test_done test outcome msgs s =
     (case the_op op_test_done s of
        None \<Rightarrow> (Returned msgs, s)
      | Some f \<Rightarrow> lift_opt (deref test s) s
          (\<lambda>it s. lift_opt (f it outcome msgs (reports_of s)) s
            (\<lambda>(r, out, msgs) s. (Returned msgs, emit out (set_reports r s)))))"

definition pcut_report_test_done_unparsed ::
    "ptr \<Rightarrow> int \<Rightarrow> bytes \<Rightarrow> nat \<Rightarrow> 'u process \<Rightarrow> unit outcome \<times> 'u process" where
  "pcut_report_test_done_unparsed test outcome unparsed_output unparsed_output_size s =
     lift_opt (parse_command_output unparsed_output unparsed_output_size BUFFER_SIZE BUFFER_SIZE) s
       (\<lambda>(stdio, err) s.
          and_then (pcut_report_test_done test outcome (Some err, None, Some stdio)
                     (s\<lparr>buffer_for_extra_output := stdio, buffer_for_error_messages := err\<rparr>))
            (\<lambda>(err, _, stdio) s. (Returned (),
               s\<lparr>buffer_for_extra_output := (case stdio of None \<Rightarrow> buffer_for_extra_output s | Some b \<Rightarrow> b),
                 buffer_for_error_messages := (case err of None \<Rightarrow> buffer_for_error_messages s | Some b \<Rightarrow> b)\<rparr>)))"

definition pcut_report_done :: "'u process \<Rightarrow> unit outcome \<times> 'u process" where
  "pcut_report_done s =
     (case the_op op_done s of
        None \<Rightarrow> (Returned (), s)
      | Some f \<Rightarrow> (case f (reports_of s) of (r, out) \<Rightarrow> (Returned (), emit out (set_reports r s))))"

section \<open>What a report promises\<close>

text \<open>
  The contract between the runner and a report: it counts the tests of a suite, the failed ones
  among them, and the tests of the whole run, and finishes for messages that are C strings.
\<close>

locale report_backend =
  fixes suite_start :: "pcut_item \<Rightarrow> 's \<Rightarrow> 's \<times> string"
    and test_start :: "'s \<Rightarrow> 's"
    and test_done :: "pcut_item \<Rightarrow> int \<Rightarrow> messages \<Rightarrow> 's \<Rightarrow> ('s \<times> string \<times> messages) option"
    and in_suite :: "'s \<Rightarrow> int" and failed :: "'s \<Rightarrow> int" and run :: "'s \<Rightarrow> int"
    and entry :: "string \<Rightarrow> int \<Rightarrow> int \<Rightarrow> string \<Rightarrow> string \<Rightarrow> string \<Rightarrow> string"
  assumes suite_start_counts:
      "in_suite (fst (suite_start it st)) = 0" "failed (fst (suite_start it st)) = 0"
      "run (fst (suite_start it st)) = run st"
    and test_start_counts:
      "in_suite (test_start st) = in_suite st + 1" "failed (test_start st) = failed st"
      "run (test_start st) = run st + 1"
    and test_done_result:
      "msg_text e = Some es \<Longrightarrow> msg_text t = Some ts \<Longrightarrow> msg_text x = Some xs \<Longrightarrow>
       \<exists>st' msgs. test_done it outcome (e, t, x) st =
         Some (st', entry (item_name it) (run st) outcome es ts xs, msgs) \<and>
         same_shape (e, t, x) msgs \<and> in_suite st' = in_suite st \<and> run st' = run st \<and>
         failed st' = failed st + (if outcome = PCUT_OUTCOME_PASS then 0 else 1)"
begin

text \<open>The calls of one suite: each test is started and reported with its outcome and messages.\<close>

fun report_tests :: "(pcut_item \<times> int \<times> messages) list \<Rightarrow> 's \<Rightarrow> ('s \<times> string) option" where
  "report_tests [] st = Some (st, [])"
| "report_tests ((it, outcome, msgs) # ts) st =
     (case test_done it outcome msgs (test_start st) of
        None \<Rightarrow> None
      | Some (st, out, _) \<Rightarrow>
          (case report_tests ts st of None \<Rightarrow> None | Some (st, outs) \<Rightarrow> Some (st, out @ outs)))"

definition msgs_ok :: "messages \<Rightarrow> bool" where
  "msgs_ok m = (case m of (e, t, x) \<Rightarrow> msg_text e \<noteq> None \<and> msg_text t \<noteq> None \<and> msg_text x \<noteq> None)"

definition texts :: "messages \<Rightarrow> string \<times> string \<times> string" where
  "texts m = (case m of (e, t, x) \<Rightarrow> (the (msg_text e), the (msg_text t), the (msg_text x)))"

text \<open>The entries of the report, numbered from the number of tests run before.\<close>

fun entries :: "int \<Rightarrow> (pcut_item \<times> int \<times> messages) list \<Rightarrow> string" where
  "entries n [] = []"
| "entries n ((it, outcome, msgs) # ts) =
     (case texts msgs of (e, t, x) \<Rightarrow> entry (item_name it) (n + 1) outcome e t x) @ entries (n + 1) ts"

lemma report_tests_tally:
  "list_all (\<lambda>(_, _, m). msgs_ok m) ts \<Longrightarrow>
   \<exists>st'. report_tests ts st = Some (st', entries (run st) ts) \<and>
     in_suite st' = in_suite st + int (length ts) \<and> run st' = run st + int (length ts) \<and>
     failed st' = failed st + int (length (filter (\<lambda>(_, outcome, _). outcome \<noteq> PCUT_OUTCOME_PASS) ts))"
proof (induction ts arbitrary: st)
  case (Cons a ts)
  obtain it outcome e t x where a: "a = (it, outcome, e, t, x)" by (metis prod_cases5)
  with Cons.prems obtain es ts' xs where m: "msg_text e = Some es" "msg_text t = Some ts'" "msg_text x = Some xs"
    by (auto simp: msgs_ok_def)
  from test_done_result [OF m, of it outcome "test_start st"] obtain st1 msgs where
    st1: "test_done it outcome (e, t, x) (test_start st) =
        Some (st1, entry (item_name it) (run st + 1) outcome es ts' xs, msgs)"
      "in_suite st1 = in_suite st + 1" "run st1 = run st + 1"
      "failed st1 = failed st + (if outcome = PCUT_OUTCOME_PASS then 0 else 1)"
    by (auto simp: test_start_counts)
  from Cons.IH [of st1] Cons.prems obtain st2 where
    "report_tests ts st1 = Some (st2, entries (run st + 1) ts)"
    "in_suite st2 = in_suite st1 + int (length ts)" "run st2 = run st1 + int (length ts)"
    "failed st2 = failed st1 + int (length (filter (\<lambda>(_, outcome, _). outcome \<noteq> PCUT_OUTCOME_PASS) ts))"
    by (auto simp: st1)
  with st1 a m show ?case by (auto simp: texts_def)
qed simp

text \<open>The numbers a report has for a suite when its tests are done.\<close>

lemma suite_tally:
  assumes "list_all (\<lambda>(_, _, m). msgs_ok m) ts"
  shows "\<exists>st'. report_tests ts (fst (suite_start it st)) = Some (st', entries (run st) ts) \<and>
     in_suite st' = int (length ts) \<and> run st' = run st + int (length ts) \<and>
     failed st' = int (length (filter (\<lambda>(_, outcome, _). outcome \<noteq> PCUT_OUTCOME_PASS) ts))"
  using report_tests_tally [OF assms, of "fst (suite_start it st)"] suite_start_counts by simp

end

interpretation tap_report: report_backend tap_suite_start tap_test_start tap_test_done
  tests_in_suite failed_tests_in_suite test_counter tap_result
proof
  fix e es t ts x xs it outcome st
  assume "msg_text e = Some es" "msg_text t = Some ts" "msg_text x = Some xs"
  from tap_test_done_text [OF this, of it outcome st] show
    "\<exists>st' msgs. tap_test_done it outcome (e, t, x) st =
         Some (st', tap_result (item_name it) (test_counter st) outcome es ts xs, msgs) \<and>
         same_shape (e, t, x) msgs \<and> tests_in_suite st' = tests_in_suite st \<and> test_counter st' = test_counter st \<and>
         failed_tests_in_suite st' = failed_tests_in_suite st + (if outcome = PCUT_OUTCOME_PASS then 0 else 1)"
    by auto
qed (simp_all add: tap_suite_start_def tap_test_start_def)

interpretation xml_report: report_backend xml_suite_start xml_test_start xml_test_done
  xml_tests_in_suite xml_failed_tests_in_suite xml_test_counter
  "\<lambda>name _ outcome e t x. xml_result name outcome e t x"
proof
  fix e es t ts x xs it outcome st
  assume "msg_text e = Some es" "msg_text t = Some ts" "msg_text x = Some xs"
  from xml_test_done_text [OF this, of it outcome st] show
    "\<exists>st' msgs. xml_test_done it outcome (e, t, x) st =
         Some (st', xml_result (item_name it) outcome es ts xs, msgs) \<and>
         same_shape (e, t, x) msgs \<and> xml_tests_in_suite st' = xml_tests_in_suite st \<and> xml_test_counter st' = xml_test_counter st \<and>
         xml_failed_tests_in_suite st' = xml_failed_tests_in_suite st + (if outcome = PCUT_OUTCOME_PASS then 0 else 1)"
    by auto
qed (simp_all add: xml_suite_start_def xml_test_start_def)

section \<open>The calls of the runner\<close>

text \<open>What the registered report prints for a test, and how it counts it.\<close>

fun entry_of :: "handler \<Rightarrow> reports \<Rightarrow> string \<Rightarrow> int \<Rightarrow> string \<Rightarrow> string \<Rightarrow> string \<Rightarrow> string" where
  "entry_of Report_tap r name outcome e t x = tap_result name (test_counter (fst r)) outcome e t x"
| "entry_of Report_xml r name outcome e t x = xml_result name outcome e t x"

fun count_of :: "handler \<Rightarrow> int \<Rightarrow> reports \<Rightarrow> reports" where
  "count_of Report_tap outcome r =
     (if outcome = PCUT_OUTCOME_PASS then r
      else ((fst r)\<lparr>failed_tests_in_suite := failed_tests_in_suite (fst r) + 1,
              failed_test_counter := failed_test_counter (fst r) + 1\<rparr>, snd r))"
| "count_of Report_xml outcome r =
     (if outcome = PCUT_OUTCOME_PASS then r
      else (fst r, (snd r)\<lparr>xml_failed_tests_in_suite := xml_failed_tests_in_suite (snd r) + 1\<rparr>))"

fun start_of :: "handler \<Rightarrow> reports \<Rightarrow> reports" where
  "start_of Report_tap r = (tap_test_start (fst r), snd r)"
| "start_of Report_xml r = (fst r, xml_test_start (snd r))"

definition started :: "'u process \<Rightarrow> 'u process" where
  "started s = (case report_ops s of None \<Rightarrow> s | Some h \<Rightarrow> set_reports (start_of h (reports_of s)) s)"

definition reported :: "string \<Rightarrow> int \<Rightarrow> string \<Rightarrow> string \<Rightarrow> string \<Rightarrow> 'u process \<Rightarrow> 'u process" where
  "reported name outcome e t x s =
     (case report_ops s of
        None \<Rightarrow> s
      | Some h \<Rightarrow> emit (entry_of h (reports_of s) name outcome e t x)
          (set_reports (count_of h outcome (reports_of s)) s))"

lemma report_test_start_call:
  assumes "items s a = Some it"
  shows "pcut_report_test_start (Some a) s = (Returned (), started s)"
proof (cases "report_ops s")
  case None
  then show ?thesis
    by (simp add: pcut_report_test_start_def report_item_call_def the_op_def started_def)
next
  case (Some h)
  with assms show ?thesis
    by (cases h) (simp_all add: pcut_report_test_start_def report_item_call_def the_op_def started_def
      pcut_report_tap_def pcut_report_xml_def on_tap_def on_xml_def reports_of_def set_reports_def)
qed

lemma report_test_done_call:
  assumes "deref p s = Some it"
    and "msg_text e = Some es" "msg_text t = Some ts" "msg_text x = Some xs"
  shows "\<exists>msgs. pcut_report_test_done p outcome (e, t, x) s =
      (Returned msgs, reported (item_name it) outcome es ts xs s) \<and> same_shape (e, t, x) msgs"
proof (cases "report_ops s")
  case None
  then show ?thesis
    by (simp add: pcut_report_test_done_def the_op_def reported_def same_shape_def)
next
  case (Some h)
  show ?thesis
  proof (cases h)
    case Report_tap
    from tap_test_done_text [OF assms(2-4), of it outcome "tap s"] show ?thesis
      using Some assms(1) Report_tap
      by (auto simp: pcut_report_test_done_def the_op_def pcut_report_tap_def reported_def
          reports_of_def set_reports_def)
  next
    case Report_xml
    from xml_test_done_text [OF assms(2-4), of it outcome "xml s"] show ?thesis
      using Some assms(1) Report_xml
      by (auto simp: pcut_report_test_done_def the_op_def pcut_report_xml_def reported_def
          reports_of_def set_reports_def)
  qed
qed

text \<open>Fields that the calls leave alone.\<close>

lemma reported_frame [frame_simps]:
  "items (reported n c e t x s) = items s" "user (reported n c e t x s) = user s"
  "message_buffer (reported n c e t x s) = message_buffer s"
  "message_buffer_index (reported n c e t x s) = message_buffer_index s"
  "prev_message (reported n c e t x s) = prev_message s"
  "leave_means_exit (reported n c e t x s) = leave_means_exit s"
  "report_ops (reported n c e t x s) = report_ops s"
  "pcut_run_mode (reported n c e t x s) = pcut_run_mode s"
  "execute_teardown_on_failure (reported n c e t x s) = execute_teardown_on_failure s"
  by (simp_all add: reported_def emit_def set_reports_def split: option.split)

lemma started_frame [frame_simps]:
  "items (started s) = items s" "user (started s) = user s" "trace (started s) = trace s"
  "message_buffer (started s) = message_buffer s"
  "message_buffer_index (started s) = message_buffer_index s"
  "prev_message (started s) = prev_message s" "report_ops (started s) = report_ops s"
  "report_test_result (started s) = report_test_result s"
  "print_test_error (started s) = print_test_error s"
  "leave_means_exit (started s) = leave_means_exit s"
  "pcut_run_mode (started s) = pcut_run_mode s"
  by (simp_all add: started_def set_reports_def split: option.split)

text \<open>The calls depend on the report, the counters and the trace only.\<close>

lemma reported_upd [frame_simps]:
  "reported n c e t x (s\<lparr>message_buffer := mb\<rparr>) = (reported n c e t x s)\<lparr>message_buffer := mb\<rparr>"
  "reported n c e t x (s\<lparr>message_buffer_index := i\<rparr>) = (reported n c e t x s)\<lparr>message_buffer_index := i\<rparr>"
  "reported n c e t x (s\<lparr>prev_message := m\<rparr>) = (reported n c e t x s)\<lparr>prev_message := m\<rparr>"
  by (simp_all add: reported_def emit_def set_reports_def reports_of_def split: option.split)

end
