(* ===== verification/Asserts.thy ===== *)
theory Asserts
  imports State
begin

text \<open>
  The assertion macros of \<^verbatim>\<open>include/pcut/asserts.h\<close>, and the code of the user that runs them.

  A user function (a test, a set-up, a tear-down or a hook) is opaque to the library.  What one
  call does is an \<open>effect\<close>: what the process does meanwhile, the new state of the user's data, and
  how the call ends.  A failed assertion does not return, so it can only be the end of a call.
\<close>

section \<open>User functions\<close>

datatype user_end =
    U_return
  | U_assert string int string "farg list"
  | U_exit int
  | U_signal int
  | U_hang

datatype 'u effect = Effect "act list" 'u user_end

type_synonym 'u code = "fptr \<Rightarrow> 'u \<Rightarrow> 'u effect"

section \<open>Assertion macros\<close>

text \<open>
  A macro is a function from the values of its arguments (and their source text, where the macro
  quotes it) to what happens: nothing, or a call of \<open>pcut_failed_assertion_fmt\<close> with a format
  and its arguments.  \<open>PCUT_ASSERTION_FAILED\<close> adds an empty string as the last argument.
\<close>

type_synonym assertion = "(string \<times> farg list) option"

definition PCUT_ASSERTION_FAILED :: "string \<Rightarrow> farg list \<Rightarrow> assertion" where
  "PCUT_ASSERTION_FAILED fmt args = Some (fmt, args @ [FStr ''''])"

definition asserted :: "string \<Rightarrow> int \<Rightarrow> assertion \<Rightarrow> user_end" where
  "asserted filename line a =
     (case a of None \<Rightarrow> U_return | Some (fmt, args) \<Rightarrow> U_assert filename line fmt args)"

definition PCUT_ASSERT_TRUE :: "bool \<Rightarrow> string \<Rightarrow> assertion" where
  "PCUT_ASSERT_TRUE actual quoted =
     (if \<not> actual then PCUT_ASSERTION_FAILED ''Expected true but got <%s>'' [FStr quoted] else None)"

definition PCUT_ASSERT_FALSE :: "bool \<Rightarrow> string \<Rightarrow> assertion" where
  "PCUT_ASSERT_FALSE actual quoted =
     (if actual then PCUT_ASSERTION_FAILED ''Expected false but got <%s>'' [FStr quoted] else None)"

definition PCUT_ASSERT_EQUALS :: "'a \<Rightarrow> 'a \<Rightarrow> string \<Rightarrow> string \<Rightarrow> assertion" where
  "PCUT_ASSERT_EQUALS expected actual q_expected q_actual =
     (if expected \<noteq> actual
      then PCUT_ASSERTION_FAILED
        (''Expected <'' @ q_expected @ ''> but got <'' @ q_actual @ ''>'') []
      else None)"

text \<open>A pointer is its rendering by \<open>%p\<close>, or null.\<close>

definition PCUT_ASSERT_NULL :: "string option \<Rightarrow> string \<Rightarrow> assertion" where
  "PCUT_ASSERT_NULL pointer quoted =
     (case pointer of
        Some p \<Rightarrow> PCUT_ASSERTION_FAILED
          (''Expected <'' @ quoted @ ''> to be NULL, instead it points to %p'') [FPtr p]
      | None \<Rightarrow> None)"

definition PCUT_ASSERT_NOT_NULL_WITH_NAME :: "'a option \<Rightarrow> string \<Rightarrow> assertion" where
  "PCUT_ASSERT_NOT_NULL_WITH_NAME pointer pointer_name =
     (if pointer = None
      then PCUT_ASSERTION_FAILED (''Pointer <'' @ pointer_name @ ''> ought not to be NULL'') []
      else None)"

definition PCUT_ASSERT_NOT_NULL :: "'a option \<Rightarrow> string \<Rightarrow> assertion" where
  "PCUT_ASSERT_NOT_NULL pointer quoted = PCUT_ASSERT_NOT_NULL_WITH_NAME pointer quoted"

text \<open>Conversion of an argument to \<open>long long\<close> (64 bits).\<close>

definition to_long_long :: "int \<Rightarrow> int" where
  "to_long_long v = (v + 2 ^ 63) mod 2 ^ 64 - 2 ^ 63"

definition PCUT_ASSERT_INT_EQUALS :: "int \<Rightarrow> int \<Rightarrow> string \<Rightarrow> string \<Rightarrow> assertion" where
  "PCUT_ASSERT_INT_EQUALS expected actual q_expected q_actual =
     (let e = to_long_long expected; a = to_long_long actual
      in if e \<noteq> a
         then PCUT_ASSERTION_FAILED ''Expected <%lld> but got <%lld> (%s != %s)''
           [FLongLong e, FLongLong a, FStr q_expected, FStr q_actual]
         else None)"

text \<open>
  Floating-point numbers are any type with subtraction, negation, an order test and a rendering
  by \<open>%lf\<close>: IEEE arithmetic is not part of the library.
\<close>

record 'd floating =
  f_sub :: "'d \<Rightarrow> 'd \<Rightarrow> 'd"
  f_neg :: "'d \<Rightarrow> 'd"
  f_less :: "'d \<Rightarrow> 'd \<Rightarrow> bool"
  f_show :: "'d \<Rightarrow> string"

definition PCUT_ASSERT_DOUBLE_EQUALS ::
    "'d floating \<Rightarrow> 'd \<Rightarrow> 'd \<Rightarrow> 'd \<Rightarrow> string \<Rightarrow> string \<Rightarrow> assertion" where
  "PCUT_ASSERT_DOUBLE_EQUALS F expected actual epsilon q_expected q_actual =
     (let diff = f_sub F expected actual
      in if f_less F diff (f_neg F epsilon) \<or> f_less F epsilon diff
         then PCUT_ASSERTION_FAILED ''Expected <%lf+-%lf> but got <%lf> (%s != %s)''
           [FDouble (f_show F expected), FDouble (f_show F epsilon), FDouble (f_show F actual),
            FStr q_expected, FStr q_actual]
         else None)"

text \<open>
  String arguments are null or the array they point to.  The result is undefined (outer \<open>None\<close>)
  where the comparison or \<open>%s\<close> reads past the end of an array.
\<close>

definition PCUT_ASSERT_STR_EQUALS ::
    "bytes option \<Rightarrow> bytes option \<Rightarrow> string \<Rightarrow> string \<Rightarrow> assertion option" where
  "PCUT_ASSERT_STR_EQUALS expected actual q_expected q_actual =
     (case PCUT_ASSERT_NOT_NULL_WITH_NAME expected q_expected of
        Some f \<Rightarrow> Some (Some f)
      | None \<Rightarrow>
          (case PCUT_ASSERT_NOT_NULL_WITH_NAME actual q_actual of
             Some f \<Rightarrow> Some (Some f)
           | None \<Rightarrow>
               do { eq \<leftarrow> pcut_str_equals (the expected) (the actual);
                    if eq then Some None
                    else do { e \<leftarrow> c_text (the expected);
                              a \<leftarrow> c_text (the actual);
                              Some (PCUT_ASSERTION_FAILED ''Expected <%s> but got <%s> (%s != %s)''
                                [FStr e, FStr a, FStr q_expected, FStr q_actual]) } }))"

definition PCUT_ASSERT_STR_EQUALS_OR_NULL ::
    "bytes option \<Rightarrow> bytes option \<Rightarrow> string \<Rightarrow> string \<Rightarrow> assertion option" where
  "PCUT_ASSERT_STR_EQUALS_OR_NULL expected actual q_expected q_actual =
     (let both_null = expected = None \<and> actual = None;
          some_null = expected = None \<or> actual = None
      in do { differ \<leftarrow> (if both_null then Some False
                else if some_null then Some True
                else map_option Not (pcut_str_equals (the expected) (the actual)));
              if \<not> differ then Some None
              else do { e \<leftarrow> (case expected of None \<Rightarrow> Some ''NULL'' | Some b \<Rightarrow> c_text b);
                        a \<leftarrow> (case actual of None \<Rightarrow> Some ''NULL'' | Some b \<Rightarrow> c_text b);
                        Some (PCUT_ASSERTION_FAILED ''Expected <%s> but got <%s> (%s != %s)''
                          [FStr e, FStr a, FStr q_expected, FStr q_actual]) } })"

definition PCUT_ASSERT_ERRNO_VAL_WITH_NAME ::
    "(int \<Rightarrow> string option) \<Rightarrow> int \<Rightarrow> string \<Rightarrow> int \<Rightarrow> assertion option" where
  "PCUT_ASSERT_ERRNO_VAL_WITH_NAME strerror expected_value expected_quoted actual_value =
     (if expected_value \<noteq> actual_value
      then do { eb \<leftarrow> pcut_str_error strerror expected_value (replicate 100 NUL) 100;
                ab \<leftarrow> pcut_str_error strerror actual_value (replicate 100 NUL) 100;
                e \<leftarrow> c_text eb;
                a \<leftarrow> c_text ab;
                Some (PCUT_ASSERTION_FAILED ''Expected error %d (%s, %s) but got error %d (%s)''
                  [FInt expected_value, FStr expected_quoted, FStr e, FInt actual_value, FStr a]) }
      else Some None)"

definition PCUT_ASSERT_ERRNO_VAL ::
    "(int \<Rightarrow> string option) \<Rightarrow> int \<Rightarrow> int \<Rightarrow> string \<Rightarrow> assertion option" where
  "PCUT_ASSERT_ERRNO_VAL strerror expected actual q_expected =
     PCUT_ASSERT_ERRNO_VAL_WITH_NAME strerror expected q_expected actual"

definition PCUT_ASSERT_ERRNO ::
    "(int \<Rightarrow> string option) \<Rightarrow> int \<Rightarrow> int \<Rightarrow> string \<Rightarrow> assertion option" where
  "PCUT_ASSERT_ERRNO strerror errno expected q_expected =
     PCUT_ASSERT_ERRNO_VAL_WITH_NAME strerror expected q_expected errno"

lemmas assert_defs = PCUT_ASSERTION_FAILED_def PCUT_ASSERT_TRUE_def PCUT_ASSERT_FALSE_def
  PCUT_ASSERT_EQUALS_def PCUT_ASSERT_NULL_def PCUT_ASSERT_NOT_NULL_WITH_NAME_def
  PCUT_ASSERT_NOT_NULL_def PCUT_ASSERT_INT_EQUALS_def PCUT_ASSERT_DOUBLE_EQUALS_def
  PCUT_ASSERT_STR_EQUALS_def PCUT_ASSERT_STR_EQUALS_OR_NULL_def
  PCUT_ASSERT_ERRNO_VAL_WITH_NAME_def PCUT_ASSERT_ERRNO_VAL_def PCUT_ASSERT_ERRNO_def

section \<open>Messages\<close>

text \<open>
  The message of a failed assertion: the position and the formatted text, cut to what fits into
  a buffer of \<open>MAX_MESSAGE_LENGTH\<close> bytes.
\<close>

definition location :: "string \<Rightarrow> int \<Rightarrow> string" where
  "location filename line = filename @ '':'' @ show_int line @ '': ''"

definition message_text :: "string \<Rightarrow> int \<Rightarrow> string \<Rightarrow> string" where
  "message_text filename line body = take (MAX_MESSAGE_LENGTH - 1) (location filename line @ body)"

lemma location_nul_free [simp]: "nul_free filename \<Longrightarrow> nul_free (location filename line)"
  by (simp add: location_def)

lemma message_text_nul_free [simp]:
  "nul_free filename \<Longrightarrow> nul_free body \<Longrightarrow> nul_free (message_text filename line body)"
  by (simp add: message_text_def)

lemma location_ne [simp]: "location filename line \<noteq> []"
  by (simp add: location_def)

lemma message_text_ne: "message_text filename line body \<noteq> []"
  by (simp add: message_text_def MAX_MESSAGE_LENGTH_def)

text \<open>
  The two steps of \<open>pcut_failed_assertion_fmt\<close> on its buffer: \<open>offset\<close> is the length of the
  position as far as it fits.
\<close>

definition write_message :: "string \<Rightarrow> int \<Rightarrow> string \<Rightarrow> farg list \<Rightarrow> bytes \<Rightarrow> bytes option" where
  "write_message filename line fmt args current_buffer =
     do { b \<leftarrow> pcut_snprintf current_buffer MAX_MESSAGE_LENGTH (filename @ '':'' @ show_int line @ '': '');
          offset \<leftarrow> pcut_str_size b;
          if offset + 1 < MAX_MESSAGE_LENGTH
          then do { body \<leftarrow> vformat fmt args;
                    c_snprintf b offset (MAX_MESSAGE_LENGTH - offset) body }
          else Some b }"

lemma snprintf_text:
  assumes "sz \<le> length b" "0 < sz"
  shows "pcut_snprintf b sz txt = Some (take (sz - 1) txt @ NUL # drop (Suc (min (length txt) (sz - 1))) b)"
  using assms by (auto simp: pcut_snprintf_def c_snprintf_def store_def min_def)

lemma snprintf_at:
  assumes "off + sz \<le> length b" "0 < sz"
  shows "c_snprintf b off sz txt = Some (take off b @ take (sz - 1) txt @ NUL #
    drop (off + Suc (min (length txt) (sz - 1))) b)"
  using assms by (auto simp: c_snprintf_def store_def min_def)

lemma write_message_text:
  assumes "vformat fmt args = Some body" and "nul_free filename" and "nul_free body"
    and "MAX_MESSAGE_LENGTH < length b"
  shows "\<exists>r. write_message filename line fmt args b = Some (message_text filename line body @ NUL # r) \<and>
    length (message_text filename line body @ NUL # r) = length b"
proof -
  let ?loc = "location filename line" and ?M = MAX_MESSAGE_LENGTH
  define b1 where "b1 = take (?M - 1) ?loc @ NUL # drop (Suc (min (length ?loc) (?M - 1))) b"
  have b1: "pcut_snprintf b ?M (filename @ '':'' @ show_int line @ '': '') = Some b1"
    using snprintf_text [of ?M b ?loc] assms(4)
    by (simp add: b1_def location_def MAX_MESSAGE_LENGTH_def)
  have len1: "length b1 = length b"
    using b1 snprintf_length by (auto simp: pcut_snprintf_def)
  define off where "off = min (length ?loc) (?M - 1)"
  have off: "pcut_str_size b1 = Some off"
    using assms(2) by (simp add: b1_def off_def pcut_str_size_def strlen_app)
  show ?thesis
  proof (cases "off + 1 < ?M")
    case True
    then have loc: "off = length ?loc" "length ?loc < ?M - 1" by (auto simp: off_def min_def split: if_splits)
    have "c_snprintf b1 off (?M - off) body =
        Some (take off b1 @ take (?M - off - 1) body @ NUL # drop (off + Suc (min (length body) (?M - off - 1))) b1)"
      by (rule snprintf_at) (use True assms(4) len1 in auto)
    moreover have "take off b1 @ take (?M - off - 1) body = message_text filename line body"
      using loc by (simp add: b1_def message_text_def)
    ultimately have "write_message filename line fmt args b =
        Some (message_text filename line body @ NUL # drop (off + Suc (min (length body) (?M - off - 1))) b1)"
      using True assms(1) b1 off by (simp add: write_message_def)
    moreover from this have "length (message_text filename line body @ NUL # drop (off + Suc (min (length body) (?M - off - 1))) b1) = length b"
      using snprintf_length [of b1 off "?M - off" body] True assms(1) b1 off len1
      by (simp add: write_message_def)
    ultimately show ?thesis by blast
  next
    case False
    then have "?M - 1 \<le> length ?loc" by (auto simp: off_def min_def split: if_splits)
    then have "message_text filename line body = take (?M - 1) ?loc" by (simp add: message_text_def)
    moreover have "write_message filename line fmt args b = Some b1"
      using False b1 off by (simp add: write_message_def)
    ultimately show ?thesis using b1_def len1 by auto
  qed
qed

end
