(* ===== verification/Runner.thy ===== *)
theory Runner
  imports Report Asserts
begin

text \<open>
  Running one test: \<^verbatim>\<open>src/run.c\<close> and \<^verbatim>\<open>src/assert.c\<close>.  A test runs between the set-up and the
  tear-down of its suite; a failed assertion runs the tear-down, reports the failure and leaves
  the test.  A failed assertion in that tear-down comes back here, so the functions are mutually
  recursive; the flag \<open>execute_teardown_on_failure\<close> makes the recursion end.

  Message pointers always point to one of the message buffers, so they are indices.
\<close>

section \<open>The suite of a test\<close>

definition init_default_suite_when_needed :: "'u process \<Rightarrow> 'u process" where
  "init_default_suite_when_needed s =
     (if default_suite_initialized s then s
      else s\<lparr>default_suite := (default_suite s)\<lparr>ident := -1, kind := PCUT_KIND_TESTSUITE,
               previous := None, nxt := None, item_name := ''Default'',
               setup_func := None, teardown_func := None\<rparr>\<rparr>)"

partial_function (option) find_parent_loop :: "heap \<Rightarrow> ptr \<Rightarrow> ptr option" where
  [code]: "find_parent_loop h it =
     (case it of
        None \<Rightarrow> Some None
      | Some a \<Rightarrow>
          (case h a of
             None \<Rightarrow> None
           | Some i \<Rightarrow> if kind i = PCUT_KIND_TESTSUITE then Some it else find_parent_loop h (previous i)))"

definition pcut_find_parent_suite :: "ptr \<Rightarrow> 'u process \<Rightarrow> suite_ptr outcome \<times> 'u process" where
  "pcut_find_parent_suite it s =
     lift_opt (find_parent_loop (items s) it) s
       (\<lambda>p s. case p of
          Some a \<Rightarrow> (Returned (Suite a), s)
        | None \<Rightarrow> (Returned Default_suite, init_default_suite_when_needed s))"

text \<open>Following \<open>current_suite\<close>.\<close>

definition suite_item :: "'u process \<Rightarrow> pcut_item option" where
  "suite_item s =
     (case current_suite s of
        No_suite \<Rightarrow> None | Suite a \<Rightarrow> items s a | Default_suite \<Rightarrow> Some (default_suite s))"

section \<open>Failed assertions\<close>

definition leave_test :: "int \<Rightarrow> 'u process \<Rightarrow> 'a outcome \<times> 'u process" where
  "leave_test outcome s = (if leave_means_exit s then (Ended (Exited outcome), s) else (Jumped, s))"

text \<open>The array a message pointer points into, and the array after a report has cut it.\<close>

definition message_at :: "nat option \<Rightarrow> 'u process \<Rightarrow> bytes option option" where
  "message_at m s =
     (case m of
        None \<Rightarrow> Some None
      | Some i \<Rightarrow> if i < length (message_buffer s) then Some (Some (message_buffer s ! i)) else None)"

definition put_message :: "nat option \<Rightarrow> bytes option \<Rightarrow> 'u process \<Rightarrow> 'u process" where
  "put_message m b s =
     (case (m, b) of
        (Some i, Some b) \<Rightarrow> s\<lparr>message_buffer := (message_buffer s)[i := b]\<rparr>
      | _ \<Rightarrow> s)"

definition report_failure :: "nat option \<Rightarrow> nat option \<Rightarrow> 'u process \<Rightarrow> unit outcome \<times> 'u process" where
  "report_failure m1 m2 s =
     lift_opt (message_at m1 s) s (\<lambda>b1 s.
     lift_opt (message_at m2 s) s (\<lambda>b2 s.
     and_then (pcut_report_test_done (current_test s) PCUT_OUTCOME_FAIL (b1, b2, None) s)
       (\<lambda>(b1, b2, _) s. (Returned (), put_message m2 b2 (put_message m1 b1 s)))))"

definition print_message :: "nat \<Rightarrow> 'u process \<Rightarrow> unit outcome \<times> 'u process" where
  "print_message message s =
     lift_opt (message_at (Some message) s) s (\<lambda>b s.
     lift_opt (pcut_print_fail_message b) s (\<lambda>txt s.
       (Returned (), if txt = [] then s else emit txt s)))"

lemma print_message_flag:
  "print_message message s = (Returned x, t) \<Longrightarrow>
   execute_teardown_on_failure t = execute_teardown_on_failure s"
  by (auto simp: print_message_def lift_opt_def emit_def split: option.splits if_splits)

definition do_acts :: "act list \<Rightarrow> 'u \<Rightarrow> 'u process \<Rightarrow> 'u process" where
  "do_acts as u s = s\<lparr>trace := trace s @ as, user := u\<rparr>"

text \<open>
  A call of a user function (\<open>call_user\<close>), of one that may be null, and the two functions a failed
  assertion goes through.
\<close>

function call_user :: "'u code \<Rightarrow> fptr \<Rightarrow> 'u process \<Rightarrow> unit outcome \<times> 'u process"
  and run_setup_teardown :: "'u code \<Rightarrow> fptr option \<Rightarrow> 'u process \<Rightarrow> unit outcome \<times> 'u process"
  and pcut_failed_assertion_fmt ::
    "'u code \<Rightarrow> string \<Rightarrow> int \<Rightarrow> string \<Rightarrow> farg list \<Rightarrow> 'u process \<Rightarrow> unit outcome \<times> 'u process"
  and pcut_failed_assertion :: "'u code \<Rightarrow> nat \<Rightarrow> 'u process \<Rightarrow> unit outcome \<times> 'u process"
where
  "call_user E f s =
     (case E f (user s) of
        Effect as u e \<Rightarrow>
          (case e of
             U_return \<Rightarrow> (Returned (), do_acts as u s)
           | U_assert filename line fmt args \<Rightarrow>
               pcut_failed_assertion_fmt E filename line fmt args (do_acts as u s)
           | U_exit n \<Rightarrow> (Ended (Exited n), do_acts as u s)
           | U_signal n \<Rightarrow> (Ended (Signaled n), do_acts as u s)
           | U_hang \<Rightarrow> (Ended Hung, do_acts as u s)))"
| "run_setup_teardown E func s =
     (case func of None \<Rightarrow> (Returned (), s) | Some f \<Rightarrow> call_user E f s)"
| "pcut_failed_assertion_fmt E filename line fmt args s =
     lift_opt (message_at (Some (message_buffer_index s)) s) s (\<lambda>current_buffer _.
     lift_opt (write_message filename line fmt args (the current_buffer)) s (\<lambda>b _.
       pcut_failed_assertion E (message_buffer_index s)
         (s\<lparr>message_buffer := (message_buffer s)[message_buffer_index s := b],
            message_buffer_index := (message_buffer_index s + 1) mod MESSAGE_BUFFER_COUNT\<rparr>)))"
| "pcut_failed_assertion E message s =
     and_then (if print_test_error s then print_message message s else (Returned (), s)) (\<lambda>_ s.
     and_then
       (if execute_teardown_on_failure s then
          lift_opt (suite_item s) s (\<lambda>suite _.
          and_then (run_setup_teardown E (teardown_func suite)
                     (s\<lparr>execute_teardown_on_failure := False, prev_message := Some message\<rparr>)) (\<lambda>_ s.
          if report_test_result s then report_failure (Some message) None s else (Returned (), s)))
        else if report_test_result s then report_failure (prev_message s) (Some message) s
        else (Returned (), s)) (\<lambda>_ s.
     leave_test PCUT_OUTCOME_FAIL (s\<lparr>prev_message := None\<rparr>)))"
  by pat_completeness auto
termination
  by (relation "measure (\<lambda>x. case x of
        Inl (Inl (E, f, s)) \<Rightarrow> if execute_teardown_on_failure s then 6 else 2
      | Inl (Inr (E, f, s)) \<Rightarrow> if execute_teardown_on_failure s then 7 else 3
      | Inr (Inl (E, p, l, f, a, s)) \<Rightarrow> if execute_teardown_on_failure s then 5 else 1
      | Inr (Inr (E, m, s)) \<Rightarrow> if execute_teardown_on_failure s then 4 else (0 :: nat))")
    (auto simp: do_acts_def dest: sym [THEN print_message_flag] print_message_flag split: if_splits)

declare call_user.simps [simp del] pcut_failed_assertion_fmt.simps [simp del]
  pcut_failed_assertion.simps [simp del] run_setup_teardown.simps [simp del]

section \<open>Running a test\<close>

text \<open>\<open>pcut_hook_before_test\<close> does nothing on Unix, HelenOS and the generic system.\<close>

definition pcut_hook_before_test :: "ptr \<Rightarrow> 'u process \<Rightarrow> 'u process" where
  "pcut_hook_before_test test s = s"

text \<open>The body of \<open>run_test\<close> after \<open>setjmp\<close>.\<close>

definition run_test_body :: "'u code \<Rightarrow> addr \<Rightarrow> 'u process \<Rightarrow> int outcome \<times> 'u process" where
  "run_test_body E test s =
     and_then (if report_test_result s then pcut_report_test_start (Some test) s else (Returned (), s)) (\<lambda>_ s.
     and_then (pcut_find_parent_suite (Some test) s) (\<lambda>suite s.
     let s = s\<lparr>current_suite := suite, current_test := Some test\<rparr>;
         s = pcut_hook_before_test (Some test) s;
         s = s\<lparr>execute_teardown_on_failure := True\<rparr>
     in lift_opt (suite_item s) s (\<lambda>suite s.
     and_then (run_setup_teardown E (setup_func suite) s) (\<lambda>_ s.
     lift_opt (do { it \<leftarrow> items s test; test_func it }) s (\<lambda>f s.
     and_then (call_user E f s) (\<lambda>_ s.
     let s = s\<lparr>execute_teardown_on_failure := False\<rparr>
     in lift_opt (suite_item s) s (\<lambda>suite s.
     and_then (run_setup_teardown E (teardown_func suite) s) (\<lambda>_ s.
     and_then (if report_test_result s
               then and_then (pcut_report_test_done (current_test s) PCUT_OUTCOME_PASS (None, None, None) s)
                      (\<lambda>_ s. (Returned (), s))
               else (Returned (), s)) (\<lambda>_ s.
     (Returned PCUT_OUTCOME_PASS, s))))))))))"

text \<open>A failed assertion comes back to \<open>setjmp\<close>.\<close>

definition run_test :: "'u code \<Rightarrow> addr \<Rightarrow> 'u process \<Rightarrow> int outcome \<times> 'u process" where
  "run_test E test s =
     (case run_test_body E test s of
        (Jumped, s) \<Rightarrow> (Returned PCUT_OUTCOME_FAIL, s)
      | r \<Rightarrow> r)"

definition pcut_run_test_forked :: "'u code \<Rightarrow> addr \<Rightarrow> 'u process \<Rightarrow> int outcome \<times> 'u process" where
  "pcut_run_test_forked E test s =
     and_then (run_test E test
       (s\<lparr>report_test_result := False, print_test_error := True, leave_means_exit := True\<rparr>))
       (\<lambda>rc s. (Returned rc, s\<lparr>current_test := None, current_suite := No_suite\<rparr>))"

definition pcut_run_test_single :: "'u code \<Rightarrow> addr \<Rightarrow> 'u process \<Rightarrow> int outcome \<times> 'u process" where
  "pcut_run_test_single E test s =
     and_then (run_test E test
       (s\<lparr>report_test_result := True, print_test_error := False, leave_means_exit := False\<rparr>))
       (\<lambda>rc s. (Returned rc, s\<lparr>current_test := None, current_suite := No_suite\<rparr>))"

definition PCUT_DEFAULT_TEST_TIMEOUT :: int where "PCUT_DEFAULT_TEST_TIMEOUT = 3"

fun timeout_loop :: "pcut_extra list \<Rightarrow> int \<Rightarrow> int option" where
  "timeout_loop [] t = None"
| "timeout_loop (e # es) t =
     (if extra_type e = PCUT_EXTRA_LAST then Some t
      else timeout_loop es (if extra_type e = PCUT_EXTRA_TIMEOUT then timeout e else t))"

definition pcut_get_test_timeout :: "pcut_item \<Rightarrow> int option" where
  "pcut_get_test_timeout test = do { es \<leftarrow> extras test; timeout_loop es PCUT_DEFAULT_TEST_TIMEOUT }"

text \<open>The last time-out before the end marker counts.\<close>

lemma timeout_loop_last:
  "list_all (\<lambda>e. extra_type e \<noteq> PCUT_EXTRA_LAST) es \<Longrightarrow> extra_type l = PCUT_EXTRA_LAST \<Longrightarrow>
   timeout_loop (es @ l # r) t =
     Some (last (t # map timeout (filter (\<lambda>e. extra_type e = PCUT_EXTRA_TIMEOUT) es)))"
  by (induction es arbitrary: t) auto

end
