(* ===== verification/RunSpec.thy ===== *)
theory RunSpec
  imports Runner
begin

text \<open>
  What running a test means.  \<open>sandbox\<close> says it without buffers, flags and jumps: which user
  functions are called in which order, which messages are produced, and the verdict.  The
  functions of \<^verbatim>\<open>src/run.c\<close> implement it, in a forked process (\<open>run_test_forked_refines\<close>) and in
  the process of the runner (\<open>run_test_single_refines\<close>).
\<close>

section \<open>The specification\<close>

datatype event = Did "act list" | Message string

text \<open>
  A failed test has the message of the test or its set-up, and the message of the tear-down;
  either is empty if it did not fail.
\<close>

datatype verdict = Passed | Failed string string | Died proc_end

definition call_opt :: "'u code \<Rightarrow> fptr option \<Rightarrow> 'u \<Rightarrow> 'u effect" where
  "call_opt E f u = (case f of None \<Rightarrow> Effect [] u U_return | Some f \<Rightarrow> E f u)"

text \<open>How a call ends: normally, with the message of a failed assertion, or for good.\<close>

datatype call_end = Ok | Msg string | Gone proc_end

definition call_end :: "user_end \<Rightarrow> call_end" where
  "call_end e =
     (case e of
        U_return \<Rightarrow> Ok
      | U_assert filename line fmt args \<Rightarrow> Msg (message_text filename line (the (vformat fmt args)))
      | U_exit n \<Rightarrow> Gone (Exited n)
      | U_signal n \<Rightarrow> Gone (Signaled n)
      | U_hang \<Rightarrow> Gone Hung)"

text \<open>After a failure with message \<open>m\<close>, the tear-down runs once.\<close>

definition after_failure :: "'u code \<Rightarrow> fptr option \<Rightarrow> string \<Rightarrow> 'u \<Rightarrow> event list \<times> 'u \<times> verdict" where
  "after_failure E td m u =
     (case call_opt E td u of
        Effect as u e \<Rightarrow>
          (case call_end e of
             Ok \<Rightarrow> ([Message m, Did as], u, Failed m '''')
           | Msg m2 \<Rightarrow> ([Message m, Did as, Message m2], u, Failed m m2)
           | Gone p \<Rightarrow> ([Message m, Did as], u, Died p)))"

definition run_teardown :: "'u code \<Rightarrow> fptr option \<Rightarrow> 'u \<Rightarrow> event list \<times> 'u \<times> verdict" where
  "run_teardown E td u =
     (case call_opt E td u of
        Effect as u e \<Rightarrow>
          (case call_end e of
             Ok \<Rightarrow> ([Did as], u, Passed)
           | Msg m \<Rightarrow> ([Did as, Message m], u, Failed '''' m)
           | Gone p \<Rightarrow> ([Did as], u, Died p)))"

definition prepend :: "event list \<Rightarrow> event list \<times> 'u \<times> verdict \<Rightarrow> event list \<times> 'u \<times> verdict" where
  "prepend es r = (case r of (es', u, v) \<Rightarrow> (es @ es', u, v))"

definition run_body :: "'u code \<Rightarrow> fptr \<Rightarrow> fptr option \<Rightarrow> 'u \<Rightarrow> event list \<times> 'u \<times> verdict" where
  "run_body E f td u =
     (case E f u of
        Effect as u e \<Rightarrow>
          prepend [Did as]
            (case call_end e of
               Ok \<Rightarrow> run_teardown E td u
             | Msg m \<Rightarrow> after_failure E td m u
             | Gone p \<Rightarrow> ([], u, Died p)))"

definition sandbox ::
    "'u code \<Rightarrow> fptr option \<Rightarrow> fptr \<Rightarrow> fptr option \<Rightarrow> 'u \<Rightarrow> event list \<times> 'u \<times> verdict" where
  "sandbox E su f td u =
     (case call_opt E su u of
        Effect as u e \<Rightarrow>
          prepend [Did as]
            (case call_end e of
               Ok \<Rightarrow> run_body E f td u
             | Msg m \<Rightarrow> after_failure E td m u
             | Gone p \<Rightarrow> ([], u, Died p)))"

text \<open>The trace of a forked test, where messages are printed, and of a test in the runner.\<close>

fun forked_acts :: "event list \<Rightarrow> act list" where
  "forked_acts [] = []"
| "forked_acts (Did as # es) = as @ forked_acts es"
| "forked_acts (Message m # es) = Out (frame (Fail m)) # forked_acts es"

fun single_acts :: "event list \<Rightarrow> act list" where
  "single_acts [] = []"
| "single_acts (Did as # es) = as @ single_acts es"
| "single_acts (Message m # es) = single_acts es"

lemma forked_acts_append [simp]: "forked_acts (es @ fs) = forked_acts es @ forked_acts fs"
  by (induction es rule: forked_acts.induct) auto

lemma single_acts_append [simp]: "single_acts (es @ fs) = single_acts es @ single_acts fs"
  by (induction es rule: single_acts.induct) auto

section \<open>What is required\<close>

text \<open>Formats of failed assertions fit their arguments, and texts are C strings.\<close>

definition end_ok :: "user_end \<Rightarrow> bool" where
  "end_ok e =
     (case e of
        U_assert filename line fmt args \<Rightarrow>
          nul_free filename \<and> (case vformat fmt args of None \<Rightarrow> False | Some body \<Rightarrow> nul_free body)
      | _ \<Rightarrow> True)"

definition effect_ok :: "'u effect \<Rightarrow> bool" where
  "effect_ok ef = (case ef of Effect as u e \<Rightarrow> end_ok e)"

definition code_ok :: "'u code \<Rightarrow> bool" where
  "code_ok E \<longleftrightarrow> (\<forall>f u. effect_ok (E f u))"

definition buffers_ok :: "'u process \<Rightarrow> bool" where
  "buffers_ok s \<longleftrightarrow> length (message_buffer s) = MESSAGE_BUFFER_COUNT \<and>
     list_all (\<lambda>b. length b = MAX_MESSAGE_LENGTH + 1) (message_buffer s) \<and>
     message_buffer_index s < MESSAGE_BUFFER_COUNT"

lemma start_state_buffers: "buffers_ok (start_state h u)"
  by (simp add: buffers_ok_def start_state_def size_defs list_all_iff)

definition bufs :: "bytes list \<Rightarrow> nat \<Rightarrow> bool" where
  "bufs mb i \<longleftrightarrow> length mb = MESSAGE_BUFFER_COUNT \<and>
     list_all (\<lambda>b. length b = MAX_MESSAGE_LENGTH + 1) mb \<and> i < MESSAGE_BUFFER_COUNT"

lemma buffers_ok_bufs: "buffers_ok s \<longleftrightarrow> bufs (message_buffer s) (message_buffer_index s)"
  by (simp add: buffers_ok_def bufs_def)

lemma bufs_update:
  "bufs mb i \<Longrightarrow> length b = MAX_MESSAGE_LENGTH + 1 \<Longrightarrow> bufs (mb[j := b]) i"
  by (auto simp: bufs_def list_all_iff dest: set_update_subset_insert [THEN subsetD])

section \<open>Failed assertions implement the specification\<close>

text \<open>A message pointer that points to a text; the null pointer stands for no text.\<close>

definition holds :: "'u process \<Rightarrow> nat option \<Rightarrow> string \<Rightarrow> bool" where
  "holds s m txt \<longleftrightarrow> (\<exists>b. message_at m s = Some b \<and> msg_text b = Some txt)"

lemma holds_None [simp]: "holds s None txt \<longleftrightarrow> txt = []"
  by (auto simp: holds_def message_at_def msg_text_def)

definition acts_of :: "'u process \<Rightarrow> event list \<Rightarrow> act list" where
  "acts_of s es = (if print_test_error s then forked_acts es else single_acts es)"

definition finish :: "pcut_item \<Rightarrow> int \<Rightarrow> string \<Rightarrow> string \<Rightarrow> 'u process \<Rightarrow> 'u process" where
  "finish it outcome e t s =
     (if report_test_result s then reported (item_name it) outcome e t [] s else s)"

definition left :: "'u process \<Rightarrow> 'a outcome" where
  "left s = (if leave_means_exit s then Ended (Exited PCUT_OUTCOME_FAIL) else Jumped)"

definition settled :: "bytes list \<Rightarrow> nat \<Rightarrow> 'u process \<Rightarrow> 'u process" where
  "settled mb i s = s\<lparr>message_buffer := mb, message_buffer_index := i, prev_message := None,
     execute_teardown_on_failure := False\<rparr>"

lemma report_failure_call:
  assumes "deref (current_test s) s = Some it" and "holds s m1 e" and "holds s m2 t"
    and "bufs (message_buffer s) i"
  shows "\<exists>mb. bufs mb i \<and> report_failure m1 m2 s =
    (Returned (), (reported (item_name it) PCUT_OUTCOME_FAIL e t [] s)\<lparr>message_buffer := mb\<rparr>)"
proof -
  from assms(2,3) obtain b1 b2 where b: "message_at m1 s = Some b1" "msg_text b1 = Some e"
    "message_at m2 s = Some b2" "msg_text b2 = Some t" by (auto simp: holds_def)
  have "msg_text None = Some []" by (simp add: msg_text_def)
  from report_test_done_call [OF assms(1) b(2,4) this, of PCUT_OUTCOME_FAIL] obtain c1 c2 c3 where
    c: "pcut_report_test_done (current_test s) PCUT_OUTCOME_FAIL (b1, b2, None) s =
        (Returned (c1, c2, c3), reported (item_name it) PCUT_OUTCOME_FAIL e t [] s)"
      "same_shape (b1, b2, None) (c1, c2, c3)" by (metis prod_cases3)
  have len: "bufs (message_buffer (put_message m c u)) i"
    if a: "bufs (message_buffer u) i" "message_at m s = Some b0" "map_option length c = map_option length b0"
    for m b0 c and u :: "'a process"
  proof (cases m)
    case (Some j)
    with a(2) obtain b where b: "b0 = Some b" "b \<in> set (message_buffer s)"
      by (auto simp: message_at_def split: if_splits)
    with assms(4) have "length b = MAX_MESSAGE_LENGTH + 1" by (auto simp: bufs_def list_all_iff)
    with a b Some show ?thesis by (auto simp: put_message_def bufs_update)
  qed (use a in \<open>simp add: put_message_def\<close>)
  have put: "put_message m c u = u\<lparr>message_buffer := message_buffer (put_message m c u)\<rparr>" for m c
    and u :: "'a process" by (simp add: put_message_def split: option.split)
  let ?r = "reported (item_name it) PCUT_OUTCOME_FAIL e t [] s"
  define s1 where "s1 = put_message m1 c1 ?r"
  have mb1: "bufs (message_buffer s1) i"
    using len [of ?r m1 b1 c1] assms(4) b(1) c(2)
    by (simp add: s1_def frame_simps same_shape_def)
  have s1: "s1 = ?r\<lparr>message_buffer := message_buffer s1\<rparr>" unfolding s1_def by (rule put)
  have mb2: "bufs (message_buffer (put_message m2 c2 s1)) i"
    using len [OF mb1 b(3), of c2] c(2) by (simp add: same_shape_def)
  have "put_message m2 c2 s1 = ?r\<lparr>message_buffer := message_buffer (put_message m2 c2 s1)\<rparr>"
    by (subst put, subst s1) simp
  with mb2 b c show ?thesis by (auto simp: report_failure_def s1_def)
qed

text \<open>The first step: the message is in the current buffer, and the buffers are switched.\<close>

lemma failed_fmt_call:
  assumes "buffers_ok s" and "end_ok (U_assert filename line fmt args)"
    and m: "call_end (U_assert filename line fmt args) = Msg m"
  shows "\<exists>mb. let i = message_buffer_index s; s1 = s\<lparr>message_buffer := mb, message_buffer_index := (i + 1) mod 2\<rparr> in
    bufs mb ((i + 1) mod 2) \<and> holds s1 (Some i) m \<and> m \<noteq> [] \<and> nul_free m \<and>
    (\<forall>j txt. j \<noteq> i \<longrightarrow> holds s (Some j) txt \<longrightarrow> holds s1 (Some j) txt) \<and>
    pcut_failed_assertion_fmt E filename line fmt args s = pcut_failed_assertion E i s1"
proof -
  define i where "i = message_buffer_index s"
  from assms(2) obtain body where body: "vformat fmt args = Some body" "nul_free body" "nul_free filename"
    by (auto simp: end_ok_def split: option.splits)
  then have m': "m = message_text filename line body" using m by (simp add: call_end_def)
  have i: "i < length (message_buffer s)" "length (message_buffer s ! i) = MAX_MESSAGE_LENGTH + 1"
    using assms(1) by (auto simp: buffers_ok_def i_def list_all_length)
  with write_message_text [OF body(1,3,2), of "message_buffer s ! i" line] obtain b where
    b: "write_message filename line fmt args (message_buffer s ! i) = Some b"
      "length b = MAX_MESSAGE_LENGTH + 1" "msg_text (Some b) = Some m"
    using body m' by (auto simp: msg_text_def c_text_app)
  have "bufs ((message_buffer s)[i := b]) i"
    using assms(1) b(2) by (auto simp: buffers_ok_bufs i_def intro: bufs_update)
  then have "bufs ((message_buffer s)[i := b]) ((i + 1) mod 2)"
    by (simp add: bufs_def MESSAGE_BUFFER_COUNT_def)
  moreover have "pcut_failed_assertion_fmt E filename line fmt args s = pcut_failed_assertion E i
      (s\<lparr>message_buffer := (message_buffer s)[i := b], message_buffer_index := (i + 1) mod 2\<rparr>)"
    using i b by (simp add: pcut_failed_assertion_fmt.simps message_at_def MESSAGE_BUFFER_COUNT_def
      i_def [symmetric])
  moreover have "m \<noteq> []" "nul_free m" using body by (simp_all add: m' message_text_ne)
  ultimately show ?thesis
    using i b by (intro exI [of _ "(message_buffer s)[i := b]"])
      (auto simp: Let_def holds_def message_at_def i_def split: if_splits)
qed

lemma print_message_call:
  assumes "holds s (Some i) m" "m \<noteq> []" "nul_free m"
  shows "print_message i s = (Returned (), emit (frame (Fail m)) s)"
proof -
  from assms(1) obtain b where b: "message_at (Some i) s = Some (Some b)" "c_text b = Some m"
    by (auto simp: holds_def message_at_def msg_text_def split: if_splits)
  then obtain r where "b = m @ NUL # r" using c_text_split by blast
  with b assms print_fail_frame [of m r] show ?thesis by (simp add: print_message_def)
qed

lemma holds_cong: "message_buffer s' = message_buffer s \<Longrightarrow> holds s' m e = holds s m e"
  by (cases m) (simp_all add: holds_def message_at_def)

lemma deref_cong: "items s' = items s \<Longrightarrow> deref p s' = deref p s"
  by (cases p) (simp_all add: deref_def)

lemma suite_item_cong:
  "items s' = items s \<Longrightarrow> current_suite s' = current_suite s \<Longrightarrow> default_suite s' = default_suite s \<Longrightarrow>
   suite_item s' = suite_item s"
  by (cases "current_suite s") (simp_all add: suite_item_def)

lemma settled_eq:
  assumes "message_buffer_index s = i" "\<not> execute_teardown_on_failure s"
  shows "s\<lparr>message_buffer := mb, prev_message := None\<rparr> = settled mb i s"
  using assms by (intro process.equality) (simp_all add: settled_def)

lemma left_leave: "leave_test PCUT_OUTCOME_FAIL s = (left s, s)"
  by (simp add: leave_test_def left_def)

lemma and_then_left: "and_then (left s, t) f = (left s, t)"
  by (simp add: left_def)

text \<open>A failed assertion outside the test: the failure is printed or reported, and nothing is run.\<close>

lemma failed_quiet:
  assumes m: "holds s (Some i) m" "m \<noteq> []" "nul_free m" and e: "holds s (prev_message s) e"
    and flag: "\<not> execute_teardown_on_failure s" and it: "deref (current_test s) s = Some it"
    and bufs: "bufs (message_buffer s) (message_buffer_index s)"
  shows "\<exists>mb. bufs mb (message_buffer_index s) \<and> pcut_failed_assertion E i s =
    (left s, settled mb (message_buffer_index s)
       (finish it PCUT_OUTCOME_FAIL e m (s\<lparr>trace := trace s @ acts_of s [Message m]\<rparr>)))"
proof -
  define s1 where "s1 = s\<lparr>trace := trace s @ acts_of s [Message m]\<rparr>"
  have s1: "(if print_test_error s then print_message i s else (Returned (), s)) = (Returned (), s1)"
    using print_message_call [OF m] by (simp add: s1_def acts_of_def emit_def)
  have frame: "message_buffer s1 = message_buffer s" "message_buffer_index s1 = message_buffer_index s"
    "prev_message s1 = prev_message s" "current_test s1 = current_test s" "items s1 = items s"
    "report_test_result s1 = report_test_result s" "leave_means_exit s1 = leave_means_exit s"
    "execute_teardown_on_failure s1 = execute_teardown_on_failure s"
    by (simp_all add: s1_def)
  show ?thesis
  proof (cases "report_test_result s")
    case True
    have "deref (current_test s1) s1 = Some it" "holds s1 (prev_message s1) e" "holds s1 (Some i) m"
      "bufs (message_buffer s1) (message_buffer_index s)"
      using it e m(1) bufs frame holds_cong [of s1 s] deref_cong [of s1 s] by simp_all
    from report_failure_call [OF this] obtain mb where mb: "bufs mb (message_buffer_index s)"
      "report_failure (prev_message s1) (Some i) s1 =
        (Returned (), (reported (item_name it) PCUT_OUTCOME_FAIL e m [] s1)\<lparr>message_buffer := mb\<rparr>)"
      by blast
    with True flag s1 frame show ?thesis
      by (intro exI [of _ mb]) (simp add: pcut_failed_assertion.simps left_leave left_def finish_def
        frame_simps settled_eq s1_def [symmetric])
  next
    case False
    have "s1\<lparr>prev_message := None\<rparr> = settled (message_buffer s) (message_buffer_index s) s1"
      using flag by (intro process.equality) (simp_all add: settled_def frame)
    with False flag s1 frame bufs show ?thesis
      by (intro exI [of _ "message_buffer s"])
        (simp add: pcut_failed_assertion.simps left_leave left_def finish_def s1_def [symmetric])
  qed
qed

text \<open>
  \<open>fails_as s it spec r\<close>: started in \<open>s\<close>, a call has the result \<open>r\<close> that the specification gives for a
  test that does not pass.
\<close>

definition fails_as ::
    "'u process \<Rightarrow> pcut_item \<Rightarrow> event list \<times> 'u \<times> verdict \<Rightarrow> 'a outcome \<times> 'u process \<Rightarrow> bool" where
  "fails_as s it spec r \<longleftrightarrow>
     (case spec of (es, u, v) \<Rightarrow>
       (case v of
          Passed \<Rightarrow> False
        | Died p \<Rightarrow> fst r = Ended p \<and> trace (snd r) = trace s @ acts_of s es \<and> user (snd r) = u
        | Failed e t \<Rightarrow> \<exists>mb i. bufs mb i \<and> r = (left s, settled mb i
            (finish it PCUT_OUTCOME_FAIL e t (s\<lparr>trace := trace s @ acts_of s es, user := u\<rparr>)))))"

lemma settled_finish:
  "settled mb i (finish it c e t (s\<lparr>message_buffer := a\<rparr>)) = settled mb i (finish it c e t s)"
  "settled mb i (finish it c e t (s\<lparr>message_buffer_index := b\<rparr>)) = settled mb i (finish it c e t s)"
  "settled mb i (finish it c e t (s\<lparr>prev_message := p\<rparr>)) = settled mb i (finish it c e t s)"
  "settled mb i (finish it c e t (s\<lparr>execute_teardown_on_failure := f\<rparr>)) = settled mb i (finish it c e t s)"
  by (simp_all add: settled_def finish_def reported_def emit_def set_reports_def reports_of_def
      split: option.split)

lemma acts_of_cong [simp]:
  "acts_of (s\<lparr>message_buffer := a\<rparr>) es = acts_of s es" "acts_of (s\<lparr>message_buffer_index := b\<rparr>) es = acts_of s es"
  "acts_of (s\<lparr>prev_message := p\<rparr>) es = acts_of s es" "acts_of (s\<lparr>execute_teardown_on_failure := f\<rparr>) es = acts_of s es"
  "acts_of (s\<lparr>trace := t\<rparr>) es = acts_of s es" "acts_of (s\<lparr>user := u\<rparr>) es = acts_of s es"
  "acts_of (do_acts as u s) es = acts_of s es"
  "acts_of s (Did as # es) = as @ acts_of s es" "acts_of s [] = []"
  "acts_of s (es @ fs) = acts_of s es @ acts_of s fs"
  by (simp_all add: acts_of_def do_acts_def)

lemma acts_of_Message: "acts_of s (Message m # es) = acts_of s [Message m] @ acts_of s es"
  by (simp add: acts_of_def)

lemma left_cong [simp]:
  "left (s\<lparr>message_buffer := a\<rparr>) = left s" "left (s\<lparr>message_buffer_index := b\<rparr>) = left s"
  "left (s\<lparr>prev_message := p\<rparr>) = left s" "left (s\<lparr>execute_teardown_on_failure := f\<rparr>) = left s"
  "left (s\<lparr>trace := t\<rparr>) = left s" "left (s\<lparr>user := u\<rparr>) = left s" "left (do_acts as u s) = left s"
  by (simp_all add: left_def do_acts_def)

lemma call_opt_run:
  "run_setup_teardown E f s =
     (case call_opt E f (user s) of
        Effect as u e \<Rightarrow>
          (case e of
             U_return \<Rightarrow> (Returned (), do_acts as u s)
           | U_assert filename line fmt args \<Rightarrow>
               pcut_failed_assertion_fmt E filename line fmt args (do_acts as u s)
           | U_exit n \<Rightarrow> (Ended (Exited n), do_acts as u s)
           | U_signal n \<Rightarrow> (Ended (Signaled n), do_acts as u s)
           | U_hang \<Rightarrow> (Ended Hung, do_acts as u s)))"
  by (cases f) (simp_all add: run_setup_teardown.simps call_opt_def call_user.simps do_acts_def)

lemma call_opt_ok: "code_ok E \<Longrightarrow> effect_ok (call_opt E f u)"
  by (auto simp: code_ok_def call_opt_def effect_ok_def end_ok_def split: option.split)

text \<open>A tear-down that is run when the flag is clear.\<close>

lemma teardown_call:
  assumes code: "code_ok E" and eff: "call_opt E td (user s) = Effect as u ue"
    and e: "holds s (prev_message s) e" and pm: "prev_message s \<noteq> Some (message_buffer_index s)"
    and flag: "\<not> execute_teardown_on_failure s" and it: "deref (current_test s) s = Some it"
    and bufs: "buffers_ok s"
  shows "case call_end ue of
      Ok \<Rightarrow> run_setup_teardown E td s = (Returned (), do_acts as u s)
    | Gone p \<Rightarrow> run_setup_teardown E td s = (Ended p, do_acts as u s)
    | Msg m \<Rightarrow> \<exists>mb i. bufs mb i \<and> run_setup_teardown E td s = (left s, settled mb i
        (finish it PCUT_OUTCOME_FAIL e m (s\<lparr>trace := trace s @ acts_of s [Did as, Message m], user := u\<rparr>)))"
proof (cases ue)
  case (U_assert filename line fmt args)
  define s0 where "s0 = do_acts as u s"
  obtain m where m: "call_end (U_assert filename line fmt args) = Msg m" by (simp add: call_end_def)
  have ok: "end_ok (U_assert filename line fmt args)"
    using call_opt_ok [OF code, of td "user s"] eff U_assert by (simp add: effect_ok_def)
  have s0: "buffers_ok s0" "message_buffer_index s0 = message_buffer_index s" "prev_message s0 = prev_message s"
    "holds s0 (prev_message s0) e" "deref (current_test s0) s0 = Some it" "\<not> execute_teardown_on_failure s0"
    using bufs e it flag holds_cong [of s0 s] deref_cong [of s0 s]
    by (simp_all add: s0_def do_acts_def buffers_ok_def)
  from failed_fmt_call [OF s0(1) ok m, of E] obtain mb where
    mb: "bufs mb ((message_buffer_index s + 1) mod 2)" and
    s1: "holds (s0\<lparr>message_buffer := mb, message_buffer_index := (message_buffer_index s + 1) mod 2\<rparr>)
          (Some (message_buffer_index s)) m" "m \<noteq> []" "nul_free m" and
    keep: "\<And>j txt. j \<noteq> message_buffer_index s \<Longrightarrow> holds s0 (Some j) txt \<Longrightarrow>
      holds (s0\<lparr>message_buffer := mb, message_buffer_index := (message_buffer_index s + 1) mod 2\<rparr>) (Some j) txt" and
    run: "pcut_failed_assertion_fmt E filename line fmt args s0 = pcut_failed_assertion E (message_buffer_index s)
      (s0\<lparr>message_buffer := mb, message_buffer_index := (message_buffer_index s + 1) mod 2\<rparr>)"
    by (auto simp: Let_def s0)
  define s1 where "s1 = s0\<lparr>message_buffer := mb, message_buffer_index := (message_buffer_index s + 1) mod 2\<rparr>"
  have e1: "holds s1 (prev_message s1) e"
    using s0 keep pm by (cases "prev_message s") (auto simp: s1_def)
  have "\<not> execute_teardown_on_failure s1" "deref (current_test s1) s1 = Some it"
    "bufs (message_buffer s1) (message_buffer_index s1)"
    using s0 mb deref_cong [of s1 s0] by (simp_all add: s1_def)
  from failed_quiet [OF s1 [folded s1_def] e1 this, of E] obtain mb' where
    mb': "bufs mb' (message_buffer_index s1)" and
    run': "pcut_failed_assertion E (message_buffer_index s) s1 = (left s1, settled mb' (message_buffer_index s1)
       (finish it PCUT_OUTCOME_FAIL e m (s1\<lparr>trace := trace s1 @ acts_of s1 [Message m]\<rparr>)))" by blast
  have "s1\<lparr>trace := trace s1 @ acts_of s1 [Message m]\<rparr> =
      s\<lparr>trace := trace s @ acts_of s [Did as, Message m], user := u, message_buffer := mb,
        message_buffer_index := (message_buffer_index s + 1) mod 2\<rparr>"
    by (simp add: s1_def s0_def do_acts_def)
  with run run' mb' have "\<exists>mb i. bufs mb i \<and> run_setup_teardown E td s = (left s, settled mb i
        (finish it PCUT_OUTCOME_FAIL e m (s\<lparr>trace := trace s @ acts_of s [Did as, Message m], user := u\<rparr>)))"
    using eff U_assert
    by (intro exI [of _ mb'] exI [of _ "message_buffer_index s1"])
      (simp add: call_opt_run s0_def [symmetric] s1_def [symmetric] settled_finish,
       simp add: s1_def s0_def)
  with m U_assert show ?thesis by simp
qed (use eff in \<open>simp_all add: call_opt_run call_end_def\<close>)

text \<open>The state in which the tear-down starts after a failure with the message \<open>m\<close>.\<close>

definition failing :: "bytes list \<Rightarrow> nat \<Rightarrow> string \<Rightarrow> 'u process \<Rightarrow> 'u process" where
  "failing mb i m s = s\<lparr>message_buffer := mb, message_buffer_index := (i + 1) mod 2,
     trace := trace s @ acts_of s [Message m], prev_message := Some i, execute_teardown_on_failure := False\<rparr>"

lemma failing_simps [simp]:
  "message_buffer (failing mb i m s) = mb" "message_buffer_index (failing mb i m s) = (i + 1) mod 2"
  "items (failing mb i m s) = items s" "current_test (failing mb i m s) = current_test s"
  "user (failing mb i m s) = user s" "prev_message (failing mb i m s) = Some i"
  "report_test_result (failing mb i m s) = report_test_result s" "left (failing mb i m s) = left s"
  "\<not> execute_teardown_on_failure (failing mb i m s)" "acts_of (failing mb i m s) es = acts_of s es"
  by (simp_all add: failing_def)

lemma settled_failing:
  "settled mb' j (finish it c e t ((failing mb i m s)\<lparr>trace := trace (failing mb i m s) @ acts_of s es, user := u\<rparr>)) =
   settled mb' j (finish it c e t (s\<lparr>trace := trace s @ acts_of s (Message m # es), user := u\<rparr>))"
proof -
  have "(failing mb i m s)\<lparr>trace := trace (failing mb i m s) @ acts_of s es, user := u\<rparr> =
      s\<lparr>trace := trace s @ acts_of s (Message m # es), user := u, message_buffer := mb,
        message_buffer_index := (i + 1) mod 2, prev_message := Some i, execute_teardown_on_failure := False\<rparr>"
    by (simp add: failing_def acts_of_Message [of s m es])
  then show ?thesis by (simp only: settled_finish)
qed

text \<open>A failed assertion in the test runs the tear-down in such a state, then the failure is reported.\<close>

lemma failed_to_teardown:
  assumes code: "code_ok E" and ok: "end_ok (U_assert filename line fmt args)"
    and m: "call_end (U_assert filename line fmt args) = Msg m"
    and flag: "execute_teardown_on_failure s" and it: "deref (current_test s) s = Some it"
    and suite: "suite_item s = Some suite" and bufs: "buffers_ok s" and i: "i = message_buffer_index s"
  shows "\<exists>mb. bufs mb ((i + 1) mod 2) \<and> holds (failing mb i m s) (Some i) m \<and>
    deref (current_test s) (failing mb i m s) = Some it \<and> buffers_ok (failing mb i m s) \<and>
    pcut_failed_assertion_fmt E filename line fmt args s =
      and_then (and_then (run_setup_teardown E (teardown_func suite) (failing mb i m s))
        (\<lambda>_ s. if report_test_result s then report_failure (Some i) None s else (Returned (), s)))
      (\<lambda>_ s. leave_test PCUT_OUTCOME_FAIL (s\<lparr>prev_message := None\<rparr>))"
proof -
  from failed_fmt_call [OF bufs ok m, of E] obtain mb where
    mb: "bufs mb ((i + 1) mod 2)" and
    hm: "holds (s\<lparr>message_buffer := mb, message_buffer_index := (i + 1) mod 2\<rparr>) (Some i) m" "m \<noteq> []" "nul_free m" and
    run: "pcut_failed_assertion_fmt E filename line fmt args s = pcut_failed_assertion E i
      (s\<lparr>message_buffer := mb, message_buffer_index := (i + 1) mod 2\<rparr>)"
    by (auto simp: Let_def i)
  define s1 where "s1 = s\<lparr>message_buffer := mb, message_buffer_index := (i + 1) mod 2\<rparr>"
  define s2 where "s2 = s1\<lparr>trace := trace s @ acts_of s [Message m]\<rparr>"
  have s2: "(if print_test_error s1 then print_message i s1 else (Returned (), s1)) = (Returned (), s2)"
    using print_message_call [OF hm] by (simp add: s1_def s2_def acts_of_def emit_def)
  have frame: "execute_teardown_on_failure s2" "suite_item s2 = Some suite"
    "s2\<lparr>execute_teardown_on_failure := False, prev_message := Some i\<rparr> = failing mb i m s"
    using flag suite suite_item_cong [of s2 s] by (simp_all add: s1_def s2_def failing_def)
  have "pcut_failed_assertion_fmt E filename line fmt args s =
      and_then (and_then (run_setup_teardown E (teardown_func suite) (failing mb i m s))
        (\<lambda>_ s. if report_test_result s then report_failure (Some i) None s else (Returned (), s)))
      (\<lambda>_ s. leave_test PCUT_OUTCOME_FAIL (s\<lparr>prev_message := None\<rparr>))"
    by (simp only: run [folded s1_def] pcut_failed_assertion.simps s2 and_then_simps frame if_True lift_opt_simps)
  moreover have "holds (failing mb i m s) (Some i) m" "deref (current_test s) (failing mb i m s) = Some it"
    "buffers_ok (failing mb i m s)"
    using hm(1) it mb holds_cong [of "failing mb i m s" s1] deref_cong [of "failing mb i m s" s]
    by (simp_all add: s1_def [symmetric] buffers_ok_bufs, simp_all add: s1_def)
  ultimately show ?thesis using mb by blast
qed

text \<open>The report after a tear-down that came to its end.\<close>

lemma report_after_teardown:
  assumes "deref (current_test s) s = Some it" and "holds s (Some i) m" and "bufs (message_buffer s) j"
    and "message_buffer_index s = j" and "\<not> execute_teardown_on_failure s"
  shows "\<exists>mb. bufs mb j \<and>
    and_then (if report_test_result s then report_failure (Some i) None s else (Returned (), s))
      (\<lambda>_ s. leave_test PCUT_OUTCOME_FAIL (s\<lparr>prev_message := None\<rparr>)) =
    (left s, settled mb j (finish it PCUT_OUTCOME_FAIL m [] s))"
proof -
  have "\<exists>mb. bufs mb j \<and> (if report_test_result s then report_failure (Some i) None s else (Returned (), s)) =
      (Returned (), (finish it PCUT_OUTCOME_FAIL m [] s)\<lparr>message_buffer := mb\<rparr>)"
  proof (cases "report_test_result s")
    case True
    have "holds s None []" by simp
    from report_failure_call [OF assms(1,2) this assms(3)] True show ?thesis by (auto simp: finish_def)
  next
    case False
    have "s\<lparr>message_buffer := message_buffer s\<rparr> = s" by simp
    with False assms(3) show ?thesis by (auto simp: finish_def intro!: exI [of _ "message_buffer s"])
  qed
  then obtain mb where mb: "bufs mb j" "(if report_test_result s then report_failure (Some i) None s else (Returned (), s)) =
      (Returned (), (finish it PCUT_OUTCOME_FAIL m [] s)\<lparr>message_buffer := mb\<rparr>)" by blast
  have "message_buffer_index (finish it PCUT_OUTCOME_FAIL m [] s) = j"
    "\<not> execute_teardown_on_failure (finish it PCUT_OUTCOME_FAIL m [] s)"
    using assms(4,5) by (simp_all add: finish_def frame_simps)
  note settle = settled_eq [OF this]
  have "left (finish it PCUT_OUTCOME_FAIL m [] s) = left s" by (simp add: finish_def left_def frame_simps)
  with mb show ?thesis by (intro exI [of _ mb]) (simp add: left_leave settle)
qed

text \<open>A failed assertion in the test or its set-up.\<close>

lemma failed_in_test:
  assumes code: "code_ok E" and ok: "end_ok (U_assert filename line fmt args)"
    and m: "call_end (U_assert filename line fmt args) = Msg m"
    and flag: "execute_teardown_on_failure s" and it: "deref (current_test s) s = Some it"
    and suite: "suite_item s = Some suite" and bufs: "buffers_ok s"
  shows "fails_as s it (after_failure E (teardown_func suite) m (user s))
    (pcut_failed_assertion_fmt E filename line fmt args s)"
proof -
  define i where "i = message_buffer_index s"
  have i: "(i + 1) mod 2 \<noteq> i" by presburger
  from failed_to_teardown [OF assms i_def] obtain mb where
    mb: "bufs mb ((i + 1) mod 2)" and h: "holds (failing mb i m s) (Some i) m"
      "deref (current_test s) (failing mb i m s) = Some it" "buffers_ok (failing mb i m s)" and
    run: "pcut_failed_assertion_fmt E filename line fmt args s =
      and_then (and_then (run_setup_teardown E (teardown_func suite) (failing mb i m s))
        (\<lambda>_ s. if report_test_result s then report_failure (Some i) None s else (Returned (), s)))
      (\<lambda>_ s. leave_test PCUT_OUTCOME_FAIL (s\<lparr>prev_message := None\<rparr>))" by blast
  let ?f = "failing mb i m s"
  obtain as u ue where eff: "call_opt E (teardown_func suite) (user s) = Effect as u ue" by (metis effect.exhaust)
  have td: "case call_end ue of
      Ok \<Rightarrow> run_setup_teardown E (teardown_func suite) ?f = (Returned (), do_acts as u ?f)
    | Gone p \<Rightarrow> run_setup_teardown E (teardown_func suite) ?f = (Ended p, do_acts as u ?f)
    | Msg m' \<Rightarrow> \<exists>mb i. bufs mb i \<and> run_setup_teardown E (teardown_func suite) ?f = (left ?f, settled mb i
        (finish it PCUT_OUTCOME_FAIL m m' (?f\<lparr>trace := trace ?f @ acts_of ?f [Did as, Message m'], user := u\<rparr>)))"
    by (rule teardown_call) (use code eff h i in auto)
  have did: "do_acts as u ?f = ?f\<lparr>trace := trace ?f @ acts_of s [Did as], user := u\<rparr>" by (simp add: do_acts_def)
  show ?thesis
  proof (cases "call_end ue")
    case Ok
    define s4 where "s4 = do_acts as u ?f"
    have "deref (current_test s4) s4 = Some it" "holds s4 (Some i) m" "bufs (message_buffer s4) ((i + 1) mod 2)"
      "message_buffer_index s4 = (i + 1) mod 2" "\<not> execute_teardown_on_failure s4"
      using h mb holds_cong [of s4 ?f] deref_cong [of s4 ?f] by (simp_all add: s4_def do_acts_def)
    from report_after_teardown [OF this] obtain mb' where mb': "bufs mb' ((i + 1) mod 2)"
      "and_then (if report_test_result s4 then report_failure (Some i) None s4 else (Returned (), s4))
        (\<lambda>_ s. leave_test PCUT_OUTCOME_FAIL (s\<lparr>prev_message := None\<rparr>)) =
       ((left s4, settled mb' ((i + 1) mod 2) (finish it PCUT_OUTCOME_FAIL m [] s4)) :: unit outcome \<times> _)" by blast
    then have "pcut_failed_assertion_fmt E filename line fmt args s =
        (left s4, settled mb' ((i + 1) mod 2) (finish it PCUT_OUTCOME_FAIL m [] s4))"
      using td Ok by (simp add: run s4_def [symmetric] del: if_split)
    moreover have "left s4 = left s" by (simp add: s4_def)
    ultimately show ?thesis using mb'(1) Ok eff
      unfolding s4_def did settled_failing by (auto simp: fails_as_def after_failure_def)
  next
    case (Msg m')
    from td obtain mb' i' where mb': "bufs mb' i'"
      "run_setup_teardown E (teardown_func suite) ?f = (left s, settled mb' i'
        (finish it PCUT_OUTCOME_FAIL m m' (s\<lparr>trace := trace s @ acts_of s [Message m, Did as, Message m'], user := u\<rparr>)))"
      unfolding Msg call_end.case failing_simps settled_failing by blast
    then have "pcut_failed_assertion_fmt E filename line fmt args s = (left s, settled mb' i'
        (finish it PCUT_OUTCOME_FAIL m m' (s\<lparr>trace := trace s @ acts_of s [Message m, Did as, Message m'], user := u\<rparr>)))"
      by (simp only: run and_then_left)
    with Msg eff mb'(1) show ?thesis by (auto simp: fails_as_def after_failure_def)
  next
    case (Gone p)
    with td have "pcut_failed_assertion_fmt E filename line fmt args s = (Ended p, do_acts as u ?f)" by (simp add: run)
    with Gone eff show ?thesis
      by (simp add: fails_as_def after_failure_def did) (simp add: failing_def acts_of_Message [of s m "[Did as]"])
  qed
qed

section \<open>Running a test implements the specification\<close>

lemma fails_as_prepend:
  "fails_as (do_acts as u s) it spec r \<Longrightarrow> fails_as s it (prepend [Did as] spec) r"
  by (auto simp: fails_as_def prepend_def do_acts_def split: prod.splits verdict.splits)

text \<open>A call of user code while the tear-down is armed.\<close>

lemma call_in_test:
  assumes code: "code_ok E" and eff: "call_opt E fo (user s) = Effect as u ue"
    and flag: "execute_teardown_on_failure s" and it: "deref (current_test s) s = Some it"
    and suite: "suite_item s = Some suite" and bufs: "buffers_ok s"
  shows "case call_end ue of
      Ok \<Rightarrow> run_setup_teardown E fo s = (Returned (), do_acts as u s)
    | Gone p \<Rightarrow> run_setup_teardown E fo s = (Ended p, do_acts as u s)
    | Msg m \<Rightarrow> fails_as s it (prepend [Did as] (after_failure E (teardown_func suite) m u))
        (run_setup_teardown E fo s)"
proof (cases ue)
  case (U_assert filename line fmt args)
  obtain m where m: "call_end (U_assert filename line fmt args) = Msg m" by (simp add: call_end_def)
  have "end_ok (U_assert filename line fmt args)"
    using call_opt_ok [OF code, of fo "user s"] eff U_assert by (simp add: effect_ok_def)
  note failed_in_test [OF code this m, of "do_acts as u s" it suite]
  moreover have "deref (current_test (do_acts as u s)) (do_acts as u s) = Some it"
    "suite_item (do_acts as u s) = Some suite"
    using it suite deref_cong [of "do_acts as u s" s] suite_item_cong [of "do_acts as u s" s]
    by (simp_all add: do_acts_def)
  ultimately have "fails_as (do_acts as u s) it (after_failure E (teardown_func suite) m u)
      (run_setup_teardown E fo s)"
    using flag bufs eff U_assert by (simp add: call_opt_run do_acts_def buffers_ok_def)
  with m U_assert show ?thesis by (simp add: fails_as_prepend)
qed (use eff in \<open>simp_all add: call_opt_run call_end_def\<close>)

definition ends_as ::
    "'u process \<Rightarrow> pcut_item \<Rightarrow> event list \<times> 'u \<times> verdict \<Rightarrow> int outcome \<times> 'u process \<Rightarrow> bool" where
  "ends_as s it spec r \<longleftrightarrow>
     (case spec of (es, u, v) \<Rightarrow>
       if v = Passed then \<exists>mb i. bufs mb i \<and> r = (Returned PCUT_OUTCOME_PASS, settled mb i
         (finish it PCUT_OUTCOME_PASS [] [] (s\<lparr>trace := trace s @ acts_of s es, user := u\<rparr>)))
       else fails_as s it spec r)"

text \<open>The calls of \<open>run_test\<close>: the tear-down with the report, and all of them.\<close>

definition run_end :: "'u code \<Rightarrow> 'u process \<Rightarrow> int outcome \<times> 'u process" where
  "run_end E s =
     lift_opt (suite_item s) s (\<lambda>suite s.
     and_then (run_setup_teardown E (teardown_func suite) s) (\<lambda>_ s.
     and_then (if report_test_result s
               then and_then (pcut_report_test_done (current_test s) PCUT_OUTCOME_PASS (None, None, None) s)
                      (\<lambda>_ s. (Returned (), s))
               else (Returned (), s)) (\<lambda>_ s.
     (Returned PCUT_OUTCOME_PASS, s))))"

definition run_calls :: "'u code \<Rightarrow> addr \<Rightarrow> 'u process \<Rightarrow> int outcome \<times> 'u process" where
  "run_calls E test s =
     lift_opt (suite_item s) s (\<lambda>suite s.
     and_then (run_setup_teardown E (setup_func suite) s) (\<lambda>_ s.
     lift_opt (do { it \<leftarrow> items s test; test_func it }) s (\<lambda>f s.
     and_then (call_user E f s) (\<lambda>_ s. run_end E (s\<lparr>execute_teardown_on_failure := False\<rparr>)))))"

lemma report_pass:
  assumes "deref (current_test s) s = Some it"
  shows "(if report_test_result s
      then and_then (pcut_report_test_done (current_test s) PCUT_OUTCOME_PASS (None, None, None) s)
             (\<lambda>_ s. (Returned (), s))
      else (Returned (), s)) = (Returned (), finish it PCUT_OUTCOME_PASS [] [] s)"
  using report_test_done_call [OF assms, of None "[]" None "[]" None "[]" PCUT_OUTCOME_PASS]
  by (auto simp: finish_def msg_text_def)

lemma run_end_spec:
  assumes code: "code_ok E" and flag: "\<not> execute_teardown_on_failure s" and pm: "prev_message s = None"
    and it: "deref (current_test s) s = Some it" and suite: "suite_item s = Some suite" and bufs: "buffers_ok s"
  shows "ends_as s it (run_teardown E (teardown_func suite) (user s)) (run_end E s)"
proof -
  obtain as u ue where eff: "call_opt E (teardown_func suite) (user s) = Effect as u ue"
    by (metis effect.exhaust)
  have td: "case call_end ue of
      Ok \<Rightarrow> run_setup_teardown E (teardown_func suite) s = (Returned (), do_acts as u s)
    | Gone p \<Rightarrow> run_setup_teardown E (teardown_func suite) s = (Ended p, do_acts as u s)
    | Msg m \<Rightarrow> \<exists>mb i. bufs mb i \<and> run_setup_teardown E (teardown_func suite) s = (left s, settled mb i
        (finish it PCUT_OUTCOME_FAIL [] m (s\<lparr>trace := trace s @ acts_of s [Did as, Message m], user := u\<rparr>)))"
    by (rule teardown_call) (use assms eff in auto)
  show ?thesis
  proof (cases "call_end ue")
    case Ok
    have it': "deref (current_test (do_acts as u s)) (do_acts as u s) = Some it"
      using it deref_cong [of "do_acts as u s" s] by (simp add: do_acts_def)
    have "finish it PCUT_OUTCOME_PASS [] [] (do_acts as u s) = settled (message_buffer s) (message_buffer_index s)
        (finish it PCUT_OUTCOME_PASS [] [] (do_acts as u s))"
      using flag pm by (intro process.equality) (simp_all add: settled_def finish_def frame_simps do_acts_def)
    moreover have "run_end E s = (Returned PCUT_OUTCOME_PASS, finish it PCUT_OUTCOME_PASS [] [] (do_acts as u s))"
      using td Ok report_pass [OF it'] suite by (simp add: run_end_def)
    ultimately show ?thesis
      using eff Ok bufs by (auto simp: ends_as_def run_teardown_def do_acts_def buffers_ok_bufs)
  next
    case (Msg m)
    with td obtain mb i where "bufs mb i" "run_setup_teardown E (teardown_func suite) s = (left s, settled mb i
        (finish it PCUT_OUTCOME_FAIL [] m (s\<lparr>trace := trace s @ acts_of s [Did as, Message m], user := u\<rparr>)))"
      by auto
    with Msg eff suite show ?thesis
      by (auto simp: run_end_def ends_as_def run_teardown_def fails_as_def left_def)
  next
    case (Gone p)
    with td eff suite show ?thesis
      by (simp add: run_end_def ends_as_def run_teardown_def fails_as_def do_acts_def)
  qed
qed

lemma fails_as_ends: "fails_as s it spec r \<Longrightarrow> ends_as s it spec r"
  by (auto simp: ends_as_def fails_as_def split: prod.splits)

lemma ends_as_prepend:
  "ends_as (do_acts as u s) it spec r \<Longrightarrow> ends_as s it (prepend [Did as] spec) r"
  using fails_as_prepend [of as u s it spec r]
  by (auto simp: ends_as_def prepend_def do_acts_def split: prod.splits if_splits)

lemma after_failure_not_passed: "snd (snd (after_failure E td m u)) \<noteq> Passed"
  by (auto simp: after_failure_def split: effect.split call_end.split)

text \<open>A call that fails or ends the process skips the rest.\<close>

lemma fails_as_and_then:
  assumes "fails_as s it spec r"
  shows "fails_as s it spec (and_then r k)"
proof -
  obtain a s' where r: "r = (a, s')" by (cases r) auto
  have "\<exists>p. a = Ended p \<and> and_then r k = (Ended p, s') \<or> a = Jumped \<and> and_then r k = (Jumped, s')"
    using assms by (auto simp: fails_as_def left_def r split: prod.splits verdict.splits if_splits)
  then show ?thesis
    using assms by (auto simp: fails_as_def left_def r split: prod.splits verdict.splits if_splits)
qed

text \<open>Only the test of the flag is left to the specification.\<close>

lemma ends_as_flag:
  "ends_as (s\<lparr>execute_teardown_on_failure := f\<rparr>) it spec r = ends_as s it spec r"
proof -
  have "settled mb i (finish it c e t (s\<lparr>execute_teardown_on_failure := f, trace := a, user := u\<rparr>)) =
      settled mb i (finish it c e t (s\<lparr>trace := a, user := u\<rparr>))" for mb i c e t a u
  proof -
    have "s\<lparr>execute_teardown_on_failure := f, trace := a, user := u\<rparr> =
        s\<lparr>trace := a, user := u, execute_teardown_on_failure := f\<rparr>"
      by (intro process.equality) simp_all
    then show ?thesis by (simp only: settled_finish)
  qed
  then show ?thesis
    by (auto simp: ends_as_def fails_as_def split: prod.splits verdict.splits)
qed

text \<open>The body of the test with its tear-down.\<close>

definition run_rest :: "'u code \<Rightarrow> fptr \<Rightarrow> 'u process \<Rightarrow> int outcome \<times> 'u process" where
  "run_rest E f s =
     and_then (call_user E f s) (\<lambda>_ s. run_end E (s\<lparr>execute_teardown_on_failure := False\<rparr>))"

lemma run_rest_spec:
  assumes code: "code_ok E" and flag: "execute_teardown_on_failure s" and pm: "prev_message s = None"
    and it: "deref (current_test s) s = Some it" and suite: "suite_item s = Some suite" and bufs: "buffers_ok s"
  shows "ends_as s it (run_body E f (teardown_func suite) (user s)) (run_rest E f s)"
proof -
  obtain as u ue where eff: "E f (user s) = Effect as u ue" by (metis effect.exhaust)
  then have eff': "call_opt E (Some f) (user s) = Effect as u ue" by (simp add: call_opt_def)
  have rst: "call_user E f s = run_setup_teardown E (Some f) s" by (simp add: run_setup_teardown.simps)
  note call = call_in_test [OF code eff' flag it suite bufs]
  show ?thesis
  proof (cases "call_end ue")
    case Ok
    define s1 where "s1 = (do_acts as u s)\<lparr>execute_teardown_on_failure := False\<rparr>"
    have "ends_as s1 it (run_teardown E (teardown_func suite) (user s1)) (run_end E s1)"
      by (rule run_end_spec) (use assms deref_cong [of s1 s] suite_item_cong [of s1 s] in
        \<open>simp_all add: s1_def do_acts_def buffers_ok_def\<close>)
    then have "ends_as (do_acts as u s) it (run_teardown E (teardown_func suite) u) (run_end E s1)"
      by (simp add: s1_def ends_as_flag do_acts_def)
    then show ?thesis
      using call Ok eff by (simp add: run_rest_def rst run_body_def s1_def ends_as_prepend)
  next
    case (Msg m)
    with call eff show ?thesis
      by (auto simp: run_rest_def rst run_body_def intro!: fails_as_ends fails_as_and_then)
  next
    case (Gone p)
    with call eff show ?thesis
      by (simp add: run_rest_def rst run_body_def ends_as_def fails_as_def prepend_def do_acts_def)
  qed
qed

lemma run_calls_spec:
  assumes code: "code_ok E" and flag: "execute_teardown_on_failure s" and pm: "prev_message s = None"
    and it: "items s test = Some it" and ct: "current_test s = Some test" and f: "test_func it = Some f"
    and suite: "suite_item s = Some suite" and bufs: "buffers_ok s"
  shows "ends_as s it (sandbox E (setup_func suite) f (teardown_func suite) (user s)) (run_calls E test s)"
proof -
  obtain as u ue where eff: "call_opt E (setup_func suite) (user s) = Effect as u ue"
    by (metis effect.exhaust)
  have "deref (current_test s) s = Some it" using it ct by simp
  note call = call_in_test [OF code eff flag this suite bufs]
  show ?thesis
  proof (cases "call_end ue")
    case Ok
    define s1 where "s1 = do_acts as u s"
    have "ends_as s1 it (run_body E f (teardown_func suite) (user s1)) (run_rest E f s1)"
      by (rule run_rest_spec) (use assms deref_cong [of s1 s] suite_item_cong [of s1 s] in
        \<open>simp_all add: s1_def do_acts_def buffers_ok_def\<close>)
    then show ?thesis
      using call Ok eff it f suite
      by (simp add: run_calls_def run_rest_def sandbox_def s1_def ends_as_prepend do_acts_def)
  next
    case (Msg m)
    with call eff suite show ?thesis
      by (auto simp: run_calls_def sandbox_def intro!: fails_as_ends fails_as_and_then)
  next
    case (Gone p)
    with call eff suite show ?thesis
      by (simp add: run_calls_def sandbox_def ends_as_def fails_as_def prepend_def do_acts_def)
  qed
qed

section \<open>The two modes\<close>

definition default_item :: "pcut_item" where
  "default_item = zero_item\<lparr>ident := -1, kind := PCUT_KIND_TESTSUITE, item_name := ''Default''\<rparr>"

text \<open>The suite whose set-up and tear-down are used for a test.\<close>

definition parent_item :: "heap \<Rightarrow> addr \<Rightarrow> pcut_item option" where
  "parent_item h test =
     (case find_parent_loop h (Some test) of
        None \<Rightarrow> None | Some None \<Rightarrow> Some default_item | Some (Some a) \<Rightarrow> h a)"

text \<open>What a process satisfies between two tests.\<close>

definition ready :: "'u process \<Rightarrow> bool" where
  "ready s \<longleftrightarrow> buffers_ok s \<and> prev_message s = None \<and> \<not> default_suite_initialized s \<and>
     (default_suite s = zero_item \<or> default_suite s = default_item)"

lemma ready_start: "ready (start_state h u)"
  by (simp add: ready_def start_state_buffers) (simp add: start_state_def)

text \<open>Running the test and its item, given what the code of the user does.\<close>

definition test_spec :: "'u code \<Rightarrow> heap \<Rightarrow> addr \<Rightarrow> 'u \<Rightarrow> (event list \<times> 'u \<times> verdict) option" where
  "test_spec E h test u =
     do { it \<leftarrow> h test; f \<leftarrow> test_func it; suite \<leftarrow> parent_item h test;
          Some (sandbox E (setup_func suite) f (teardown_func suite) u) }"

lemma find_parent_call:
  assumes "parent_item (items s) test = Some suite" and "ready s"
  shows "\<exists>sp s'. pcut_find_parent_suite (Some test) s = (Returned sp, s') \<and>
     suite_item (s'\<lparr>current_suite := sp, current_test := ct, execute_teardown_on_failure := f\<rparr>) = Some suite \<and>
     (s' = s \<or> s' = s\<lparr>default_suite := default_item\<rparr>)"
proof -
  from assms(1) obtain p where p: "find_parent_loop (items s) (Some test) = Some p"
    by (auto simp: parent_item_def split: option.splits)
  show ?thesis
  proof (cases p)
    case None
    have "init_default_suite_when_needed s = s\<lparr>default_suite := default_item\<rparr>"
      using assms(2) by (auto simp: ready_def init_default_suite_when_needed_def default_item_def zero_item_def)
    with p None assms(1) show ?thesis
      by (simp add: pcut_find_parent_suite_def parent_item_def suite_item_def)
  next
    case (Some a)
    with p assms(1) show ?thesis
      by (simp add: pcut_find_parent_suite_def parent_item_def suite_item_def)
  qed
qed

lemma run_test_body_calls:
  "run_test_body E test s =
     and_then (if report_test_result s then pcut_report_test_start (Some test) s else (Returned (), s)) (\<lambda>_ s.
     and_then (pcut_find_parent_suite (Some test) s) (\<lambda>suite s.
     run_calls E test (s\<lparr>current_suite := suite, current_test := Some test, execute_teardown_on_failure := True\<rparr>)))"
  by (simp add: run_test_body_def run_calls_def run_end_def pcut_hook_before_test_def Let_def)

text \<open>Both modes at once: from the state after the start of the report.\<close>

definition test_state :: "'u process \<Rightarrow> addr \<Rightarrow> suite_ptr \<Rightarrow> pcut_item \<Rightarrow> 'u process" where
  "test_state s test sp d =
     (if report_test_result s then started s else s)\<lparr>default_suite := d, current_suite := sp, current_test := Some test,
       execute_teardown_on_failure := True\<rparr>"

lemma run_test_body_spec:
  assumes "code_ok E" and ready: "ready s" and it: "items s test = Some it"
    and spec: "test_spec E (items s) test (user s) = Some r"
  shows "\<exists>sp d. (d = default_suite s \<or> d = default_item) \<and>
    ends_as (test_state s test sp d) it r (run_test_body E test s)"
proof -
  from spec it obtain f suite where f: "test_func it = Some f"
    and suite: "parent_item (items s) test = Some suite"
    and r: "r = sandbox E (setup_func suite) f (teardown_func suite) (user s)"
    by (auto simp: test_spec_def bind_Some_conv)
  define s0 where "s0 = (if report_test_result s then started s else s)"
  have start: "(if report_test_result s then pcut_report_test_start (Some test) s else (Returned (), s)) =
      (Returned (), s0)"
    using report_test_start_call [OF it] by (simp add: s0_def)
  have frame: "items s0 = items s" "user s0 = user s" "default_suite s0 = default_suite s"
    "default_suite_initialized s0 = default_suite_initialized s" "buffers_ok s0 = buffers_ok s"
    "prev_message s0 = prev_message s"
    by (simp_all add: s0_def frame_simps buffers_ok_def) (simp_all add: started_def set_reports_def split: option.split)
  have "parent_item (items s0) test = Some suite" "ready s0"
    using suite ready by (simp_all add: ready_def frame)
  from find_parent_call [OF this] obtain sp s' where
    s': "pcut_find_parent_suite (Some test) s0 = (Returned sp, s')" "s' = s0 \<or> s' = s0\<lparr>default_suite := default_item\<rparr>"
      "suite_item (s'\<lparr>current_suite := sp, current_test := Some test, execute_teardown_on_failure := True\<rparr>) = Some suite"
    by blast
  define d where "d = default_suite s'"
  have d: "d = default_suite s \<or> d = default_item" using s'(2) frame by (auto simp: d_def)
  have s'_eq: "s' = s0\<lparr>default_suite := d\<rparr>" using s'(2) by (auto simp: d_def)
  have ts: "test_state s test sp d =
      s'\<lparr>current_suite := sp, current_test := Some test, execute_teardown_on_failure := True\<rparr>"
    by (simp add: test_state_def s0_def [symmetric] s'_eq)
  have "ends_as (test_state s test sp d) it
      (sandbox E (setup_func suite) f (teardown_func suite) (user (test_state s test sp d)))
      (run_calls E test (test_state s test sp d))"
    by (rule run_calls_spec) (use assms f s'(3) s'_eq frame in
      \<open>simp_all add: ts ready_def buffers_ok_def\<close>)
  moreover have "user (test_state s test sp d) = user s" using s'_eq frame by (simp add: ts)
  ultimately show ?thesis
    using d r by (intro exI [of _ sp] exI [of _ d]) (simp add: run_test_body_calls start s'(1) ts)
qed

definition verdict_status :: "verdict \<Rightarrow> int outcome" where
  "verdict_status v =
     (case v of Passed \<Rightarrow> Returned PCUT_OUTCOME_PASS
      | Failed _ _ \<Rightarrow> Ended (Exited PCUT_OUTCOME_FAIL)
      | Died p \<Rightarrow> Ended p)"

lemma forked_run:
  assumes "code_ok E" "ready s" "items s test = Some it"
    and spec: "test_spec E (items s) test (user s) = Some (es, u, v)"
  shows "fst (pcut_run_test_forked E test s) = verdict_status v \<and>
    trace (snd (pcut_run_test_forked E test s)) = trace s @ forked_acts es \<and>
    user (snd (pcut_run_test_forked E test s)) = u"
proof -
  define s1 where "s1 = s\<lparr>report_test_result := False, print_test_error := True, leave_means_exit := True\<rparr>"
  have "ready s1" "items s1 test = Some it" "test_spec E (items s1) test (user s1) = Some (es, u, v)"
    using assms by (simp_all add: s1_def ready_def buffers_ok_def)
  from run_test_body_spec [OF assms(1) this] obtain sp d where
    e: "ends_as (test_state s1 test sp d) it (es, u, v) (run_test_body E test s1)" by blast
  have "\<not> report_test_result (test_state s1 test sp d)" "print_test_error (test_state s1 test sp d)"
    "leave_means_exit (test_state s1 test sp d)" "trace (test_state s1 test sp d) = trace s"
    by (simp_all add: test_state_def s1_def)
  with e have "fst (run_test E test s1) = verdict_status v \<and>
      trace (snd (run_test E test s1)) = trace s @ forked_acts es \<and> user (snd (run_test E test s1)) = u"
    by (cases v) (auto simp: ends_as_def fails_as_def run_test_def verdict_status_def left_def finish_def
        settled_def acts_of_def split: prod.splits outcome.splits)
  then show ?thesis
    by (cases "run_test E test s1"; cases "fst (run_test E test s1)")
      (auto simp: pcut_run_test_forked_def s1_def [symmetric])
qed

definition verdict_messages :: "verdict \<Rightarrow> string \<times> string" where
  "verdict_messages v = (case v of Failed e t \<Rightarrow> (e, t) | _ \<Rightarrow> ([], []))"

definition verdict_outcome :: "verdict \<Rightarrow> int" where
  "verdict_outcome v = (case v of Passed \<Rightarrow> PCUT_OUTCOME_PASS | Failed _ _ \<Rightarrow> PCUT_OUTCOME_FAIL
     | Died _ \<Rightarrow> PCUT_OUTCOME_INTERNAL_ERROR)"

lemma reported_acts:
  assumes "report_ops s = Some h"
  shows "trace (reported n c e t x s) = trace s @ [Out (entry_of h (reports_of s) n c e t x)]"
    "reports_of (reported n c e t x s) = count_of h c (reports_of s)"
    "default_suite (reported n c e t x s) = default_suite s"
    "default_suite_initialized (reported n c e t x s) = default_suite_initialized s"
  using assms by (simp_all add: reported_def emit_def set_reports_def reports_of_def)

lemma reports_of_started:
  "report_ops s = Some h \<Longrightarrow> reports_of (started s) = start_of h (reports_of s)"
  by (simp add: started_def reports_of_def set_reports_def)

lemma started_default [frame_simps]:
  "default_suite (started s) = default_suite s" "default_suite_initialized (started s) = default_suite_initialized s"
  by (simp_all add: started_def set_reports_def split: option.split)

text \<open>The entry of the report, and the counters, for a test with verdict \<open>v\<close>.\<close>

definition verdict_entry :: "handler \<Rightarrow> reports \<Rightarrow> string \<Rightarrow> verdict \<Rightarrow> string" where
  "verdict_entry h r name v =
     entry_of h (start_of h r) name (verdict_outcome v) (fst (verdict_messages v)) (snd (verdict_messages v)) []"

definition verdict_reports :: "handler \<Rightarrow> reports \<Rightarrow> verdict \<Rightarrow> reports" where
  "verdict_reports h r v = count_of h (verdict_outcome v) (start_of h r)"

lemma single_run:
  assumes "code_ok E" "ready s" "items s test = Some it" and h: "report_ops s = Some h"
    and spec: "test_spec E (items s) test (user s) = Some (es, u, v)" and v: "\<And>p. v \<noteq> Died p"
  shows "\<exists>s'. pcut_run_test_single E test s = (Returned (verdict_outcome v), s') \<and> ready s' \<and>
    trace s' = trace s @ single_acts es @ [Out (verdict_entry h (reports_of s) (item_name it) v)] \<and>
    reports_of s' = verdict_reports h (reports_of s) v \<and>
    user s' = u \<and> items s' = items s \<and> pcut_run_mode s' = pcut_run_mode s \<and> report_ops s' = report_ops s"
proof -
  define s1 where "s1 = s\<lparr>report_test_result := True, print_test_error := False, leave_means_exit := False\<rparr>"
  have r1: "reports_of s1 = reports_of s" by (simp add: s1_def reports_of_def)
  have "ready s1" "items s1 test = Some it" "test_spec E (items s1) test (user s1) = Some (es, u, v)"
    using assms by (simp_all add: s1_def ready_def buffers_ok_def)
  from run_test_body_spec [OF assms(1) this] obtain sp d where
    d: "d = default_suite s1 \<or> d = default_item" and
    e: "ends_as (test_state s1 test sp d) it (es, u, v) (run_test_body E test s1)" by blast
  define t where "t = (test_state s1 test sp d)\<lparr>trace := trace s @ single_acts es, user := u\<rparr>"
  have ts: "test_state s1 test sp d = (started s1)\<lparr>default_suite := d, current_suite := sp, current_test := Some test,
       execute_teardown_on_failure := True\<rparr>"
    by (simp add: test_state_def s1_def)
  have t: "report_ops t = Some h" "reports_of t = start_of h (reports_of s)" "report_test_result t"
    "default_suite t = d" "\<not> default_suite_initialized t" "items t = items s" "pcut_run_mode t = pcut_run_mode s"
    "user t = u" "trace t = trace s @ single_acts es"
    using h assms(2) reports_of_started [of s1 h]
    by (simp_all add: t_def ts frame_simps) (simp_all add: s1_def reports_of_def ready_def)
  let ?fin = "\<lambda>mb i. settled mb i (finish it (verdict_outcome v) (fst (verdict_messages v)) (snd (verdict_messages v)) t)"
  have "trace (started s1) = trace s" "acts_of (test_state s1 test sp d) es = single_acts es"
    by (simp_all add: ts frame_simps acts_of_def) (simp_all add: s1_def)
  then have tt: "(test_state s1 test sp d)\<lparr>trace := trace (test_state s1 test sp d) @ acts_of (test_state s1 test sp d) es,
      user := u\<rparr> = t"
    by (simp add: t_def ts)
  have lft: "(left (test_state s1 test sp d) :: int outcome) = Jumped" by (simp add: left_def ts frame_simps) (simp add: s1_def)
  obtain mb i where mb: "bufs mb i" and run: "run_test E test s1 = (Returned (verdict_outcome v), ?fin mb i)"
    using e v lft by (cases v) (auto simp: ends_as_def fails_as_def tt run_test_def verdict_outcome_def verdict_messages_def)
  have fin: "ready (?fin mb i)"
    "trace (?fin mb i) = trace s @ single_acts es @ [Out (verdict_entry h (reports_of s) (item_name it) v)]"
    "reports_of (?fin mb i) = verdict_reports h (reports_of s) v"
    "user (?fin mb i) = u" "items (?fin mb i) = items s" "pcut_run_mode (?fin mb i) = pcut_run_mode s"
    "report_ops (?fin mb i) = report_ops s"
    using mb d assms(2) reported_acts [OF t(1)] t h
    by (simp_all add: ready_def settled_def finish_def frame_simps buffers_ok_bufs verdict_entry_def verdict_reports_def
        reports_of_def) (auto simp: s1_def)
  then show ?thesis
    using run
    by (simp add: pcut_run_test_single_def s1_def [symmetric])
      (simp add: ready_def buffers_ok_def reports_of_def)
qed

end
