(* ===== verification/MainLoop.thy ===== *)
theory MainLoop
  imports Printing RunSpec
begin

text \<open>
  The control loop, \<^verbatim>\<open>src/main.c\<close>.  The function that runs a test in a process of its own
  (\<open>pcut_run_test_forking\<close>) is a parameter, for the systems it exists for; its first argument is
  the path of the program.  \<open>argv\<close> is the list of the argument strings.

  Loops over the items are \<^theory_text>\<open>partial_function (option)\<close>: no result means that the loop runs for
  ever.  Reading through a bad pointer is the outcome \<open>Fault\<close>.
\<close>

type_synonym 'u forking = "bytes option \<Rightarrow> addr \<Rightarrow> 'u process \<Rightarrow> int outcome \<times> 'u process"

section \<open>Arguments and lookup\<close>

text \<open>The result is the number, if the argument is the option; \<open>value\<close> is unchanged otherwise.\<close>

definition pcut_is_arg_with_number :: "bytes \<Rightarrow> bytes \<Rightarrow> int option option" where
  "pcut_is_arg_with_number arg opt =
     do { opt_len \<leftarrow> pcut_str_size opt;
          eq \<leftarrow> pcut_str_start_equals arg opt opt_len;
          if \<not> eq then Some None
          else do { v \<leftarrow> pcut_str_to_int (drop opt_len arg); Some (Some v) } }"

partial_function (option) find_by_id_loop :: "heap \<Rightarrow> ptr \<Rightarrow> int \<Rightarrow> ptr option" where [code]:
  "find_by_id_loop h it i =
     (case it of
        None \<Rightarrow> Some None
      | Some a \<Rightarrow>
          do { item \<leftarrow> h a;
               if ident item = i then Some it
               else do { it \<leftarrow> pcut_get_real_next h it; find_by_id_loop h it i } })"

definition pcut_find_by_id :: "heap \<Rightarrow> ptr \<Rightarrow> int \<Rightarrow> ptr option" where
  "pcut_find_by_id h first i = do { it \<leftarrow> pcut_get_real h first; find_by_id_loop h it i }"

section \<open>Set-up and tear-down functions\<close>

partial_function (option) callbacks_loop :: "heap \<Rightarrow> ptr \<Rightarrow> ptr \<Rightarrow> heap option" where [code]:
  "callbacks_loop h active_suite it =
     (case it of
        None \<Rightarrow> Some h
      | Some a \<Rightarrow>
          do { item \<leftarrow> h a;
               h \<leftarrow> (case kind item of
                       PCUT_KIND_SETUP \<Rightarrow>
                         do { h \<leftarrow> (case active_suite of None \<Rightarrow> Some h
                                    | Some s \<Rightarrow> upd s (setup_func_update (\<lambda>_. setup_func item)) h);
                              upd a (kind_update (\<lambda>_. PCUT_KIND_SKIP)) h }
                     | PCUT_KIND_TEARDOWN \<Rightarrow>
                         do { h \<leftarrow> (case active_suite of None \<Rightarrow> Some h
                                    | Some s \<Rightarrow> upd s (teardown_func_update (\<lambda>_. teardown_func item)) h);
                              upd a (kind_update (\<lambda>_. PCUT_KIND_SKIP)) h }
                     | _ \<Rightarrow> Some h);
               nx \<leftarrow> pcut_get_real_next h it;
               callbacks_loop h (if kind item = PCUT_KIND_TESTSUITE then it else active_suite) nx })"

definition set_setup_teardown_callbacks :: "heap \<Rightarrow> ptr \<Rightarrow> heap option" where
  "set_setup_teardown_callbacks h first = callbacks_loop h None first"

section \<open>Running a suite\<close>

text \<open>Running one test of a suite, in the current mode.\<close>

definition run_one :: "'u code \<Rightarrow> 'u forking \<Rightarrow> bytes option \<Rightarrow> ptr \<Rightarrow> bool \<Rightarrow> addr \<Rightarrow>
    'u process \<Rightarrow> int outcome \<times> 'u process" where
  "run_one E forking prog_path suite is_first_test it s =
     and_then (if is_first_test then pcut_report_suite_start suite s else (Returned (), s)) (\<lambda>_ s.
       if pcut_run_mode s = PCUT_RUN_MODE_FORKING then forking prog_path it s
       else pcut_run_test_single E it s)"

text \<open>The loop over the tests; the result is the item it ends at, the count and the return code.\<close>

partial_function (option) run_suite_loop ::
    "'u code \<Rightarrow> 'u forking \<Rightarrow> bytes option \<Rightarrow> ptr \<Rightarrow> ptr \<Rightarrow> bool \<Rightarrow> int \<Rightarrow> int \<Rightarrow>
     'u process \<Rightarrow> ((ptr \<times> int \<times> int) outcome \<times> 'u process) option" where [code]:
  "run_suite_loop E forking prog_path suite it is_first_test total_count ret_code s =
     (case it of
        None \<Rightarrow> Some (Returned (it, total_count, ret_code), s)
      | Some a \<Rightarrow>
          (case items s a of
             None \<Rightarrow> Some (Fault, s)
           | Some item \<Rightarrow>
               if kind item = PCUT_KIND_TESTSUITE then Some (Returned (it, total_count, ret_code), s)
               else if kind item \<noteq> PCUT_KIND_TEST then
                 (case pcut_get_real_next (items s) it of
                    None \<Rightarrow> Some (Fault, s)
                  | Some nx \<Rightarrow> run_suite_loop E forking prog_path suite nx is_first_test total_count ret_code s)
               else
                 (case run_one E forking prog_path suite is_first_test a s of
                    (Returned ret_code_tmp, s) \<Rightarrow>
                      (case pcut_get_real_next (items s) it of
                         None \<Rightarrow> Some (Fault, s)
                       | Some nx \<Rightarrow>
                           run_suite_loop E forking prog_path suite nx False (total_count + 1)
                             (if ret_code_tmp \<noteq> PCUT_OUTCOME_PASS then PCUT_OUTCOME_FAIL else ret_code) s)
                  | (Jumped, s) \<Rightarrow> Some (Jumped, s)
                  | (Ended e, s) \<Rightarrow> Some (Ended e, s)
                  | (Fault, s) \<Rightarrow> Some (Fault, s))))"

text \<open>\<open>run_suite\<close>, with the result and what it stores in \<open>last\<close>.\<close>

definition run_suite :: "'u code \<Rightarrow> 'u forking \<Rightarrow> bytes option \<Rightarrow> addr \<Rightarrow>
    'u process \<Rightarrow> ((int \<times> ptr) outcome \<times> 'u process) option" where
  "run_suite E forking prog_path suite s =
     (case pcut_get_real_next (items s) (Some suite) of
        None \<Rightarrow> Some (Fault, s)
      | Some it \<Rightarrow>
          if it = None \<or> kind_at (items s) (the it) = PCUT_KIND_TESTSUITE
          then Some (Returned (PCUT_OUTCOME_PASS, it), s)
          else
            map_option (\<lambda>r. and_then r (\<lambda>(it, total_count, ret_code) s.
              and_then (if total_count > 0 then pcut_report_suite_done (Some suite) s else (Returned (), s))
                (\<lambda>_ s. (Returned (ret_code, it), s))))
              (run_suite_loop E forking prog_path (Some suite) it True 0 PCUT_OUTCOME_PASS s))"

section \<open>The main function\<close>

partial_function (option) all_suites_loop ::
    "'u code \<Rightarrow> 'u forking \<Rightarrow> bytes option \<Rightarrow> ptr \<Rightarrow> int \<Rightarrow> 'u process \<Rightarrow>
     (int outcome \<times> 'u process) option" where [code]:
  "all_suites_loop E forking prog_path it rc s =
     (case it of
        None \<Rightarrow> Some (Returned rc, s)
      | Some a \<Rightarrow>
          (case items s a of
             None \<Rightarrow> Some (Fault, s)
           | Some item \<Rightarrow>
               if kind item = PCUT_KIND_TESTSUITE then
                 (case run_suite E forking prog_path a s of
                    None \<Rightarrow> None
                  | Some (Returned (rc_tmp, tmp), s) \<Rightarrow>
                      all_suites_loop E forking prog_path tmp
                        (if rc_tmp \<noteq> PCUT_OUTCOME_PASS then rc_tmp else rc) s
                  | Some (Jumped, s) \<Rightarrow> Some (Jumped, s)
                  | Some (Ended e, s) \<Rightarrow> Some (Ended e, s)
                  | Some (Fault, s) \<Rightarrow> Some (Fault, s))
               else
                 (case pcut_get_real_next (items s) it of
                    None \<Rightarrow> Some (Fault, s)
                  | Some nx \<Rightarrow> all_suites_loop E forking prog_path nx rc s)))"

text \<open>
  The extras of the main function.  A pre-init hook is called with the addresses of \<open>argc\<close> and
  \<open>argv\<close>; \<open>H\<close> says how it changes the arguments.
\<close>

type_synonym hooks = "fptr \<Rightarrow> bytes list \<Rightarrow> bytes list"

fun preinit_loop :: "'u code \<Rightarrow> hooks \<Rightarrow> pcut_main_extra list \<Rightarrow> bytes list \<Rightarrow> 'u process \<Rightarrow>
    bytes list outcome \<times> 'u process" where
  "preinit_loop E H [] argv s = (Fault, s)"
| "preinit_loop E H (x # xs) argv s =
     (if main_extra_type x = PCUT_MAIN_EXTRA_LAST then (Returned argv, s)
      else
        (let s = (if main_extra_type x = PCUT_MAIN_EXTRA_REPORT_XML
                  then pcut_report_register_handler Report_xml s else s)
         in if main_extra_type x = PCUT_MAIN_EXTRA_PREINIT_HOOK
            then lift_opt (preinit_hook x) s (\<lambda>f s.
                 and_then (call_user E f s) (\<lambda>_ s. preinit_loop E H xs (H f argv) s))
            else preinit_loop E H xs argv s))"

fun init_loop :: "'u code \<Rightarrow> pcut_main_extra list \<Rightarrow> 'u process \<Rightarrow> unit outcome \<times> 'u process" where
  "init_loop E [] s = (Fault, s)"
| "init_loop E (x # xs) s =
     (if main_extra_type x = PCUT_MAIN_EXTRA_LAST then (Returned (), s)
      else if main_extra_type x = PCUT_MAIN_EXTRA_INIT_HOOK
      then lift_opt (init_hook x) s (\<lambda>f s. and_then (call_user E f s) (\<lambda>_ s. init_loop E xs s))
      else init_loop E xs s)"

definition empty_main_extra :: "pcut_main_extra list" where
  "empty_main_extra = [\<lparr>main_extra_type = PCUT_MAIN_EXTRA_LAST, init_hook = None, preinit_hook = None\<rparr>]"

text \<open>
  The loop over the arguments: the suite and the test to run, or nothing when the tests were
  listed and the function returns.
\<close>

fun arg_loop :: "bytes list \<Rightarrow> ptr \<Rightarrow> int \<Rightarrow> int \<Rightarrow> 'u process \<Rightarrow> (int \<times> int) option outcome \<times> 'u process" where
  "arg_loop [] first run_only_suite run_only_test s = (Returned (Some (run_only_suite, run_only_test)), s)"
| "arg_loop (arg # args) first run_only_suite run_only_test s =
     lift_opt (pcut_is_arg_with_number arg (cstr ''-s'')) s (\<lambda>suite s.
     lift_opt (pcut_is_arg_with_number arg (cstr ''-t'')) s (\<lambda>test s.
     lift_opt (pcut_str_equals arg (cstr ''-l'')) s (\<lambda>is_l s.
     if is_l then lift_opt (pcut_print_tests (items s) first) s (\<lambda>out s. (Returned None, emit out s))
     else
       lift_opt (pcut_str_equals arg (cstr ''-x'')) s (\<lambda>is_x s.
       lift_opt (pcut_str_equals arg (cstr ''-u'')) s (\<lambda>is_u s.
       arg_loop args first
         (case suite of None \<Rightarrow> run_only_suite | Some n \<Rightarrow> n)
         (case test of None \<Rightarrow> run_only_test | Some n \<Rightarrow> n)
         (let s = (if is_x then pcut_report_register_handler Report_xml s else s)
          in if is_u then s\<lparr>pcut_run_mode := PCUT_RUN_MODE_SINGLE\<rparr> else s))))))"

text \<open>Running a single suite, a single test, or everything.\<close>

definition run_only_suite_id ::
    "'u code \<Rightarrow> 'u forking \<Rightarrow> bytes option \<Rightarrow> ptr \<Rightarrow> int \<Rightarrow> 'u process \<Rightarrow> (int outcome \<times> 'u process) option" where
  "run_only_suite_id E forking prog_path first i s =
     (case pcut_find_by_id (items s) first i of
        None \<Rightarrow> Some (Fault, s)
      | Some None \<Rightarrow> Some (Returned PCUT_OUTCOME_BAD_INVOCATION, emit (''Suite not found, aborting!'' @ [NL]) s)
      | Some (Some suite) \<Rightarrow>
          if kind_at (items s) suite \<noteq> PCUT_KIND_TESTSUITE
          then Some (Returned PCUT_OUTCOME_BAD_INVOCATION, emit (''Invalid suite id!'' @ [NL]) s)
          else map_option (\<lambda>r. and_then r (\<lambda>_ s. (Returned PCUT_OUTCOME_PASS, s)))
            (run_suite E forking prog_path suite s))"

definition run_only_test_id ::
    "'u code \<Rightarrow> ptr \<Rightarrow> int \<Rightarrow> 'u process \<Rightarrow> int outcome \<times> 'u process" where
  "run_only_test_id E first i s =
     lift_opt (pcut_find_by_id (items s) first i) s (\<lambda>test s.
       case test of
         None \<Rightarrow> (Returned PCUT_OUTCOME_BAD_INVOCATION, emit (''Test not found, aborting!'' @ [NL]) s)
       | Some test \<Rightarrow>
           if kind_at (items s) test \<noteq> PCUT_KIND_TEST
           then (Returned PCUT_OUTCOME_BAD_INVOCATION, emit (''Invalid test id!'' @ [NL]) s)
           else if pcut_run_mode s = PCUT_RUN_MODE_SINGLE then pcut_run_test_single E test s
           else pcut_run_test_forked E test s)"

definition run_everything ::
    "'u code \<Rightarrow> 'u forking \<Rightarrow> bytes option \<Rightarrow> ptr \<Rightarrow> 'u process \<Rightarrow> (int outcome \<times> 'u process) option" where
  "run_everything E forking prog_path first s =
     (case pcut_report_init first s of
        (Returned _, s) \<Rightarrow>
          map_option (\<lambda>r. and_then r (\<lambda>rc s. and_then (pcut_report_done s) (\<lambda>_ s. (Returned rc, s))))
            (all_suites_loop E forking prog_path first PCUT_OUTCOME_PASS s)
      | (_, s) \<Rightarrow> Some (Fault, s))"

definition run_selected ::
    "'u code \<Rightarrow> 'u forking \<Rightarrow> bytes option \<Rightarrow> ptr \<Rightarrow> int \<Rightarrow> int \<Rightarrow> 'u process \<Rightarrow> (int outcome \<times> 'u process) option" where
  "run_selected E forking prog_path first run_only_suite run_only_test s =
     (if run_only_suite \<ge> 0 \<and> run_only_test \<ge> 0
      then Some (Returned PCUT_OUTCOME_BAD_INVOCATION, emit (''Specify either -s or -t!'' @ [NL]) s)
      else if run_only_suite > 0 then run_only_suite_id E forking prog_path first run_only_suite s
      else if run_only_test > 0 then Some (run_only_test_id E first run_only_test s)
      else run_everything E forking prog_path first s)"

definition pcut_main ::
    "'u code \<Rightarrow> hooks \<Rightarrow> 'u forking \<Rightarrow> addr \<Rightarrow> bytes list \<Rightarrow> 'u process \<Rightarrow>
     (int outcome \<times> 'u process) option" where
  "pcut_main E H forking last_item argv s =
     (case pcut_fix_list_get_real_head (items s) last_item of
        None \<Rightarrow> Some (Fault, s)
      | Some (h, first) \<Rightarrow>
          (case and_then (lift_opt (h last_item) (s\<lparr>items := h\<rparr>) (\<lambda>it s. (Returned (main_extras it), s)))
             (\<lambda>xs s.
              let main_extras = (case xs of None \<Rightarrow> empty_main_extra | Some xs \<Rightarrow> xs)
              in and_then (preinit_loop E H main_extras argv (pcut_report_register_handler Report_tap s)) (\<lambda>argv s.
                 and_then (arg_loop (drop 1 argv) (Some first) (-1) (-1) s) (\<lambda>sel s.
                 case sel of
                   None \<Rightarrow> (Returned None, s)
                 | Some sel \<Rightarrow>
                     lift_opt (set_setup_teardown_callbacks (items s) (Some first)) s (\<lambda>h s.
                     and_then (init_loop E main_extras (s\<lparr>items := h\<rparr>)) (\<lambda>_ s.
                       (Returned (Some (argv, sel)), s)))))) of
             (Returned None, s) \<Rightarrow> Some (Returned PCUT_OUTCOME_PASS, s)
           | (Returned (Some (argv, run_only_suite, run_only_test)), s) \<Rightarrow>
               run_selected E forking (case argv of [] \<Rightarrow> None | p # _ \<Rightarrow> Some p) (Some first)
                 run_only_suite run_only_test s
           | (Jumped, s) \<Rightarrow> Some (Jumped, s)
           | (Ended e, s) \<Rightarrow> Some (Ended e, s)
           | (Fault, s) \<Rightarrow> Some (Fault, s)))"

end
