(* ===== verification/OsUnix.thy ===== *)
theory OsUnix
  imports RunSpec
begin

text \<open>
  Running a test in a child process on Unix, \<^verbatim>\<open>src/os/unix.c\<close>.  The kernel is a parameter: whether
  \<open>pipe\<close> and \<open>fork\<close> succeed, and what a child with given actions and end delivers to the parent
  until the alarm: the results of the \<open>read\<close> calls on the two pipes and the wait status.
\<close>

section \<open>The kernel\<close>

text \<open>
  \<open>run_child\<close> gets the actions of the child, its end and the seconds of the alarm (none if no
  alarm is set).  Its results are what is available at each call of \<open>read\<close> on the pipe of the
  standard error stream and on the pipe of the standard output, and the status of \<open>wait\<close>.
\<close>

record kernel =
  pipe_stdout_ok :: bool
  pipe_stderr_ok :: bool
  fork_ok :: bool
  strerror :: "int \<Rightarrow> string"
  run_child :: "act list \<Rightarrow> proc_end \<Rightarrow> nat option \<Rightarrow> string list \<times> string list \<times> int"

definition WIFEXITED :: "int \<Rightarrow> bool" where "WIFEXITED status \<longleftrightarrow> status mod 128 = 0"
definition WEXITSTATUS :: "int \<Rightarrow> int" where "WEXITSTATUS status = (status div 256) mod 256"
definition WIFSIGNALED :: "int \<Rightarrow> bool" where
  "WIFSIGNALED status \<longleftrightarrow> 0 < status mod 128 \<and> status mod 128 < 127"

section \<open>Operations\<close>

text \<open>Both buffers are cleared for a new test.\<close>

definition before_test_start :: "ptr \<Rightarrow> 'u process \<Rightarrow> unit outcome \<times> 'u process" where
  "before_test_start test s =
     and_then (pcut_report_test_start test s) (\<lambda>_ s.
       (Returned (), s\<lparr>error_message_buffer := replicate OUTPUT_BUFFER_SIZE NUL,
                       extra_output_buffer := replicate OUTPUT_BUFFER_SIZE NUL\<rparr>))"

text \<open>
  The loop of \<open>read_all\<close>: \<open>off\<close> is the offset of the pointer \<open>buffer\<close> in its array and \<open>n\<close> the
  variable \<open>buffer_size\<close>.  A \<open>read\<close> returns at most \<open>n\<close> bytes; no bytes mean the end of the file
  or an error.
\<close>

fun read_loop :: "string list \<Rightarrow> bytes \<Rightarrow> nat \<Rightarrow> nat \<Rightarrow> (bytes \<times> nat) option" where
  "read_loop [] buffer off n = Some (buffer, off)"
| "read_loop (c # cs) buffer off n =
     (let d = take n c
      in if d = [] then Some (buffer, off)
         else (case store buffer off d of
                 None \<Rightarrow> None
               | Some buffer \<Rightarrow>
                   if n - length d = 0 then Some (buffer, off + length d)
                   else read_loop cs buffer (off + length d) (n - length d)))"

definition read_all :: "string list \<Rightarrow> bytes \<Rightarrow> nat \<Rightarrow> (bytes \<times> nat) option" where
  "read_all reads buffer buffer_size =
     do { (buffer, n) \<leftarrow> read_loop reads buffer 0 buffer_size;
          Some (if n \<noteq> 0 \<and> buffer ! (n - 1) = NL then (buffer[n - 1 := NUL], n - 1) else (buffer, n)) }"

definition convert_wait_status_to_outcome :: "int \<Rightarrow> int" where
  "convert_wait_status_to_outcome status =
     (if WIFEXITED status then
        (if WEXITSTATUS status \<noteq> 0 then PCUT_OUTCOME_FAIL else PCUT_OUTCOME_PASS)
      else if WIFSIGNALED status then PCUT_OUTCOME_INTERNAL_ERROR
      else status)"

text \<open>\<open>alarm\<close> takes an unsigned number of seconds; zero cancels the alarm.\<close>

definition alarm_of :: "int \<Rightarrow> nat option" where
  "alarm_of seconds = (let n = nat (seconds mod 2 ^ 32) in if n = 0 then None else Some n)"

text \<open>What the child does: it runs the test in its own copy of the process and exits.\<close>

definition child_run :: "'u code \<Rightarrow> addr \<Rightarrow> 'u process \<Rightarrow> (act list \<times> proc_end) option" where
  "child_run E test s =
     (case pcut_run_test_forked E test (s\<lparr>trace := []\<rparr>) of
        (Returned outcome, t) \<Rightarrow> Some (trace t, Exited outcome)
      | (Ended e, t) \<Rightarrow> Some (trace t, e)
      | _ \<Rightarrow> None)"

text \<open>A failure before the child exists: the message is formatted and reported.\<close>

definition report_os_failure :: "ptr \<Rightarrow> string \<Rightarrow> 'u process \<Rightarrow> int outcome \<times> 'u process" where
  "report_os_failure test txt s =
     lift_opt (pcut_snprintf (error_message_buffer s) (OUTPUT_BUFFER_SIZE - 1) txt) s (\<lambda>b s.
     and_then (pcut_report_test_done test PCUT_OUTCOME_INTERNAL_ERROR (Some b, None, None)
       (s\<lparr>error_message_buffer := b\<rparr>)) (\<lambda>(b, _, _) s.
     (Returned PCUT_OUTCOME_INTERNAL_ERROR,
      s\<lparr>error_message_buffer := (case b of None \<Rightarrow> error_message_buffer s | Some b \<Rightarrow> b)\<rparr>)))"

definition pcut_run_test_forking :: "kernel \<Rightarrow> 'u code \<Rightarrow> addr \<Rightarrow> 'u process \<Rightarrow> int outcome \<times> 'u process" where
  "pcut_run_test_forking K E test s =
     and_then (before_test_start (Some test) s) (\<lambda>_ s.
     if \<not> pipe_stdout_ok K \<or> \<not> pipe_stderr_ok K
     then report_os_failure (Some test) (''pipe() failed: '' @ strerror K (-1) @ ''.'') s
     else if \<not> fork_ok K then
       lift_opt (pcut_snprintf (error_message_buffer s) (OUTPUT_BUFFER_SIZE - 1)
         (''fork() failed: '' @ strerror K 0 @ ''.'')) s (\<lambda>b s.
       and_then (pcut_report_test_done_unparsed (Some test) PCUT_OUTCOME_INTERNAL_ERROR
           (extra_output_buffer s) OUTPUT_BUFFER_SIZE (s\<lparr>error_message_buffer := b\<rparr>)) (\<lambda>_ s.
         (Returned PCUT_OUTCOME_INTERNAL_ERROR, s)))
     else
       lift_opt (child_run E test s) s (\<lambda>(acts, e) s.
       lift_opt (do { it \<leftarrow> items s test; pcut_get_test_timeout it }) s (\<lambda>t s.
       case run_child K acts e (alarm_of t) of (stderr_reads, stdout_reads, status) \<Rightarrow>
       lift_opt (read_all stderr_reads (extra_output_buffer s) (OUTPUT_BUFFER_SIZE - 1)) s (\<lambda>(b, stderr_size) s.
       lift_opt (read_all stdout_reads b (OUTPUT_BUFFER_SIZE - 1 - stderr_size)) s (\<lambda>(b, _) s.
       let outcome = convert_wait_status_to_outcome status
       in and_then (pcut_report_test_done_unparsed (Some test) outcome b OUTPUT_BUFFER_SIZE
            (s\<lparr>extra_output_buffer := b\<rparr>)) (\<lambda>_ s.
          (Returned outcome, s)))))))"

section \<open>Reading\<close>

text \<open>The bytes that a sequence of reads gives: up to the end of the file.\<close>

definition stream :: "string list \<Rightarrow> string" where
  "stream reads = concat (takeWhile (\<lambda>c. c \<noteq> []) reads)"

lemma stream_simps [simp]: "stream [] = []" "stream (c # cs) = (if c = [] then [] else c @ stream cs)"
  by (simp_all add: stream_def)

lemma read_loop_stream:
  "off + n \<le> length buffer \<Longrightarrow> 0 < n \<Longrightarrow>
   read_loop reads buffer off n =
     (let d = take n (stream reads) in map_option (\<lambda>b. (b, off + length d)) (store buffer off d))"
proof (induction reads arbitrary: buffer off n)
  case Nil
  then show ?case by (simp add: store_def)
next
  case (Cons c cs)
  show ?case
  proof (cases "c = []")
    case True
    with Cons.prems show ?thesis by (simp add: store_def)
  next
    case False
    define d where "d = take n c"
    have d: "d \<noteq> []" "length d \<le> n" using False Cons.prems by (simp_all add: d_def)
    define b where "b = take off buffer @ d @ drop (off + length d) buffer"
    have st: "store buffer off d = Some b" using d Cons.prems by (simp add: store_def b_def)
    show ?thesis
    proof (cases "n - length d = 0")
      case True
      then have "d = take n (stream (c # cs))" using False by (simp add: d_def split: if_splits)
      with True d st show ?thesis by (simp add: d_def [symmetric] Let_def)
    next
      case nz: False
      then have dc: "d = c" using d by (auto simp: d_def)
      have "read_loop cs b (off + length d) (n - length d) =
          (let r = take (n - length d) (stream cs)
           in map_option (\<lambda>b. (b, off + length d + length r)) (store b (off + length d) r))"
        by (rule Cons.IH) (use nz Cons.prems d in \<open>simp_all add: b_def\<close>)
      moreover have "store b (off + length d) r = store buffer off (d @ r)" if "length r \<le> n - length d" for r
        using that Cons.prems d by (simp add: store_def b_def add.commute add.left_commute)
      ultimately show ?thesis
        using nz d st dc False by (simp add: d_def [symmetric] Let_def add.assoc)
    qed
  qed
qed

text \<open>\<open>read_all\<close> does not depend on how the kernel cuts the stream, and drops one final newline.\<close>

definition chomp :: "string \<Rightarrow> string" where
  "chomp s = (if s \<noteq> [] \<and> last s = NL then butlast s else s)"

lemma read_all_stream:
  assumes "n \<le> length buffer" and "0 < n"
  shows "read_all reads buffer n =
    (let d = take n (stream reads); m = chomp d
     in Some (m @ replicate (length d - length m) NUL @ drop (length d) buffer, length m))"
proof -
  define d where "d = take n (stream reads)"
  have len: "length d \<le> n" by (simp add: d_def)
  have loop: "read_loop reads buffer 0 n = Some (d @ drop (length d) buffer, length d)"
    using read_loop_stream [of 0 n buffer reads] assms len by (simp add: Let_def d_def [symmetric] store_def)
  show ?thesis
  proof (cases "d \<noteq> [] \<and> last d = NL")
    case True
    then obtain m where m: "d = m @ [NL]" by (metis append_butlast_last_id)
    with loop show ?thesis by (simp add: read_all_def d_def [symmetric] Let_def chomp_def nth_append list_update_append)
  next
    case False
    then have "d = [] \<or> (d @ drop (length d) buffer) ! (length d - 1) \<noteq> NL"
      by (auto simp: nth_append last_conv_nth)
    with False loop show ?thesis by (auto simp: read_all_def d_def [symmetric] Let_def chomp_def)
  qed
qed

end
