(* ===== verification/UnixSpec.thy ===== *)
theory UnixSpec
  imports OsUnix
begin

text \<open>
  What running a test in a child process on Unix means: the parent reports the verdict of
  \<open>sandbox\<close> with the messages and the standard output of the child, and keeps its own state.
\<close>

section \<open>The output of the child\<close>

text \<open>What a forked test writes to its standard output, as texts and failure messages.\<close>

fun chunks_of :: "event list \<Rightarrow> chunk list" where
  "chunks_of [] = []"
| "chunks_of (Did as # es) = Text (stdout_of as) # chunks_of es"
| "chunks_of (Message m # es) = Fail m # chunks_of es"

lemma stdout_forked: "stdout_of (forked_acts es) = concat (map frame (chunks_of es))"
  by (induction es rule: chunks_of.induct) simp_all

lemma stdio_text_append [simp]: "stdio_text (cs @ ds) = stdio_text cs @ stdio_text ds"
  by (induction cs rule: stdio_text.induct) auto

lemma error_text_append [simp]: "error_text (cs @ ds) = error_text cs @ error_text ds"
  by (induction cs rule: error_text.induct) auto

text \<open>Dropping a final newline of the output drops it from the last text.\<close>

lemma chomp_frames:
  "list_all chunk_ok cs \<Longrightarrow> full = concat (map frame cs) \<Longrightarrow>
   \<exists>cs'. chomp full = concat (map frame cs') \<and> list_all chunk_ok cs' \<and> error_text cs' = error_text cs \<and>
     stdio_text cs' = (if full \<noteq> [] \<and> last full = NL then butlast (stdio_text cs) else stdio_text cs)"
proof (induction cs rule: rev_induct)
  case (snoc c cs)
  show ?case
  proof (cases "frame c = []")
    case True
    then have c: "c = Text []" by (cases c) auto
    with snoc.prems have "list_all chunk_ok cs" "full = concat (map frame cs)" by simp_all
    note IH = snoc.IH [OF this]
    have "error_text (cs @ [c]) = error_text cs" "stdio_text (cs @ [c]) = stdio_text cs"
      by (simp_all add: c)
    with IH show ?thesis by (simp only:)
  next
    case False
    show ?thesis
    proof (cases "last full = NL")
      case True
      with False snoc.prems obtain t where c: "c = Text t" "t \<noteq> []" "last t = NL" by (cases c) auto
      with snoc.prems show ?thesis
        by (intro exI [of _ "cs @ [Text (butlast t)]"])
          (auto simp: chomp_def butlast_append nul_free_def dest: in_set_butlastD)
    next
      case no: False
      with snoc.prems show ?thesis by (intro exI [of _ "cs @ [c]"]) (simp add: chomp_def)
    qed
  qed
qed (auto simp: chomp_def intro: exI [of _ "[]"])

definition kept_stdio :: "event list \<Rightarrow> string" where
  "kept_stdio es =
     (let full = stdout_of (forked_acts es); s = stdio_text (chunks_of es)
      in if full \<noteq> [] \<and> last full = NL then butlast s else s)"

section \<open>The kernel delivers\<close>

definition status_of :: "proc_end \<Rightarrow> int" where
  "status_of e = (case e of Exited c \<Rightarrow> (c mod 256) * 256 | Signaled n \<Rightarrow> n | Hung \<Rightarrow> 0)"

definition unix_outcome :: "verdict \<Rightarrow> int" where
  "unix_outcome v =
     (case v of
        Passed \<Rightarrow> PCUT_OUTCOME_PASS
      | Failed _ _ \<Rightarrow> PCUT_OUTCOME_FAIL
      | Died (Exited c) \<Rightarrow> if c mod 256 = 0 then PCUT_OUTCOME_PASS else PCUT_OUTCOME_FAIL
      | Died _ \<Rightarrow> PCUT_OUTCOME_INTERNAL_ERROR)"

definition end_of :: "verdict \<Rightarrow> proc_end" where
  "end_of v = (case v of Passed \<Rightarrow> Exited PCUT_OUTCOME_PASS | Failed _ _ \<Rightarrow> Exited PCUT_OUTCOME_FAIL | Died p \<Rightarrow> p)"

text \<open>
  The kernel lets the child finish: both streams arrive completely, in pieces of any size, and
  the status says how the child ended.
\<close>

definition delivers :: "kernel \<Rightarrow> act list \<Rightarrow> proc_end \<Rightarrow> nat option \<Rightarrow> bool" where
  "delivers K acts e al \<longleftrightarrow> pipe_stdout_ok K \<and> pipe_stderr_ok K \<and> fork_ok K \<and>
     (case e of Exited _ \<Rightarrow> True | Signaled n \<Rightarrow> 0 < n \<and> n < 127 | Hung \<Rightarrow> False) \<and>
     (case run_child K acts e al of (er, ou, st) \<Rightarrow>
        stream er = stderr_of acts \<and> stream ou = stdout_of acts \<and> st = status_of e)"

text \<open>The kernel kills the child when the alarm goes off, after some prefix of its output.\<close>

definition kills :: "kernel \<Rightarrow> act list \<Rightarrow> proc_end \<Rightarrow> nat option \<Rightarrow> string \<Rightarrow> bool" where
  "kills K acts e al out \<longleftrightarrow> pipe_stdout_ok K \<and> pipe_stderr_ok K \<and> fork_ok K \<and>
     (case run_child K acts e al of (er, ou, st) \<Rightarrow>
        stream er = [] \<and> stream ou = out \<and> (\<exists>r. stdout_of acts = out @ r) \<and> st = 9)"

lemma status_outcome:
  assumes "case end_of v of Exited _ \<Rightarrow> True | Signaled n \<Rightarrow> 0 < n \<and> n < 127 | Hung \<Rightarrow> False"
  shows "convert_wait_status_to_outcome (status_of (end_of v)) = unix_outcome v"
proof -
  have ex: "convert_wait_status_to_outcome (status_of (Exited c)) =
      (if c mod 256 = 0 then PCUT_OUTCOME_PASS else PCUT_OUTCOME_FAIL)" for c
    by (simp add: convert_wait_status_to_outcome_def status_of_def WIFEXITED_def WEXITSTATUS_def)
  have si: "convert_wait_status_to_outcome (status_of (Signaled n)) = PCUT_OUTCOME_INTERNAL_ERROR"
    if "0 < n" "n < 127" for n
    using that by (simp add: convert_wait_status_to_outcome_def status_of_def WIFEXITED_def WIFSIGNALED_def)
  show ?thesis
    using assms ex si by (cases v)
      (simp_all add: end_of_def unix_outcome_def outcome_defs split: proc_end.splits)
qed

lemma child_run_spec:
  assumes "code_ok E" "ready s" "items s test = Some it"
    and "test_spec E (items s) test (user s) = Some (es, u, v)"
  shows "child_run E test s = Some (forked_acts es, end_of v)"
proof -
  have "ready (s\<lparr>trace := []\<rparr>)" using assms(2) by (simp add: ready_def buffers_ok_def)
  from forked_run [OF assms(1) this, of test _ es u v] assms(3,4)
  have "fst (pcut_run_test_forked E test (s\<lparr>trace := []\<rparr>)) = verdict_status v \<and>
      trace (snd (pcut_run_test_forked E test (s\<lparr>trace := []\<rparr>))) = forked_acts es" by simp
  then show ?thesis
    by (cases "pcut_run_test_forked E test (s\<lparr>trace := []\<rparr>)"; cases v)
      (auto simp: child_run_def verdict_status_def end_of_def)
qed

section \<open>The report of the parent\<close>

text \<open>A state after a test differs from the one before in its report, its trace and its buffers only.\<close>

definition carried :: "'u process \<Rightarrow> 'u process \<Rightarrow> bool" where
  "carried s s' \<longleftrightarrow> ready s' \<and> items s' = items s \<and> pcut_run_mode s' = pcut_run_mode s \<and>
     report_ops s' = report_ops s"

lemma filled_text: "nul_free s \<Longrightarrow> length s < n \<Longrightarrow> msg_text (Some (filled s n)) = Some s"
  by (cases "n - length s") (simp_all add: msg_text_def filled_def c_text_app)

lemma report_unparsed_msgs:
  assumes out: "parse_command_output b n BUFFER_SIZE BUFFER_SIZE = Some (xb, eb)"
    and x: "msg_text (Some xb) = Some x" and e: "msg_text (Some eb) = Some e"
    and it: "items s test = Some it" and h: "report_ops s = Some h" and "ready s"
  shows "\<exists>s'. pcut_report_test_done_unparsed (Some test) outcome b n s = (Returned (), s') \<and>
    trace s' = trace s @ [Out (entry_of h (reports_of s) (item_name it) outcome e [] x)] \<and>
    reports_of s' = count_of h outcome (reports_of s) \<and> user s' = user s \<and> carried s s'"
proof -
  define s1 where "s1 = s\<lparr>buffer_for_extra_output := xb, buffer_for_error_messages := eb\<rparr>"
  have s1: "deref (Some test) s1 = Some it" "report_ops s1 = Some h" "reports_of s1 = reports_of s"
    using it h by (simp_all add: s1_def reports_of_def)
  have none: "msg_text None = Some []" by (simp add: msg_text_def)
  from report_test_done_call [OF s1(1) e none x, of outcome]
  obtain m1 m2 m3 where "pcut_report_test_done (Some test) outcome (Some eb, None, Some xb) s1 =
      (Returned (m1, m2, m3), reported (item_name it) outcome e [] x s1)"
    by (metis prod_cases3)
  with out reported_acts [OF s1(2)] s1(3) assms(6) h show ?thesis
    by (simp add: pcut_report_test_done_unparsed_def s1_def [symmetric])
      (simp add: carried_def ready_def frame_simps buffers_ok_def reports_of_def, simp add: s1_def)
qed

lemma report_unparsed_call:
  assumes out: "parse_command_output b n BUFFER_SIZE BUFFER_SIZE = Some (filled x BUFFER_SIZE, filled e BUFFER_SIZE)"
    and "nul_free x" "length x < BUFFER_SIZE" "nul_free e" "length e < BUFFER_SIZE"
    and "items s test = Some it" and "report_ops s = Some h" and "ready s"
  shows "\<exists>s'. pcut_report_test_done_unparsed (Some test) outcome b n s = (Returned (), s') \<and>
    trace s' = trace s @ [Out (entry_of h (reports_of s) (item_name it) outcome e [] x)] \<and>
    reports_of s' = count_of h outcome (reports_of s) \<and> user s' = user s \<and> carried s s'"
  using report_unparsed_msgs [OF out filled_text filled_text] assms by blast

lemma before_test_start_call:
  assumes "items s test = Some it"
  shows "before_test_start (Some test) s =
    (Returned (), (started s)\<lparr>error_message_buffer := replicate OUTPUT_BUFFER_SIZE NUL,
       extra_output_buffer := replicate OUTPUT_BUFFER_SIZE NUL\<rparr>)"
  using report_test_start_call [OF assms] by (simp add: before_test_start_def)

text \<open>Both buffers after the two calls of \<open>read_all\<close>, when the child wrote nothing to its error stream.\<close>

lemma read_stdout:
  assumes "stream er = []" and "stream ou = out" and "length out < OUTPUT_BUFFER_SIZE - 1"
  shows "read_all er (replicate OUTPUT_BUFFER_SIZE NUL) (OUTPUT_BUFFER_SIZE - 1) =
      Some (replicate OUTPUT_BUFFER_SIZE NUL, 0)"
    "\<exists>k n. 2 \<le> k \<and> length (chomp out) + k = OUTPUT_BUFFER_SIZE \<and>
      read_all ou (replicate OUTPUT_BUFFER_SIZE NUL) (OUTPUT_BUFFER_SIZE - 1) =
        Some (chomp out @ replicate k NUL, n)"
proof -
  show "read_all er (replicate OUTPUT_BUFFER_SIZE NUL) (OUTPUT_BUFFER_SIZE - 1) =
      Some (replicate OUTPUT_BUFFER_SIZE NUL, 0)"
    using read_all_stream [of "OUTPUT_BUFFER_SIZE - 1" "replicate OUTPUT_BUFFER_SIZE NUL" er] assms(1)
    by (simp add: chomp_def OUTPUT_BUFFER_SIZE_def)
  have len: "length (chomp out) \<le> length out" by (simp add: chomp_def)
  then have "read_all ou (replicate OUTPUT_BUFFER_SIZE NUL) (OUTPUT_BUFFER_SIZE - 1) =
      Some (chomp out @ replicate (OUTPUT_BUFFER_SIZE - length (chomp out)) NUL, length (chomp out))"
    using read_all_stream [of "OUTPUT_BUFFER_SIZE - 1" "replicate OUTPUT_BUFFER_SIZE NUL" ou] assms(2,3)
    by (simp add: OUTPUT_BUFFER_SIZE_def Let_def replicate_add [symmetric])
  then show "\<exists>k n. 2 \<le> k \<and> length (chomp out) + k = OUTPUT_BUFFER_SIZE \<and>
      read_all ou (replicate OUTPUT_BUFFER_SIZE NUL) (OUTPUT_BUFFER_SIZE - 1) =
        Some (chomp out @ replicate k NUL, n)"
    using len assms(3) by (intro exI conjI) (auto simp: OUTPUT_BUFFER_SIZE_def)
qed

text \<open>The texts of the child fit into the buffers.\<close>

definition fits :: "event list \<Rightarrow> bool" where
  "fits es \<longleftrightarrow> list_all chunk_ok (chunks_of es) \<and> stderr_of (forked_acts es) = [] \<and>
     length (stdout_of (forked_acts es)) < OUTPUT_BUFFER_SIZE - 1 \<and>
     length (stdio_text (chunks_of es)) < BUFFER_SIZE \<and> length (error_text (chunks_of es)) < BUFFER_SIZE"

lemma error_text_nul_free: "list_all chunk_ok cs \<Longrightarrow> nul_free (error_text cs)"
  by (induction cs rule: error_text.induct) auto

lemma stdio_text_nul_free: "list_all chunk_ok cs \<Longrightarrow> nul_free (stdio_text cs)"
  by (induction cs rule: stdio_text.induct) auto

lemma parse_child_output:
  assumes "fits es" and "length (chomp (stdout_of (forked_acts es))) + k = OUTPUT_BUFFER_SIZE" "2 \<le> k"
  shows "parse_command_output (chomp (stdout_of (forked_acts es)) @ replicate k NUL) OUTPUT_BUFFER_SIZE BUFFER_SIZE BUFFER_SIZE =
      Some (filled (kept_stdio es) BUFFER_SIZE, filled (error_text (chunks_of es)) BUFFER_SIZE)"
    "nul_free (kept_stdio es)" "length (kept_stdio es) < BUFFER_SIZE"
    "nul_free (error_text (chunks_of es))" "length (error_text (chunks_of es)) < BUFFER_SIZE"
proof -
  from assms(1) have ok: "list_all chunk_ok (chunks_of es)" by (simp add: fits_def)
  from chomp_frames [OF ok stdout_forked] obtain cs' where
    cs': "chomp (stdout_of (forked_acts es)) = concat (map frame cs')" "list_all chunk_ok cs'"
      "error_text cs' = error_text (chunks_of es)" "stdio_text cs' = kept_stdio es"
    by (auto simp: kept_stdio_def Let_def)
  have kept: "length (kept_stdio es) \<le> length (stdio_text (chunks_of es))"
    by (simp add: kept_stdio_def Let_def)
  have "length (chomp (stdout_of (forked_acts es)) @ replicate k NUL) = OUTPUT_BUFFER_SIZE"
    using assms(2) by simp
  with parse_command_output_frames [OF cs'(2) assms(3), of BUFFER_SIZE BUFFER_SIZE] cs' kept assms(1)
  show "parse_command_output (chomp (stdout_of (forked_acts es)) @ replicate k NUL) OUTPUT_BUFFER_SIZE BUFFER_SIZE BUFFER_SIZE =
      Some (filled (kept_stdio es) BUFFER_SIZE, filled (error_text (chunks_of es)) BUFFER_SIZE)"
    by (simp add: fits_def)
  show "nul_free (kept_stdio es)" "nul_free (error_text (chunks_of es))"
    using stdio_text_nul_free [OF cs'(2)] error_text_nul_free [OF ok] cs'(4) by simp_all
  show "length (kept_stdio es) < BUFFER_SIZE" "length (error_text (chunks_of es)) < BUFFER_SIZE"
    using kept assms(1) by (simp_all add: fits_def)
qed

text \<open>
  The messages and the output that the parent finds in what it has read from the two pipes: both
  streams go through the same buffer, and the parser splits it.
\<close>

definition raw_texts :: "string list \<Rightarrow> string list \<Rightarrow> (string \<times> string) option" where
  "raw_texts er ou =
     do { (b, n) \<leftarrow> read_all er (replicate OUTPUT_BUFFER_SIZE NUL) (OUTPUT_BUFFER_SIZE - 1);
          (b, _) \<leftarrow> read_all ou b (OUTPUT_BUFFER_SIZE - 1 - n);
          (xb, eb) \<leftarrow> parse_command_output b OUTPUT_BUFFER_SIZE BUFFER_SIZE BUFFER_SIZE;
          x \<leftarrow> msg_text (Some xb);
          e \<leftarrow> msg_text (Some eb);
          Some (e, x) }"

lemma raw_texts_reported:
  assumes raw: "raw_texts er ou = Some (e, x)"
    and ready: "ready s" and it: "items s test = Some it" and h: "report_ops s = Some h"
    and s1: "s1 = (started s)\<lparr>error_message_buffer := replicate OUTPUT_BUFFER_SIZE NUL,
       extra_output_buffer := replicate OUTPUT_BUFFER_SIZE NUL\<rparr>"
  obtains b1 n b m s' where "read_all er (replicate OUTPUT_BUFFER_SIZE NUL) (OUTPUT_BUFFER_SIZE - 1) = Some (b1, n)"
    "read_all ou b1 (OUTPUT_BUFFER_SIZE - 1 - n) = Some (b, m)"
    "pcut_report_test_done_unparsed (Some test) outcome b OUTPUT_BUFFER_SIZE (s1\<lparr>extra_output_buffer := b\<rparr>) = (Returned (), s')"
    "trace s' = trace s @ [Out (entry_of h (start_of h (reports_of s)) (item_name it) outcome e [] x)]"
    "reports_of s' = count_of h outcome (start_of h (reports_of s))" "user s' = user s" "carried s s'"
proof -
  from raw obtain b1 n b m xb eb where
    rd: "read_all er (replicate OUTPUT_BUFFER_SIZE NUL) (OUTPUT_BUFFER_SIZE - 1) = Some (b1, n)"
      "read_all ou b1 (OUTPUT_BUFFER_SIZE - 1 - n) = Some (b, m)"
    and pc: "parse_command_output b OUTPUT_BUFFER_SIZE BUFFER_SIZE BUFFER_SIZE = Some (xb, eb)"
    and msg: "msg_text (Some xb) = Some x" "msg_text (Some eb) = Some e"
    by (auto simp: raw_texts_def bind_Some_conv)
  define s2 where "s2 = s1\<lparr>extra_output_buffer := b\<rparr>"
  have s2: "items s2 test = Some it" "report_ops s2 = Some h" "ready s2" "trace s2 = trace s" "user s2 = user s" "carried s s2"
    using ready it h by (simp_all add: s2_def s1 frame_simps ready_def buffers_ok_def carried_def)
  have r: "reports_of s2 = start_of h (reports_of s)"
    using reports_of_started [OF h] by (simp add: s2_def s1 reports_of_def)
  from report_unparsed_msgs [OF pc msg s2(1-3), of outcome] obtain s' where
    s': "pcut_report_test_done_unparsed (Some test) outcome b OUTPUT_BUFFER_SIZE s2 = (Returned (), s')"
      "trace s' = trace s2 @ [Out (entry_of h (reports_of s2) (item_name it) outcome e [] x)]"
      "reports_of s' = count_of h outcome (reports_of s2)" "user s' = user s2" "carried s2 s'"
    by blast
  from that [OF rd s'(1) [unfolded s2_def]] s'(2-5) s2(4-6) r show ?thesis by (simp add: carried_def)
qed

text \<open>Whatever the child does and the kernel makes of it, the parent reports what it finds in the buffer.\<close>

lemma raw_run:
  assumes "code_ok E" and ready: "ready s" and it: "items s test = Some it" and h: "report_ops s = Some h"
    and spec: "test_spec E (items s) test (user s) = Some (es, u, v)"
    and t: "pcut_get_test_timeout it = Some t" and ok: "pipe_stdout_ok K" "pipe_stderr_ok K" "fork_ok K"
    and run: "run_child K (forked_acts es) (end_of v) (alarm_of t) = (er, ou, st)"
    and raw: "raw_texts er ou = Some (e, x)"
  shows "\<exists>s'. pcut_run_test_forking K E test s = (Returned (convert_wait_status_to_outcome st), s') \<and>
    trace s' = trace s @ [Out (entry_of h (start_of h (reports_of s)) (item_name it) (convert_wait_status_to_outcome st) e [] x)] \<and>
    reports_of s' = count_of h (convert_wait_status_to_outcome st) (start_of h (reports_of s)) \<and>
    user s' = user s \<and> carried s s'"
proof -
  define s1 where "s1 = (started s)\<lparr>error_message_buffer := replicate OUTPUT_BUFFER_SIZE NUL,
       extra_output_buffer := replicate OUTPUT_BUFFER_SIZE NUL\<rparr>"
  have s1: "items s1 = items s" "user s1 = user s" "ready s1" "extra_output_buffer s1 = replicate OUTPUT_BUFFER_SIZE NUL"
    using ready by (simp_all add: s1_def frame_simps ready_def buffers_ok_def)
  have child: "child_run E test s1 = Some (forked_acts es, end_of v)"
    using child_run_spec [OF assms(1) s1(3)] it spec s1(1,2) by simp
  from raw_texts_reported [OF raw ready it h s1_def, of "convert_wait_status_to_outcome st"] obtain b1 n b m s' where
    rd: "read_all er (replicate OUTPUT_BUFFER_SIZE NUL) (OUTPUT_BUFFER_SIZE - 1) = Some (b1, n)"
      "read_all ou b1 (OUTPUT_BUFFER_SIZE - 1 - n) = Some (b, m)"
      "pcut_report_test_done_unparsed (Some test) (convert_wait_status_to_outcome st) b OUTPUT_BUFFER_SIZE
        (s1\<lparr>extra_output_buffer := b\<rparr>) = (Returned (), s')"
    and s': "trace s' = trace s @ [Out (entry_of h (start_of h (reports_of s)) (item_name it) (convert_wait_status_to_outcome st) e [] x)]"
      "reports_of s' = count_of h (convert_wait_status_to_outcome st) (start_of h (reports_of s))" "user s' = user s" "carried s s'" .
  have "pcut_run_test_forking K E test s = (Returned (convert_wait_status_to_outcome st), s')"
    using ok child run rd t it s1
    by (simp add: pcut_run_test_forking_def before_test_start_call [OF it] s1_def [symmetric] Let_def)
  with s' show ?thesis by blast
qed

lemma raw_texts_fits:
  assumes "fits es" and "stream er = []" and "stream ou = stdout_of (forked_acts es)"
  shows "raw_texts er ou = Some (error_text (chunks_of es), kept_stdio es)"
proof -
  from read_stdout [OF assms(2,3)] assms(1) obtain k n where k: "2 \<le> k"
    "length (chomp (stdout_of (forked_acts es))) + k = OUTPUT_BUFFER_SIZE"
    "read_all er (replicate OUTPUT_BUFFER_SIZE NUL) (OUTPUT_BUFFER_SIZE - 1) = Some (replicate OUTPUT_BUFFER_SIZE NUL, 0)"
    "read_all ou (replicate OUTPUT_BUFFER_SIZE NUL) (OUTPUT_BUFFER_SIZE - 1) =
        Some (chomp (stdout_of (forked_acts es)) @ replicate k NUL, n)"
    unfolding fits_def by blast
  from parse_child_output [OF assms(1) k(2,1)] filled_text k(3,4) show ?thesis by (simp add: raw_texts_def)
qed

lemma unix_run:
  assumes "code_ok E" and ready: "ready s" and it: "items s test = Some it" and h: "report_ops s = Some h"
    and spec: "test_spec E (items s) test (user s) = Some (es, u, v)"
    and t: "pcut_get_test_timeout it = Some t"
    and del: "delivers K (forked_acts es) (end_of v) (alarm_of t)" and fits: "fits es"
  shows "\<exists>s'. pcut_run_test_forking K E test s = (Returned (unix_outcome v), s') \<and>
    trace s' = trace s @ [Out (entry_of h (start_of h (reports_of s)) (item_name it) (unix_outcome v)
      (error_text (chunks_of es)) [] (kept_stdio es))] \<and>
    reports_of s' = count_of h (unix_outcome v) (start_of h (reports_of s)) \<and>
    user s' = user s \<and> carried s s'"
proof -
  obtain er ou st where run: "run_child K (forked_acts es) (end_of v) (alarm_of t) = (er, ou, st)"
    by (metis prod_cases3)
  with del have d: "pipe_stdout_ok K" "pipe_stderr_ok K" "fork_ok K"
    "stream er = []" "stream ou = stdout_of (forked_acts es)" "convert_wait_status_to_outcome st = unix_outcome v"
    using status_outcome [of v] fits by (auto simp: delivers_def fits_def)
  from raw_run [OF assms(1-6) d(1-3) run raw_texts_fits [OF fits d(4,5)]] show ?thesis by (simp add: d(6))
qed

end
