(* ===== verification/MainSpec.thy ===== *)
theory MainSpec
  imports MainLoop UnixSpec
begin

text \<open>
  What the control loop does with a well-formed list: it runs the tests of every suite in order and
  reports them.  How a test is run is an interface, the locale \<open>launcher\<close>; running it in the
  process of the runner and in a forked child are its instances.
\<close>

section \<open>The interface of the loop to the systems\<close>

text \<open>
  What running a test amounts to: the actions it adds to the process of the runner, the new user
  state there, and the outcome with the two messages and the output that are reported.
\<close>

type_synonym 'u answer = "act list \<times> 'u \<times> int \<times> string \<times> string \<times> string"

locale launcher =
  fixes E :: "'u code" and forking :: "'u forking" and prog_path :: "bytes option"
    and mode :: run_mode and answer :: "heap \<Rightarrow> addr \<Rightarrow> 'u \<Rightarrow> 'u answer option"
  assumes launch_law:
    "pcut_run_mode s = mode \<Longrightarrow> ready s \<Longrightarrow> items s test = Some it \<Longrightarrow> report_ops s = Some h \<Longrightarrow>
     answer (items s) test (user s) = Some (acts, u, outcome, e, t, x) \<Longrightarrow>
     \<exists>s'. (if mode = PCUT_RUN_MODE_FORKING then forking prog_path test s else pcut_run_test_single E test s) =
         (Returned outcome, s') \<and>
       trace s' = trace s @ acts @ [Out (entry_of h (start_of h (reports_of s)) (item_name it) outcome e t x)] \<and>
       reports_of s' = count_of h outcome (start_of h (reports_of s)) \<and> user s' = u \<and> carried s s'"

definition single_promise :: "'u code \<Rightarrow> heap \<Rightarrow> addr \<Rightarrow> 'u \<Rightarrow> 'u answer option" where
  "single_promise E h test u =
     (case test_spec E h test u of
        None \<Rightarrow> None
      | Some (es, u, v) \<Rightarrow>
          (case v of
             Died _ \<Rightarrow> None
           | _ \<Rightarrow> Some (single_acts es, u, verdict_outcome v, fst (verdict_messages v), snd (verdict_messages v), [])))"

definition single_answer :: "'u code \<Rightarrow> heap \<Rightarrow> addr \<Rightarrow> 'u \<Rightarrow> 'u answer option" where
  "single_answer E = (if code_ok E then single_promise E else (\<lambda>_ _ _. None))"

interpretation in_process: launcher E F path PCUT_RUN_MODE_SINGLE "single_answer E"
  for E :: "'u code" and F path
proof
  fix s :: "'u process" and test it h acts u outcome e t x
  assume a: "ready s" "items s test = Some it" "report_ops s = Some h"
    "single_answer E (items s) test (user s) = Some (acts, u, outcome, e, t, x)"
  then obtain es v where v: "code_ok E" "test_spec E (items s) test (user s) = Some (es, u, v)"
    "acts = single_acts es" "outcome = verdict_outcome v" "e = fst (verdict_messages v)"
    "t = snd (verdict_messages v)" "x = []" "\<And>p. v \<noteq> Died p"
    by (auto simp: single_answer_def single_promise_def split: if_splits option.splits verdict.splits)
  from single_run [OF v(1) a(1-3) v(2,8)] show
    "\<exists>s'. (if PCUT_RUN_MODE_SINGLE = PCUT_RUN_MODE_FORKING then F path test s else pcut_run_test_single E test s) =
         (Returned outcome, s') \<and>
       trace s' = trace s @ acts @ [Out (entry_of h (start_of h (reports_of s)) (item_name it) outcome e t x)] \<and>
       reports_of s' = count_of h outcome (start_of h (reports_of s)) \<and> user s' = u \<and> carried s s'"
    by (auto simp: v verdict_entry_def verdict_reports_def carried_def)
qed

definition unix_promise :: "kernel \<Rightarrow> 'u code \<Rightarrow> heap \<Rightarrow> addr \<Rightarrow> 'u \<Rightarrow> 'u answer option" where
  "unix_promise K E h test u =
     do { (es, _, v) \<leftarrow> test_spec E h test u;
          it \<leftarrow> h test;
          t \<leftarrow> pcut_get_test_timeout it;
          if delivers K (forked_acts es) (end_of v) (alarm_of t) \<and> fits es
          then Some ([], u, unix_outcome v, error_text (chunks_of es), [], kept_stdio es)
          else None }"

definition unix_answer :: "kernel \<Rightarrow> 'u code \<Rightarrow> heap \<Rightarrow> addr \<Rightarrow> 'u \<Rightarrow> 'u answer option" where
  "unix_answer K E = (if code_ok E then unix_promise K E else (\<lambda>_ _ _. None))"

interpretation in_child: launcher E "\<lambda>_. pcut_run_test_forking K E" path PCUT_RUN_MODE_FORKING "unix_answer K E"
  for E :: "'u code" and K path
proof
  fix s :: "'u process" and test it h acts u outcome e t x
  assume a: "ready s" "items s test = Some it" "report_ops s = Some h"
    "unix_answer K E (items s) test (user s) = Some (acts, u, outcome, e, t, x)"
  then obtain es u' v tm where v: "code_ok E" "test_spec E (items s) test (user s) = Some (es, u', v)"
    "pcut_get_test_timeout it = Some tm" "delivers K (forked_acts es) (end_of v) (alarm_of tm)" "fits es"
    "acts = []" "u = user s" "outcome = unix_outcome v" "e = error_text (chunks_of es)" "t = []" "x = kept_stdio es"
    by (auto simp: unix_answer_def unix_promise_def bind_Some_conv split: if_splits)
  from unix_run [OF v(1) a(1-3) v(2-5)] show
    "\<exists>s'. (if PCUT_RUN_MODE_FORKING = PCUT_RUN_MODE_FORKING then pcut_run_test_forking K E test s
         else pcut_run_test_single E test s) = (Returned outcome, s') \<and>
       trace s' = trace s @ acts @ [Out (entry_of h (start_of h (reports_of s)) (item_name it) outcome e t x)] \<and>
       reports_of s' = count_of h outcome (start_of h (reports_of s)) \<and> user s' = u \<and> carried s s'"
    by (auto simp: v)
qed

section \<open>The specification of a run\<close>

text \<open>Running a list of tests: the actions, the counters, the user state and whether all passed.\<close>

fun tests_spec :: "(heap \<Rightarrow> addr \<Rightarrow> 'u \<Rightarrow> 'u answer option) \<Rightarrow> handler \<Rightarrow> heap \<Rightarrow> addr list \<Rightarrow> reports \<Rightarrow> 'u \<Rightarrow>
    (act list \<times> reports \<times> 'u \<times> bool) option" where
  "tests_spec answer rp h [] r u = Some ([], r, u, True)"
| "tests_spec answer rp h (a # as) r u =
     (case answer h a u of
        None \<Rightarrow> None
      | Some (acts, u, outcome, e, t, x) \<Rightarrow>
          (case h a of
             None \<Rightarrow> None
           | Some it \<Rightarrow>
               (case tests_spec answer rp h as (count_of rp outcome (start_of rp r)) u of
                  None \<Rightarrow> None
                | Some (acts', r', u', ok) \<Rightarrow>
                    Some (acts @ [Out (entry_of rp (start_of rp r) (item_name it) outcome e t x)] @ acts',
                      r', u', outcome = PCUT_OUTCOME_PASS \<and> ok))))"

fun suite_start_of :: "handler \<Rightarrow> pcut_item \<Rightarrow> reports \<Rightarrow> reports \<times> string" where
  "suite_start_of Report_tap suite r = on_tap (tap_suite_start suite) r"
| "suite_start_of Report_xml suite r = on_xml (xml_suite_start suite) r"

fun suite_done_of :: "handler \<Rightarrow> pcut_item \<Rightarrow> reports \<Rightarrow> reports \<times> string" where
  "suite_done_of Report_tap suite r = on_tap (tap_suite_done suite) r"
| "suite_done_of Report_xml suite r = on_xml (xml_suite_done suite) r"

text \<open>A suite without tests is not mentioned in the report.\<close>

definition suite_spec :: "(heap \<Rightarrow> addr \<Rightarrow> 'u \<Rightarrow> 'u answer option) \<Rightarrow> handler \<Rightarrow> heap \<Rightarrow> addr \<Rightarrow> addr list \<Rightarrow>
    reports \<Rightarrow> 'u \<Rightarrow> (act list \<times> reports \<times> 'u \<times> bool) option" where
  "suite_spec answer rp h suite tests r u =
     (if tests = [] then Some ([], r, u, True)
      else do { it \<leftarrow> h suite;
                (acts, r', u, ok) \<leftarrow> tests_spec answer rp h tests (fst (suite_start_of rp it r)) u;
                Some ([Out (snd (suite_start_of rp it r))] @ acts @ [Out (snd (suite_done_of rp it r'))],
                  fst (suite_done_of rp it r'), u, ok) })"

fun suites_spec :: "(heap \<Rightarrow> addr \<Rightarrow> 'u \<Rightarrow> 'u answer option) \<Rightarrow> handler \<Rightarrow> heap \<Rightarrow> (addr \<times> addr list) list \<Rightarrow>
    reports \<Rightarrow> 'u \<Rightarrow> (act list \<times> reports \<times> 'u \<times> bool) option" where
  "suites_spec answer rp h [] r u = Some ([], r, u, True)"
| "suites_spec answer rp h ((suite, tests) # ss) r u =
     do { (acts, r, u, ok) \<leftarrow> suite_spec answer rp h suite tests r u;
          (acts', r, u, ok') \<leftarrow> suites_spec answer rp h ss r u;
          Some (acts @ acts', r, u, ok \<and> ok') }"

text \<open>The suites of a list with their tests; items before the first suite belong to none.\<close>

definition is_suite :: "heap \<Rightarrow> addr \<Rightarrow> bool" where
  "is_suite h a \<longleftrightarrow> kind_at h a = PCUT_KIND_TESTSUITE"

definition is_test :: "heap \<Rightarrow> addr \<Rightarrow> bool" where
  "is_test h a \<longleftrightarrow> kind_at h a = PCUT_KIND_TEST"

lemma is_suite_Some: "h a = Some it \<Longrightarrow> is_suite h a \<longleftrightarrow> kind it = PCUT_KIND_TESTSUITE"
  by (simp add: is_suite_def kind_at_Some)

lemma is_test_Some: "h a = Some it \<Longrightarrow> is_test h a \<longleftrightarrow> kind it = PCUT_KIND_TEST"
  by (simp add: is_test_def kind_at_Some)

function suites_of :: "heap \<Rightarrow> addr list \<Rightarrow> (addr \<times> addr list) list" where
  "suites_of h [] = []"
| "suites_of h (a # as) =
     (if is_suite h a
      then (a, filter (is_test h) (takeWhile (\<lambda>b. \<not> is_suite h b) as)) #
        suites_of h (dropWhile (\<lambda>b. \<not> is_suite h b) as)
      else suites_of h as)"
  by pat_completeness auto
termination
  by (relation "measure (\<lambda>(_, as). length as)") (auto simp: less_Suc_eq_le length_dropWhile_le)

lemma report_suite_call:
  assumes "items s a = Some it" and "report_ops s = Some h"
  shows "pcut_report_suite_start (Some a) s =
      (Returned (), emit (snd (suite_start_of h it (reports_of s))) (set_reports (fst (suite_start_of h it (reports_of s))) s))"
    "pcut_report_suite_done (Some a) s =
      (Returned (), emit (snd (suite_done_of h it (reports_of s))) (set_reports (fst (suite_done_of h it (reports_of s))) s))"
  using assms
  by (cases h; simp add: pcut_report_suite_start_def pcut_report_suite_done_def report_item_call_def the_op_def
      pcut_report_tap_def pcut_report_xml_def on_tap_def on_xml_def reports_of_def
      tap_suite_start_def tap_suite_done_def xml_suite_start_def xml_suite_done_def)+

section \<open>The loops implement the specification\<close>

text \<open>The counters after the start of the suite, which is reported with its first test.\<close>

definition begun :: "bool \<Rightarrow> handler \<Rightarrow> pcut_item \<Rightarrow> reports \<Rightarrow> reports \<times> act list" where
  "begun first rp suite r =
     (if first then (fst (suite_start_of rp suite r), [Out (snd (suite_start_of rp suite r))]) else (r, []))"

text \<open>The premise of every loop: the state between two tests.\<close>

definition idle :: "run_mode \<Rightarrow> handler \<Rightarrow> 'u process \<Rightarrow> bool" where
  "idle m rp s \<longleftrightarrow> pcut_run_mode s = m \<and> ready s \<and> report_ops s = Some rp"

lemma idle_carried: "idle m rp s \<Longrightarrow> carried s s' \<Longrightarrow> idle m rp s' \<and> items s' = items s"
  by (simp add: idle_def carried_def)

lemma carried_trans: "carried s s' \<Longrightarrow> carried s' s'' \<Longrightarrow> carried s s''"
  by (simp add: carried_def)

lemma carried_refl: "ready s \<Longrightarrow> carried s s"
  by (simp add: carried_def)

text \<open>Calls of the report keep the state idle.\<close>

lemma idle_emit:
  "idle m rp s \<Longrightarrow> idle m rp (emit out (set_reports r s)) \<and> carried s (emit out (set_reports r s)) \<and>
   reports_of (emit out (set_reports r s)) = r \<and> user (emit out (set_reports r s)) = user s \<and>
   trace (emit out (set_reports r s)) = trace s @ [Out out] \<and> items (emit out (set_reports r s)) = items s"
  by (simp add: idle_def carried_def ready_def buffers_ok_def emit_def set_reports_def reports_of_def)

context launcher begin

lemma run_one_spec:
  assumes idle: "idle mode rp s" and suite: "items s suite = Some si" and it: "items s a = Some it"
    and ans: "answer (items s) a (user s) = Some (acts, u, outcome, e, t, x)"
  shows "\<exists>s'. run_one E forking prog_path (Some suite) first a s = (Returned outcome, s') \<and>
    trace s' = trace s @ snd (begun first rp si (reports_of s)) @ acts @
      [Out (entry_of rp (start_of rp (fst (begun first rp si (reports_of s)))) (item_name it) outcome e t x)] \<and>
    reports_of s' = count_of rp outcome (start_of rp (fst (begun first rp si (reports_of s)))) \<and>
    user s' = u \<and> carried s s'"
proof -
  have ops: "report_ops s = Some rp" using idle by (simp add: idle_def)
  define s1 where "s1 = (if first then emit (snd (suite_start_of rp si (reports_of s)))
      (set_reports (fst (suite_start_of rp si (reports_of s))) s) else s)"
  have start: "(if first then pcut_report_suite_start (Some suite) s else (Returned (), s)) = (Returned (), s1)"
    using report_suite_call(1) [OF suite ops] by (simp add: s1_def)
  have s1: "idle mode rp s1" "carried s s1" "user s1 = user s" "items s1 = items s"
    "reports_of s1 = fst (begun first rp si (reports_of s))"
    "trace s1 = trace s @ snd (begun first rp si (reports_of s))"
    using idle idle_emit [OF idle] by (auto simp: s1_def begun_def idle_def intro: carried_refl)
  have "pcut_run_mode s1 = mode" "ready s1" "report_ops s1 = Some rp" using s1(1) by (simp_all add: idle_def)
  from launch_law [OF this(1,2) _ this(3), of a it acts u outcome e t x] it ans s1 obtain s' where
    s': "(if mode = PCUT_RUN_MODE_FORKING then forking prog_path a s1 else pcut_run_test_single E a s1) = (Returned outcome, s')"
    "trace s' = trace s1 @ acts @ [Out (entry_of rp (start_of rp (reports_of s1)) (item_name it) outcome e t x)]"
    "reports_of s' = count_of rp outcome (start_of rp (reports_of s1))" "user s' = u" "carried s1 s'"
    by auto
  have "run_one E forking prog_path (Some suite) first a s = (Returned outcome, s')"
    using s'(1) s1(1) by (simp add: run_one_def start idle_def)
  with s' s1 carried_trans show ?thesis by auto
qed

text \<open>The loop over the items of a suite passes what is no test, and runs what is one.\<close>

lemma run_suite_loop_other:
  assumes "items s c = Some it" and "kind it \<noteq> PCUT_KIND_TESTSUITE" and "kind it \<noteq> PCUT_KIND_TEST"
    and "pcut_get_real_next (items s) (Some c) = Some (hd_ptr (reals (items s) rest) None)"
  shows "run_suite_loop E forking prog_path suite (hd_ptr (reals (items s) (c # rest)) None) first cnt ret s =
    run_suite_loop E forking prog_path suite (hd_ptr (reals (items s) rest) None) first cnt ret s"
  using assms
  by (cases "kind it = PCUT_KIND_SKIP", simp add: kind_at_Some)
    (simp add: kind_at_Some run_suite_loop.simps [of _ _ _ _ "Some c"])

lemma run_suite_loop_test:
  assumes "items s c = Some it" and "kind it = PCUT_KIND_TEST"
    and "pcut_get_real_next (items s) (Some c) = Some (hd_ptr (reals (items s) rest) None)"
    and "run_one E forking prog_path suite first c s = (Returned outcome, s1)" and "items s1 = items s"
  shows "run_suite_loop E forking prog_path suite (hd_ptr (reals (items s) (c # rest)) None) first cnt ret s =
    run_suite_loop E forking prog_path suite (hd_ptr (reals (items s) rest) None) False (cnt + 1)
      (if outcome \<noteq> PCUT_OUTCOME_PASS then PCUT_OUTCOME_FAIL else ret) s1"
  using assms by (simp add: kind_at_Some run_suite_loop.simps [of _ _ _ _ "Some c"])

lemma run_suite_loop_spec:
  "idle mode rp s \<Longrightarrow> items s suite = Some si \<Longrightarrow> dll (items s) p (bs @ seg @ aft) None \<Longrightarrow>
   list_all (\<lambda>a. \<not> is_suite (items s) a) seg \<Longrightarrow> aft = [] \<or> is_suite (items s) (hd aft) \<Longrightarrow>
   tests = filter (is_test (items s)) seg \<Longrightarrow> b = begun (first \<and> tests \<noteq> []) rp si (reports_of s) \<Longrightarrow>
   tests_spec answer rp (items s) tests (fst b) (user s) = Some (acts, r', u, ok) \<Longrightarrow>
   \<exists>s'. run_suite_loop E forking prog_path (Some suite) (hd_ptr (reals (items s) (seg @ aft)) None) first cnt ret s =
       Some (Returned (hd_ptr aft None, cnt + int (length tests), if ok then ret else PCUT_OUTCOME_FAIL), s') \<and>
     trace s' = trace s @ snd b @ acts \<and> reports_of s' = r' \<and> user s' = u \<and> carried s s'"
proof (induction seg arbitrary: bs first cnt ret s tests b acts r' u ok)
  case Nil
  then have "run_suite_loop E forking prog_path (Some suite) (hd_ptr (reals (items s) aft) None) first cnt ret s =
      Some (Returned (hd_ptr aft None, cnt, ret), s)"
    by (cases aft; subst run_suite_loop.simps)
      (auto simp: is_suite_def kind_at_def split: option.splits)
  with Nil show ?case by (auto simp: begun_def idle_def intro: carried_refl)
next
  case (Cons c seg)
  have dll: "dll (items s) p (bs @ c # seg @ aft) None" "dll (items s) p ((bs @ [c]) @ seg @ aft) None"
    using Cons.prems(3) by simp_all
  from dll_alloc [OF dll(1), of c] obtain it where it: "items s c = Some it" by auto
  note nx = real_next_split [OF dll(1)]
  have nosuite: "kind it \<noteq> PCUT_KIND_TESTSUITE" "list_all (\<lambda>a. \<not> is_suite (items s) a) seg"
    using Cons.prems(4) it by (simp_all add: is_suite_Some)
  show ?case
  proof (cases "kind it = PCUT_KIND_TEST")
    case False
    then have "tests = filter (is_test (items s)) seg"
      using Cons.prems(6) it by (simp add: is_test_Some)
    from Cons.IH [OF Cons.prems(1,2) dll(2) nosuite(2) Cons.prems(5) this Cons.prems(7,8)]
      run_suite_loop_other [OF it nosuite(1) False nx] show ?thesis by simp
  next
    case True
    define tests' where "tests' = filter (is_test (items s)) seg"
    have tests: "tests = c # tests'"
      using Cons.prems(6) it True by (simp add: is_test_Some tests'_def)
    with Cons.prems(8) obtain acts1 u1 outcome e t x acts2 ok2 where
      ans: "answer (items s) c (user s) = Some (acts1, u1, outcome, e, t, x)" and
      rest: "tests_spec answer rp (items s) tests' (count_of rp outcome (start_of rp (fst b))) u1 = Some (acts2, r', u, ok2)" and
      acts: "acts = acts1 @ [Out (entry_of rp (start_of rp (fst b)) (item_name it) outcome e t x)] @ acts2" and
      ok: "ok = (outcome = PCUT_OUTCOME_PASS \<and> ok2)"
      using it by (auto split: option.splits prod.splits)
    have b: "b = begun first rp si (reports_of s)" using Cons.prems(7) tests by simp
    from run_one_spec [OF Cons.prems(1,2) it ans, of first] obtain s1 where s1:
      "run_one E forking prog_path (Some suite) first c s = (Returned outcome, s1)"
      "trace s1 = trace s @ snd b @ acts1 @ [Out (entry_of rp (start_of rp (fst b)) (item_name it) outcome e t x)]"
      "reports_of s1 = count_of rp outcome (start_of rp (fst b))" "user s1 = u1" "carried s s1"
      by (auto simp: b)
    have idle1: "idle mode rp s1" "items s1 = items s" using idle_carried [OF Cons.prems(1) s1(5)] by auto
    let ?ret = "if outcome \<noteq> PCUT_OUTCOME_PASS then PCUT_OUTCOME_FAIL else ret"
    have "\<exists>s2. run_suite_loop E forking prog_path (Some suite) (hd_ptr (reals (items s1) (seg @ aft)) None) False (cnt + 1) ?ret s1 =
       Some (Returned (hd_ptr aft None, cnt + 1 + int (length tests'), if ok2 then ?ret else PCUT_OUTCOME_FAIL), s2) \<and>
     trace s2 = trace s1 @ snd (begun False rp si (reports_of s1)) @ acts2 \<and> reports_of s2 = r' \<and> user s2 = u \<and> carried s1 s2"
      by (rule Cons.IH [where bs = "bs @ [c]"]) (use idle1 Cons.prems(2,5) dll(2) nosuite(2) rest s1 in
        \<open>simp_all add: tests'_def begun_def\<close>)
    with run_suite_loop_test [OF it True nx s1(1) idle1(2)] s1(2,5) carried_trans show ?thesis
      by (auto simp: idle1 tests ok acts b begun_def simp del: reals_simps split: if_splits)
  qed
qed

end

lemma real_suite_head: "aft = [] \<or> is_suite h (hd aft) \<Longrightarrow> hd_ptr (reals h aft) None = hd_ptr aft None"
  by (cases aft) (auto simp: is_suite_def)

lemma filter_test_reals: "filter (is_test h) (reals h as) = filter (is_test h) as"
  by (induction as) (auto simp: is_test_def)

lemma suites_spec_ConsE:
  assumes "suites_spec answer rp h ((suite, tests) # ss) r u = Some (acts, r', u', ok)"
  obtains acts1 r1 u1 ok1 acts2 ok2 where "suite_spec answer rp h suite tests r u = Some (acts1, r1, u1, ok1)"
    "suites_spec answer rp h ss r1 u1 = Some (acts2, r', u', ok2)" "acts = acts1 @ acts2" "ok = (ok1 \<and> ok2)"
proof -
  from assms obtain acts1 r1 u1 ok1 where one: "suite_spec answer rp h suite tests r u = Some (acts1, r1, u1, ok1)"
    by (cases "suite_spec answer rp h suite tests r u") auto
  with assms obtain acts2 r2 u2 ok2 where two: "suites_spec answer rp h ss r1 u1 = Some (acts2, r2, u2, ok2)"
    by (cases "suites_spec answer rp h ss r1 u1") auto
  from assms one two have "acts = acts1 @ acts2" "r' = r2" "u' = u2" "ok = (ok1 \<and> ok2)" by simp_all
  with one two show ?thesis by (intro that [of acts1 r1 u1 ok1 acts2 ok2]) simp_all
qed

text \<open>The specification of a suite starts and ends with the entries of the suite, if it has tests.\<close>

lemma suite_spec_begun:
  assumes "suite_spec answer rp h suite tests r u = Some (acts, r', u', ok)" and "h suite = Some si"
  obtains acts1 r1 where "tests_spec answer rp h tests (fst (begun (tests \<noteq> []) rp si r)) u = Some (acts1, r1, u', ok)"
    "tests = [] \<Longrightarrow> acts = [] \<and> acts1 = [] \<and> r' = r1"
    "tests \<noteq> [] \<Longrightarrow> acts = snd (begun (tests \<noteq> []) rp si r) @ acts1 @ [Out (snd (suite_done_of rp si r1))] \<and> r' = fst (suite_done_of rp si r1)"
  using assms by (auto simp: suite_spec_def begun_def bind_Some_conv split: if_splits)

lemma dropWhile_suite: "dropWhile (\<lambda>b. \<not> is_suite h b) as = [] \<or> is_suite h (hd (dropWhile (\<lambda>b. \<not> is_suite h b) as))"
  using hd_dropWhile by blast

context launcher begin

lemma run_suite_spec:
  assumes idle: "idle mode rp s" and dll: "dll (items s) p (bs @ suite # seg @ aft) None"
    and seg: "list_all (\<lambda>a. \<not> is_suite (items s) a) seg" and aft: "aft = [] \<or> is_suite (items s) (hd aft)"
    and spec: "suite_spec answer rp (items s) suite (filter (is_test (items s)) seg) (reports_of s) (user s) = Some (acts, r', u, ok)"
  shows "\<exists>s'. run_suite E forking prog_path suite s =
      Some (Returned (if ok then PCUT_OUTCOME_PASS else PCUT_OUTCOME_FAIL, hd_ptr aft None), s') \<and>
    trace s' = trace s @ acts \<and> reports_of s' = r' \<and> user s' = u \<and> carried s s'"
proof -
  let ?h = "items s" and ?tests = "filter (is_test (items s)) seg"
  from dll_alloc [OF dll, of suite] obtain si where si: "?h suite = Some si" by auto
  have nx: "pcut_get_real_next ?h (Some suite) = Some (hd_ptr (reals ?h (seg @ aft)) None)"
    by (rule real_next_split [OF dll])
  show ?thesis
  proof (cases "reals ?h seg")
    case Nil
    then have "hd_ptr (reals ?h (seg @ aft)) None = hd_ptr aft None"
      using real_suite_head [OF aft] by simp
    moreover have "?tests = []" using Nil filter_test_reals [of ?h seg] by simp
    ultimately show ?thesis
      using nx aft spec idle
      by (cases aft) (auto simp: run_suite_def suite_spec_def is_suite_def idle_def intro: carried_refl)
  next
    case (Cons c cs)
    then have "c \<in> set seg" using set_reals [of ?h seg] by auto
    then have c: "\<not> is_suite ?h c" using seg by (simp add: list_all_iff)
    define b where "b = begun (?tests \<noteq> []) rp si (reports_of s)"
    have dll': "dll ?h p ((bs @ [suite]) @ seg @ aft) None" using dll by simp
    from suite_spec_begun [OF spec si] obtain acts1 r1 where t: "tests_spec answer rp ?h ?tests (fst b) (user s) = Some (acts1, r1, u, ok)"
      "?tests = [] \<Longrightarrow> acts = [] \<and> acts1 = [] \<and> r' = r1"
      "?tests \<noteq> [] \<Longrightarrow> acts = snd b @ acts1 @ [Out (snd (suite_done_of rp si r1))] \<and> r' = fst (suite_done_of rp si r1)"
      unfolding b_def by blast
    have "b = begun (True \<and> ?tests \<noteq> []) rp si (reports_of s)" by (simp add: b_def)
    from run_suite_loop_spec [OF idle si dll' seg aft refl this t(1), of 0 PCUT_OUTCOME_PASS] obtain s1 where s1:
      "run_suite_loop E forking prog_path (Some suite) (hd_ptr (reals ?h (seg @ aft)) None) True 0 PCUT_OUTCOME_PASS s =
       Some (Returned (hd_ptr aft None, int (length ?tests), if ok then PCUT_OUTCOME_PASS else PCUT_OUTCOME_FAIL), s1)"
      "trace s1 = trace s @ snd b @ acts1" "reports_of s1 = r1" "user s1 = u" "carried s s1"
      by auto
    have idle1: "idle mode rp s1" "items s1 = ?h" using idle_carried [OF idle s1(5)] by auto
    have ops: "report_ops s1 = Some rp" using idle1 by (simp add: idle_def)
    have c_ne: "kind_at ?h c \<noteq> PCUT_KIND_TESTSUITE" using c by (simp add: is_suite_def)
    define s2 where "s2 = (if ?tests = [] then s1 else emit (snd (suite_done_of rp si r1)) (set_reports (fst (suite_done_of rp si r1)) s1))"
    have "run_suite E forking prog_path suite s =
        Some (Returned (if ok then PCUT_OUTCOME_PASS else PCUT_OUTCOME_FAIL, hd_ptr aft None), s2)"
      using nx Cons c_ne s1(1,3) report_suite_call(2) [of s1 suite si rp] idle1(2) si ops
      by (auto simp: run_suite_def s2_def)
    moreover have "trace s2 = trace s @ acts \<and> reports_of s2 = r' \<and> user s2 = u \<and> carried s s2"
      using t(2,3) s1 idle_emit [OF idle1(1), of "snd (suite_done_of rp si r1)" "fst (suite_done_of rp si r1)"] carried_trans
      by (auto simp: s2_def b_def begun_def)
    ultimately show ?thesis by blast
  qed
qed

text \<open>The loop over all items passes what is no suite, and runs what is one.\<close>

lemma all_suites_loop_other:
  assumes "items s c = Some it" and "kind it \<noteq> PCUT_KIND_TESTSUITE"
    and "pcut_get_real_next (items s) (Some c) = Some (hd_ptr (reals (items s) cs) None)"
  shows "all_suites_loop E forking prog_path (hd_ptr (reals (items s) (c # cs)) None) rc s =
    all_suites_loop E forking prog_path (hd_ptr (reals (items s) cs) None) rc s"
  using assms
  by (cases "kind it = PCUT_KIND_SKIP", simp add: kind_at_Some)
    (simp add: kind_at_Some all_suites_loop.simps [of _ _ _ "Some c"])

lemma all_suites_loop_suite:
  assumes "items s c = Some it" and "kind it = PCUT_KIND_TESTSUITE"
    and "run_suite E forking prog_path c s = Some (Returned (r, nx), s1)"
  shows "all_suites_loop E forking prog_path (hd_ptr (reals (items s) (c # cs)) None) rc s =
    all_suites_loop E forking prog_path nx (if r \<noteq> PCUT_OUTCOME_PASS then r else rc) s1"
  using assms by (simp add: kind_at_Some all_suites_loop.simps [of _ _ _ "Some c"])

lemma all_suites_spec:
  "idle mode rp s \<Longrightarrow> dll (items s) p (bs @ cs) None \<Longrightarrow>
   suites_spec answer rp (items s) (suites_of (items s) cs) (reports_of s) (user s) = Some (acts, r', u, ok) \<Longrightarrow>
   \<exists>s'. all_suites_loop E forking prog_path (hd_ptr (reals (items s) cs) None) rc s =
       Some (Returned (if ok then rc else PCUT_OUTCOME_FAIL), s') \<and>
     trace s' = trace s @ acts \<and> reports_of s' = r' \<and> user s' = u \<and> carried s s'"
proof (induction "length cs" arbitrary: bs cs s acts r' u ok rc rule: less_induct)
  case less
  let ?h = "items s"
  show ?case
  proof (cases cs)
    case Nil
    with less.prems show ?thesis
      by (subst all_suites_loop.simps) (auto simp: idle_def intro: carried_refl)
  next
    case (Cons c cs')
    from dll_alloc [OF less.prems(2), of c] Cons obtain it where it: "?h c = Some it" by auto
    have dll1: "dll ?h p (bs @ c # cs') None" "dll ?h p ((bs @ [c]) @ cs') None" using less.prems(2) Cons by simp_all
    show ?thesis
    proof (cases "is_suite ?h c")
      case False
      then have "suites_of ?h cs = suites_of ?h cs'" using Cons by simp
      with less.hyps [of cs' s "bs @ [c]"] less.prems(1,3) dll1(2) Cons False it
        all_suites_loop_other [OF it _ real_next_split [OF dll1(1)]]
      show ?thesis by (simp add: is_suite_Some del: reals_simps)
    next
      case True
      define seg aft where "seg = takeWhile (\<lambda>b. \<not> is_suite ?h b) cs'" and "aft = dropWhile (\<lambda>b. \<not> is_suite ?h b) cs'"
      have cs': "cs' = seg @ aft" "list_all (\<lambda>a. \<not> is_suite ?h a) seg" "aft = [] \<or> is_suite ?h (hd aft)"
        using dropWhile_suite [of ?h cs'] by (auto simp: seg_def aft_def list_all_iff dest: set_takeWhileD)
      have split: "suites_of ?h cs = (c, filter (is_test ?h) seg) # suites_of ?h aft"
        using True Cons by (simp add: seg_def aft_def)
      from less.prems(3) obtain acts1 r1 u1 ok1 acts2 ok2 where
        sp1: "suite_spec answer rp ?h c (filter (is_test ?h) seg) (reports_of s) (user s) = Some (acts1, r1, u1, ok1)" and
        sp2: "suites_spec answer rp ?h (suites_of ?h aft) r1 u1 = Some (acts2, r', u, ok2)" and
        eqs: "acts = acts1 @ acts2" "ok = (ok1 \<and> ok2)" unfolding split by (rule suites_spec_ConsE)
      have dll: "dll ?h p (bs @ c # seg @ aft) None" "dll ?h p ((bs @ c # seg) @ aft) None" using dll1(1) cs'(1) by simp_all
      from run_suite_spec [OF less.prems(1) dll(1) cs'(2,3) sp1] obtain s1 where s1:
        "run_suite E forking prog_path c s =
          Some (Returned (if ok1 then PCUT_OUTCOME_PASS else PCUT_OUTCOME_FAIL, hd_ptr aft None), s1)"
        "trace s1 = trace s @ acts1" "reports_of s1 = r1" "user s1 = u1" "carried s s1" by blast
      have idle1: "idle mode rp s1" "items s1 = ?h" using idle_carried [OF less.prems(1) s1(5)] by auto
      let ?rc = "if ok1 then rc else PCUT_OUTCOME_FAIL"
      have "length aft < length cs" using Cons cs'(1) by simp
      from less.hyps [OF this, of s1 "bs @ c # seg" acts2 r' u ok2 ?rc] idle1 dll(2) sp2 s1(3,4) obtain s2 where s2:
        "all_suites_loop E forking prog_path (hd_ptr (reals ?h aft) None) ?rc s1 = Some (Returned (if ok2 then ?rc else PCUT_OUTCOME_FAIL), s2)"
        "trace s2 = trace s1 @ acts2" "reports_of s2 = r'" "user s2 = u" "carried s1 s2" by auto
      have "kind it = PCUT_KIND_TESTSUITE" using True it by (simp add: is_suite_Some)
      from all_suites_loop_suite [OF it this s1(1), of cs' rc] s2 s1 eqs carried_trans Cons show ?thesis
        by (auto simp: real_suite_head [OF cs'(3)] outcome_defs simp del: reals_simps split: if_splits)
    qed
  qed
qed

end

end
