(* ===== verification/RunAll.thy ===== *)
theory RunAll
  imports MainSpec
begin

text \<open>
  Whole runs of the main function: looking up an item by its id, handing set-up and tear-down
  functions to the suites, reading the arguments, and the report of a complete run.
\<close>

section \<open>The whole report\<close>

fun init_of :: "handler \<Rightarrow> int \<Rightarrow> reports \<Rightarrow> reports \<times> string" where
  "init_of Report_tap n r =
     (((fst r)\<lparr>test_counter := 0, failed_test_counter := 0\<rparr>, snd r), ''1..'' @ show_int n @ [NL])"
| "init_of Report_xml n r =
     ((fst r, (snd r)\<lparr>xml_test_counter := 0\<rparr>),
      ''<?xml version='' @ [DQ] @ ''1.0'' @ [DQ] @ ''?>'' @ [NL] @
      ''<report tests-total='' @ [DQ] @ show_int n @ [DQ] @ ''>'' @ [NL])"

fun done_of :: "handler \<Rightarrow> reports \<Rightarrow> string" where
  "done_of Report_tap r = snd (tap_done (fst r))"
| "done_of Report_xml r = snd (xml_done (snd r))"

text \<open>The number of tests of a list; all of them are announced.\<close>

definition tests_total :: "heap \<Rightarrow> addr list \<Rightarrow> int" where
  "tests_total h as = int (length (filter (is_test h) as))"

definition run_spec :: "(heap \<Rightarrow> addr \<Rightarrow> 'u \<Rightarrow> 'u answer option) \<Rightarrow> handler \<Rightarrow> heap \<Rightarrow> addr list \<Rightarrow> reports \<Rightarrow> 'u \<Rightarrow>
    (act list \<times> 'u \<times> bool) option" where
  "run_spec answer rp h as r u =
     do { (acts, r', u, ok) \<leftarrow> suites_spec answer rp h (suites_of h as) (fst (init_of rp (tests_total h as) r)) u;
          Some ([Out (snd (init_of rp (tests_total h as) r))] @ acts @ [Out (done_of rp r')], u, ok) }"

lemma report_init_call:
  assumes "dll (items s) p as None" and "report_ops s = Some rp"
  shows "pcut_report_init (hd_ptr as None) s =
    (Returned (), emit (snd (init_of rp (tests_total (items s) as) (reports_of s)))
       (set_reports (fst (init_of rp (tests_total (items s) as) (reports_of s))) s))"
proof -
  have "pcut_count_tests (items s) (hd_ptr as None) = Some (tests_total (items s) as)"
    using count_tests_dll [OF assms(1)] by (simp add: tests_total_def is_test_def [abs_def])
  then show ?thesis
    using assms(2) by (cases rp)
      (simp_all add: pcut_report_init_def the_op_def pcut_report_tap_def pcut_report_xml_def tap_init_def
        xml_init_def reports_of_def)
qed

lemma report_done_call:
  assumes "report_ops s = Some rp"
  shows "\<exists>r. pcut_report_done s = (Returned (), emit (done_of rp (reports_of s)) (set_reports r s))"
  using assms by (cases rp)
    (simp_all add: pcut_report_done_def the_op_def pcut_report_tap_def pcut_report_xml_def on_tap_def
      on_xml_def reports_of_def tap_done_def xml_done_def, blast+)

lemma all_suites_first:
  assumes "dll (items s) p as None"
  shows "all_suites_loop E forking prog_path (hd_ptr as None) rc s =
    all_suites_loop E forking prog_path (hd_ptr (reals (items s) as) None) rc s"
proof (cases as)
  case (Cons a as')
  from dll_alloc [OF assms, of a] Cons obtain it where it: "items s a = Some it" by auto
  show ?thesis
  proof (cases "kind it = PCUT_KIND_SKIP")
    case True
    with Cons assms it real_next_split [of "items s" p "[]" a as'] show ?thesis
      by (simp add: kind_at_Some all_suites_loop.simps [of _ _ _ "Some a"])
  qed (use Cons it in \<open>simp add: kind_at_Some\<close>)
qed simp

context launcher begin

lemma run_everything_spec:
  assumes idle: "idle mode rp s" and dll: "dll (items s) None as None"
    and spec: "run_spec answer rp (items s) as (reports_of s) (user s) = Some (acts, u, ok)"
  shows "\<exists>s'. run_everything E forking prog_path (hd_ptr as None) s =
      Some (Returned (if ok then PCUT_OUTCOME_PASS else PCUT_OUTCOME_FAIL), s') \<and>
    trace s' = trace s @ acts \<and> user s' = u \<and> carried s s'"
proof -
  have ops: "report_ops s = Some rp" using idle by (simp add: idle_def)
  let ?i = "init_of rp (tests_total (items s) as) (reports_of s)"
  define s1 where "s1 = emit (snd ?i) (set_reports (fst ?i) s)"
  have s1: "idle mode rp s1" "carried s s1" "reports_of s1 = fst ?i" "user s1 = user s"
    "trace s1 = trace s @ [Out (snd ?i)]" "items s1 = items s"
    using idle_emit [OF idle] by (simp_all add: s1_def)
  from spec obtain acts1 r1 where suites:
    "suites_spec answer rp (items s) (suites_of (items s) as) (fst ?i) (user s) = Some (acts1, r1, u, ok)"
    and acts: "acts = [Out (snd ?i)] @ acts1 @ [Out (done_of rp r1)]"
    by (auto simp: run_spec_def bind_Some_conv)
  have dll1: "dll (items s1) None ([] @ as) None" using dll s1(6) by simp
  from all_suites_spec [OF s1(1) dll1, of acts1 r1 u ok PCUT_OUTCOME_PASS] suites s1(3,4,6) obtain s2 where s2:
    "all_suites_loop E forking prog_path (hd_ptr (reals (items s1) as) None) PCUT_OUTCOME_PASS s1 =
       Some (Returned (if ok then PCUT_OUTCOME_PASS else PCUT_OUTCOME_FAIL), s2)"
    "trace s2 = trace s1 @ acts1" "reports_of s2 = r1" "user s2 = u" "carried s1 s2"
    by auto
  have idle2: "idle mode rp s2" using idle_carried [OF s1(1) s2(5)] by simp
  then obtain r where dn: "pcut_report_done s2 = (Returned (), emit (done_of rp r1) (set_reports r s2))"
    using report_done_call [of s2 rp] s2(3) by (auto simp: idle_def)
  have "run_everything E forking prog_path (hd_ptr as None) s =
      Some (Returned (if ok then PCUT_OUTCOME_PASS else PCUT_OUTCOME_FAIL), emit (done_of rp r1) (set_reports r s2))"
    using report_init_call [OF dll ops] all_suites_first [of s1 None as] dll1 s2(1) dn
    by (simp add: run_everything_def s1_def [symmetric])
  with s1 s2 acts idle_emit [OF idle2, of "done_of rp r1" r] carried_trans show ?thesis
    by (metis append.assoc)
qed

end

section \<open>Looking up an item\<close>

lemma find_by_id_dll:
  "dll h p (bs @ cs) None \<Longrightarrow>
   find_by_id_loop h (hd_ptr (reals h cs) None) i = Some (find (\<lambda>a. map_option ident (h a) = Some i) (reals h cs))"
proof (induction cs arbitrary: bs)
  case Nil
  show ?case by (subst find_by_id_loop.simps) simp
next
  case (Cons c cs)
  from Cons.prems have dll: "dll h p ((bs @ [c]) @ cs) None" by simp
  from dll_alloc [OF Cons.prems, of c] obtain it where it: "h c = Some it" by auto
  show ?case
  proof (cases "kind it = PCUT_KIND_SKIP")
    case True
    with Cons.IH [OF dll] it show ?thesis by (simp add: kind_at_Some)
  next
    case False
    with Cons.IH [OF dll] it real_next_split [OF Cons.prems] show ?thesis
      by (subst find_by_id_loop.simps) (auto simp: kind_at_Some)
  qed
qed

lemma pcut_find_by_id_dll:
  assumes "dll h p as None"
  shows "pcut_find_by_id h (hd_ptr as None) i = Some (find (\<lambda>a. map_option ident (h a) = Some i) (reals h as))"
  using get_real_dll [OF assms] find_by_id_dll [of h p "[]" as i] assms
  by (simp add: pcut_find_by_id_def)

text \<open>In a numbered list the item with id \<open>k + 1\<close> is the one at position \<open>k\<close>.\<close>

lemma find_numbered:
  assumes "\<forall>k < length xs. map_option ident (h (xs ! k)) = Some (1 + int k)"
  shows "find (\<lambda>a. map_option ident (h a) = Some i) xs =
    (if 1 \<le> i \<and> i \<le> int (length xs) then Some (xs ! nat (i - 1)) else None)"
proof (cases "1 \<le> i \<and> i \<le> int (length xs)")
  case True
  then have "nat (i - 1) < length xs" "1 + int (nat (i - 1)) = i" by auto
  moreover have "map_option ident (h (xs ! j)) \<noteq> Some i" if "j < nat (i - 1)" for j
  proof -
    have "j < length xs" using True that by linarith
    with assms have "map_option ident (h (xs ! j)) = Some (1 + int j)" by blast
    with that show ?thesis by auto
  qed
  moreover have "map_option ident (h (xs ! nat (i - 1))) = Some i"
    using assms calculation(1,2) by metis
  ultimately have "find (\<lambda>a. map_option ident (h a) = Some i) xs = Some (xs ! nat (i - 1))"
    unfolding find_Some_iff by blast
  with True show ?thesis by simp
next
  case False
  have "map_option ident (h a) \<noteq> Some i" if "a \<in> set xs" for a
  proof -
    from that obtain k where "k < length xs" "a = xs ! k" by (auto simp: in_set_conv_nth)
    with assms have "map_option ident (h a) = Some (1 + int k)" by simp
    with False \<open>k < length xs\<close> show ?thesis by auto
  qed
  then show ?thesis using False by (auto simp: find_None_iff)
qed

section \<open>Set-up and tear-down functions\<close>

text \<open>The function of the last item of a kind in a segment, if there is one.\<close>

definition last_hook :: "(pcut_item \<Rightarrow> fptr option) \<Rightarrow> kind \<Rightarrow> heap \<Rightarrow> addr list \<Rightarrow> fptr option \<Rightarrow> fptr option" where
  "last_hook sel k h seg old =
     (case filter (\<lambda>a. kind_at h a = k) seg of [] \<Rightarrow> old | xs \<Rightarrow> Option.bind (h (last xs)) sel)"

definition with_hooks :: "heap \<Rightarrow> addr list \<Rightarrow> pcut_item \<Rightarrow> pcut_item" where
  "with_hooks h seg it =
     it\<lparr>setup_func := last_hook setup_func PCUT_KIND_SETUP h seg (setup_func it),
        teardown_func := last_hook teardown_func PCUT_KIND_TEARDOWN h seg (teardown_func it)\<rparr>"

text \<open>The items that follow a position, up to the next suite.\<close>

definition before_suite :: "heap \<Rightarrow> addr list \<Rightarrow> addr list" where
  "before_suite h as = takeWhile (\<lambda>b. \<not> is_suite h b) as"

text \<open>
  The heap after \<open>set_setup_teardown_callbacks\<close>: set-up and tear-down items are hidden, and every
  suite has the functions of the last ones that follow it before the next suite.
\<close>

definition hook_item :: "heap \<Rightarrow> addr list \<Rightarrow> pcut_item \<Rightarrow> pcut_item" where
  "hook_item h rest it =
     (if kind it = PCUT_KIND_TESTSUITE then with_hooks h (before_suite h rest) it
      else if kind it = PCUT_KIND_SETUP \<or> kind it = PCUT_KIND_TEARDOWN then it\<lparr>kind := PCUT_KIND_SKIP\<rparr>
      else it)"

fun give_hooks :: "heap \<Rightarrow> addr list \<Rightarrow> heap" where
  "give_hooks h [] = h"
| "give_hooks h (a # as) = (give_hooks h as)(a := map_option (hook_item h as) (h a))"

text \<open>The same while the suite \<open>act\<close> is active.\<close>

definition give_active :: "heap \<Rightarrow> ptr \<Rightarrow> addr list \<Rightarrow> heap" where
  "give_active h act as =
     (case act of None \<Rightarrow> give_hooks h as
      | Some s \<Rightarrow> (give_hooks h as)(s := map_option (with_hooks h (before_suite h as)) (h s)))"

lemma give_hooks_other: "a \<notin> set as \<Longrightarrow> give_hooks h as a = h a"
  by (induction as) auto

lemma with_hooks_empty: "with_hooks h [] it = it"
  by (simp add: with_hooks_def last_hook_def)

lemma map_with_hooks_empty [simp]: "map_option (with_hooks h []) x = x"
  by (cases x) (simp_all add: with_hooks_empty)

lemma with_hooks_skip:
  "kind_at h c \<noteq> PCUT_KIND_SETUP \<Longrightarrow> kind_at h c \<noteq> PCUT_KIND_TEARDOWN \<Longrightarrow> with_hooks h (c # seg) it = with_hooks h seg it"
  by (simp add: with_hooks_def last_hook_def)

lemma filter_kind_cong:
  "(\<And>a. a \<in> set as \<Longrightarrow> h' a = h a) \<Longrightarrow> filter (\<lambda>a. kind_at h' a = k) as = filter (\<lambda>a. kind_at h a = k) as"
  by (rule filter_cong) (simp_all add: kind_at_def)

lemma last_hook_cong:
  assumes "\<And>a. a \<in> set seg \<Longrightarrow> h' a = h a"
  shows "last_hook sel k h' seg old = last_hook sel k h seg old"
proof -
  have f: "filter (\<lambda>a. kind_at h' a = k) seg = filter (\<lambda>a. kind_at h a = k) seg"
    using assms by (rule filter_kind_cong)
  show ?thesis
  proof (cases "filter (\<lambda>a. kind_at h a = k) seg")
    case (Cons c cs)
    then have "last (c # cs) \<in> set seg" using last_in_set [of "c # cs"] by (metis filter_is_subset list.distinct(1) subsetD)
    then show ?thesis using assms [of "last (c # cs)"] Cons by (simp add: last_hook_def f)
  qed (simp add: last_hook_def f)
qed

lemma with_hooks_cong: "(\<And>a. a \<in> set seg \<Longrightarrow> h' a = h a) \<Longrightarrow> with_hooks h' seg it = with_hooks h seg it"
  using last_hook_cong [of seg h' h] by (simp add: with_hooks_def)

lemma before_suite_cong: "(\<And>a. a \<in> set as \<Longrightarrow> h' a = h a) \<Longrightarrow> before_suite h' as = before_suite h as"
  unfolding before_suite_def by (rule takeWhile_cong) (simp_all add: is_suite_def kind_at_def)

lemma before_suite_subset: "set (before_suite h as) \<subseteq> set as"
  by (auto simp: before_suite_def dest: set_takeWhileD)

lemma give_hooks_cong: "(\<And>a. a \<in> set as \<Longrightarrow> h' a = h a) \<Longrightarrow> a \<in> set as \<Longrightarrow> give_hooks h' as a = give_hooks h as a"
proof (induction as)
  case (Cons c as)
  have "before_suite h' as = before_suite h as" by (rule before_suite_cong) (simp add: Cons.prems)
  moreover have "with_hooks h' (before_suite h as) it = with_hooks h (before_suite h as) it" for it
    by (rule with_hooks_cong) (use Cons.prems before_suite_subset [of h as] in auto)
  ultimately have "hook_item h' as = hook_item h as" by (simp add: hook_item_def fun_eq_iff)
  with Cons show ?case by auto
qed simp

text \<open>The first set-up (or tear-down) of a segment is overridden by a later one.\<close>

lemma last_hook_Cons:
  "kind_at h c = k \<Longrightarrow> last_hook sel k h (c # seg) old = last_hook sel k h seg (Option.bind (h c) sel)"
  by (auto simp: last_hook_def split: list.split)

lemma last_hook_skip: "kind_at h c \<noteq> k \<Longrightarrow> last_hook sel k h (c # seg) old = last_hook sel k h seg old"
  by (simp add: last_hook_def)

text \<open>One item that is not a suite: \<open>h1\<close> is the heap after its step.\<close>

lemma give_step:
  assumes c: "c \<notin> set cs" "act \<noteq> Some c" "\<not> is_suite h c" and act: "\<And>s. act = Some s \<Longrightarrow> s \<notin> set cs"
    and h1c: "h1 c = map_option (hook_item h cs) (h c)"
    and h1s: "\<And>s. act = Some s \<Longrightarrow>
      map_option (with_hooks h (before_suite h cs)) (h1 s) = map_option (with_hooks h (c # before_suite h cs)) (h s)"
    and other: "\<And>x. x \<noteq> c \<Longrightarrow> Some x \<noteq> act \<Longrightarrow> h1 x = h x"
  shows "give_active h1 act cs = give_active h act (c # cs)"
proof -
  have cs: "h1 x = h x" if "x \<in> set cs" for x using other [of x] c(1) act that by auto
  have seg: "before_suite h1 cs = before_suite h cs" using cs by (rule before_suite_cong)
  have wh: "with_hooks h1 (before_suite h cs) = with_hooks h (before_suite h cs)"
  proof
    fix it
    show "with_hooks h1 (before_suite h cs) it = with_hooks h (before_suite h cs) it"
      by (rule with_hooks_cong) (use cs before_suite_subset [of h cs] in auto)
  qed
  have bs: "before_suite h (c # cs) = c # before_suite h cs" using c(3) by (simp add: before_suite_def)
  have gh: "give_hooks h1 cs x = give_hooks h (c # cs) x" if "Some x \<noteq> act" for x
  proof (cases "x \<in> set cs")
    case True
    then show ?thesis using give_hooks_cong [of cs h1 h x] cs c(1) by auto
  next
    case False
    then show ?thesis using give_hooks_other [of x cs] other [of x] that h1c by auto
  qed
  show ?thesis
  proof (cases act)
    case None
    then show ?thesis using gh by (auto simp: give_active_def fun_eq_iff)
  next
    case (Some s)
    then show ?thesis
      using gh h1s [OF Some] by (auto simp: give_active_def fun_eq_iff seg wh bs simp del: give_hooks.simps)
  qed
qed

lemma dll_setup [simp]:
  "dll h p as e \<Longrightarrow> dll (adj a (kind_update f) h) p as e"
  "dll h p as e \<Longrightarrow> dll (adj a (setup_func_update g) h) p as e"
  "dll h p as e \<Longrightarrow> dll (adj a (teardown_func_update g) h) p as e"
  by (simp_all add: dll_adj_links)

text \<open>Storing a function into the active suite and hiding the item.\<close>

definition store_hook :: "(pcut_item \<Rightarrow> pcut_item) \<Rightarrow> ptr \<Rightarrow> addr \<Rightarrow> heap \<Rightarrow> heap" where
  "store_hook f act c h = adj c (kind_update (\<lambda>_. PCUT_KIND_SKIP)) (case act of None \<Rightarrow> h | Some s \<Rightarrow> adj s f h)"

lemma store_hook_step:
  assumes it: "h c = Some it" and k: "kind it = PCUT_KIND_SETUP \<and> f = setup_func_update (\<lambda>_. setup_func it) \<or>
      kind it = PCUT_KIND_TEARDOWN \<and> f = teardown_func_update (\<lambda>_. teardown_func it)"
    and c: "c \<notin> set cs" "act \<noteq> Some c" and act: "\<And>s. act = Some s \<Longrightarrow> s \<notin> set cs"
  shows "give_active (store_hook f act c h) act cs = give_active h act (c # cs)"
proof (rule give_step [OF c])
  show "\<not> is_suite h c" using it k by (auto simp: is_suite_Some)
  show "store_hook f act c h c = map_option (hook_item h cs) (h c)"
    using it k c(2) by (auto simp: store_hook_def adj_apply hook_item_def split: option.split)
  show "map_option (with_hooks h (before_suite h cs)) (store_hook f act c h s) =
      map_option (with_hooks h (c # before_suite h cs)) (h s)" if "act = Some s" for s
    using that k c(2) it
    by (cases "h s") (auto simp: store_hook_def adj_apply with_hooks_def last_hook_Cons last_hook_skip kind_at_Some)
  show "store_hook f act c h x = h x" if "x \<noteq> c" "Some x \<noteq> act" for x
    using that by (auto simp: store_hook_def adj_apply split: option.split)
qed (use act in blast)

text \<open>What an item of each kind does to the functions that are still to be handed out.\<close>

lemma give_active_plain:
  assumes it: "h c = Some it" and plain: "hook_item h cs it = it" "\<not> is_suite h c"
    and c: "c \<notin> set cs" "act \<noteq> Some c" "\<And>s. act = Some s \<Longrightarrow> s \<notin> set cs"
  shows "give_active h act cs = give_active h act (c # cs)"
proof (rule give_step)
  have "with_hooks h (c # before_suite h cs) = with_hooks h (before_suite h cs)"
    using plain it by (intro ext with_hooks_skip) (auto simp: kind_at_Some hook_item_def dest: arg_cong [where f = kind] split: if_splits)
  then show "map_option (with_hooks h (before_suite h cs)) (h s) = map_option (with_hooks h (c # before_suite h cs)) (h s)" for s
    by simp
qed (use assms in auto)

lemma give_active_suite:
  assumes it: "h c = Some it" "kind it = PCUT_KIND_TESTSUITE"
    and c: "act \<noteq> Some c" "\<And>s. act = Some s \<Longrightarrow> s \<notin> set cs"
  shows "give_active h (Some c) cs = give_active h act (c # cs)"
proof -
  have "before_suite h (c # cs) = []" using it by (simp add: before_suite_def is_suite_Some)
  then show ?thesis
    using it give_hooks_other [of _ cs h] c
    by (auto simp: give_active_def fun_eq_iff hook_item_def split: option.split)
qed

definition hook_update :: "pcut_item \<Rightarrow> pcut_item \<Rightarrow> pcut_item" where
  "hook_update it = (if kind it = PCUT_KIND_SETUP then setup_func_update (\<lambda>_. setup_func it)
     else teardown_func_update (\<lambda>_. teardown_func it))"

text \<open>One round of the loop for a visible item.\<close>

lemma callbacks_round:
  assumes it: "h c = Some it" and act: "\<And>s. act = Some s \<Longrightarrow> \<exists>its. h s = Some its" "act \<noteq> Some c"
    and dll: "dll h p (bs @ c # cs) None" and c: "c \<notin> set cs"
    and h1: "h1 = (if kind it = PCUT_KIND_SETUP \<or> kind it = PCUT_KIND_TEARDOWN then store_hook (hook_update it) act c h else h)"
  shows "callbacks_loop h act (Some c) =
      callbacks_loop h1 (if kind it = PCUT_KIND_TESTSUITE then Some c else act) (hd_ptr (reals h1 cs) None)"
    "dll h1 p (bs @ c # cs) None" "reals h1 cs = reals h cs"
proof -
  show dll1: "dll h1 p (bs @ c # cs) None"
    using dll by (auto simp: h1 store_hook_def hook_update_def split: option.split)
  have "kind_at h1 a = kind_at h a" if "a \<in> set cs" for a
    using that c by (auto simp: h1 store_hook_def hook_update_def kind_at_def adj_apply split: option.split)
  then show r: "reals h1 cs = reals h cs" by (rule reals_cong)
  have st: "(case act of None \<Rightarrow> Some h | Some s \<Rightarrow> upd s f h) \<bind> upd c (kind_update (\<lambda>_. PCUT_KIND_SKIP)) = Some (store_hook f act c h)" for f
    using act it by (cases act) (auto simp: store_hook_def upd_adj adj_apply)
  have "(case kind it of
         PCUT_KIND_SETUP \<Rightarrow>
           do { h \<leftarrow> (case act of None \<Rightarrow> Some h | Some s \<Rightarrow> upd s (setup_func_update (\<lambda>_. setup_func it)) h);
                upd c (kind_update (\<lambda>_. PCUT_KIND_SKIP)) h }
       | PCUT_KIND_TEARDOWN \<Rightarrow>
           do { h \<leftarrow> (case act of None \<Rightarrow> Some h | Some s \<Rightarrow> upd s (teardown_func_update (\<lambda>_. teardown_func it)) h);
                upd c (kind_update (\<lambda>_. PCUT_KIND_SKIP)) h }
       | _ \<Rightarrow> Some h) = Some h1"
    using st by (auto simp: h1 hook_update_def split: kind.split)
  with it real_next_split [OF dll1] show "callbacks_loop h act (Some c) =
      callbacks_loop h1 (if kind it = PCUT_KIND_TESTSUITE then Some c else act) (hd_ptr (reals h1 cs) None)"
    by (subst callbacks_loop.simps) (simp only: option.case Option.bind.simps)
qed

text \<open>A round of the loop does to the active suite what the items after it ask for.\<close>

lemma give_active_round:
  assumes it: "h c = Some it" and alloc: "\<And>s. act = Some s \<Longrightarrow> \<exists>its. h s = Some its"
    and dist: "c \<notin> set cs" "act \<noteq> Some c" "\<And>s. act = Some s \<Longrightarrow> s \<notin> set cs"
  shows "give_active (if kind it = PCUT_KIND_SETUP \<or> kind it = PCUT_KIND_TEARDOWN then store_hook (hook_update it) act c h else h)
     (if kind it = PCUT_KIND_TESTSUITE then Some c else act) cs = give_active h act (c # cs)"
proof (cases "kind it = PCUT_KIND_SETUP \<or> kind it = PCUT_KIND_TEARDOWN")
  case True
  then show ?thesis
    using store_hook_step [of h c it "hook_update it", OF it _ dist] by (auto simp: hook_update_def)
next
  case no: False
  show ?thesis
  proof (cases "kind it = PCUT_KIND_TESTSUITE")
    case True
    with give_active_suite [of h c it act, OF it _ dist(2,3)] show ?thesis by simp
  next
    case False
    with no it have "hook_item h cs it = it" "\<not> is_suite h c" by (simp_all add: hook_item_def is_suite_Some)
    from give_active_plain [of h c it, OF it this dist] no False show ?thesis by simp
  qed
qed

lemma callbacks_loop_dll:
  "dll h p (bs @ cs) None \<Longrightarrow> distinct (bs @ cs) \<Longrightarrow> (\<And>s. act = Some s \<Longrightarrow> s \<in> set bs) \<Longrightarrow>
   callbacks_loop h act (hd_ptr (reals h cs) None) = Some (give_active h act cs)"
proof (induction cs arbitrary: bs h act)
  case Nil
  have "give_active h act [] = h"
    by (auto simp: give_active_def before_suite_def fun_eq_iff split: option.split)
  then show ?case by (subst callbacks_loop.simps) simp
next
  case (Cons c cs)
  from dll_alloc [OF Cons.prems(1), of c] obtain it where it: "h c = Some it" by auto
  have alloc: "\<exists>its. h s = Some its" if "act = Some s" for s
    using dll_alloc [OF Cons.prems(1), of s] Cons.prems(3) [OF that] by auto
  have dist: "c \<notin> set cs" "act \<noteq> Some c" "\<And>s. act = Some s \<Longrightarrow> s \<notin> set cs" "distinct ((bs @ [c]) @ cs)"
    using Cons.prems(2,3) by auto
  have plain: "give_active h act cs = give_active h act (c # cs)" if "hook_item h cs it = it" "\<not> is_suite h c"
    by (rule give_active_plain [of h c it, OF it that dist(1-3)])
  show ?case
  proof (cases "kind it = PCUT_KIND_SKIP")
    case True
    then have "hook_item h cs it = it" "\<not> is_suite h c" using it by (simp_all add: hook_item_def is_suite_Some)
    from plain [OF this] Cons.IH [of h "bs @ [c]" act] Cons.prems dist(4) True it show ?thesis
      by (simp add: kind_at_Some)
  next
    case False
    let ?act = "if kind it = PCUT_KIND_TESTSUITE then Some c else act"
    define h1 where "h1 = (if kind it = PCUT_KIND_SETUP \<or> kind it = PCUT_KIND_TEARDOWN then store_hook (hook_update it) act c h else h)"
    note round = callbacks_round [of h c it act, OF it alloc dist(2) Cons.prems(1) dist(1) h1_def]
    have "callbacks_loop h1 ?act (hd_ptr (reals h1 cs) None) = Some (give_active h1 ?act cs)"
      by (rule Cons.IH [where bs = "bs @ [c]"]) (use round(2) dist Cons.prems(3) in \<open>auto split: if_splits\<close>)
    moreover have "give_active h1 ?act cs = give_active h act (c # cs)"
      using give_active_round [of h c it act, OF it alloc dist(1-3)] by (simp add: h1_def)
    moreover have "hd_ptr (reals h (c # cs)) None = Some c" using False it by (simp add: kind_at_Some)
    ultimately show ?thesis using round(1) by simp
  qed
qed

lemma set_callbacks_dll:
  assumes "dll h p as None" and "distinct as"
  shows "set_setup_teardown_callbacks h (hd_ptr as None) = Some (give_hooks h as)"
proof -
  have act: "give_active h None as = give_hooks h as" by (simp add: give_active_def)
  have real: "callbacks_loop h None (hd_ptr (reals h as) None) = Some (give_hooks h as)"
    using callbacks_loop_dll [of h p "[]" as None] assms act by simp
  show ?thesis
  proof (cases as)
    case (Cons a as')
    from dll_alloc [OF assms(1), of a] Cons obtain it where it: "h a = Some it" by auto
    show ?thesis
    proof (cases "kind it = PCUT_KIND_SKIP")
      case True
      with Cons assms(1) it real real_next_split [of h p "[]" a as'] show ?thesis
        by (simp add: set_setup_teardown_callbacks_def kind_at_Some callbacks_loop.simps [of _ _ "Some a"]
            del: give_hooks.simps)
    qed (use Cons it real in \<open>simp add: set_setup_teardown_callbacks_def kind_at_Some del: give_hooks.simps\<close>)
  qed (use real in \<open>simp add: set_setup_teardown_callbacks_def\<close>)
qed

lemma hook_item_links [simp]: "previous (hook_item h as it) = previous it" "nxt (hook_item h as it) = nxt it"
  "ident (hook_item h as it) = ident it" "item_name (hook_item h as it) = item_name it"
  by (simp_all add: hook_item_def with_hooks_def)

lemma give_hooks_item:
  "h a = Some it \<Longrightarrow> \<exists>it'. give_hooks h as a = Some it' \<and> previous it' = previous it \<and> nxt it' = nxt it \<and>
     ident it' = ident it \<and> item_name it' = item_name it"
  by (induction as) auto

lemma dll_give_hooks: "dll h p as e \<Longrightarrow> dll (give_hooks h bs) p as e"
  by (erule dll_cong) (meson give_hooks_item)

section \<open>Arguments\<close>

text \<open>The arguments that choose the report and the mode.\<close>

definition options :: "handler \<Rightarrow> run_mode \<Rightarrow> bytes list" where
  "options rp mode = (if rp = Report_xml then [cstr ''-x''] else []) @
     (if mode = PCUT_RUN_MODE_SINGLE then [cstr ''-u''] else [])"

lemma arg_loop_options:
  assumes "pcut_run_mode s = PCUT_RUN_MODE_FORKING" "report_ops s = Some Report_tap"
  shows "arg_loop (options rp mode) first a b s =
    (Returned (Some (a, b)), s\<lparr>report_ops := Some rp, pcut_run_mode := mode\<rparr>)"
  using assms
  by (cases rp; cases mode)
    (auto simp: options_def cstr_def pcut_is_arg_with_number_def pcut_str_defs pcut_report_register_handler_def
      intro!: process.equality)

text \<open>\<open>-t\<close> and \<open>-s\<close> with a number that was printed with \<open>%d\<close>.\<close>

lemma arg_number:
  assumes "0 \<le> i" "i < 2 ^ 31" and "nul_free opt"
  shows "pcut_is_arg_with_number (cstr (opt @ show_int i)) (cstr opt) = Some (Some i)"
proof -
  obtain d where d: "c_strncmp (cstr (opt @ show_int i)) (cstr opt) (length opt) = Some d" "d = 0"
    using strncmp_cstr [of "opt @ show_int i" opt "[]" "[]"] assms(3) by (auto simp: cstr_def)
  have "drop (length opt) (cstr (opt @ show_int i)) = cstr (show_int i)" by (simp add: cstr_def)
  with d atoi_show_int [OF assms(1,2)] assms(3) show ?thesis
    by (simp add: pcut_is_arg_with_number_def pcut_str_start_equals_def pcut_str_size_def strlen_cstr)
qed

section \<open>The main function\<close>

text \<open>A program without options for its main function.\<close>

definition no_extras :: "pcut_item \<Rightarrow> bool" where
  "no_extras it = (case main_extras it of None \<Rightarrow> True
     | Some (m # _) \<Rightarrow> main_extra_type m = PCUT_MAIN_EXTRA_LAST | Some [] \<Rightarrow> False)"

lemma fix_list_dll:
  assumes "decls_ok h l xs" and "pcut_fix_list_get_real_head h l = Some (h1, first)"
  shows "dll h1 None (order xs) None" "hd_ptr (order xs) None = Some first" "distinct (order xs)"
    "\<And>a it. a \<in> set (order xs) \<Longrightarrow> h a = Some it \<Longrightarrow> \<exists>it'. h1 a = Some it' \<and> core it' = core it"
    "l \<in> set (order xs)"
proof -
  from fix_list_correct [OF assms(1)] assms(2) have ok: "first = hd (order xs)" "dll h1 None (order xs) None"
    "hrel (fix_rel (order xs)) h h1" by (auto simp: fix_ok_def)
  from assms(1) have ch: "chain h (Some l) xs" "distinct (order xs)" by (simp_all add: decls_ok_def)
  from ch(1) obtain x xs' where x: "xs = x # xs'" "l = src_addr x" by (cases xs) auto
  show "dll h1 None (order xs) None" "distinct (order xs)" by fact+
  show "hd_ptr (order xs) None = Some first" using ok(1) order_not_Nil [of xs] x(1) by (simp add: hd_ptr_ne)
  show "\<exists>it'. h1 a = Some it' \<and> core it' = core it" if "a \<in> set (order xs)" "h a = Some it" for a it
    using hrelD [OF ok(3) that(2)] that(1) by (auto simp: fix_rel_def fixed_def)
  show "l \<in> set (order xs)" using x by (cases x) auto
qed

lemma core_main_extras: "core it' = core it \<Longrightarrow> main_extras it' = main_extras it"
  by (cases it, cases it') (simp add: core_def)

text \<open>The state when the arguments are read, for a program without options.\<close>

definition main_state :: "heap \<Rightarrow> 'u \<Rightarrow> 'u process" where
  "main_state h u = pcut_report_register_handler Report_tap (start_state h u)"

lemma main_state_simps [simp]:
  "items (main_state h u) = h" "report_ops (main_state h u) = Some Report_tap"
  "pcut_run_mode (main_state h u) = PCUT_RUN_MODE_FORKING" "user (main_state h u) = u"
  "trace (main_state h u) = []" "reports_of (main_state h u) = (tap_zero, xml_zero)"
  by (simp_all add: main_state_def pcut_report_register_handler_def start_state_def reports_of_def)

lemma main_state_ready: "ready (main_state h u)"
  using ready_start [of h u]
  by (simp add: main_state_def ready_def buffers_ok_def pcut_report_register_handler_def)

text \<open>What \<open>pcut_main\<close> does before it looks at the arguments, and after.\<close>

lemma main_args:
  assumes "decls_ok h l xs" and lit: "h l = Some lit" "no_extras lit"
    and fixl: "pcut_fix_list_get_real_head h l = Some (h1, first)"
  shows "pcut_main E H forking l (p # args) (start_state h u) =
    (case arg_loop args (Some first) (-1) (-1) (main_state h1 u) of
       (Returned None, s) \<Rightarrow> Some (Returned PCUT_OUTCOME_PASS, s)
     | (Returned (Some (a, b)), s) \<Rightarrow>
         (case set_setup_teardown_callbacks (items s) (Some first) of
            None \<Rightarrow> Some (Fault, s)
          | Some h2 \<Rightarrow> run_selected E forking (Some p) (Some first) a b (s\<lparr>items := h2\<rparr>))
     | (Jumped, s) \<Rightarrow> Some (Jumped, s)
     | (Ended e, s) \<Rightarrow> Some (Ended e, s)
     | (Fault, s) \<Rightarrow> Some (Fault, s))"
proof -
  note fl = fix_list_dll [OF assms(1) fixl]
  from fl(4) [OF fl(5) lit(1)] obtain lit' where lit': "h1 l = Some lit'" "main_extras lit' = main_extras lit"
    using core_main_extras by blast
  define ms where "ms = (case main_extras lit of None \<Rightarrow> empty_main_extra | Some xs \<Rightarrow> xs)"
  have ms: "\<exists>m ms'. ms = m # ms' \<and> main_extra_type m = PCUT_MAIN_EXTRA_LAST"
    using lit(2) by (auto simp: ms_def no_extras_def empty_main_extra_def split: option.splits list.splits)
  have pre: "preinit_loop E H ms argv s = (Returned argv, s)" and ini: "init_loop E ms s = (Returned (), s)"
    for argv and s :: "'a process"
    using ms by auto
  have st: "items (start_state h u) = h" "(start_state h u)\<lparr>items := h1\<rparr> = start_state h1 u"
    by (simp_all add: start_state_def)
  show ?thesis
    using fixl lit'
    by (cases "arg_loop args (Some first) (-1) (-1) (main_state h1 u)"; cases "fst (arg_loop args (Some first) (-1) (-1) (main_state h1 u))")
      (auto simp: pcut_main_def st ms_def [symmetric] pre ini main_state_def [symmetric] lift_opt_def split: option.split)
qed

lemma main_selected:
  assumes "decls_ok h l xs" and "h l = Some lit" "no_extras lit"
    and fixl: "pcut_fix_list_get_real_head h l = Some (h1, first)"
    and args: "arg_loop args (Some first) (-1) (-1) (main_state h1 u) = (Returned (Some (a, b)), s)"
    and "items s = h1"
  shows "pcut_main E H forking l (p # args) (start_state h u) =
    run_selected E forking (Some p) (Some first) a b (s\<lparr>items := give_hooks h1 (order xs)\<rparr>)"
proof -
  note fl = fix_list_dll [OF assms(1) fixl]
  have "set_setup_teardown_callbacks h1 (Some first) = Some (give_hooks h1 (order xs))"
    using set_callbacks_dll [OF fl(1,3)] fl(2) by simp
  then show ?thesis using main_args [OF assms(1-4), of E H forking p args u] args assms(6) by simp
qed

context launcher begin

theorem main_spec:
  assumes decls: "decls_ok h l xs" and lit: "h l = Some lit" "no_extras lit"
    and fixl: "pcut_fix_list_get_real_head h l = Some (h1, first)"
    and path: "prog_path = Some p"
    and spec: "run_spec answer rp (give_hooks h1 (order xs)) (order xs) (tap_zero, xml_zero) u = Some (acts, u', ok)"
  shows "\<exists>s'. pcut_main E H forking l (p # options rp mode) (start_state h u) =
      Some (Returned (if ok then PCUT_OUTCOME_PASS else PCUT_OUTCOME_FAIL), s') \<and>
    trace s' = acts \<and> user s' = u'"
proof -
  note fl = fix_list_dll [OF decls fixl]
  define h2 where "h2 = give_hooks h1 (order xs)"
  define s2 where "s2 = (main_state h1 u)\<lparr>report_ops := Some rp, pcut_run_mode := mode\<rparr>"
  define s3 where "s3 = s2\<lparr>items := h2\<rparr>"
  have args: "arg_loop (options rp mode) (Some first) (-1) (-1) (main_state h1 u) = (Returned (Some (-1, -1)), s2)"
    unfolding s2_def by (rule arg_loop_options) simp_all
  have "items s2 = h1" by (simp add: s2_def)
  note main = main_selected [OF decls lit fixl args this]
  have s3: "idle mode rp s3" "reports_of s3 = (tap_zero, xml_zero)" "user s3 = u" "trace s3 = []" "items s3 = h2"
    using main_state_ready [of h1 u] main_state_simps(6) [of h1 u]
    by (simp_all add: s3_def s2_def idle_def ready_def buffers_ok_def reports_of_def)
  have dll3: "dll (items s3) None (order xs) None" using fl(1) s3(5) by (simp add: h2_def dll_give_hooks)
  from run_everything_spec [OF s3(1) dll3, of acts u' ok] spec s3(2-5) obtain s' where s':
    "run_everything E forking prog_path (Some first) s3 =
      Some (Returned (if ok then PCUT_OUTCOME_PASS else PCUT_OUTCOME_FAIL), s')"
    "trace s' = acts" "user s' = u'" using fl(2) by (auto simp: h2_def)
  have "pcut_main E H forking l (p # options rp mode) (start_state h u) =
      run_everything E forking prog_path (Some first) s3"
    using main [of E H forking p] path by (simp add: run_selected_def s3_def h2_def)
  with s' show ?thesis by auto
qed

end

end
