(* ===== verification/Example.thy ===== *)
theory Example
  imports RunAll
begin

text \<open>
  A small program for the concrete instances of the theorems: a main file with a suite that has a
  set-up and a tear-down, a passing and a failing test and a skipped one, and an import of a second
  file with one suite.  The items are as the macros of \<^verbatim>\<open>tests.h\<close> initialize them.
\<close>

definition item :: "ptr \<Rightarrow> kind \<Rightarrow> string \<Rightarrow> pcut_item" where
  "item p k name = zero_item\<lparr>previous := p, ident := -1, kind := k, item_name := name\<rparr>"

definition test_item :: "ptr \<Rightarrow> string \<Rightarrow> fptr \<Rightarrow> pcut_extra list \<Rightarrow> pcut_item" where
  "test_item p name f xs = (item p PCUT_KIND_TEST name)\<lparr>test_func := Some f,
     extras := Some (xs @ [\<lparr>extra_type = PCUT_EXTRA_LAST, timeout = 0\<rparr>])\<rparr>"

text \<open>The second file has the items 10 to 13, the main file the items 0 to 8.\<close>

definition demo_heap :: heap where
  "demo_heap = map_of [
     (0, item None PCUT_KIND_SKIP ''init''),
     (1, item (Some 0) PCUT_KIND_TESTSUITE ''Default''),
     (2, item (Some 1) PCUT_KIND_TESTSUITE ''main_suite''),
     (3, (item (Some 2) PCUT_KIND_SETUP ''setup'')\<lparr>setup_func := Some 100\<rparr>),
     (4, (item (Some 3) PCUT_KIND_TEARDOWN ''teardown'')\<lparr>teardown_func := Some 101\<rparr>),
     (5, test_item (Some 4) ''good'' 102 []),
     (6, test_item (Some 5) ''bad'' 103 [\<lparr>extra_type = PCUT_EXTRA_TIMEOUT, timeout = 5\<rparr>]),
     (7, test_item (Some 6) ''skipped'' 104 [\<lparr>extra_type = PCUT_EXTRA_SKIP, timeout = 0\<rparr>]),
     (8, (item (Some 7) PCUT_KIND_NESTED ''import_other'')\<lparr>nested := Some 13\<rparr>),
     (9, (item (Some 8) PCUT_KIND_SKIP ''main'')\<lparr>main_extras := Some empty_main_extra\<rparr>),
     (10, item None PCUT_KIND_SKIP ''init''),
     (11, item (Some 10) PCUT_KIND_TESTSUITE ''other''),
     (12, test_item (Some 11) ''imported'' 105 []),
     (13, item (Some 12) PCUT_KIND_SKIP ''exported_other'')]"

definition demo_srcs :: "src list" where
  "demo_srcs = [Leaf 9, Import 8 [Leaf 13, Leaf 12, Leaf 11, Leaf 10], Leaf 7, Leaf 6, Leaf 5, Leaf 4,
     Leaf 3, Leaf 2, Leaf 1, Leaf 0]"

definition demo_order :: "addr list" where
  "demo_order = [0, 1, 2, 3, 4, 5, 6, 7, 8, 10, 11, 12, 13, 9]"

text \<open>What the functions do; the user state counts the calls of the set-up.\<close>

definition demo_code :: "nat code" where
  "demo_code f n =
     (if f = 100 then Effect [Out ''up''] (n + 1) U_return
      else if f = 101 then Effect [Out ''down''] n U_return
      else if f = 102 then Effect [Out ''work''] n U_return
      else if f = 103 then Effect [] n (U_assert ''demo.c'' 7 ''Expected <%d>'' [FInt 42])
      else Effect [] n U_return)"

text \<open>A kernel that delivers everything in pieces of one byte.\<close>

definition demo_kernel :: kernel where
  "demo_kernel = \<lparr>pipe_stdout_ok = True, pipe_stderr_ok = True, fork_ok = True, strerror = (\<lambda>_. ''error''),
     run_child = (\<lambda>acts e al. (map (\<lambda>c. [c]) (stderr_of acts), map (\<lambda>c. [c]) (stdout_of acts), status_of e))\<rparr>"

definition demo_fixed :: heap where
  "demo_fixed = fst (the (pcut_fix_list_get_real_head demo_heap 9))"

lemmas demo_defs = demo_heap_def demo_srcs_def demo_order_def item_def test_item_def zero_item_def

lemma demo_code_ok: "code_ok demo_code"
  by (simp add: code_ok_def demo_code_def effect_ok_def end_ok_def)

lemma demo_decls: "decls_ok demo_heap 9 demo_srcs"
  by (simp add: decls_ok_def demo_defs extras_ok_def)

lemma demo_order: "order demo_srcs = demo_order"
  by (simp add: demo_defs)

lemma demo_dll: "dll demo_fixed None demo_order None"
  by code_simp

lemma demo_alloc: "a \<in> set demo_order \<Longrightarrow> demo_fixed a = Some (the (demo_fixed a))"
  using dll_alloc [OF demo_dll] by force

lemma demo_fix: "pcut_fix_list_get_real_head demo_heap 9 = Some (demo_fixed, 0)"
  using fix_list_correct [OF demo_decls] demo_order
  by (auto simp: fix_ok_def demo_fixed_def demo_order_def)

lemma demo_reals: "reals demo_fixed demo_order = [1, 2, 3, 4, 5, 6, 11, 12]"
  by code_simp

definition demo_main_item :: pcut_item where
  "demo_main_item = (item (Some 8) PCUT_KIND_SKIP ''main'')\<lparr>main_extras := Some empty_main_extra\<rparr>"

lemma demo_last: "demo_heap 9 = Some demo_main_item"
  by (simp add: demo_heap_def demo_main_item_def)

lemma demo_plain: "no_extras demo_main_item"
  by (simp add: no_extras_def empty_main_extra_def demo_main_item_def)

lemma demo_suites:
  "suites_of (give_hooks demo_fixed demo_order) demo_order = [(1, []), (2, [5, 6]), (11, [12])]"
  by code_simp

end
