(* ===== verification/Select.thy ===== *)
theory Select
  imports RunAll
begin

text \<open>
  The arguments of the main function that choose what is run: which option an argument is, and
  what the main function does when it runs one suite or one test.
\<close>

section \<open>Which option an argument is\<close>

text \<open>Two arguments whose second characters differ are not the same option.\<close>

lemma no_number:
  "x \<noteq> y \<Longrightarrow> y \<noteq> NUL \<Longrightarrow> pcut_is_arg_with_number (cstr (CHR ''-'' # x # as)) (cstr [CHR ''-'', y]) = Some None"
  by (auto simp: pcut_is_arg_with_number_def pcut_str_start_equals_def pcut_str_size_def cstr_def
      numeral_2_eq_2 byte_def)

lemma not_equal_option:
  "x \<noteq> y \<Longrightarrow> pcut_str_equals (cstr (CHR ''-'' # x # as)) (cstr [CHR ''-'', y]) = Some False"
  by (auto simp: pcut_str_equals_def cstr_def byte_def)

lemma arg_suite:
  assumes "0 \<le> i" "i < 2 ^ 31"
  shows "arg_loop (cstr (''-s'' @ show_int i) # args) first a b s = arg_loop args first i b s"
  using arg_number [OF assms, of "''-s''"]
  by (simp add: no_number not_equal_option)

lemma arg_test:
  assumes "0 \<le> i" "i < 2 ^ 31"
  shows "arg_loop (cstr (''-t'' @ show_int i) # args) first a b s = arg_loop args first a i s"
  using arg_number [OF assms, of "''-t''"]
  by (simp add: no_number not_equal_option)

lemma equal_option: "pcut_str_equals (cstr [CHR ''-'', x]) (cstr [CHR ''-'', x]) = Some True"
  by (simp add: pcut_str_equals_def cstr_def)

lemma arg_list:
  "arg_loop (cstr ''-l'' # args) first a b s =
     lift_opt (pcut_print_tests (items s) first) s (\<lambda>out s. (Returned None, emit out s))"
  using equal_option [of "CHR ''l''"] by (simp add: no_number)

lemma arg_single:
  "arg_loop (cstr ''-u'' # args) first a b s = arg_loop args first a b (s\<lparr>pcut_run_mode := PCUT_RUN_MODE_SINGLE\<rparr>)"
  using equal_option [of "CHR ''u''"] by (simp add: no_number not_equal_option)

section \<open>Looking up the items after the set-up functions are distributed\<close>

lemma give_hooks_at:
  "distinct (bs @ a # cs) \<Longrightarrow> give_hooks h (bs @ a # cs) a = map_option (hook_item h cs) (h a)"
  by (induction bs) auto

lemma kind_give_hooks:
  assumes "distinct as" "a \<in> set as" "h a = Some it"
  shows "kind_at (give_hooks h as) a =
    (if kind it = PCUT_KIND_SETUP \<or> kind it = PCUT_KIND_TEARDOWN then PCUT_KIND_SKIP else kind it)"
proof -
  from assms(2) obtain bs cs where "as = bs @ a # cs" by (auto simp: in_set_conv_decomp)
  with assms(1,3) give_hooks_at [of bs a cs h] show ?thesis
    by (auto simp: kind_at_def hook_item_def with_hooks_def)
qed

lemma reals_give_hooks:
  assumes "distinct as" and "dll h p as None"
  shows "set (reals (give_hooks h as) as) =
    {a \<in> set (reals h as). kind_at h a \<noteq> PCUT_KIND_SETUP \<and> kind_at h a \<noteq> PCUT_KIND_TEARDOWN}"
proof -
  have "kind_at (give_hooks h as) a \<noteq> PCUT_KIND_SKIP \<longleftrightarrow>
      kind_at h a \<noteq> PCUT_KIND_SKIP \<and> kind_at h a \<noteq> PCUT_KIND_SETUP \<and> kind_at h a \<noteq> PCUT_KIND_TEARDOWN"
    if a: "a \<in> set as" for a
  proof -
    from dll_alloc [OF assms(2) a] obtain it where "h a = Some it" by blast
    with kind_give_hooks [of as a h] assms(1) a show ?thesis by (auto simp: kind_at_Some)
  qed
  then show ?thesis by (auto simp: set_reals)
qed

text \<open>Where an id leads, when the items are numbered by position.\<close>

definition numbered :: "heap \<Rightarrow> addr list \<Rightarrow> bool" where
  "numbered h rs \<longleftrightarrow> (\<forall>k < length rs. map_option ident (h (rs ! k)) = Some (1 + int k))"

lemma find_unique:
  assumes "x \<in> set xs" and "P x" and "\<And>y. y \<in> set xs \<Longrightarrow> P y \<Longrightarrow> y = x"
  shows "find P xs = Some x"
proof (cases "find P xs")
  case None
  with assms(1,2) show ?thesis by (simp add: find_None_iff)
next
  case (Some y)
  then have "y \<in> set xs" "P y" by (auto simp: find_Some_iff)
  with assms(3) Some show ?thesis by simp
qed

lemma find_hooked:
  assumes dll: "dll h p as None" and dist: "distinct as" and num: "numbered h (reals h as)"
  shows "pcut_find_by_id (give_hooks h as) (hd_ptr as None) i = Some
    (if 1 \<le> i \<and> i \<le> int (length (reals h as)) \<and>
        kind_at h (reals h as ! nat (i - 1)) \<notin> {PCUT_KIND_SETUP, PCUT_KIND_TEARDOWN}
     then Some (reals h as ! nat (i - 1)) else None)"
    (is "_ = Some (if ?ok then Some ?a else None)")
proof -
  let ?g = "give_hooks h as"
  let ?P = "\<lambda>a. map_option ident (?g a) = Some i"
  note real = reals_give_hooks [OF dist dll]
  have id: "map_option ident (?g a) = map_option ident (h a)" if "a \<in> set as" for a
    using dll_alloc [OF dll that] give_hooks_item by force
  have at: "map_option ident (?g (reals h as ! k)) = Some (1 + int k)" if "k < length (reals h as)" for k
  proof -
    have "reals h as ! k \<in> set as" using nth_mem [OF that] by (simp add: set_reals)
    from id [OF this] num that show ?thesis unfolding numbered_def by metis
  qed
  have only: "?ok \<and> b = ?a" if b: "b \<in> set (reals ?g as)" and P: "?P b" for b
  proof -
    from b real obtain k where k: "k < length (reals h as)" "b = reals h as ! k" and
      kd: "kind_at h b \<noteq> PCUT_KIND_SETUP" "kind_at h b \<noteq> PCUT_KIND_TEARDOWN"
      by (auto simp: in_set_conv_nth)
    from at [OF k(1)] P k(2) have i: "i = 1 + int k" by auto
    then have "nat (i - 1) = k" by simp
    with i k kd show ?thesis by simp
  qed
  have "find ?P (reals ?g as) = (if ?ok then Some ?a else None)"
  proof (cases ?ok)
    case True
    then have k: "nat (i - 1) < length (reals h as)" by linarith
    then have "?a \<in> set (reals h as)" by simp
    then have "?a \<in> set (reals ?g as)" using True real by simp
    moreover have "?P ?a" using at [OF k] True by simp
    ultimately have "find ?P (reals ?g as) = Some ?a" by (rule find_unique) (use only in blast)
    with True show ?thesis by simp
  next
    case False
    have none: "\<not> (\<exists>b. b \<in> set (reals ?g as) \<and> ?P b)" using only False by blast
    have "find ?P (reals ?g as) = None" unfolding find_None_iff using none by simp
    with False show ?thesis by (simp only: if_False)
  qed
  then show ?thesis using pcut_find_by_id_dll [OF dll_give_hooks [OF dll]] by simp
qed

section \<open>Running what was selected\<close>

text \<open>The state in which a program without options runs what the arguments select.\<close>

definition hooked_state :: "heap \<Rightarrow> addr list \<Rightarrow> 'u \<Rightarrow> 'u process" where
  "hooked_state h as u = (main_state h u)\<lparr>items := give_hooks h as\<rparr>"

lemma hooked_state_simps [simp]:
  "items (hooked_state h as u) = give_hooks h as" "user (hooked_state h as u) = u"
  "trace (hooked_state h as u) = []" "reports_of (hooked_state h as u) = (tap_zero, xml_zero)"
  "report_ops (hooked_state h as u) = Some Report_tap" "pcut_run_mode (hooked_state h as u) = PCUT_RUN_MODE_FORKING"
  using main_state_simps(6) [of h u] by (simp_all add: hooked_state_def reports_of_def)

lemma hooked_state_ready: "ready (hooked_state h as u)"
  using main_state_ready [of h u] by (simp add: hooked_state_def ready_def buffers_ok_def)

lemma hooked_state_idle: "idle PCUT_RUN_MODE_FORKING Report_tap (hooked_state h as u)"
  by (simp add: idle_def hooked_state_ready)

lemma main_hooked:
  assumes "decls_ok h l xs" and "h l = Some lit" "no_extras lit"
    and "pcut_fix_list_get_real_head h l = Some (h1, first)"
    and "arg_loop args (Some first) (-1) (-1) (main_state h1 u) = (Returned (Some (a, b)), main_state h1 u)"
  shows "pcut_main E H forking l (p # args) (start_state h u) =
    run_selected E forking (Some p) (Some first) a b (hooked_state h1 (order xs) u)"
  using main_selected [OF assms] by (simp add: hooked_state_def)

text \<open>In the fixed list the visible items are numbered, and ids are looked up by position.\<close>

lemma fixed_numbered:
  assumes "decls_ok h l xs" and "pcut_fix_list_get_real_head h l = Some (h1, first)"
  shows "numbered h1 (reals h1 (order xs))"
  using fix_list_correct [OF assms(1)] assms(2) by (auto simp: fix_ok_def numbered_def)

lemma find_in_hooked:
  assumes "decls_ok h l xs" and "pcut_fix_list_get_real_head h l = Some (h1, first)"
  shows "pcut_find_by_id (give_hooks h1 (order xs)) (Some first) i = Some
    (if 1 \<le> i \<and> i \<le> int (length (reals h1 (order xs))) \<and>
        kind_at h1 (reals h1 (order xs) ! nat (i - 1)) \<notin> {PCUT_KIND_SETUP, PCUT_KIND_TEARDOWN}
     then Some (reals h1 (order xs) ! nat (i - 1)) else None)"
  using find_hooked [OF fix_list_dll(1,3) [OF assms] fixed_numbered [OF assms]] fix_list_dll(2) [OF assms] by simp

lemma kind_hooked:
  assumes "decls_ok h l xs" and "pcut_fix_list_get_real_head h l = Some (h1, first)"
    and "a \<in> set (order xs)" and "kind_at h1 a \<noteq> PCUT_KIND_SETUP" "kind_at h1 a \<noteq> PCUT_KIND_TEARDOWN"
  shows "\<exists>it. give_hooks h1 (order xs) a = Some it \<and> kind it = kind_at h1 a"
proof -
  note fl = fix_list_dll [OF assms(1,2)]
  from dll_alloc [OF fl(1) assms(3)] obtain it where it: "h1 a = Some it" by blast
  from give_hooks_item [of h1 a it "order xs", OF it] obtain it' where it': "give_hooks h1 (order xs) a = Some it'"
    by blast
  have "kind_at (give_hooks h1 (order xs)) a = kind it"
    using kind_give_hooks [of "order xs" a h1 it] fl(3) assms(3-5) it by (simp add: kind_at_Some)
  with it it' show ?thesis by (simp add: kind_at_Some)
qed

text \<open>Selecting a test: it runs as the process itself.\<close>

lemma main_runs_test:
  assumes fixed: "decls_ok h l xs" "h l = Some lit" "no_extras lit"
      "pcut_fix_list_get_real_head h l = Some (h1, first)"
    and i: "0 < i" "i < 2 ^ 31"
  shows "pcut_main E H forking l [p, cstr (''-t'' @ show_int i)] (start_state h u) =
    Some (run_only_test_id E (Some first) i (hooked_state h1 (order xs) u))"
proof -
  have "arg_loop [cstr (''-t'' @ show_int i)] (Some first) (-1) (-1) (main_state h1 u) =
      (Returned (Some (-1, i)), main_state h1 u)"
    using i arg_test [of i "[]"] by simp
  from main_hooked [OF fixed this, of E H forking p] i show ?thesis by (simp add: run_selected_def)
qed

lemma main_runs_suite:
  assumes fixed: "decls_ok h l xs" "h l = Some lit" "no_extras lit"
      "pcut_fix_list_get_real_head h l = Some (h1, first)"
    and i: "0 < i" "i < 2 ^ 31"
  shows "pcut_main E H forking l [p, cstr (''-s'' @ show_int i)] (start_state h u) =
    run_only_suite_id E forking (Some p) (Some first) i (hooked_state h1 (order xs) u)"
proof -
  have "arg_loop [cstr (''-s'' @ show_int i)] (Some first) (-1) (-1) (main_state h1 u) =
      (Returned (Some (i, -1)), main_state h1 u)"
    using i arg_suite [of i "[]"] by simp
  from main_hooked [OF fixed this, of E H forking p] i show ?thesis by (simp add: run_selected_def)
qed

lemma main_selected_test:
  assumes "decls_ok h l xs" and "h l = Some lit" and "no_extras lit"
    and "pcut_fix_list_get_real_head h l = Some (h1, first)"
    and "code_ok E" and "k < length (reals h1 (order xs))" and "1 + int k < 2 ^ 31"
    and "kind_at h1 (reals h1 (order xs) ! k) = PCUT_KIND_TEST"
    and "test_spec E (give_hooks h1 (order xs)) (reals h1 (order xs) ! k) u = Some (es, u', v)"
  shows "\<exists>s'. pcut_main E H F l [p, cstr (''-t'' @ show_int (1 + int k))] (start_state h u) = Some (verdict_status v, s') \<and>
    trace s' = forked_acts es \<and> user s' = u'"
proof -
  let ?a = "reals h1 (order xs) ! k" and ?s = "hooked_state h1 (order xs) u"
  have "?a \<in> set (order xs)" using nth_mem [OF assms(6)] by (simp add: set_reals)
  from kind_hooked [OF assms(1,4) this] assms(8) obtain it where
    it: "items ?s ?a = Some it" "kind it = PCUT_KIND_TEST" by auto
  have "pcut_find_by_id (items ?s) (Some first) (1 + int k) = Some (Some ?a)"
    using find_in_hooked [OF assms(1,4), of "1 + int k"] assms(6,8) by simp
  then have "run_only_test_id E (Some first) (1 + int k) ?s = pcut_run_test_forked E ?a ?s"
    using it by (simp add: run_only_test_id_def kind_at_Some)
  with main_runs_test [OF assms(1-4), of "1 + int k" E H F p u] assms(7)
    forked_run [OF assms(5) hooked_state_ready it(1)] assms(9) show ?thesis
    by (cases "pcut_run_test_forked E ?a ?s") auto
qed

section \<open>The result of a complete run\<close>

text \<open>What an answer of the forking launcher says: the user state is that of the runner, unchanged.\<close>

lemma unix_answer_user: "unix_answer K E h a u = Some (acts, u', outcome, e, t, x) \<Longrightarrow> u' = u \<and> acts = []"
  by (auto simp: unix_answer_def unix_promise_def bind_Some_conv split: if_splits)

text \<open>The outcome of a test, when the answer does not depend on the user state.\<close>

definition passes :: "(heap \<Rightarrow> addr \<Rightarrow> 'u \<Rightarrow> 'u answer option) \<Rightarrow> heap \<Rightarrow> 'u \<Rightarrow> addr \<Rightarrow> bool" where
  "passes answer h u a =
     (case answer h a u of None \<Rightarrow> False | Some (_, _, outcome, _) \<Rightarrow> outcome = PCUT_OUTCOME_PASS)"

text \<open>
  A launcher whose tests leave the user state of the runner alone and write nothing next to the
  report, as tests in processes of their own do: the result of every test is that of a run from the
  initial state, whatever ran before.
\<close>

locale isolated_launcher = launcher +
  assumes isolated: "answer h a u = Some (acts, u', outcome, e, t, x) \<Longrightarrow> u' = u"
    and quiet: "answer h a u = Some (acts, u', outcome, e, t, x) \<Longrightarrow> acts = []"
begin

lemma tests_isolated:
  "tests_spec answer rp h as r u = Some (acts, r', u', ok) \<Longrightarrow>
   u' = u \<and> ok = list_all (passes answer h u) as"
proof (induction as arbitrary: r acts u' r' ok)
  case (Cons a as)
  from Cons.prems obtain acts1 u1 outcome e t x where
    ans: "answer h a u = Some (acts1, u1, outcome, e, t, x)" by (auto split: option.splits)
  from isolated [OF this] have "u1 = u" .
  with Cons.prems ans obtain acts2 ok2 where
    "tests_spec answer rp h as (count_of rp outcome (start_of rp r)) u = Some (acts2, r', u', ok2)"
    "ok = (outcome = PCUT_OUTCOME_PASS \<and> ok2)" by (auto split: option.splits)
  with Cons.IH ans show ?case by (auto simp: passes_def)
qed simp

lemma suite_isolated:
  assumes "suite_spec answer rp h suite tests r u = Some (acts, r', u', ok)"
  shows "u' = u \<and> ok = list_all (passes answer h u) tests"
proof (cases "tests = []")
  case False
  with assms obtain it acts1 r1 where
    "tests_spec answer rp h tests (fst (suite_start_of rp it r)) u = Some (acts1, r1, u', ok)"
    by (fastforce simp: suite_spec_def bind_Some_conv)
  then show ?thesis by (rule tests_isolated)
qed (use assms in \<open>simp add: suite_spec_def\<close>)

lemma suites_isolated:
  "suites_spec answer rp h ss r u = Some (acts, r', u', ok) \<Longrightarrow>
   u' = u \<and> ok = list_all (\<lambda>s. list_all (passes answer h u) (snd s)) ss"
proof (induction ss arbitrary: r acts r' u' ok)
  case (Cons s ss)
  obtain suite tests where s: "s = (suite, tests)" by fastforce
  from Cons.prems s have "\<exists>acts1 r1 u1 ok1 acts2 ok2.
      suite_spec answer rp h suite tests r u = Some (acts1, r1, u1, ok1) \<and>
      suites_spec answer rp h ss r1 u1 = Some (acts2, r', u', ok2) \<and> ok = (ok1 \<and> ok2)"
    by (cases "suite_spec answer rp h suite tests r u") (fastforce simp: bind_Some_conv)+
  then obtain acts1 r1 u1 ok1 acts2 ok2 where
    1: "suite_spec answer rp h suite tests r u = Some (acts1, r1, u1, ok1)" and
    2: "suites_spec answer rp h ss r1 u1 = Some (acts2, r', u', ok2)" and ok: "ok = (ok1 \<and> ok2)"
    by blast
  from suite_isolated [OF 1] have "u1 = u" "ok1 = list_all (passes answer h u) tests" by auto
  with Cons.IH [of r1 acts2 r' u' ok2] 2 ok s show ?case by simp
qed simp

lemma run_isolated:
  assumes "run_spec answer rp h as r u = Some (acts, u', ok)"
  shows "u' = u \<and> ok = list_all (\<lambda>s. list_all (passes answer h u) (snd s)) (suites_of h as)"
proof -
  from assms have "\<exists>acts1 r1. suites_spec answer rp h (suites_of h as) (fst (init_of rp (tests_total h as) r)) u =
      Some (acts1, r1, u', ok)"
    by (fastforce simp: run_spec_def bind_Some_conv)
  then show ?thesis using suites_isolated by blast
qed

end

interpretation isolated: isolated_launcher E "\<lambda>_. pcut_run_test_forking K E" path PCUT_RUN_MODE_FORKING "unix_answer K E"
  for E :: "'u code" and K path
  by unfold_locales (rule unix_answer_user [THEN conjunct1], assumption, rule unix_answer_user [THEN conjunct2])

end
