(* ===== verification/ListProps.thy ===== *)
theory ListProps
  imports Example Select
begin

text \<open>
  The properties of the list component and of the parts of the control loop that walk the list:
  fixing, numbering, counting, lookup, listing, and set-up and tear-down functions.
\<close>

section \<open>Fixing the list\<close>

text \<open>C3: the backward lists that the macros build, with imports nested to any depth, are turned
  into one doubly linked list in declaration order, and the function returns.\<close>

theorem fixed_list_linked:
  assumes "decls_ok h l xs"
  shows "\<exists>h'. pcut_fix_list_get_real_head h l = Some (h', hd (order xs)) \<and> dll h' None (order xs) None"
  using fix_list_correct [OF assms] by (auto simp: fix_ok_def)

theorem fixed_list_linked_witness:
  "\<exists>h'. pcut_fix_list_get_real_head demo_heap 9 = Some (h', 0) \<and> dll h' None demo_order None"
  using fixed_list_linked [OF demo_decls] by (simp add: demo_order) (simp add: demo_order_def)

text \<open>C24: fixing keeps the data of every item and hides exactly the imports and the tests marked
  with \<open>PCUT_TEST_SKIP\<close>; memory that does not belong to the list is not touched.\<close>

theorem fixed_list_items:
  assumes "decls_ok h l xs" and "pcut_fix_list_get_real_head h l = Some (h', first)" and "h a = Some it"
  shows "\<exists>it'. h' a = Some it' \<and>
    (if a \<in> set (order xs) then core it' = core it \<and> kind it' = final_kind it else it' = it)"
proof -
  from fix_list_correct [OF assms(1)] assms(2) have "hrel (fix_rel (order xs)) h h'"
    by (auto simp: fix_ok_def)
  from hrelD [OF this assms(3)] show ?thesis by (auto simp: fix_rel_def fixed_def)
qed

theorem fixed_list_items_witness:
  "\<exists>h'. pcut_fix_list_get_real_head demo_heap 9 = Some (h', 0) \<and>
     (\<exists>it'. h' 7 = Some it' \<and> item_name it' = ''skipped'' \<and> kind it' = PCUT_KIND_SKIP)"
proof -
  obtain h' where h': "pcut_fix_list_get_real_head demo_heap 9 = Some (h', 0)"
    using fix_list_correct [OF demo_decls] demo_order by (auto simp: fix_ok_def demo_order_def)
  define it where "it = test_item (Some 6) ''skipped'' 104 [\<lparr>extra_type = PCUT_EXTRA_SKIP, timeout = 0\<rparr>]"
  have it: "demo_heap 7 = Some it" by (simp add: demo_heap_def it_def)
  from fixed_list_items [OF demo_decls h' it] obtain it' where
    "h' 7 = Some it'" "core it' = core it" "kind it' = final_kind it"
    by (auto simp: demo_order) (auto simp: demo_order_def)
  moreover from this have "item_name it' = item_name it"
    by (cases it; cases it') (simp add: core_def)
  ultimately show ?thesis
    using h' by (auto simp: it_def demo_defs final_kind_def skip_marked_def)
qed

text \<open>C26: after fixing, the visible items have the ids 1, 2, ... in order, and looking up an id
  (for \<open>-s\<close> and \<open>-t\<close>) finds exactly the item at that position, or nothing.\<close>

theorem lookup_by_id:
  assumes "decls_ok h l xs" and "pcut_fix_list_get_real_head h l = Some (h', first)"
  shows "pcut_find_by_id h' (Some first) i =
    Some (let rs = reals h' (order xs)
          in if 1 \<le> i \<and> i \<le> int (length rs) then Some (rs ! nat (i - 1)) else None)"
proof -
  note fl = fix_list_dll [OF assms]
  from fix_list_correct [OF assms(1)] assms(2) have
    "\<forall>k < length (reals h' (order xs)). map_option ident (h' (reals h' (order xs) ! k)) = Some (1 + int k)"
    by (auto simp: fix_ok_def)
  from find_numbered [OF this, of i] show ?thesis
    using pcut_find_by_id_dll [OF fl(1), of i] by (simp add: fl(2) Let_def)
qed

theorem lookup_by_id_witness:
  "pcut_find_by_id demo_fixed (Some 0) 6 = Some (Some 6) \<and> pcut_find_by_id demo_fixed (Some 0) 9 = Some None"
  using lookup_by_id [OF demo_decls demo_fix, of 6] lookup_by_id [OF demo_decls demo_fix, of 9]
  by (simp add: demo_order demo_reals Let_def)

text \<open>The number of tests that a report announces is the number of declared tests that are not
  marked with \<open>PCUT_TEST_SKIP\<close>, imported ones included.\<close>

theorem count_after_fix:
  assumes "decls_ok h l xs" and "pcut_fix_list_get_real_head h l = Some (h', first)"
  shows "pcut_count_tests h' (Some first) = Some (int (length (filter
    (\<lambda>a. \<exists>it. h a = Some it \<and> kind it = PCUT_KIND_TEST \<and> \<not> skip_marked it) (order xs))))"
proof -
  note fl = fix_list_dll [OF assms]
  have "kind_at h' a = PCUT_KIND_TEST \<longleftrightarrow>
      (\<exists>it. h a = Some it \<and> kind it = PCUT_KIND_TEST \<and> \<not> skip_marked it)" if "a \<in> set (order xs)" for a
  proof -
    have "\<exists>it. h a = Some it" using assms(1) that by (auto simp: decls_ok_def split: option.splits)
    then obtain it where it: "h a = Some it" by blast
    from fix_list_correct [OF assms(1)] assms(2) have "hrel (fix_rel (order xs)) h h'"
      by (auto simp: fix_ok_def)
    from hrelD [OF this it] that obtain it' where "h' a = Some it'" "kind it' = final_kind it"
      by (auto simp: fix_rel_def fixed_def)
    with it show ?thesis by (auto simp: kind_at_Some final_kind_def)
  qed
  then have "filter (\<lambda>a. kind_at h' a = PCUT_KIND_TEST) (order xs) =
      filter (\<lambda>a. \<exists>it. h a = Some it \<and> kind it = PCUT_KIND_TEST \<and> \<not> skip_marked it) (order xs)"
    by (rule filter_cong [OF refl])
  then show ?thesis using count_tests_dll [OF fl(1)] by (simp add: fl(2))
qed

section \<open>Walking the list\<close>

text \<open>\<open>-l\<close> prints one line for every visible suite and test, in list order, and nothing else.\<close>

theorem listing_prints_tests:
  assumes "dll h p as None" and "\<And>a. a \<in> set as \<Longrightarrow> kind_at h a \<noteq> PCUT_KIND_NESTED"
  shows "pcut_print_tests h (hd_ptr as None) = Some (concat (map (\<lambda>a. test_line (the (h a)))
    (filter (\<lambda>a. kind_at h a = PCUT_KIND_TESTSUITE \<or> kind_at h a = PCUT_KIND_TEST) as)))"
proof -
  have "concat (map (\<lambda>a. test_line (the (h a))) (reals h bs)) = concat (map (\<lambda>a. test_line (the (h a)))
    (filter (\<lambda>a. kind_at h a = PCUT_KIND_TESTSUITE \<or> kind_at h a = PCUT_KIND_TEST) bs))"
    if "set bs \<subseteq> set as" for bs
    using that
  proof (induction bs)
    case (Cons b bs)
    then obtain it where "h b = Some it" using dll_alloc [OF assms(1), of b] by auto
    with Cons assms(2) [of b] show ?case
      by (cases "kind it") (auto simp: kind_at_Some test_line_def)
  qed simp
  then show ?thesis using print_tests_dll [OF assms] by simp
qed

text \<open>C27: every suite gets the set-up and the tear-down function that is declared last after it and
  before the next suite, and keeps its own (none) where there is no such declaration.\<close>

theorem suite_gets_last_hooks:
  assumes "dll h p (bs @ a # cs) None" and "distinct (bs @ a # cs)"
    and "h a = Some it" and "kind it = PCUT_KIND_TESTSUITE"
  shows "\<exists>h' it'. set_setup_teardown_callbacks h (hd_ptr (bs @ a # cs) None) = Some h' \<and> h' a = Some it' \<and>
    setup_func it' = last_hook setup_func PCUT_KIND_SETUP h (takeWhile (\<lambda>b. \<not> is_suite h b) cs) (setup_func it) \<and>
    teardown_func it' = last_hook teardown_func PCUT_KIND_TEARDOWN h (takeWhile (\<lambda>b. \<not> is_suite h b) cs) (teardown_func it) \<and>
    kind it' = PCUT_KIND_TESTSUITE \<and> item_name it' = item_name it"
  using set_callbacks_dll [OF assms(1,2)] give_hooks_at [OF assms(2), of h] assms(3,4)
  by (simp add: hook_item_def with_hooks_def before_suite_def)

theorem suite_gets_last_hooks_witness:
  "\<exists>h' it'. set_setup_teardown_callbacks demo_fixed (Some 0) = Some h' \<and> h' 2 = Some it' \<and>
     setup_func it' = Some 100 \<and> teardown_func it' = Some 101"
proof -
  let ?cs = "[3, 4, 5, 6, 7, 8, 10, 11, 12, 13, 9]"
  have dll: "dll demo_fixed None ([0, 1] @ 2 # ?cs) None" using demo_dll by (simp add: demo_order_def)
  obtain it where it: "demo_fixed 2 = Some it" using dll_alloc [OF dll, of 2] by auto
  have "map_option kind (demo_fixed 2) = Some PCUT_KIND_TESTSUITE" by code_simp
  then have "kind it = PCUT_KIND_TESTSUITE" by (simp add: it)
  moreover have "last_hook setup_func PCUT_KIND_SETUP demo_fixed (takeWhile (\<lambda>b. \<not> is_suite demo_fixed b) ?cs) x = Some 100"
    "last_hook teardown_func PCUT_KIND_TEARDOWN demo_fixed (takeWhile (\<lambda>b. \<not> is_suite demo_fixed b) ?cs) x = Some 101" for x
  proof -
    have seg: "takeWhile (\<lambda>b. \<not> is_suite demo_fixed b) ?cs = [3, 4, 5, 6, 7, 8, 10]" by code_simp
    have f: "filter (\<lambda>a. kind_at demo_fixed a = PCUT_KIND_SETUP) [3, 4, 5, 6, 7, 8, 10] = [3]"
      "filter (\<lambda>a. kind_at demo_fixed a = PCUT_KIND_TEARDOWN) [3, 4, 5, 6, 7, 8, 10] = [4]"
      "Option.bind (demo_fixed 3) setup_func = Some 100" "Option.bind (demo_fixed 4) teardown_func = Some 101"
      by code_simp+
    show "last_hook setup_func PCUT_KIND_SETUP demo_fixed (takeWhile (\<lambda>b. \<not> is_suite demo_fixed b) ?cs) x = Some 100"
      "last_hook teardown_func PCUT_KIND_TEARDOWN demo_fixed (takeWhile (\<lambda>b. \<not> is_suite demo_fixed b) ?cs) x = Some 101"
      unfolding last_hook_def seg using f by simp_all
  qed
  ultimately show ?thesis using suite_gets_last_hooks [OF dll _ it] by auto
qed

end
