(* ===== verification/TestProps.thy ===== *)
theory TestProps
  imports Example
begin

text \<open>
  The properties of running and reporting one test: the runner in both modes, the messages of failed
  assertions, the output of the child, and the two reports.
\<close>

section \<open>The runner\<close>

text \<open>C4: a test that runs in its own process does what the specification \<open>sandbox\<close> says: it ends
  with the status of the verdict, and its output is that of the user functions in order (set-up, test,
  tear-down; after a failure the tear-down only), with each failure message at its place.\<close>

theorem forked_test_meets_spec:
  assumes "code_ok E" and "ready s" and "items s test = Some it"
    and "test_spec E (items s) test (user s) = Some (es, u, v)"
  shows "fst (pcut_run_test_forked E test s) = verdict_status v \<and>
    trace (snd (pcut_run_test_forked E test s)) = trace s @ forked_acts es \<and>
    user (snd (pcut_run_test_forked E test s)) = u"
  using assms by (rule forked_run)

theorem forked_test_meets_spec_witness:
  "fst (pcut_run_test_forked demo_code 6 (start_state demo_fixed 0)) = Ended (Exited 1) \<and>
   trace (snd (pcut_run_test_forked demo_code 6 (start_state demo_fixed 0))) =
     [Out (frame (Fail ''demo.c:7: Expected <42>''))]"
proof -
  have it: "items (start_state demo_fixed 0) 6 = Some (the (demo_fixed 6))"
    using demo_alloc [of 6] by (simp add: start_state_def demo_order_def)
  have "test_spec demo_code demo_fixed 6 0 =
      Some ([Did [], Did [], Message ''demo.c:7: Expected <42>'', Did []], 0, Failed ''demo.c:7: Expected <42>'' [])"
    by code_simp
  then have "test_spec demo_code (items (start_state demo_fixed 0)) 6 (user (start_state demo_fixed (0::nat))) =
      Some ([Did [], Did [], Message ''demo.c:7: Expected <42>'', Did []], 0, Failed ''demo.c:7: Expected <42>'' [])"
    by (simp add: start_state_def)
  from forked_test_meets_spec [OF demo_code_ok ready_start it this] show ?thesis
    by (simp add: verdict_status_def PCUT_OUTCOME_FAIL_def start_state_def)
qed

text \<open>C21: a test that runs in the process of the runner (\<open>-u\<close>) comes back with the outcome of its
  verdict, its output and then one entry of the report with the messages of the test and of the
  tear-down; the counters are updated and the runner is ready for the next test.\<close>

theorem single_test_meets_spec:
  assumes "code_ok E" and "ready s" and "items s test = Some it" and "report_ops s = Some h"
    and "test_spec E (items s) test (user s) = Some (es, u, v)" and "\<And>p. v \<noteq> Died p"
  shows "\<exists>s'. pcut_run_test_single E test s = (Returned (verdict_outcome v), s') \<and> ready s' \<and>
    trace s' = trace s @ single_acts es @ [Out (verdict_entry h (reports_of s) (item_name it) v)] \<and>
    reports_of s' = verdict_reports h (reports_of s) v \<and> user s' = u \<and> items s' = items s"
  using single_run [OF assms] by blast

theorem single_test_meets_spec_witness:
  "\<exists>s'. pcut_run_test_single demo_code 5 (main_state (give_hooks demo_fixed demo_order) 0) =
      (Returned PCUT_OUTCOME_PASS, s') \<and> ready s' \<and> user s' = 1 \<and>
    trace s' = [Out ''up'', Out ''work'', Out ''down'', Out (''ok 1 good'' @ [NL])]"
proof -
  let ?h = "give_hooks demo_fixed demo_order"
  have "map_option item_name (?h 5) = Some ''good''" by code_simp
  then obtain it where it: "items (main_state ?h (0::nat)) 5 = Some it" "item_name it = ''good''" by auto
  have sp: "test_spec demo_code ?h 5 0 = Some ([Did [Out ''up''], Did [Out ''work''], Did [Out ''down'']], 1, Passed)"
    by code_simp
  have e: "verdict_entry Report_tap (tap_zero, xml_zero) ''good'' Passed = ''ok 1 good'' @ [NL]" by code_simp
  from single_test_meets_spec [OF demo_code_ok main_state_ready it(1) main_state_simps(2)] sp it(2) e show ?thesis
    by (auto simp: verdict_outcome_def)
qed

text \<open>When a test and then its tear-down fail, the report gets both messages in this order: the two
  message buffers keep the first one alive while the second one is formatted.\<close>

theorem both_failures_reported:
  assumes "code_ok E" and "ready s" and "items s test = Some it" and "test_func it = Some f"
    and "report_ops s = Some Report_tap" and "parent_item (items s) test = Some suite"
    and "setup_func suite = None" and "teardown_func suite = Some g"
    and "E f (user s) = Effect as u1 (U_assert file1 line1 fmt1 args1)" and "vformat fmt1 args1 = Some m1"
    and "E g u1 = Effect bs u2 (U_assert file2 line2 fmt2 args2)" and "vformat fmt2 args2 = Some m2"
  shows "\<exists>s'. pcut_run_test_single E test s = (Returned PCUT_OUTCOME_FAIL, s') \<and>
    trace s' = trace s @ as @ bs @ [Out (tap_result (item_name it) (test_counter (tap s) + 1) PCUT_OUTCOME_FAIL
      (message_text file1 line1 m1) (message_text file2 line2 m2) [])]"
proof -
  have "test_spec E (items s) test (user s) = Some
      ([Did [], Did as, Message (message_text file1 line1 m1), Did bs, Message (message_text file2 line2 m2)], u2,
       Failed (message_text file1 line1 m1) (message_text file2 line2 m2))"
    using assms by (simp add: test_spec_def sandbox_def run_body_def after_failure_def call_opt_def call_end_def
      prepend_def)
  from single_run [OF assms(1-3,5) this] show ?thesis
    by (auto simp: verdict_outcome_def verdict_entry_def verdict_messages_def reports_of_def tap_test_start_def)
qed

text \<open>C33: the message of a failed assertion is \<open>file:line: text\<close>, cut to the 255 bytes that fit, always
  terminated and never written outside its buffer.\<close>

theorem assertion_message:
  assumes "vformat fmt args = Some body" and "nul_free filename" and "nul_free body" and "length b = MAX_MESSAGE_LENGTH + 1"
  shows "\<exists>b'. write_message filename line fmt args b = Some b' \<and> length b' = length b \<and>
    c_text b' = Some (take 255 (filename @ '':'' @ show_int line @ '': '' @ body))"
proof -
  obtain r where r: "write_message filename line fmt args b = Some (message_text filename line body @ NUL # r)"
    "length (message_text filename line body @ NUL # r) = length b"
    using write_message_text [OF assms(1-3), of b line] assms(4) by auto
  have "c_text (message_text filename line body @ NUL # r) = Some (message_text filename line body)"
    by (rule c_text_app) (use assms in simp)
  with r show ?thesis by (simp add: message_text_def location_def MAX_MESSAGE_LENGTH_def)
qed

theorem assertion_message_witness:
  "\<exists>b'. write_message ''demo.c'' 7 ''Expected <%d>'' [FInt 42] (replicate 257 NUL) = Some b' \<and>
     c_text b' = Some ''demo.c:7: Expected <42>''"
proof -
  have f: "vformat ''Expected <%d>'' [FInt 42] = Some ''Expected <42>''" by code_simp
  have t: "take 255 (''demo.c'' @ '':'' @ show_int 7 @ '': '' @ ''Expected <42>'') = ''demo.c:7: Expected <42>''"
    by code_simp
  show ?thesis
    using assertion_message [OF f, of "''demo.c''" "replicate 257 NUL" 7] t by (auto simp: MAX_MESSAGE_LENGTH_def)
qed

section \<open>The output of a test\<close>

text \<open>C22: the parent separates the failure messages from the text of the test exactly: for any sequence of
  texts and messages that fits the buffers, parsing the bytes of the child gives both back.\<close>

theorem parser_inverts_printing:
  assumes "list_all chunk_ok cs" and "2 \<le> k"
    and "length (stdio_text cs) \<le> BUFFER_SIZE" and "length (error_text cs) \<le> BUFFER_SIZE"
    and "full = concat (map frame cs) @ replicate k NUL"
  shows "parse_command_output full (length full) BUFFER_SIZE BUFFER_SIZE =
    Some (filled (stdio_text cs) BUFFER_SIZE, filled (error_text cs) BUFFER_SIZE)"
  using assms by (rule parse_command_output_frames)

theorem parser_inverts_printing_witness:
  "parse_command_output [CHR ''a'', NUL, NUL, NUL, CHR ''b'', NL, NUL, CHR ''c'', NUL, NUL]
       (length [CHR ''a'', NUL, NUL, NUL, CHR ''b'', NL, NUL, CHR ''c'', NUL, NUL]) BUFFER_SIZE BUFFER_SIZE =
     Some (filled ''ac'' BUFFER_SIZE, filled [CHR ''b'', NL] BUFFER_SIZE)"
  using parser_inverts_printing [of "[Text ''a'', Fail ''b'', Text ''c'']" 2]
  by (simp add: BUFFER_SIZE_def numeral_2_eq_2)

text \<open>C23: the parser reads and writes inside its buffers for every output that ends with two zero bytes,
  whatever the test wrote before them.\<close>

theorem parser_is_safe:
  assumes "full = p @ [NUL, NUL]"
  shows "parse_command_output full (length full) BUFFER_SIZE BUFFER_SIZE \<noteq> None"
  using assms by (rule parse_command_output_safe)

theorem parser_is_safe_witness:
  "parse_command_output [NUL, CHR ''x'', NUL, NUL] (length [NUL, CHR ''x'', NUL, NUL]) BUFFER_SIZE BUFFER_SIZE \<noteq> None"
  using parser_is_safe [of "[NUL, CHR ''x'', NUL, NUL]" "[NUL, CHR ''x'']"] by simp

text \<open>C40: a text of exactly \<open>BUFFER_SIZE\<close> bytes passes the size check, and the buffer is left without a
  terminating zero byte, so that printing it reads past its end.\<close>

theorem full_buffer_unterminated:
  assumes "nul_free s" and "length s = BUFFER_SIZE"
  shows "\<exists>out. parse_command_output (s @ [NUL, NUL]) (length (s @ [NUL, NUL])) BUFFER_SIZE BUFFER_SIZE = Some (out, replicate BUFFER_SIZE NUL) \<and>
    print_by_lines (Some out) prefix = None"
proof -
  have "parse_command_output (s @ [NUL, NUL]) (length (s @ [NUL, NUL])) BUFFER_SIZE BUFFER_SIZE =
      Some (filled s BUFFER_SIZE, filled [] BUFFER_SIZE)"
    using parse_command_output_frames [of "[Text s]" 2 BUFFER_SIZE BUFFER_SIZE] assms by (simp add: numeral_2_eq_2)
  moreover have "print_lines prefix t = None" if "nul_free t" for t
    using that
  proof (induction "length t" arbitrary: t rule: less_induct)
    case less
    show ?case
    proof (cases "NL \<in> set t")
      case True
      then obtain a b where t: "t = a @ NL # b" "NL \<notin> set a" by (meson split_list_first)
      with less.hyps [of b] less.prems show ?thesis
        by (subst print_lines.simps) (auto simp: pcut_str_find_char_def strchr_app split: option.split)
    next
      case False
      then have "c_strchr t NL = None" using less.prems by (induction t) auto
      then show ?thesis by (subst print_lines.simps) (simp add: pcut_str_find_char_def)
    qed
  qed
  moreover have "s \<noteq> []" using assms by (auto simp: BUFFER_SIZE_def)
  ultimately show ?thesis
    using assms by (cases s) (auto simp: filled_def print_by_lines_def)
qed

theorem full_buffer_unterminated_witness:
  "\<exists>out. parse_command_output (replicate 4096 CHR ''x'' @ [NUL, NUL]) 4098 BUFFER_SIZE BUFFER_SIZE = Some (out, replicate BUFFER_SIZE NUL) \<and>
    print_by_lines (Some out) ''# stdio: '' = None"
  using full_buffer_unterminated [of "replicate 4096 CHR ''x''" "''# stdio: ''"]
  by (simp add: BUFFER_SIZE_def nul_free_def)

section \<open>The reports\<close>

text \<open>The closing line of a suite in the TAP report tells the number of its tests and of the failed ones
  among them, and the entries are numbered on from the tests of the suites before.\<close>

theorem tap_suite_summary:
  assumes "list_all (\<lambda>(_, _, m). tap_report.msgs_ok m) ts"
  shows "\<exists>st'. tap_report.report_tests ts (fst (tap_suite_start it st)) = Some (st', tap_report.entries (test_counter st) ts) \<and>
    test_counter st' = test_counter st + int (length ts) \<and>
    snd (tap_suite_done it st') =
      (let bad = length (filter (\<lambda>(_, outcome, _). outcome \<noteq> PCUT_OUTCOME_PASS) ts)
       in ''#> Finished suite '' @ item_name it @
         (if bad = 0 then '' (passed).'' @ [NL]
          else '' (failed '' @ show_int (int bad) @ '' of '' @ show_int (int (length ts)) @ '').'' @ [NL]))"
proof -
  obtain st' where st': "tap_report.report_tests ts (fst (tap_suite_start it st)) = Some (st', tap_report.entries (test_counter st) ts)"
    "tests_in_suite st' = int (length ts)" "test_counter st' = test_counter st + int (length ts)"
    "failed_tests_in_suite st' = int (length (filter (\<lambda>(_, outcome, _). outcome \<noteq> PCUT_OUTCOME_PASS) ts))"
    using tap_report.suite_tally [OF assms, of it st] by blast
  then show ?thesis by (intro exI [of _ st']) (simp add: tap_suite_done_def Let_def)
qed

text \<open>The XML report counts in the same way: the comment after a suite has the number of its failed tests
  and of all its tests.\<close>

theorem xml_suite_summary:
  assumes "list_all (\<lambda>(_, _, m). xml_report.msgs_ok m) ts"
  shows "\<exists>st'. xml_report.report_tests ts (fst (xml_suite_start it st)) = Some (st', xml_report.entries (xml_test_counter st) ts) \<and>
    snd (xml_suite_done it st') = [TAB] @ ''</suite><!-- '' @ item_name it @ '': '' @
      show_int (int (length (filter (\<lambda>(_, outcome, _). outcome \<noteq> PCUT_OUTCOME_PASS) ts))) @ '' / '' @
      show_int (int (length ts)) @ '' -->'' @ [NL]"
  using xml_report.suite_tally [OF assms, of it st] by (auto simp: xml_suite_done_def)

text \<open>The TAP report prints every line of a message with its prefix and loses nothing: the lines with their
  newlines are the message, completed by a final newline.\<close>

theorem tap_keeps_message:
  assumes "msg_text m = Some s"
  shows "\<exists>m' ls. print_by_lines m prefix = Some (concat (map (\<lambda>l. prefix @ l @ [NL]) ls), m') \<and>
    concat (map (\<lambda>l. l @ [NL]) ls) = (if s = [] \<or> last s = NL then s else s @ [NL]) \<and>
    (\<forall>l. NL \<in> set l \<longrightarrow> l \<notin> set ls)"
  using print_by_lines_text [OF assms, of prefix] text_lines_concat [of s] text_lines_clean [of _ s]
  unfolding prefixed_def by blast

text \<open>The XML report puts a message into a CDATA section as it is, so that a message with the end mark of
  CDATA breaks out of the section.\<close>

theorem xml_message_not_escaped:
  assumes "msg_text m = Some s" and "s = a @ '']]>'' @ b"
  shows "\<exists>m' rest. xml_print_by_lines m element =
    Some ([TAB, TAB, TAB] @ ''<'' @ element @ ''><![CDATA['' @ a @ '']]>'' @ b @ rest, m')"
proof -
  obtain m' where m': "xml_print_by_lines m element = Some (cdata element s, m')"
    using xml_print_by_lines_text [OF assms(1), of element] by blast
  have "s \<noteq> []" using assms(2) by simp
  with m' assms(2) show ?thesis by (cases "last s = NL") (auto simp: cdata_def)
qed

section \<open>Assertions\<close>

text \<open>\<open>PCUT_ASSERT_INT_EQUALS\<close> fails exactly when the arguments differ as 64-bit numbers, with a message
  that has both values and both expressions.\<close>

theorem int_assertion:
  "if to_long_long expected = to_long_long actual
   then PCUT_ASSERT_INT_EQUALS expected actual qe qa = None
   else Option.bind (PCUT_ASSERT_INT_EQUALS expected actual qe qa) (\<lambda>(fmt, args). vformat fmt args) =
     Some (''Expected <'' @ show_int (to_long_long expected) @ ''> but got <'' @ show_int (to_long_long actual) @
       ''> ('' @ qe @ '' != '' @ qa @ '')'')"
  by (simp add: assert_defs Let_def)

text \<open>\<open>PCUT_ASSERT_STR_EQUALS\<close> on C strings never reads past an array, fails exactly when they differ, and
  then quotes both.\<close>

theorem string_assertion:
  assumes "nul_free e" and "nul_free a"
  shows "\<exists>r. PCUT_ASSERT_STR_EQUALS (Some (cstr e)) (Some (cstr a)) qe qa = Some r \<and>
    (if e = a then r = None
     else Option.bind r (\<lambda>(fmt, args). vformat fmt args) =
       Some (''Expected <'' @ e @ ''> but got <'' @ a @ ''> ('' @ qe @ '' != '' @ qa @ '')''))"
proof -
  obtain d where "c_strcmp (cstr e) (cstr a) = Some d" "d = 0 \<longleftrightarrow> e = a" using strcmp_cstr [OF assms] by blast
  with assms show ?thesis by (auto simp: assert_defs pcut_str_equals_def c_text_cstr)
qed

text \<open>\<open>PCUT_ASSERT_EQUALS\<close> pastes the quoted expressions into the format: the message is right when they have
  no percent sign, and formatting it is undefined for an expression with the operator \<open>%\<close>.\<close>

theorem equals_assertion:
  assumes "expected \<noteq> actual" and "CHR ''%'' \<notin> set (qe @ qa)"
  shows "Option.bind (PCUT_ASSERT_EQUALS expected actual qe qa) (\<lambda>(fmt, args). vformat fmt args) =
      Some (''Expected <'' @ qe @ ''> but got <'' @ qa @ ''>'') \<and>
    Option.bind (PCUT_ASSERT_EQUALS expected actual qe ''x % y'') (\<lambda>(fmt, args). vformat fmt args) = None"
  using assms by (simp add: assert_defs vformat_plain vformat_app)

text \<open>\<open>PCUT_ASSERT_STR_EQUALS_OR_NULL\<close> accepts two null pointers, fails when one of them is null, and compares
  the strings otherwise; a null pointer is quoted as \<open>NULL\<close>.\<close>

theorem string_or_null_assertion:
  assumes "pred_option nul_free e" and "pred_option nul_free a"
  shows "\<exists>r. PCUT_ASSERT_STR_EQUALS_OR_NULL (map_option cstr e) (map_option cstr a) qe qa = Some r \<and>
    (if e = a then r = None
     else Option.bind r (\<lambda>(fmt, args). vformat fmt args) =
       Some (''Expected <'' @ (case e of None \<Rightarrow> ''NULL'' | Some s \<Rightarrow> s) @ ''> but got <'' @
         (case a of None \<Rightarrow> ''NULL'' | Some s \<Rightarrow> s) @ ''> ('' @ qe @ '' != '' @ qa @ '')''))"
proof (cases e; cases a)
  fix s t assume "e = Some s" "a = Some t"
  moreover from this obtain d where "c_strcmp (cstr s) (cstr t) = Some d" "d = 0 \<longleftrightarrow> s = t"
    using strcmp_cstr [of s t] assms by auto
  ultimately show ?thesis using assms by (auto simp: assert_defs Let_def pcut_str_equals_def c_text_cstr)
qed (use assms in \<open>auto simp: assert_defs Let_def c_text_cstr\<close>)

lemma str_error_text:
  assumes "nul_free str" and "descr err = Some str"
  shows "\<exists>b. pcut_str_error descr err (replicate 100 NUL) 100 = Some b \<and> c_text b = Some (take 99 str)"
proof -
  define t where "t = take 99 str @ replicate (99 - length str) NUL"
  have t: "length t = 99" by (simp add: t_def)
  have "store (replicate 100 NUL) 0 t = Some (t @ [NUL])" using t by (simp add: store_def)
  moreover have "store (t @ [NUL]) 99 [NUL] = Some (t @ [NUL])" using t by (simp add: store_def)
  ultimately have "pcut_str_error descr err (replicate 100 NUL) 100 = Some (t @ [NUL])"
    using assms(2) by (simp add: pcut_str_error_def t_def [symmetric])
  moreover have "\<exists>r. t @ [NUL] = take 99 str @ NUL # r"
    by (cases "99 - length str") (simp_all add: t_def)
  then have "c_text (t @ [NUL]) = Some (take 99 str)" using assms(1) by (auto simp: c_text_app)
  ultimately show ?thesis by blast
qed

text \<open>\<open>PCUT_ASSERT_ERRNO_VAL\<close> fails exactly when the codes differ; the descriptions are cut to the 99 bytes that
  fit its local buffers.\<close>

theorem errno_assertion:
  assumes "descr e = Some es" and "descr a = Some as" and "nul_free es" and "nul_free as"
  shows "\<exists>r. PCUT_ASSERT_ERRNO_VAL descr e a qe = Some r \<and>
    (if e = a then r = None
     else Option.bind r (\<lambda>(fmt, args). vformat fmt args) =
       Some (''Expected error '' @ show_int e @ '' ('' @ qe @ '', '' @ take 99 es @ '') but got error '' @
         show_int a @ '' ('' @ take 99 as @ '')''))"
proof -
  from str_error_text [of es descr e] str_error_text [of as descr a] assms show ?thesis
    by (auto simp: assert_defs)
qed

end
