(* ===== verification/UnixProps.thy ===== *)
theory UnixProps
  imports Example
begin

text \<open>
  The properties of running a test in a child process on Unix: what is reported for a child that is
  allowed to finish, for one that is killed, and what happens to its two output streams.
\<close>

section \<open>Reading the output\<close>

text \<open>\<open>read_all\<close> stores the same bytes however the kernel cuts the stream into pieces: the first bytes of
  the stream that fit, without one final newline.\<close>

theorem reading_ignores_pieces:
  assumes "n \<le> length buffer" and "0 < n" and "stream reads = stream reads'"
  shows "read_all reads buffer n = read_all reads' buffer n \<and>
    map_option snd (read_all reads buffer n) = Some (length (chomp (take n (stream reads))))"
  using read_all_stream [OF assms(1,2), of reads] read_all_stream [OF assms(1,2), of reads'] assms(3)
  by (simp add: Let_def)

text \<open>The buffer after a stream was read into its beginning.\<close>

lemma chomp_length: "length (chomp s) \<le> length s"
  by (simp add: chomp_def)

lemma read_short:
  assumes "length (stream reads) \<le> n" "0 < n" "n \<le> length buffer"
  shows "read_all reads buffer n = Some (chomp (stream reads) @
    replicate (length (stream reads) - length (chomp (stream reads))) NUL @ drop (length (stream reads)) buffer,
    length (chomp (stream reads)))"
  using read_all_stream [OF assms(3,2), of reads] assms(1) by (simp add: Let_def)

text \<open>What is read from the standard output does not depend on a text on the error stream that is not longer.\<close>

lemma stderr_lost:
  assumes "length (stream er) \<le> length (stream ou)"
    and "length (stream er) + length (stream ou) < OUTPUT_BUFFER_SIZE - 1"
  shows "raw_texts er ou = raw_texts [] ou"
proof -
  let ?z = "replicate OUTPUT_BUFFER_SIZE NUL" and ?n = "length (chomp (stream er))"
  have n: "?n \<le> length (stream er)" by (rule chomp_length)
  define b where "b = chomp (stream er) @ replicate (length (stream er) - ?n) NUL @ drop (length (stream er)) ?z"
  have b: "read_all er ?z (OUTPUT_BUFFER_SIZE - 1) = Some (b, ?n)"
    unfolding b_def by (rule read_short) (use assms in \<open>simp_all add: OUTPUT_BUFFER_SIZE_def\<close>)
  have len: "length b = OUTPUT_BUFFER_SIZE" using n assms by (simp add: b_def OUTPUT_BUFFER_SIZE_def)
  have dr: "drop (length (stream ou)) b = drop (length (stream ou)) ?z"
    using assms n by (simp add: b_def)
  have 1: "read_all ou b (OUTPUT_BUFFER_SIZE - 1 - ?n) = Some (chomp (stream ou) @
      replicate (length (stream ou) - length (chomp (stream ou))) NUL @ drop (length (stream ou)) b, length (chomp (stream ou)))"
    by (rule read_short) (use assms n len in \<open>simp_all add: OUTPUT_BUFFER_SIZE_def\<close>)
  have 2: "read_all ou ?z (OUTPUT_BUFFER_SIZE - 1) = Some (chomp (stream ou) @
      replicate (length (stream ou) - length (chomp (stream ou))) NUL @ drop (length (stream ou)) ?z, length (chomp (stream ou)))"
    by (rule read_short) (use assms in \<open>simp_all add: OUTPUT_BUFFER_SIZE_def\<close>)
  have 3: "read_all [] ?z (OUTPUT_BUFFER_SIZE - 1) = Some (?z, 0)"
    by (simp add: read_all_def)
  from b 1 2 3 dr show ?thesis by (simp add: raw_texts_def)
qed

text \<open>The events of a test without what it writes to its error stream.\<close>

fun to_stdout :: "event list \<Rightarrow> event list" where
  "to_stdout [] = []"
| "to_stdout (Did as # es) = Did [Out (stdout_of as)] # to_stdout es"
| "to_stdout (Message m # es) = Message m # to_stdout es"

lemma to_stdout_same: "chunks_of (to_stdout es) = chunks_of es" "stdout_of (forked_acts (to_stdout es)) = stdout_of (forked_acts es)"
    "stderr_of (forked_acts (to_stdout es)) = []"
  by (induction es rule: to_stdout.induct) simp_all

text \<open>C39: on Unix the standard output of a test is read to the beginning of the buffer that holds what was read from its
  error stream: if a test writes at most as much to its error stream as to its standard output, and both fit in
  the buffer, its report has its messages and its standard output, and of the error stream nothing at all.\<close>

theorem stderr_overwritten:
  assumes "code_ok E" and "ready s" and "items s test = Some it" and "report_ops s = Some h"
    and "test_spec E (items s) test (user s) = Some (es, u, v)"
    and "pcut_get_test_timeout it = Some t"
    and "delivers K (forked_acts es) (end_of v) (alarm_of t)"
    and "length (stderr_of (forked_acts es)) \<le> length (stdout_of (forked_acts es))"
    and "length (stderr_of (forked_acts es)) + length (stdout_of (forked_acts es)) < OUTPUT_BUFFER_SIZE - 1"
    and "list_all chunk_ok (chunks_of es)"
    and "length (stdio_text (chunks_of es)) < BUFFER_SIZE" and "length (error_text (chunks_of es)) < BUFFER_SIZE"
  shows "\<exists>s'. pcut_run_test_forking K E test s = (Returned (unix_outcome v), s') \<and>
    trace s' = trace s @ [Out (entry_of h (start_of h (reports_of s)) (item_name it) (unix_outcome v)
      (error_text (chunks_of es)) [] (kept_stdio es))]"
proof -
  obtain er ou st where run: "run_child K (forked_acts es) (end_of v) (alarm_of t) = (er, ou, st)" by (metis prod_cases3)
  with assms(7) have k: "pipe_stdout_ok K" "pipe_stderr_ok K" "fork_ok K" "stream er = stderr_of (forked_acts es)"
    "stream ou = stdout_of (forked_acts es)" "st = status_of (end_of v)"
    and e: "case end_of v of Exited _ \<Rightarrow> True | Signaled n \<Rightarrow> 0 < n \<and> n < 127 | Hung \<Rightarrow> False"
    by (simp_all add: delivers_def)
  have "fits (to_stdout es)" using assms(9-12) by (simp add: fits_def to_stdout_same)
  from raw_texts_fits [OF this, of "[]" ou] k(5) have "raw_texts [] ou = Some (error_text (chunks_of es), kept_stdio es)"
    by (simp add: to_stdout_same kept_stdio_def)
  with stderr_lost [of er ou] assms(8,9) k(4,5) have "raw_texts er ou = Some (error_text (chunks_of es), kept_stdio es)" by simp
  from raw_run [OF assms(1-6) k(1-3) run this] k(6) status_outcome [OF e] show ?thesis by auto
qed

text \<open>A test that writes to both streams.\<close>

definition noisy_code :: "unit code" where
  "noisy_code f u = Effect [Err ''oops'', Out ''fine''] u U_return"

definition noisy_test :: pcut_item where
  "noisy_test = test_item (Some 0) ''noisy'' 7 []"

definition noisy_heap :: heap where
  "noisy_heap = [0 \<mapsto> item None PCUT_KIND_TESTSUITE ''noise'', 1 \<mapsto> noisy_test]"

definition noisy_state :: "unit process" where
  "noisy_state = pcut_report_register_handler Report_tap (start_state noisy_heap ())"

definition noisy_events :: "event list" where
  "noisy_events = [Did [], Did [Err ''oops'', Out ''fine''], Did []]"

lemma noisy_facts:
  "ready noisy_state" "items noisy_state 1 = Some noisy_test" "report_ops noisy_state = Some Report_tap"
  "trace noisy_state = []" "pcut_get_test_timeout noisy_test = Some 3" "item_name noisy_test = ''noisy''"
  "test_spec noisy_code (items noisy_state) 1 (user noisy_state) = Some (noisy_events, (), Passed)"
  "entry_of Report_tap (start_of Report_tap (reports_of noisy_state)) ''noisy'' PCUT_OUTCOME_PASS [] [] ''fine'' =
     ''ok 1 noisy'' @ [NL] @ ''# stdio: fine'' @ [NL]"
proof -
  show "ready noisy_state" using ready_start [of noisy_heap "()"]
    by (simp add: noisy_state_def pcut_report_register_handler_def ready_def buffers_ok_def)
  have s: "items noisy_state = noisy_heap" "user noisy_state = ()" "reports_of noisy_state = (tap_zero, xml_zero)"
    by (simp_all add: noisy_state_def pcut_report_register_handler_def start_state_def reports_of_def)
  show "items noisy_state 1 = Some noisy_test" by (simp add: s noisy_heap_def)
  show "report_ops noisy_state = Some Report_tap" "trace noisy_state = []"
    by (simp_all add: noisy_state_def pcut_report_register_handler_def start_state_def)
  show "pcut_get_test_timeout noisy_test = Some 3" "item_name noisy_test = ''noisy''" by code_simp+
  have "test_spec noisy_code noisy_heap 1 () = Some (noisy_events, (), Passed)" by code_simp
  then show "test_spec noisy_code (items noisy_state) 1 (user noisy_state) = Some (noisy_events, (), Passed)" by (simp add: s)
  have "entry_of Report_tap (start_of Report_tap (tap_zero, xml_zero)) ''noisy'' PCUT_OUTCOME_PASS [] [] ''fine'' =
     ''ok 1 noisy'' @ [NL] @ ''# stdio: fine'' @ [NL]" by code_simp
  then show "entry_of Report_tap (start_of Report_tap (reports_of noisy_state)) ''noisy'' PCUT_OUTCOME_PASS [] [] ''fine'' =
     ''ok 1 noisy'' @ [NL] @ ''# stdio: fine'' @ [NL]" by (simp add: s)
qed

theorem stderr_overwritten_witness:
  "stderr_of (forked_acts noisy_events) = ''oops'' \<and>
   (\<exists>s'. pcut_run_test_forking demo_kernel noisy_code 1 noisy_state = (Returned PCUT_OUTCOME_PASS, s') \<and>
      trace s' = [Out (''ok 1 noisy'' @ [NL] @ ''# stdio: fine'' @ [NL])])"
proof -
  have E: "code_ok noisy_code" by (simp add: code_ok_def noisy_code_def effect_ok_def end_ok_def)
  have a: "stderr_of (forked_acts noisy_events) = ''oops''" "stdout_of (forked_acts noisy_events) = ''fine''"
    "chunks_of noisy_events = [Text [], Text ''fine'', Text []]" "kept_stdio noisy_events = ''fine''"
    by (simp_all add: noisy_events_def kept_stdio_def)
  have v: "end_of Passed = Exited 0" "unix_outcome Passed = PCUT_OUTCOME_PASS"
    by (simp_all add: end_of_def unix_outcome_def PCUT_OUTCOME_PASS_def)
  have "delivers demo_kernel (forked_acts noisy_events) (end_of Passed) (alarm_of 3)" by code_simp
  from stderr_overwritten [OF E noisy_facts(1-3,7,5) this] a v noisy_facts(4,6,8) show ?thesis
    by (simp add: BUFFER_SIZE_def OUTPUT_BUFFER_SIZE_def nul_free_def)
qed

section \<open>A child that finishes\<close>

text \<open>For a child that the kernel lets finish, the parent reports the verdict of the test with its failure
  messages and its standard output, counts it, and keeps its own user state: nothing the test did to the
  data of its process is seen by the next test.\<close>

theorem finished_child_reported:
  assumes "code_ok E" and "ready s" and "items s test = Some it" and "report_ops s = Some h"
    and "test_spec E (items s) test (user s) = Some (es, u, v)"
    and "pcut_get_test_timeout it = Some t"
    and "delivers K (forked_acts es) (end_of v) (alarm_of t)" and "fits es"
  shows "\<exists>s'. pcut_run_test_forking K E test s = (Returned (unix_outcome v), s') \<and>
    trace s' = trace s @ [Out (entry_of h (start_of h (reports_of s)) (item_name it) (unix_outcome v)
      (error_text (chunks_of es)) [] (kept_stdio es))] \<and>
    reports_of s' = count_of h (unix_outcome v) (start_of h (reports_of s)) \<and> user s' = user s \<and> ready s'"
  using unix_run [OF assms] by (auto simp: carried_def)

text \<open>A test that exits with a multiple of 256 is reported as passed, although neither it nor its tear-down
  came to an end: the exit status has eight bits.\<close>

theorem exit_status_wraps:
  assumes "code_ok E" and "ready s" and "items s test = Some it" and "report_ops s = Some h"
    and "test_spec E (items s) test (user s) = Some (es, u, Died (Exited (256 * c)))"
    and "pcut_get_test_timeout it = Some t"
    and "delivers K (forked_acts es) (Exited (256 * c)) (alarm_of t)" and "fits es"
  shows "\<exists>s'. pcut_run_test_forking K E test s = (Returned PCUT_OUTCOME_PASS, s')"
  using unix_run [OF assms(1-6) _ assms(8), of K] assms(7) by (auto simp: end_of_def unix_outcome_def)

section \<open>A child that is killed\<close>

text \<open>The buffer of the parent when both streams together are shorter than the report buffers.\<close>

lemma short_buffers:
  assumes "length (stream er) + length (stream ou) < BUFFER_SIZE"
  shows "\<exists>b1 n p m. read_all er (replicate OUTPUT_BUFFER_SIZE NUL) (OUTPUT_BUFFER_SIZE - 1) = Some (b1, n) \<and>
    read_all ou b1 (OUTPUT_BUFFER_SIZE - 1 - n) = Some (p @ [NUL, NUL], m) \<and>
    length (p @ [NUL, NUL]) = OUTPUT_BUFFER_SIZE \<and> text_bytes (p @ [NUL, NUL]) < BUFFER_SIZE"
proof -
  let ?z = "replicate OUTPUT_BUFFER_SIZE NUL" and ?n = "length (chomp (stream er))"
  let ?e = "length (stream er)" and ?o = "length (stream ou)" and ?m = "length (chomp (stream ou))"
  have n: "?n \<le> ?e" "?m \<le> ?o" by (rule chomp_length)+
  have sz: "?e + ?o < 4096" using assms by (simp add: BUFFER_SIZE_def)
  define b1 where "b1 = chomp (stream er) @ replicate (?e - ?n) NUL @ drop ?e ?z"
  have 1: "read_all er ?z (OUTPUT_BUFFER_SIZE - 1) = Some (b1, ?n)"
    unfolding b1_def by (rule read_short) (use sz in \<open>simp_all add: OUTPUT_BUFFER_SIZE_def\<close>)
  have b1: "b1 = chomp (stream er) @ replicate (OUTPUT_BUFFER_SIZE - ?n) NUL"
    using n sz by (simp add: b1_def replicate_add [symmetric] OUTPUT_BUFFER_SIZE_def)
  have 2: "read_all ou b1 (OUTPUT_BUFFER_SIZE - 1 - ?n) =
      Some (chomp (stream ou) @ replicate (?o - ?m) NUL @ drop ?o b1, ?m)"
    by (rule read_short) (use n sz in \<open>simp_all add: b1 OUTPUT_BUFFER_SIZE_def\<close>)
  define p where "p = chomp (stream ou) @ replicate (?o - ?m) NUL @ drop ?o (chomp (stream er)) @
      replicate (OUTPUT_BUFFER_SIZE - ?n - (?o - ?n) - 2) NUL"
  have k: "OUTPUT_BUFFER_SIZE - ?n - (?o - ?n) = (OUTPUT_BUFFER_SIZE - ?n - (?o - ?n) - 2) + 2"
    using n sz by (simp add: OUTPUT_BUFFER_SIZE_def)
  have "drop ?o b1 = drop ?o (chomp (stream er)) @ replicate (OUTPUT_BUFFER_SIZE - ?n - (?o - ?n)) NUL"
    by (simp add: b1)
  also have "\<dots> = drop ?o (chomp (stream er)) @ replicate (OUTPUT_BUFFER_SIZE - ?n - (?o - ?n) - 2) NUL @ [NUL, NUL]"
    by (subst k, subst replicate_add) (simp add: numeral_2_eq_2)
  finally have eq: "chomp (stream ou) @ replicate (?o - ?m) NUL @ drop ?o b1 = p @ [NUL, NUL]"
    by (simp add: p_def)
  have "length (p @ [NUL, NUL]) = OUTPUT_BUFFER_SIZE"
    using n sz by (simp add: p_def OUTPUT_BUFFER_SIZE_def)
  moreover have "text_bytes (p @ [NUL, NUL]) < BUFFER_SIZE"
  proof -
    have le: "length (filter (\<lambda>c. c \<noteq> NUL) xs) \<le> length xs" for xs :: bytes by (rule length_filter_le)
    have "text_bytes (p @ [NUL, NUL]) = text_bytes (chomp (stream ou)) + text_bytes (drop ?o (chomp (stream er)))"
      by (simp add: text_bytes_def p_def)
    moreover have "text_bytes (chomp (stream ou)) \<le> ?m" "text_bytes (drop ?o (chomp (stream er))) \<le> ?n - ?o"
      using le [of "chomp (stream ou)"] le [of "drop ?o (chomp (stream er))"] by (simp_all add: text_bytes_def)
    ultimately show ?thesis using n sz by (simp add: BUFFER_SIZE_def)
  qed
  ultimately show ?thesis using 1 2 eq by metis
qed

lemma ends_zero_text: "ends_zero b \<Longrightarrow> \<exists>s. msg_text (Some b) = Some s"
  using strlen_None_iff [of b] last_in_set [of b]
  by (cases "c_strlen b") (auto simp: ends_zero_def msg_text_def c_text_def nul_free_def)

text \<open>In a short text the parser finds some output and some messages, whatever its bytes are.\<close>

lemma short_raw_texts:
  assumes "length (stream er) + length (stream ou) < BUFFER_SIZE"
  shows "\<exists>e x. raw_texts er ou = Some (e, x)"
proof -
  from short_buffers [OF assms] obtain b1 n p m where
    rd: "read_all er (replicate OUTPUT_BUFFER_SIZE NUL) (OUTPUT_BUFFER_SIZE - 1) = Some (b1, n)"
      "read_all ou b1 (OUTPUT_BUFFER_SIZE - 1 - n) = Some (p @ [NUL, NUL], m)"
    and p: "length (p @ [NUL, NUL]) = OUTPUT_BUFFER_SIZE" "text_bytes (p @ [NUL, NUL]) < BUFFER_SIZE"
    by blast
  from parse_command_output_terminated [OF refl p(2,2)] p(1) obtain xb eb where
    pc: "parse_command_output (p @ [NUL, NUL]) OUTPUT_BUFFER_SIZE BUFFER_SIZE BUFFER_SIZE = Some (xb, eb)"
    and "ends_zero xb" "ends_zero eb" by auto
  then obtain x e where "msg_text (Some xb) = Some x" "msg_text (Some eb) = Some e"
    using ends_zero_text by blast
  with rd pc show ?thesis by (simp add: raw_texts_def)
qed

lemma any_child_reported:
  assumes "code_ok E" and ready: "ready s" and it: "items s test = Some it" and h: "report_ops s = Some h"
    and spec: "test_spec E (items s) test (user s) = Some (es, u, v)"
    and t: "pcut_get_test_timeout it = Some t" and ok: "pipe_stdout_ok K" "pipe_stderr_ok K" "fork_ok K"
    and run: "run_child K (forked_acts es) (end_of v) (alarm_of t) = (er, ou, st)"
    and short: "length (stream er) + length (stream ou) < BUFFER_SIZE"
  shows "\<exists>s' e x. pcut_run_test_forking K E test s = (Returned (convert_wait_status_to_outcome st), s') \<and>
    trace s' = trace s @ [Out (entry_of h (start_of h (reports_of s)) (item_name it) (convert_wait_status_to_outcome st) e [] x)] \<and>
    reports_of s' = count_of h (convert_wait_status_to_outcome st) (start_of h (reports_of s)) \<and>
    user s' = user s \<and> carried s s'"
proof -
  from short_raw_texts [OF short] obtain e x where "raw_texts er ou = Some (e, x)" by blast
  from raw_run [OF assms(1-6) ok run this] show ?thesis by blast
qed

text \<open>A test that is killed by the alarm is reported as an error whatever part of its output has arrived
  (as long as that is shorter than the report buffers), and the runner goes on.\<close>

theorem killed_child_is_error:
  assumes "code_ok E" and "ready s" and "items s test = Some it" and "report_ops s = Some h"
    and "test_spec E (items s) test (user s) = Some (es, u, v)" and "pcut_get_test_timeout it = Some t"
    and "kills K (forked_acts es) (end_of v) (alarm_of t) out" and "length out < BUFFER_SIZE"
  shows "\<exists>s' e x. pcut_run_test_forking K E test s = (Returned PCUT_OUTCOME_INTERNAL_ERROR, s') \<and>
    trace s' = trace s @ [Out (entry_of h (start_of h (reports_of s)) (item_name it) PCUT_OUTCOME_INTERNAL_ERROR e [] x)] \<and>
    user s' = user s \<and> ready s'"
proof -
  obtain er ou st where run: "run_child K (forked_acts es) (end_of v) (alarm_of t) = (er, ou, st)"
    by (metis prod_cases3)
  with assms(7) have k: "pipe_stdout_ok K" "pipe_stderr_ok K" "fork_ok K" "stream er = []" "stream ou = out" "st = 9"
    by (auto simp: kills_def)
  have "convert_wait_status_to_outcome 9 = PCUT_OUTCOME_INTERNAL_ERROR" by code_simp
  with any_child_reported [OF assms(1-6) k(1-3) run] k assms(8) show ?thesis
    by (auto simp: carried_def)
qed

section \<open>No child\<close>

text \<open>When \<open>fork\<close> fails, the test is reported as an error without any message: the text that was formatted for
  it stays in the other buffer.\<close>

theorem fork_failure_without_message:
  assumes "ready s" and "items s test = Some it" and "report_ops s = Some h"
    and "pipe_stdout_ok K" and "pipe_stderr_ok K" and "\<not> fork_ok K"
  shows "\<exists>s'. pcut_run_test_forking K E test s = (Returned PCUT_OUTCOME_INTERNAL_ERROR, s') \<and>
    trace s' = trace s @ [Out (entry_of h (start_of h (reports_of s)) (item_name it) PCUT_OUTCOME_INTERNAL_ERROR [] [] [])]"
proof -
  define s1 where "s1 = (started s)\<lparr>error_message_buffer := replicate OUTPUT_BUFFER_SIZE NUL,
       extra_output_buffer := replicate OUTPUT_BUFFER_SIZE NUL\<rparr>"
  obtain b where b: "pcut_snprintf (error_message_buffer s1) (OUTPUT_BUFFER_SIZE - 1)
      (''fork() failed: '' @ strerror K 0 @ ''.'') = Some b"
    using snprintf_text [of "OUTPUT_BUFFER_SIZE - 1" "error_message_buffer s1"] by (simp add: s1_def OUTPUT_BUFFER_SIZE_def)
  define s2 where "s2 = s1\<lparr>error_message_buffer := b\<rparr>"
  have s2: "items s2 test = Some it" "report_ops s2 = Some h" "ready s2" "trace s2 = trace s"
    "reports_of s2 = start_of h (reports_of s)" "extra_output_buffer s1 = replicate OUTPUT_BUFFER_SIZE NUL"
    using assms reports_of_started [OF assms(3)]
    by (simp_all add: s2_def s1_def frame_simps ready_def buffers_ok_def) (simp add: reports_of_def)
  have "parse_command_output (replicate OUTPUT_BUFFER_SIZE NUL) OUTPUT_BUFFER_SIZE BUFFER_SIZE BUFFER_SIZE =
      Some (filled [] BUFFER_SIZE, filled [] BUFFER_SIZE)"
    using parse_command_output_frames [of "[]" OUTPUT_BUFFER_SIZE BUFFER_SIZE BUFFER_SIZE] by (simp add: OUTPUT_BUFFER_SIZE_def)
  from report_unparsed_call [OF this _ _ _ _ s2(1-3), of PCUT_OUTCOME_INTERNAL_ERROR] obtain s' where
    "pcut_report_test_done_unparsed (Some test) PCUT_OUTCOME_INTERNAL_ERROR (replicate OUTPUT_BUFFER_SIZE NUL) OUTPUT_BUFFER_SIZE s2 = (Returned (), s')"
    "trace s' = trace s2 @ [Out (entry_of h (reports_of s2) (item_name it) PCUT_OUTCOME_INTERNAL_ERROR [] [] [])]"
    by (auto simp: BUFFER_SIZE_def)
  then show ?thesis
    using assms(4-6) b s2 before_test_start_call [OF assms(2)]
    by (simp add: pcut_run_test_forking_def s1_def [symmetric] s2_def [symmetric])
qed

end
