(* ===== verification/Decls.thy ===== *)
theory Decls
  imports ItemList
begin

text \<open>
  The macros that declare tests, \<^verbatim>\<open>include/pcut/tests.h\<close> and \<^verbatim>\<open>include/pcut/prevs.h\<close>: every use of a
  macro defines a static item that points to the item of the use before it.  Items of a file have the
  numbers that \<open>__COUNTER__\<close> gives them; the number before is found in a table of macros.
\<close>

section \<open>Numbers\<close>

text \<open>
  The table \<open>PCUT_PREV_1\<close> to \<open>PCUT_PREV_300\<close>.  Outside of it the name of the item before is not
  a defined identifier, and the file does not compile.
\<close>

definition PCUT_PREV :: "nat \<Rightarrow> nat option" where
  "PCUT_PREV n = (if 1 \<le> n \<and> n \<le> 300 then Some (n - 1) else None)"

text \<open>The items \<open>pcut_item_n\<close> that are defined so far in a file.\<close>

type_synonym symbols = "nat \<rightharpoonup> addr"

definition PCUT_ITEM_NAME_PREV :: "symbols \<Rightarrow> nat \<Rightarrow> addr option" where
  "PCUT_ITEM_NAME_PREV names n = Option.bind (PCUT_PREV n) names"

section \<open>Items\<close>

definition static_item :: "ptr \<Rightarrow> kind \<Rightarrow> string \<Rightarrow> pcut_item" where
  "static_item p k name = \<lparr>previous = p, nxt = None, ident = -1, kind = k, item_name = name,
     test_func = None, setup_func = None, teardown_func = None, extras = None,
     main_extras = None, nested = None\<rparr>"

definition PCUT_ADD_ITEM :: "symbols \<Rightarrow> nat \<Rightarrow> kind \<Rightarrow> string \<Rightarrow> pcut_item option" where
  "PCUT_ADD_ITEM names num itemkind name =
     map_option (\<lambda>p. static_item (Some p) itemkind name) (PCUT_ITEM_NAME_PREV names num)"

definition PCUT_TEST_SET_TIMEOUT :: "int \<Rightarrow> pcut_extra" where
  "PCUT_TEST_SET_TIMEOUT time_out = \<lparr>extra_type = PCUT_EXTRA_TIMEOUT, timeout = time_out\<rparr>"

definition PCUT_TEST_SKIP :: pcut_extra where
  "PCUT_TEST_SKIP = \<lparr>extra_type = PCUT_EXTRA_SKIP, timeout = 0\<rparr>"

definition PCUT_TEST_EXTRA_LAST :: pcut_extra where
  "PCUT_TEST_EXTRA_LAST = \<lparr>extra_type = PCUT_EXTRA_LAST, timeout = 0\<rparr>"

definition PCUT_MAIN_EXTRA_SET_LAST :: pcut_main_extra where
  "PCUT_MAIN_EXTRA_SET_LAST = \<lparr>main_extra_type = PCUT_MAIN_EXTRA_LAST, init_hook = None, preinit_hook = None\<rparr>"

definition PCUT_MAIN_SET_INIT_HOOK :: "fptr \<Rightarrow> pcut_main_extra" where
  "PCUT_MAIN_SET_INIT_HOOK f = \<lparr>main_extra_type = PCUT_MAIN_EXTRA_INIT_HOOK, init_hook = Some f, preinit_hook = None\<rparr>"

definition PCUT_MAIN_SET_PREINIT_HOOK :: "fptr \<Rightarrow> pcut_main_extra" where
  "PCUT_MAIN_SET_PREINIT_HOOK f = \<lparr>main_extra_type = PCUT_MAIN_EXTRA_PREINIT_HOOK, init_hook = None, preinit_hook = Some f\<rparr>"

definition PCUT_MAIN_SET_XML_REPORT :: pcut_main_extra where
  "PCUT_MAIN_SET_XML_REPORT = \<lparr>main_extra_type = PCUT_MAIN_EXTRA_REPORT_XML, init_hook = None, preinit_hook = None\<rparr>"

definition PCUT_TEST_WITH_NUMBER :: "symbols \<Rightarrow> nat \<Rightarrow> string \<Rightarrow> fptr \<Rightarrow> pcut_extra list \<Rightarrow> pcut_item option" where
  "PCUT_TEST_WITH_NUMBER names num testname f es =
     map_option (\<lambda>it. it\<lparr>test_func := Some f, extras := Some es\<rparr>) (PCUT_ADD_ITEM names num PCUT_KIND_TEST testname)"

definition PCUT_TEST :: "symbols \<Rightarrow> nat \<Rightarrow> string \<Rightarrow> fptr \<Rightarrow> pcut_extra list \<Rightarrow> pcut_item option" where
  "PCUT_TEST names num testname f es = PCUT_TEST_WITH_NUMBER names num testname f (es @ [PCUT_TEST_EXTRA_LAST])"

definition PCUT_TEST_SUITE_WITH_NUMBER :: "symbols \<Rightarrow> nat \<Rightarrow> string \<Rightarrow> pcut_item option" where
  "PCUT_TEST_SUITE_WITH_NUMBER names num suitename = PCUT_ADD_ITEM names num PCUT_KIND_TESTSUITE suitename"

definition PCUT_TEST_BEFORE_WITH_NUMBER :: "symbols \<Rightarrow> nat \<Rightarrow> fptr \<Rightarrow> pcut_item option" where
  "PCUT_TEST_BEFORE_WITH_NUMBER names num f =
     map_option (\<lambda>it. it\<lparr>setup_func := Some f\<rparr>) (PCUT_ADD_ITEM names num PCUT_KIND_SETUP ''setup'')"

definition PCUT_TEST_AFTER_WITH_NUMBER :: "symbols \<Rightarrow> nat \<Rightarrow> fptr \<Rightarrow> pcut_item option" where
  "PCUT_TEST_AFTER_WITH_NUMBER names num f =
     map_option (\<lambda>it. it\<lparr>teardown_func := Some f\<rparr>) (PCUT_ADD_ITEM names num PCUT_KIND_TEARDOWN ''teardown'')"

definition PCUT_EXPORT_WITH_NUMBER :: "symbols \<Rightarrow> nat \<Rightarrow> string \<Rightarrow> pcut_item option" where
  "PCUT_EXPORT_WITH_NUMBER names num exp_name =
     map_option (\<lambda>p. static_item (Some p) PCUT_KIND_SKIP (''exported_'' @ exp_name)) (PCUT_ITEM_NAME_PREV names num)"

definition PCUT_IMPORT_WITH_NUMBER :: "symbols \<Rightarrow> nat \<Rightarrow> string \<Rightarrow> addr \<Rightarrow> pcut_item option" where
  "PCUT_IMPORT_WITH_NUMBER names num exp_name exported =
     map_option (\<lambda>it. it\<lparr>nested := Some exported\<rparr>) (PCUT_ADD_ITEM names num PCUT_KIND_NESTED (''import_'' @ exp_name))"

text \<open>The first item of a file; the suite \<open>Default\<close> follows it.\<close>

definition PCUT_INIT_item :: pcut_item where
  "PCUT_INIT_item = static_item None PCUT_KIND_SKIP ''init''"

definition PCUT_MAIN_WITH_NUMBER :: "symbols \<Rightarrow> nat \<Rightarrow> pcut_main_extra list \<Rightarrow> pcut_item option" where
  "PCUT_MAIN_WITH_NUMBER names num mx =
     map_option (\<lambda>p. (static_item (Some p) PCUT_KIND_SKIP ''main'')\<lparr>main_extras := Some mx\<rparr>)
       (PCUT_ITEM_NAME_PREV names num)"

lemmas macro_defs = PCUT_ADD_ITEM_def PCUT_TEST_WITH_NUMBER_def PCUT_TEST_def PCUT_TEST_SUITE_WITH_NUMBER_def
  PCUT_TEST_BEFORE_WITH_NUMBER_def PCUT_TEST_AFTER_WITH_NUMBER_def PCUT_EXPORT_WITH_NUMBER_def
  PCUT_IMPORT_WITH_NUMBER_def PCUT_INIT_item_def PCUT_MAIN_WITH_NUMBER_def static_item_def

section \<open>Programs\<close>

text \<open>
  A program is the list of macro uses of the file with \<open>PCUT_MAIN\<close>, between \<open>PCUT_INIT\<close> and
  \<open>PCUT_MAIN\<close>.  An import stands with the macro uses of the file that has the export; no file is
  imported twice, since the items of a file exist once.
\<close>

datatype decl =
    D_test string fptr "pcut_extra list"
  | D_suite string
  | D_before fptr
  | D_after fptr
  | D_import string "decl list"

text \<open>
  The items that a list of macro uses defines: \<open>n\<close> is the next number in the file, \<open>a\<close> the next
  free address.  Next to the memory and the items as the list component sees them there is the
  state in which the rest of the file is compiled.
\<close>

fun place_decl :: "decl \<Rightarrow> symbols \<Rightarrow> nat \<Rightarrow> addr \<Rightarrow> ((addr \<times> pcut_item) list \<times> src \<times> addr) option"
and place_list :: "decl list \<Rightarrow> symbols \<Rightarrow> nat \<Rightarrow> addr \<Rightarrow>
  ((addr \<times> pcut_item) list \<times> src list \<times> symbols \<times> nat \<times> addr) option" where
  "place_decl (D_test name f es) names n a = map_option (\<lambda>it. ([(a, it)], Leaf a, a + 1)) (PCUT_TEST names n name f es)"
| "place_decl (D_suite name) names n a = map_option (\<lambda>it. ([(a, it)], Leaf a, a + 1)) (PCUT_TEST_SUITE_WITH_NUMBER names n name)"
| "place_decl (D_before f) names n a = map_option (\<lambda>it. ([(a, it)], Leaf a, a + 1)) (PCUT_TEST_BEFORE_WITH_NUMBER names n f)"
| "place_decl (D_after f) names n a = map_option (\<lambda>it. ([(a, it)], Leaf a, a + 1)) (PCUT_TEST_AFTER_WITH_NUMBER names n f)"
| "place_decl (D_import exp_name ds) names n a =
     do { dflt \<leftarrow> PCUT_TEST_SUITE_WITH_NUMBER [0 \<mapsto> a] 1 ''Default'';
          (cells, xs, names', n', b) \<leftarrow> place_list ds [0 \<mapsto> a, 1 \<mapsto> a + 1] 2 (a + 2);
          export \<leftarrow> PCUT_EXPORT_WITH_NUMBER names' n' exp_name;
          import \<leftarrow> PCUT_IMPORT_WITH_NUMBER names n exp_name b;
          Some ([(a, PCUT_INIT_item), (a + 1, dflt)] @ cells @ [(b, export), (b + 1, import)],
            Import (b + 1) (Leaf b # xs @ [Leaf (a + 1), Leaf a]), b + 2) }"
| "place_list [] names n a = Some ([], [], names, n, a)"
| "place_list (d # ds) names n a =
     do { (cells, x, b) \<leftarrow> place_decl d names n a;
          (cells', xs, names', n', c) \<leftarrow> place_list ds (names(n \<mapsto> src_addr x)) (n + 1) b;
          Some (cells @ cells', xs @ [x], names', n', c) }"

text \<open>The whole program: its memory, the address of its last item, and its items from the last to the first.
  \<open>Building\<close> has the check of the names, without which the files do not compile.\<close>

definition program :: "decl list \<Rightarrow> pcut_main_extra list \<Rightarrow> (heap \<times> addr \<times> src list) option" where
  "program ds mx =
     do { dflt \<leftarrow> PCUT_TEST_SUITE_WITH_NUMBER [0 \<mapsto> 0] 1 ''Default'';
          (cells, xs, names, n, b) \<leftarrow> place_list ds [0 \<mapsto> 0, 1 \<mapsto> 1] 2 2;
          last \<leftarrow> PCUT_MAIN_WITH_NUMBER names n mx;
          Some (map_of ([(0, PCUT_INIT_item), (1, dflt)] @ cells @ [(b, last)]), b,
            Leaf b # xs @ [Leaf 1, Leaf 0]) }"

text \<open>What is declared, in order: kind and name of every item.\<close>

fun declared_decl :: "decl \<Rightarrow> (kind \<times> string) list" and declared :: "decl list \<Rightarrow> (kind \<times> string) list" where
  "declared_decl (D_test name f es) = [(PCUT_KIND_TEST, name)]"
| "declared_decl (D_suite name) = [(PCUT_KIND_TESTSUITE, name)]"
| "declared_decl (D_before f) = [(PCUT_KIND_SETUP, ''setup'')]"
| "declared_decl (D_after f) = [(PCUT_KIND_TEARDOWN, ''teardown'')]"
| "declared_decl (D_import exp_name ds) =
     [(PCUT_KIND_NESTED, ''import_'' @ exp_name), (PCUT_KIND_SKIP, ''init''), (PCUT_KIND_TESTSUITE, ''Default'')] @
     declared ds @ [(PCUT_KIND_SKIP, ''exported_'' @ exp_name)]"
| "declared [] = []"
| "declared (d # ds) = declared_decl d @ declared ds"

text \<open>Every file has at most as many macro uses as there are numbers.\<close>

fun numbers_suffice :: "decl list \<Rightarrow> bool" and decl_suffices :: "decl \<Rightarrow> bool" where
  "decl_suffices (D_import exp_name ds) \<longleftrightarrow> length ds \<le> 298 \<and> numbers_suffice ds"
| "decl_suffices _ \<longleftrightarrow> True"
| "numbers_suffice [] \<longleftrightarrow> True"
| "numbers_suffice (d # ds) \<longleftrightarrow> decl_suffices d \<and> numbers_suffice ds"

section \<open>What the macros define is a list that the library accepts\<close>

lemma order_append' [simp]: "order (xs @ ys) = order ys @ order xs"
  by (induction xs) simp_all

definition holds_cells :: "heap \<Rightarrow> (addr \<times> pcut_item) list \<Rightarrow> bool" where
  "holds_cells h cells \<longleftrightarrow> (\<forall>(a, it) \<in> set cells. h a = Some it)"

lemma holds_cells_simps [simp]:
  "holds_cells h []" "holds_cells h ((a, it) # cells) \<longleftrightarrow> h a = Some it \<and> holds_cells h cells"
  "holds_cells h (cells @ cells') \<longleftrightarrow> holds_cells h cells \<and> holds_cells h cells'"
  by (auto simp: holds_cells_def)

text \<open>The cells are new, distinct addresses, and are the items of the declared list.\<close>

definition placed :: "(addr \<times> pcut_item) list \<Rightarrow> src list \<Rightarrow> addr \<Rightarrow> addr \<Rightarrow> bool" where
  "placed cells xs a b \<longleftrightarrow> a \<le> b \<and> distinct (map fst cells) \<and> distinct (order xs) \<and>
     set (map fst cells) \<subseteq> {a..<b} \<and> set (order xs) = set (map fst cells) \<and>
     (\<forall>(a, it) \<in> set cells. extras_ok it)"

lemma placed_append:
  assumes "placed cells xs a b" and "placed cells' ys b c"
  shows "placed (cells @ cells') (ys @ xs) a c"
proof -
  have "set (map fst cells) \<inter> set (map fst cells') = {}" using assms by (fastforce simp: placed_def)
  then show ?thesis using assms by (auto simp: placed_def)
qed

lemma extras_ok_static [simp]: "extras_ok (static_item p k name) \<longleftrightarrow> k \<noteq> PCUT_KIND_TEST"
  by (simp add: extras_ok_def static_item_def)

lemma placed_one: "extras_ok it \<Longrightarrow> placed [(a, it)] [Leaf a] a (Suc a)"
  by (simp add: placed_def)

text \<open>Where the next number leads.\<close>

lemma PREV_Some: "PCUT_ITEM_NAME_PREV names n = Some p \<longleftrightarrow> 1 \<le> n \<and> n \<le> 300 \<and> names (n - 1) = Some p"
  by (auto simp: PCUT_ITEM_NAME_PREV_def PCUT_PREV_def)

lemma has_skip_terminated: "has_skip_extra (es @ [PCUT_TEST_EXTRA_LAST]) \<noteq> None"
  by (induction es) (auto simp: PCUT_TEST_EXTRA_LAST_def split: extra_type.split)

lemma test_extras_ok: "PCUT_TEST names n name f es = Some it \<Longrightarrow> extras_ok it"
  using has_skip_terminated [of es] by (auto simp: macro_defs extras_ok_def)

text \<open>An item that is added to a list.\<close>

definition adds :: "(addr \<times> pcut_item) list \<Rightarrow> addr \<Rightarrow> addr \<Rightarrow> src list \<Rightarrow> bool" where
  "adds cells q q' xs \<longleftrightarrow>
     (\<forall>h base. holds_cells h cells \<longrightarrow> chain h (Some q) base \<longrightarrow> chain h (Some q') (xs @ base))"

lemma adds_leaf:
  "previous it = Some q \<Longrightarrow> kind it \<noteq> PCUT_KIND_NESTED \<Longrightarrow> adds [(a, it)] q a [Leaf a]"
  by (simp add: adds_def)

lemma adds_append: "adds cells q q' xs \<Longrightarrow> adds cells' q' q'' ys \<Longrightarrow> adds (cells @ cells') q q'' (ys @ xs)"
  by (simp add: adds_def)

text \<open>A whole file, as it is imported: its own first item and its suite \<open>Default\<close>.\<close>

lemma file_start:
  assumes "PCUT_TEST_SUITE_WITH_NUMBER [0 \<mapsto> a] 1 ''Default'' = Some dflt"
  shows "placed [(a, PCUT_INIT_item), (a + 1, dflt)] [Leaf (a + 1), Leaf a] a (a + 2)"
    and "holds_cells h [(a, PCUT_INIT_item), (a + 1, dflt)] \<Longrightarrow> chain h (Some (a + 1)) [Leaf (a + 1), Leaf a]"
    and "kind dflt = PCUT_KIND_TESTSUITE" "item_name dflt = ''Default''"
  using assms by (auto simp: placed_def macro_defs PREV_Some extras_ok_def)

lemma placed_import:
  assumes start: "placed start_cells start_xs a b" and mid: "placed cells xs b c"
    and "extras_ok export" "extras_ok import"
  shows "placed (start_cells @ cells @ [(c, export), (c + 1, import)]) [Import (c + 1) (Leaf c # xs @ start_xs)] a (c + 2)"
proof -
  have "placed (start_cells @ cells) (xs @ start_xs) a c" by (rule placed_append [OF start mid])
  moreover from this have "c \<notin> set (order (xs @ start_xs))" "c + 1 \<notin> set (order (xs @ start_xs))"
    by (auto simp: placed_def simp del: order_append')
  ultimately show ?thesis using assms(3,4) by (auto simp: placed_def)
qed

text \<open>An import: the file starts with its default suite and ends with its exported item.\<close>

lemma import_placed:
  assumes dflt: "PCUT_TEST_SUITE_WITH_NUMBER [0 \<mapsto> a] 1 ''Default'' = Some dflt"
    and mid: "placed icells ixs (a + 2) c" "inames (m - 1) = Some q'" "adds icells (a + 1) q' ixs"
    and export: "PCUT_EXPORT_WITH_NUMBER inames m exp_name = Some export"
    and import: "PCUT_IMPORT_WITH_NUMBER names n exp_name c = Some import" and prev: "names (n - 1) = Some q"
  defines "cells \<equiv> [(a, PCUT_INIT_item), (a + 1, dflt)] @ icells @ [(c, export), (c + 1, import)]"
    and "x \<equiv> Import (c + 1) (Leaf c # ixs @ [Leaf (a + 1), Leaf a])"
  shows "placed cells [x] a (c + 2) \<and> adds cells q (src_addr x) [x]"
proof -
  note start = file_start [OF dflt]
  have ex: "previous export = Some q'" "kind export = PCUT_KIND_SKIP" "extras_ok export"
    using export mid(2) by (auto simp: macro_defs PREV_Some extras_ok_def)
  have im: "previous import = Some q" "kind import = PCUT_KIND_NESTED" "nested import = Some c" "extras_ok import"
    using import prev by (auto simp: macro_defs PREV_Some extras_ok_def)
  have "placed cells [x] a (c + 2)"
    unfolding cells_def x_def by (rule placed_import [OF start(1) mid(1) ex(3) im(4)])
  moreover have "adds cells q (src_addr x) [x]"
    unfolding adds_def
  proof (intro allI impI)
    fix h base
    assume h: "holds_cells h cells" and base: "chain h (Some q) base"
    have "chain h (Some q') (ixs @ [Leaf (a + 1), Leaf a])"
      using mid(3) start(2) [of h] h by (simp add: adds_def cells_def)
    then show "chain h (Some (src_addr x)) ([x] @ base)"
      using h base ex(1,2) im by (simp add: x_def cells_def)
  qed
  ultimately show ?thesis by simp
qed

lemma place_ok:
  "place_decl d names n a = Some (cells, x, b) \<Longrightarrow> 1 \<le> n \<Longrightarrow> names (n - 1) = Some q \<Longrightarrow>
   placed cells [x] a b \<and> adds cells q (src_addr x) [x]"
  "place_list ds names n a = Some (lcells, xs, names', n', c) \<Longrightarrow> 1 \<le> n \<Longrightarrow> names (n - 1) = Some q \<Longrightarrow>
   n' = n + length ds \<and> placed lcells xs a c \<and> (\<exists>q'. names' (n' - 1) = Some q' \<and> adds lcells q q' xs)"
proof (induction d names n a and ds names n a arbitrary: cells x b q and lcells xs names' n' c q
    rule: place_decl_place_list.induct)
  case (1 name f es names n a)
  then show ?case using test_extras_ok [of names n name f es]
    by (auto simp: PREV_Some macro_defs intro!: placed_one adds_leaf)
next
  case (5 exp_name ds names n a)
  from "5.prems"(1) obtain dflt icells ixs inames in' c export import where
    dflt: "PCUT_TEST_SUITE_WITH_NUMBER [0 \<mapsto> a] 1 ''Default'' = Some dflt" and
    list: "place_list ds [0 \<mapsto> a, 1 \<mapsto> a + 1] 2 (a + 2) = Some (icells, ixs, inames, in', c)" and
    export: "PCUT_EXPORT_WITH_NUMBER inames in' exp_name = Some export" and
    import: "PCUT_IMPORT_WITH_NUMBER names n exp_name c = Some import" and
    cells: "cells = [(a, PCUT_INIT_item), (a + 1, dflt)] @ icells @ [(c, export), (c + 1, import)]" and
    x: "x = Import (c + 1) (Leaf c # ixs @ [Leaf (a + 1), Leaf a])" and b: "b = c + 2"
    by (auto simp: bind_Some_conv)
  from "5.IH" [OF dflt list, of "a + 1"] obtain q' where
    mid: "placed icells ixs (a + 2) c" "inames (in' - 1) = Some q'" "adds icells (a + 1) q' ixs" by auto
  show ?case unfolding cells x b by (rule import_placed [OF dflt mid export import "5.prems"(3)])
next
  case (7 d ds names n a)
  from "7.prems"(1) obtain dcells x b tcells txs where
    d: "place_decl d names n a = Some (dcells, x, b)" and
    ds: "place_list ds (names(n \<mapsto> src_addr x)) (n + 1) b = Some (tcells, txs, names', n', c)" and
    eqs: "lcells = dcells @ tcells" "xs = txs @ [x]"
    by (auto simp: bind_Some_conv)
  from "7.IH"(1) [OF d "7.prems"(2,3)] have 1: "placed dcells [x] a b" "adds dcells q (src_addr x) [x]" by auto
  from "7.IH"(2) [OF d refl refl ds, of "src_addr x"] obtain q' where
    2: "n' = n + 1 + length ds" "placed tcells txs b c" "names' (n' - 1) = Some q'" "adds tcells (src_addr x) q' txs"
    by auto
  show ?case
    using 2 placed_append [OF 1(1) 2(2)] adds_append [OF 1(2) 2(4)] by (auto simp: eqs)
qed (auto simp: PREV_Some macro_defs extras_ok_def placed_def adds_def intro!: placed_one adds_leaf)

text \<open>The number of items is the only limit.\<close>

lemma place_total:
  "1 \<le> n \<Longrightarrow> n \<le> 300 \<Longrightarrow> names (n - 1) = Some q \<Longrightarrow> decl_suffices d \<Longrightarrow> place_decl d names n a \<noteq> None"
  "1 \<le> n \<Longrightarrow> n + length ds \<le> 301 \<Longrightarrow> names (n - 1) = Some q \<Longrightarrow> numbers_suffice ds \<Longrightarrow> place_list ds names n a \<noteq> None"
proof (induction d names n a and ds names n a arbitrary: q and q rule: place_decl_place_list.induct)
  case (5 exp_name ds names n a)
  obtain dflt where dflt: "PCUT_TEST_SUITE_WITH_NUMBER [0 \<mapsto> a] 1 ''Default'' = Some dflt"
    by (simp add: macro_defs PCUT_ITEM_NAME_PREV_def PCUT_PREV_def)
  have "place_list ds [0 \<mapsto> a, 1 \<mapsto> a + 1] 2 (a + 2) \<noteq> None"
    by (rule "5.IH" [OF dflt]) (use "5.prems"(4) in auto)
  then obtain r where "place_list ds [0 \<mapsto> a, 1 \<mapsto> a + 1] 2 (a + 2) = Some r" by blast
  then obtain cells xs names' n' b where
    list: "place_list ds [0 \<mapsto> a, 1 \<mapsto> a + 1] 2 (a + 2) = Some (cells, xs, names', n', b)" by (cases r) auto
  from place_ok(2) [OF this, of "a + 1"] obtain q' where "n' = 2 + length ds" "names' (n' - 1) = Some q'" by auto
  then have "PCUT_ITEM_NAME_PREV names' n' = Some q'" "PCUT_ITEM_NAME_PREV names n = Some q"
    using "5.prems" by (auto simp: PREV_Some)
  with dflt list show ?case by (simp add: PCUT_EXPORT_WITH_NUMBER_def PCUT_IMPORT_WITH_NUMBER_def PCUT_ADD_ITEM_def)
next
  case (7 d ds names n a)
  from "7.IH"(1) [OF _ _ "7.prems"(3)] "7.prems" obtain r where "place_decl d names n a = Some r" by auto
  then obtain cells x b where d: "place_decl d names n a = Some (cells, x, b)" by (cases r) auto
  have "place_list ds (names(n \<mapsto> src_addr x)) (n + 1) b \<noteq> None"
    by (rule "7.IH"(2) [OF d refl refl, of "src_addr x"]) (use "7.prems" in auto)
  then obtain r where "place_list ds (names(n \<mapsto> src_addr x)) (n + 1) b = Some r" by blast
  then show ?case by (cases r) (simp add: d)
qed (auto simp: macro_defs PCUT_ITEM_NAME_PREV_def PCUT_PREV_def)

text \<open>The items in the order of the list are what was declared.\<close>

definition shown :: "heap \<Rightarrow> addr \<Rightarrow> (kind \<times> string) option" where
  "shown h a = map_option (\<lambda>it. (kind it, item_name it)) (h a)"

lemma shown_Some: "h a = Some it \<Longrightarrow> shown h a = Some (kind it, item_name it)"
  by (simp add: shown_def)

lemma place_declared:
  "place_decl d names n a = Some (cells, x, b) \<Longrightarrow> holds_cells h cells \<Longrightarrow>
   map (shown h) (flat x) = map Some (declared_decl d)"
  "place_list ds names n a = Some (lcells, xs, names', n', c) \<Longrightarrow> holds_cells h lcells \<Longrightarrow>
   map (shown h) (order xs) = map Some (declared ds)"
proof (induction d names n a and ds names n a arbitrary: cells x b and lcells xs names' n' c
    rule: place_decl_place_list.induct)
  case (5 exp_name ds names n a)
  from "5.prems"(1) obtain dflt icells ixs inames in' c export import where
    dflt: "PCUT_TEST_SUITE_WITH_NUMBER [0 \<mapsto> a] 1 ''Default'' = Some dflt" and
    list: "place_list ds [0 \<mapsto> a, 1 \<mapsto> a + 1] 2 (a + 2) = Some (icells, ixs, inames, in', c)" and
    ex: "PCUT_EXPORT_WITH_NUMBER inames in' exp_name = Some export" and
    im: "PCUT_IMPORT_WITH_NUMBER names n exp_name c = Some import" and
    cells: "cells = [(a, PCUT_INIT_item), (a + 1, dflt)] @ icells @ [(c, export), (c + 1, import)]" and
    x: "x = Import (c + 1) (Leaf c # ixs @ [Leaf (a + 1), Leaf a])"
    by (auto simp: bind_Some_conv)
  have "kind export = PCUT_KIND_SKIP" "item_name export = ''exported_'' @ exp_name"
    "kind import = PCUT_KIND_NESTED" "item_name import = ''import_'' @ exp_name"
    "kind PCUT_INIT_item = PCUT_KIND_SKIP" "item_name PCUT_INIT_item = ''init''"
    using ex im by (auto simp: macro_defs)
  with "5.IH" [OF dflt list] "5.prems"(2) file_start(3,4) [OF dflt] show ?case
    by (auto simp: x cells shown_Some)
next
  case (7 d ds names n a)
  from "7.prems"(1) obtain dcells x b tcells txs where
    d: "place_decl d names n a = Some (dcells, x, b)" and
    ds: "place_list ds (names(n \<mapsto> src_addr x)) (n + 1) b = Some (tcells, txs, names', n', c)" and
    eqs: "lcells = dcells @ tcells" "xs = txs @ [x]"
    by (auto simp: bind_Some_conv)
  with "7.IH"(1) [OF d] "7.IH"(2) [OF d refl refl ds] "7.prems"(2) show ?case by simp
qed (auto simp: macro_defs shown_Some)

section \<open>The program\<close>

lemma map_of_holds: "distinct (map fst cells) \<Longrightarrow> holds_cells (map_of cells) cells"
  by (auto simp: holds_cells_def)

lemma program_total: "length ds \<le> 298 \<Longrightarrow> numbers_suffice ds \<Longrightarrow> \<exists>h l xs. program ds mx = Some (h, l, xs)"
proof -
  assume ds: "length ds \<le> 298" "numbers_suffice ds"
  obtain dflt where dflt: "PCUT_TEST_SUITE_WITH_NUMBER [0 \<mapsto> 0] 1 ''Default'' = Some dflt"
    by (simp add: macro_defs PCUT_ITEM_NAME_PREV_def PCUT_PREV_def)
  from place_total(2) [of 2 ds "[0 \<mapsto> 0, 1 \<mapsto> 1]" 1 2] ds obtain r where
    "place_list ds [0 \<mapsto> 0, 1 \<mapsto> 1] 2 2 = Some r" by auto
  then obtain cells xs names n b where list: "place_list ds [0 \<mapsto> 0, 1 \<mapsto> 1] 2 2 = Some (cells, xs, names, n, b)"
    by (cases r) auto
  from place_ok(2) [OF this, of 1] obtain q where "n = 2 + length ds" "names (n - 1) = Some q" by auto
  with ds have "PCUT_ITEM_NAME_PREV names n = Some q" by (auto simp: PREV_Some)
  with dflt list show ?thesis by (simp add: program_def PCUT_MAIN_WITH_NUMBER_def)
qed

text \<open>The cells of a program are those of its macros, and all of them are in memory.\<close>

lemma program_cells:
  assumes "program ds mx = Some (h, l, xs)"
  obtains dflt cells ys names n last q where
    "PCUT_TEST_SUITE_WITH_NUMBER [0 \<mapsto> 0] 1 ''Default'' = Some dflt"
    "place_list ds [0 \<mapsto> 0, 1 \<mapsto> 1] 2 2 = Some (cells, ys, names, n, l)" "xs = Leaf l # ys @ [Leaf 1, Leaf 0]"
    "placed ([(0, PCUT_INIT_item), (1, dflt)] @ cells @ [(l, last)]) xs 0 (Suc l)"
    "holds_cells h ([(0, PCUT_INIT_item), (1, dflt)] @ cells @ [(l, last)])" "adds cells 1 q ys"
    "previous last = Some q" "kind last = PCUT_KIND_SKIP" "main_extras last = Some mx" "item_name last = ''main''"
proof -
  from assms obtain dflt cells ys names n last where
    dflt: "PCUT_TEST_SUITE_WITH_NUMBER [0 \<mapsto> 0] 1 ''Default'' = Some dflt" and
    list: "place_list ds [0 \<mapsto> 0, 1 \<mapsto> 1] 2 2 = Some (cells, ys, names, n, l)" and
    last: "PCUT_MAIN_WITH_NUMBER names n mx = Some last" and
    h: "h = map_of ([(0, PCUT_INIT_item), (1, dflt)] @ cells @ [(l, last)])" and
    xs: "xs = Leaf l # ys @ [Leaf 1, Leaf 0]"
    by (auto simp: program_def bind_Some_conv)
  have start: "placed [(0, PCUT_INIT_item), (1, dflt)] [Leaf 1, Leaf 0] 0 2"
    using file_start(1) [of 0 dflt] dflt by (simp_all only: add_0)
  from place_ok(2) [OF list, of 1] obtain q where
    mid: "placed cells ys 2 l" "names (n - 1) = Some q" "adds cells 1 q ys" by auto
  have la: "previous last = Some q" "kind last = PCUT_KIND_SKIP" "main_extras last = Some mx" "extras_ok last"
    "item_name last = ''main''" using last mid(2) by (auto simp: macro_defs PREV_Some extras_ok_def)
  let ?cells = "[(0, PCUT_INIT_item), (1, dflt)] @ cells @ [(l, last)]"
  have pl: "placed ?cells xs 0 (Suc l)"
    unfolding xs using placed_append [OF placed_append [OF start mid(1)] placed_one [OF la(4), of l]] by simp
  then have "distinct (map fst ?cells)" by (simp add: placed_def)
  then have "holds_cells h ?cells" unfolding h by (rule map_of_holds)
  from that [OF dflt list xs pl this mid(3) la(1-3,5)] show ?thesis .
qed

lemma program_ok:
  assumes "program ds mx = Some (h, l, xs)"
  shows "decls_ok h l xs"
    and "map (shown h) (order xs) =
      map Some ((PCUT_KIND_SKIP, ''init'') # (PCUT_KIND_TESTSUITE, ''Default'') # declared ds @ [(PCUT_KIND_SKIP, ''main'')])"
    and "\<exists>it. h l = Some it \<and> main_extras it = Some mx"
proof -
  from assms obtain dflt cells ys names n last q where
    dflt: "PCUT_TEST_SUITE_WITH_NUMBER [0 \<mapsto> 0] 1 ''Default'' = Some dflt" and
    list: "place_list ds [0 \<mapsto> 0, 1 \<mapsto> 1] 2 2 = Some (cells, ys, names, n, l)" and
    xs: "xs = Leaf l # ys @ [Leaf 1, Leaf 0]" and
    placed: "placed ([(0, PCUT_INIT_item), (1, dflt)] @ cells @ [(l, last)]) xs 0 (Suc l)" and
    cells: "holds_cells h ([(0, PCUT_INIT_item), (1, dflt)] @ cells @ [(l, last)])" and
    la: "adds cells 1 q ys" "previous last = Some q" "kind last = PCUT_KIND_SKIP" "main_extras last = Some mx" "item_name last = ''main''"
    by (rule program_cells)
  let ?cells = "[(0, PCUT_INIT_item), (1, dflt)] @ cells @ [(l, last)]"
  have start: "holds_cells h [(0, PCUT_INIT_item), (1, dflt)] \<Longrightarrow> chain h (Some 1) [Leaf 1, Leaf 0]"
    "kind dflt = PCUT_KIND_TESTSUITE" "item_name dflt = ''Default''"
    using file_start(3,4) [of 0 dflt] file_start(2) [of 0 dflt h] dflt by (simp_all only: add_0)
  from placed have pl: "distinct (order xs)" "set (order xs) = set (map fst ?cells)" "\<forall>(a, it) \<in> set ?cells. extras_ok it"
    unfolding placed_def by blast+
  have "chain h (Some q) (ys @ [Leaf 1, Leaf 0])"
    using la(1) start(1) cells by (simp add: adds_def)
  then have "chain h (Some l) xs" using cells la(2,3) by (simp add: xs)
  moreover have "case h a of None \<Rightarrow> False | Some it \<Rightarrow> extras_ok it" if "a \<in> set (order xs)" for a
    using that pl(2,3) cells by (fastforce simp: holds_cells_def)
  ultimately show "decls_ok h l xs" using pl(1) by (simp add: decls_ok_def)
  have "kind PCUT_INIT_item = PCUT_KIND_SKIP" "item_name PCUT_INIT_item = ''init''" by (simp_all add: macro_defs)
  with place_declared(2) [OF list, of h] cells la start(2,3) show "map (shown h) (order xs) =
      map Some ((PCUT_KIND_SKIP, ''init'') # (PCUT_KIND_TESTSUITE, ''Default'') # declared ds @ [(PCUT_KIND_SKIP, ''main'')])"
    by (simp add: xs shown_Some)
  show "\<exists>it. h l = Some it \<and> main_extras it = Some mx" using cells la(4) by simp
qed

lemma place_limit:
  "place_decl d names n a = Some (cells, x, b) \<Longrightarrow> n \<le> 300 \<and> decl_suffices d"
  "place_list ds names n a = Some (lcells, xs, names', n', c) \<Longrightarrow>
   n' = n + length ds \<and> (ds = [] \<or> n + length ds \<le> 301) \<and> numbers_suffice ds"
proof (induction d names n a and ds names n a arbitrary: cells x b and lcells xs names' n' c
    rule: place_decl_place_list.induct)
  case (7 d ds names n a)
  from "7.prems"(1) obtain dcells x b tcells txs where
    d: "place_decl d names n a = Some (dcells, x, b)" and
    ds: "place_list ds (names(n \<mapsto> src_addr x)) (n + 1) b = Some (tcells, txs, names', n', c)"
    by (auto simp: bind_Some_conv)
  from "7.IH"(1) [OF d] "7.IH"(2) [OF d refl refl ds] show ?case by auto
qed (fastforce simp: macro_defs PREV_Some bind_Some_conv)+

lemma program_limit:
  "program ds mx \<noteq> None \<longleftrightarrow> length ds \<le> 298 \<and> numbers_suffice ds"
proof
  assume "program ds mx \<noteq> None"
  then obtain cells ys names n l last where
    "place_list ds [0 \<mapsto> 0, 1 \<mapsto> 1] 2 2 = Some (cells, ys, names, n, l)" "PCUT_MAIN_WITH_NUMBER names n mx = Some last"
    by (auto simp: program_def bind_Some_conv)
  with place_limit(2) [OF this(1)] show "length ds \<le> 298 \<and> numbers_suffice ds"
    by (auto simp: PCUT_MAIN_WITH_NUMBER_def PREV_Some)
next
  assume "length ds \<le> 298 \<and> numbers_suffice ds"
  with program_total [of ds mx] show "program ds mx \<noteq> None" by auto
qed

end
