(* ===== verification/Documents.thy ===== *)
theory Documents
  imports Select
begin

text \<open>
  The two reports as documents: texts that are given by the results of the tests of every suite,
  without the counters that the code of the reports keeps.
\<close>

section \<open>Documents\<close>

text \<open>The result of a test: name, outcome, message of the test, message of its tear-down, output.\<close>

type_synonym test_result = "string \<times> int \<times> string \<times> string \<times> string"

definition passed :: "test_result \<Rightarrow> bool" where
  "passed r \<longleftrightarrow> fst (snd r) = PCUT_OUTCOME_PASS"

definition failures :: "test_result list \<Rightarrow> int" where
  "failures rs = int (length (filter (\<lambda>r. \<not> passed r) rs))"

fun tap_tests :: "int \<Rightarrow> test_result list \<Rightarrow> string" where
  "tap_tests n [] = []"
| "tap_tests n ((name, outcome, e, t, x) # rs) = tap_result name (n + 1) outcome e t x @ tap_tests (n + 1) rs"

definition tap_suite :: "int \<Rightarrow> string \<times> test_result list \<Rightarrow> string" where
  "tap_suite n s =
     (case s of (name, rs) \<Rightarrow>
        if rs = [] then []
        else ''#> Starting suite '' @ name @ ''.'' @ [NL] @ tap_tests n rs @
          (if failures rs = 0 then ''#> Finished suite '' @ name @ '' (passed).'' @ [NL]
           else ''#> Finished suite '' @ name @ '' (failed '' @ show_int (failures rs) @ '' of '' @
             show_int (int (length rs)) @ '').'' @ [NL]))"

fun tap_suites :: "int \<Rightarrow> (string \<times> test_result list) list \<Rightarrow> string" where
  "tap_suites n [] = []"
| "tap_suites n (s # ss) = tap_suite n s @ tap_suites (n + int (length (snd s))) ss"

definition all_results :: "(string \<times> test_result list) list \<Rightarrow> test_result list" where
  "all_results ss = concat (map snd ss)"

definition tap_document :: "(string \<times> test_result list) list \<Rightarrow> string" where
  "tap_document ss =
     ''1..'' @ show_int (int (length (all_results ss))) @ [NL] @ tap_suites 0 ss @
     (if failures (all_results ss) = 0 then ''#> Done: all tests passed.'' @ [NL]
      else ''#> Done: '' @ show_int (failures (all_results ss)) @ '' of '' @
        show_int (int (length (all_results ss))) @ '' tests failed.'' @ [NL])"

definition xml_suite :: "string \<times> test_result list \<Rightarrow> string" where
  "xml_suite s =
     (case s of (name, rs) \<Rightarrow>
        if rs = [] then []
        else [TAB] @ ''<suite name='' @ [DQ] @ name @ [DQ] @ ''>'' @ [NL] @
          concat (map (\<lambda>(name, outcome, e, t, x). xml_result name outcome e t x) rs) @
          [TAB] @ ''</suite><!-- '' @ name @ '': '' @ show_int (failures rs) @ '' / '' @
          show_int (int (length rs)) @ '' -->'' @ [NL])"

definition xml_document :: "(string \<times> test_result list) list \<Rightarrow> string" where
  "xml_document ss =
     ''<?xml version='' @ [DQ] @ ''1.0'' @ [DQ] @ ''?>'' @ [NL] @
     ''<report tests-total='' @ [DQ] @ show_int (int (length (all_results ss))) @ [DQ] @ ''>'' @ [NL] @
     concat (map xml_suite ss) @ ''</report>'' @ [NL]"

fun document :: "handler \<Rightarrow> (string \<times> test_result list) list \<Rightarrow> string" where
  "document Report_tap ss = tap_document ss"
| "document Report_xml ss = xml_document ss"

text \<open>The results of the tests of a list, each run from the same state.\<close>

fun results :: "(heap \<Rightarrow> addr \<Rightarrow> 'u \<Rightarrow> 'u answer option) \<Rightarrow> heap \<Rightarrow> 'u \<Rightarrow> addr list \<Rightarrow> test_result list option" where
  "results answer h u [] = Some []"
| "results answer h u (a # as) =
     do { it \<leftarrow> h a;
          (_, _, outcome, e, t, x) \<leftarrow> answer h a u;
          rs \<leftarrow> results answer h u as;
          Some ((item_name it, outcome, e, t, x) # rs) }"

fun suite_results :: "(heap \<Rightarrow> addr \<Rightarrow> 'u \<Rightarrow> 'u answer option) \<Rightarrow> heap \<Rightarrow> 'u \<Rightarrow> (addr \<times> addr list) list \<Rightarrow>
    (string \<times> test_result list) list option" where
  "suite_results answer h u [] = Some []"
| "suite_results answer h u ((suite, tests) # ss) =
     do { it \<leftarrow> h suite;
          rs \<leftarrow> results answer h u tests;
          rss \<leftarrow> suite_results answer h u ss;
          Some ((item_name it, rs) # rss) }"

lemma results_length: "results answer h u as = Some rs \<Longrightarrow> length rs = length as"
  by (induction as arbitrary: rs) (auto simp: bind_Some_conv)

lemma failures_simps [simp]:
  "failures [] = 0" "failures (r # rs) = (if passed r then 0 else 1) + failures rs"
  "failures (rs @ qs) = failures rs + failures qs"
  by (simp_all add: failures_def)

section \<open>The specification of a run gives a document\<close>

text \<open>The counters of a report after some tests.\<close>

fun counted :: "handler \<Rightarrow> test_result list \<Rightarrow> reports \<Rightarrow> reports" where
  "counted rp [] r = r"
| "counted rp (t # ts) r = counted rp ts (count_of rp (fst (snd t)) (start_of rp r))"

text \<open>The text of the tests of a suite in a report with these counters.\<close>

fun tests_text :: "handler \<Rightarrow> reports \<Rightarrow> test_result list \<Rightarrow> string" where
  "tests_text rp r [] = []"
| "tests_text rp r ((name, outcome, e, t, x) # ts) =
     entry_of rp (start_of rp r) name outcome e t x @ tests_text rp (count_of rp outcome (start_of rp r)) ts"

context isolated_launcher begin

lemma tests_results:
  "results answer h u as = Some rs \<Longrightarrow>
   \<exists>acts. tests_spec answer rp h as r u = Some (acts, counted rp rs r, u, list_all passed rs) \<and>
     stdout_of acts = tests_text rp r rs"
proof (induction as arbitrary: r rs)
  case (Cons a as)
  from Cons.prems obtain it acts u' outcome e t x rs' where
    it: "h a = Some it" and ans: "answer h a u = Some (acts, u', outcome, e, t, x)" and
    rs: "results answer h u as = Some rs'" "rs = (item_name it, outcome, e, t, x) # rs'"
    by (auto simp: bind_Some_conv)
  have "u' = u" "acts = []" using isolated [OF ans] quiet [OF ans] by simp_all
  with Cons.IH [OF rs(1), of "count_of rp outcome (start_of rp r)"] it ans rs(2) show ?case
    by (fastforce simp: passed_def)
qed simp

end

text \<open>The counters do not matter: the reports of a list of tests, of a suite, and of all suites.\<close>

lemma counted_tap:
  "counted Report_tap rs r = ((fst r)\<lparr>test_counter := test_counter (fst r) + int (length rs),
     failed_test_counter := failed_test_counter (fst r) + failures rs,
     tests_in_suite := tests_in_suite (fst r) + int (length rs),
     failed_tests_in_suite := failed_tests_in_suite (fst r) + failures rs\<rparr>, snd r)"
  by (induction rs arbitrary: r) (auto simp: passed_def tap_test_start_def algebra_simps)

lemma counted_xml:
  "counted Report_xml rs r = (fst r, (snd r)\<lparr>xml_test_counter := xml_test_counter (snd r) + int (length rs),
     xml_tests_in_suite := xml_tests_in_suite (snd r) + int (length rs),
     xml_failed_tests_in_suite := xml_failed_tests_in_suite (snd r) + failures rs\<rparr>)"
  by (induction rs arbitrary: r) (auto simp: passed_def xml_test_start_def algebra_simps)

lemma tests_text_tap: "tests_text Report_tap r rs = tap_tests (test_counter (fst r)) rs"
proof (induction rs arbitrary: r)
  case (Cons t rs)
  obtain name outcome e tr x where "t = (name, outcome, e, tr, x)" by (metis prod_cases5)
  then show ?case by (simp add: Cons.IH tap_test_start_def add.commute)
qed simp

lemma tests_text_xml:
  "tests_text Report_xml r rs = concat (map (\<lambda>(name, outcome, e, t, x). xml_result name outcome e t x) rs)"
  by (induction rs arbitrary: r) auto

text \<open>What a report says of a suite, for the number of tests before it.\<close>

fun suite_text :: "handler \<Rightarrow> int \<Rightarrow> string \<times> test_result list \<Rightarrow> string" where
  "suite_text Report_tap n s = tap_suite n s"
| "suite_text Report_xml n s = xml_suite s"

fun suites_text :: "handler \<Rightarrow> int \<Rightarrow> (string \<times> test_result list) list \<Rightarrow> string" where
  "suites_text rp n [] = []"
| "suites_text rp n (s # ss) = suite_text rp n s @ suites_text rp (n + int (length (snd s))) ss"

lemma suites_text_tap: "suites_text Report_tap n ss = tap_suites n ss"
  by (induction ss arbitrary: n) simp_all

lemma suites_text_xml: "suites_text Report_xml n ss = concat (map xml_suite ss)"
  by (induction ss arbitrary: n) simp_all

text \<open>The two counters of the TAP report that outlive a suite.\<close>

definition advances :: "reports \<Rightarrow> test_result list \<Rightarrow> reports \<Rightarrow> bool" where
  "advances r rs r' \<longleftrightarrow> test_counter (fst r') = test_counter (fst r) + int (length rs) \<and>
     failed_test_counter (fst r') = failed_test_counter (fst r) + failures rs"

lemma advances_trans: "advances r rs r' \<Longrightarrow> advances r' qs r'' \<Longrightarrow> advances r (rs @ qs) r''"
  by (simp add: advances_def)

lemma advances_nil: "advances r [] r"
  by (simp add: advances_def)

lemma suite_document:
  assumes "rs \<noteq> []" and "r1 = counted rp rs (fst (suite_start_of rp it r))"
  shows "snd (suite_start_of rp it r) @ tests_text rp (fst (suite_start_of rp it r)) rs @ snd (suite_done_of rp it r1) =
      suite_text rp (test_counter (fst r)) (item_name it, rs)"
    and "rp = Report_tap \<Longrightarrow> advances r rs (fst (suite_done_of rp it r1))"
  using assms
  by (cases rp; simp add: counted_tap counted_xml tests_text_tap tests_text_xml on_tap_def on_xml_def
      tap_suite_start_def tap_suite_done_def xml_suite_start_def xml_suite_done_def tap_suite_def xml_suite_def
      advances_def)+

context isolated_launcher begin

lemma suite_results:
  assumes "results answer h u tests = Some rs" and "h suite = Some it"
  shows "\<exists>acts r'. suite_spec answer rp h suite tests r u = Some (acts, r', u, list_all passed rs) \<and>
    stdout_of acts = suite_text rp (test_counter (fst r)) (item_name it, rs) \<and>
    (rp = Report_tap \<longrightarrow> advances r rs r')"
proof (cases "tests = []")
  case True
  with assms show ?thesis
    by (cases rp) (simp_all add: suite_spec_def tap_suite_def xml_suite_def advances_nil)
next
  case False
  with results_length [OF assms(1)] have ne: "rs \<noteq> []" by auto
  from tests_results [OF assms(1), of rp "fst (suite_start_of rp it r)"] obtain acts where
    acts: "tests_spec answer rp h tests (fst (suite_start_of rp it r)) u =
      Some (acts, counted rp rs (fst (suite_start_of rp it r)), u, list_all passed rs)"
      "stdout_of acts = tests_text rp (fst (suite_start_of rp it r)) rs" by blast
  from suite_document [where rp = rp and it = it and r = r, OF ne refl] False acts assms(2) show ?thesis
    by (simp add: suite_spec_def)
qed

lemma suites_results:
  "suite_results answer h u ss = Some rss \<Longrightarrow>
   \<exists>acts r'. suites_spec answer rp h ss r u = Some (acts, r', u, list_all passed (all_results rss)) \<and>
     stdout_of acts = suites_text rp (test_counter (fst r)) rss \<and>
     (rp = Report_tap \<longrightarrow> advances r (all_results rss) r')"
proof (induction ss arbitrary: r rss)
  case Nil
  then show ?case by (simp add: all_results_def advances_nil)
next
  case (Cons s ss)
  obtain suite tests where s: "s = (suite, tests)" by fastforce
  from Cons.prems s obtain it rs rss' where
    it: "h suite = Some it" and rs: "results answer h u tests = Some rs" and
    rss': "suite_results answer h u ss = Some rss'" "rss = (item_name it, rs) # rss'"
    by (auto simp: bind_Some_conv)
  from suite_results [OF rs it, of rp r] obtain acts1 r1 where
    1: "suite_spec answer rp h suite tests r u = Some (acts1, r1, u, list_all passed rs)"
      "stdout_of acts1 = suite_text rp (test_counter (fst r)) (item_name it, rs)"
      "rp = Report_tap \<Longrightarrow> advances r rs r1" by blast
  from Cons.IH [OF rss'(1), of r1] obtain acts2 r2 where
    2: "suites_spec answer rp h ss r1 u = Some (acts2, r2, u, list_all passed (all_results rss'))"
      "stdout_of acts2 = suites_text rp (test_counter (fst r1)) rss'"
      "rp = Report_tap \<Longrightarrow> advances r1 (all_results rss') r2" by blast
  have "suites_text rp (test_counter (fst r1)) rss' = suites_text rp (test_counter (fst r) + int (length rs)) rss'"
    using 1(3) by (cases rp) (simp_all add: advances_def suites_text_xml)
  moreover have "advances r (rs @ all_results rss') r2" if "rp = Report_tap"
    using advances_trans [OF 1(3) 2(3)] that by blast
  ultimately show ?case using 1 2 s rss'(2) by (simp add: all_results_def)
qed

text \<open>A complete run prints the document of its results.\<close>

lemma run_results:
  assumes "suite_results answer h u (suites_of h as) = Some rss"
    and "tests_total h as = int (length (all_results rss))"
  shows "\<exists>acts. run_spec answer rp h as r u = Some (acts, u, list_all passed (all_results rss)) \<and>
    stdout_of acts = document rp rss"
proof -
  let ?r = "fst (init_of rp (tests_total h as) r)"
  from suites_results [OF assms(1), of rp ?r] obtain acts r' where
    a: "suites_spec answer rp h (suites_of h as) ?r u = Some (acts, r', u, list_all passed (all_results rss))"
      "stdout_of acts = suites_text rp (test_counter (fst ?r)) rss"
      "rp = Report_tap \<Longrightarrow> advances ?r (all_results rss) r'" by blast
  from a assms(2) show ?thesis
    by (cases rp) (simp_all add: run_spec_def tap_document_def xml_document_def tap_done_def xml_done_def
        advances_def suites_text_tap suites_text_xml)
qed

end

section \<open>All tests are in suites\<close>

text \<open>In a list whose tests come after the first suite, the suites have all the tests that are announced.\<close>

lemma suites_tests:
  "concat (map snd (suites_of h as)) = filter (is_test h) (dropWhile (\<lambda>a. \<not> is_suite h a) as)"
proof (induction h as rule: suites_of.induct)
  case (2 h a as)
  have "is_suite h a \<Longrightarrow> \<not> is_test h a" by (simp add: is_suite_def is_test_def)
  with 2 show ?case by (simp flip: filter_append)
qed simp

lemma suite_results_tests:
  "suite_results answer h u ss = Some rss \<Longrightarrow> length (all_results rss) = length (concat (map snd ss))"
  by (induction ss arbitrary: rss) (auto simp: bind_Some_conv all_results_def results_length)

lemma tests_announced:
  assumes "suite_results answer h u (suites_of h as) = Some rss"
    and "\<And>a. a \<in> set (takeWhile (\<lambda>a. \<not> is_suite h a) as) \<Longrightarrow> \<not> is_test h a"
  shows "tests_total h as = int (length (all_results rss))"
proof -
  have "filter (is_test h) as = filter (is_test h) (takeWhile (\<lambda>a. \<not> is_suite h a) as) @
      filter (is_test h) (dropWhile (\<lambda>a. \<not> is_suite h a) as)"
    by (simp flip: filter_append)
  moreover have "filter (is_test h) (takeWhile (\<lambda>a. \<not> is_suite h a) as) = []"
    using assms(2) by (simp add: filter_empty_conv)
  ultimately show ?thesis
    using suite_results_tests [OF assms(1)] by (simp add: tests_total_def suites_tests)
qed

end
