(* ===== verification/DeclProps.thy ===== *)
theory DeclProps
  imports Decls Documents Example
begin

text \<open>
  Properties of whole programs as they are written: from the macro uses of the files to the list,
  and to a run.
\<close>

definition demo_program :: "decl list" where
  "demo_program = [D_suite ''main_suite'', D_before 100, D_test ''good'' 102 [],
     D_import ''other'' [D_suite ''other'', D_test ''imported'' 105 []],
     D_test ''bad'' 103 [PCUT_TEST_SET_TIMEOUT 5], D_test ''later'' 104 [PCUT_TEST_SKIP]]"

text \<open>Whatever is declared, with imports nested to any depth, the library turns into one doubly
  linked list with the items of all files in the order of their declarations, the items of an
  imported file at the place of the import.\<close>

theorem declared_in_order:
  assumes "program ds mx = Some (h, l, xs)"
  shows "\<exists>h' as. pcut_fix_list_get_real_head h l = Some (h', hd as) \<and> dll h' None as None \<and>
    map (shown h) as = map Some ((PCUT_KIND_SKIP, ''init'') # (PCUT_KIND_TESTSUITE, ''Default'') # declared ds @
      [(PCUT_KIND_SKIP, ''main'')])"
  using fix_list_correct [OF program_ok(1) [OF assms]] program_ok(2) [OF assms]
  by (intro exI [of _ "fst (the (pcut_fix_list_get_real_head h l))"] exI [of _ "order xs"]) (auto simp: fix_ok_def)

text \<open>
  Where a test belongs after an import: \<open>bad\<close> is written in the suite \<open>main_suite\<close> of the main
  file, but it runs in the suite of the imported file, without the set-up of \<open>main_suite\<close>.
\<close>

definition suite_names :: "decl list \<Rightarrow> (string \<times> string list) list option" where
  "suite_names ds =
     do { (h, l, xs) \<leftarrow> program ds [PCUT_MAIN_EXTRA_SET_LAST];
          (h', first) \<leftarrow> pcut_fix_list_get_real_head h l;
          Some (map (\<lambda>(s, ts). (item_name (the (h' s)), map (\<lambda>t. item_name (the (h' t))) ts))
            (suites_of h' (order xs))) }"

theorem tests_after_import:
  "suite_names demo_program = Some [(''Default'', []), (''main_suite'', [''good'']), (''Default'', []),
     (''other'', [''imported'', ''bad''])]"
  by code_simp

text \<open>A run of a whole program, from its macro uses to the last line of the report: for a program with
  \<open>PCUT_MAIN()\<close>, what is printed is the specification of the suites and tests in the order they are
  declared, and the result says whether all passed.\<close>

lemma program_runs:
  assumes "program ds [PCUT_MAIN_EXTRA_SET_LAST] = Some (h, l, xs)"
    and "pcut_fix_list_get_real_head h l = Some (h1, first)"
    and "run_spec (unix_answer K E) rp (give_hooks h1 (order xs)) (order xs) (tap_zero, xml_zero) u = Some (acts, u', ok)"
  shows "\<exists>s'. pcut_main E H (\<lambda>_. pcut_run_test_forking K E) l (p # options rp PCUT_RUN_MODE_FORKING) (start_state h u) =
      Some (Returned (if ok then PCUT_OUTCOME_PASS else PCUT_OUTCOME_FAIL), s') \<and> trace s' = acts \<and> user s' = u'"
proof -
  from program_ok(3) [OF assms(1)] obtain it where it: "h l = Some it" "main_extras it = Some [PCUT_MAIN_EXTRA_SET_LAST]"
    by blast
  then have "no_extras it" by (simp add: no_extras_def PCUT_MAIN_EXTRA_SET_LAST_def)
  from in_child.main_spec [OF program_ok(1) [OF assms(1)] it(1) this assms(2) refl assms(3), of H] show ?thesis by blast
qed

text \<open>A program starts with the suite \<open>Default\<close>, so that all its tests are in suites.\<close>

lemma first_suite:
  assumes "program ds mx = Some (h, l, xs)" and "pcut_fix_list_get_real_head h l = Some (h1, first)"
    and "a \<in> set (takeWhile (\<lambda>a. \<not> is_suite (give_hooks h1 (order xs)) a) (order xs))"
  shows "\<not> is_test (give_hooks h1 (order xs)) a"
proof -
  let ?g = "give_hooks h1 (order xs)"
  from program_ok(2) [OF assms(1)] obtain i s cs where
    order: "order xs = i # s # cs" and shown: "shown h i = Some (PCUT_KIND_SKIP, ''init'')"
      "shown h s = Some (PCUT_KIND_TESTSUITE, ''Default'')"
    by (auto simp: map_eq_Cons_conv)
  note ok = program_ok(1) [OF assms(1)]
  have dist: "distinct (order xs)" by (rule fix_list_dll(3) [OF ok assms(2)])
  from fix_list_correct [OF ok] assms(2) have rel: "hrel (fix_rel (order xs)) h h1" by (auto simp: fix_ok_def)
  have kind: "kind_at ?g a = k"
    if sh: "shown h a = Some (k, n)" and a: "a \<in> set (order xs)" and k: "k = PCUT_KIND_SKIP \<or> k = PCUT_KIND_TESTSUITE"
    for a k n
  proof -
    from sh obtain it where it: "h a = Some it" "kind it = k" by (auto simp: shown_def)
    from hrelD [OF rel it(1)] obtain it' where it': "h1 a = Some it'" "kind it' = final_kind it"
      using a by (auto simp: fix_rel_def fixed_def)
    then have "kind it' = k" using k it(2) by (auto simp: final_kind_def skip_marked_def)
    with kind_give_hooks [where h = h1, OF dist a it'(1)] k show ?thesis by auto
  qed
  have "kind_at ?g i = PCUT_KIND_SKIP" "kind_at ?g s = PCUT_KIND_TESTSUITE"
    using kind [OF shown(1)] kind [OF shown(2)] order by simp_all
  with assms(3) order show ?thesis by (auto simp: is_suite_def is_test_def)
qed

text \<open>A run of a whole program, from its macro uses to the last line of the report: the standard output
  is exactly the report of the results that the tests have when each of them is run alone from the
  initial state, suite by suite in the order they are declared; the result of the process says whether
  all of them passed, and the state of the runner is that of the start.\<close>

theorem program_prints_document:
  assumes "program ds [PCUT_MAIN_EXTRA_SET_LAST] = Some (h, l, xs)"
    and "pcut_fix_list_get_real_head h l = Some (h1, first)"
    and "suite_results (unix_answer K E) (give_hooks h1 (order xs)) u (suites_of (give_hooks h1 (order xs)) (order xs)) = Some rss"
  shows "\<exists>s'. pcut_main E H (\<lambda>_. pcut_run_test_forking K E) l (p # options rp PCUT_RUN_MODE_FORKING) (start_state h u) =
      Some (Returned (if list_all passed (all_results rss) then PCUT_OUTCOME_PASS else PCUT_OUTCOME_FAIL), s') \<and>
    stdout_of (trace s') = document rp rss \<and> user s' = u"
proof -
  from first_suite [OF assms(1,2)] isolated.run_results [OF assms(3) tests_announced [OF assms(3)]] obtain acts where
    acts: "run_spec (unix_answer K E) rp (give_hooks h1 (order xs)) (order xs) (tap_zero, xml_zero) u =
       Some (acts, u, list_all passed (all_results rss))" "stdout_of acts = document rp rss" by blast
  from program_runs [OF assms(1,2) acts(1), of H p] acts(2) show ?thesis by auto
qed

end
