(* ===== verification/Building.thy ===== *)
theory Building
  imports DeclProps
begin

text \<open>
  Which programs compile and link: the identifiers that the macros of \<^verbatim>\<open>include/pcut/tests.h\<close> define in a
  file and in the whole program, with the guard against missing and duplicate test names.  The code of the
  user is taken to compile, and suites to have names that can be the argument of a macro.
\<close>

section \<open>Identifiers\<close>

definition ident_char :: "char \<Rightarrow> bool" where
  "ident_char c \<longleftrightarrow> is_alpha c \<or> is_digit c \<or> c = CHR ''_''"

definition c_identifier :: "string \<Rightarrow> bool" where
  "c_identifier s \<longleftrightarrow> s \<noteq> [] \<and> \<not> is_digit (hd s) \<and> list_all ident_char s"

definition PCUT_ITEM_NAME :: "nat \<Rightarrow> string" where
  "PCUT_ITEM_NAME num = ''pcut_item_'' @ show_nat num"

definition PCUT_ITEM_EXTRAS_NAME :: "nat \<Rightarrow> string" where
  "PCUT_ITEM_EXTRAS_NAME num = ''pcut_extras_'' @ show_nat num"

definition PCUT_ITEM_SETUP_NAME :: "nat \<Rightarrow> string" where
  "PCUT_ITEM_SETUP_NAME num = ''pcut_setup_'' @ show_nat num"

text \<open>The unused variable that is there to be missing a name, or to be defined twice.\<close>

definition guard_name :: "string \<Rightarrow> string" where
  "guard_name testname = testname @ ''0_test_name_missing_or_duplicated''"

definition test_func_name :: "string \<Rightarrow> string" where
  "test_func_name testname = ''pcut_test__'' @ testname"

definition exported_name :: "string \<Rightarrow> string" where
  "exported_name identifier = ''pcut_exported_'' @ identifier"

section \<open>What a file defines\<close>

definition test_defines :: "nat \<Rightarrow> string \<Rightarrow> string list" where
  "test_defines num testname =
     [PCUT_ITEM_EXTRAS_NAME num, guard_name testname, test_func_name testname, PCUT_ITEM_NAME num]"

definition hook_defines :: "nat \<Rightarrow> string list" where
  "hook_defines num = [PCUT_ITEM_SETUP_NAME num, PCUT_ITEM_NAME num]"

fun decl_defines :: "nat \<Rightarrow> decl \<Rightarrow> string list" where
  "decl_defines n (D_test name f es) = test_defines n name"
| "decl_defines n (D_suite name) = [PCUT_ITEM_NAME n]"
| "decl_defines n (D_before f) = hook_defines n"
| "decl_defines n (D_after f) = hook_defines n"
| "decl_defines n (D_import exp_name ds) = [PCUT_ITEM_NAME n]"

fun list_defines :: "nat \<Rightarrow> decl list \<Rightarrow> string list" where
  "list_defines n [] = []"
| "list_defines n (d # ds) = decl_defines n d @ list_defines (n + 1) ds"

text \<open>\<open>PCUT_INIT\<close> has the numbers 0 and 1; all these are static.\<close>

definition statics :: "decl list \<Rightarrow> string list" where
  "statics ds = [PCUT_ITEM_NAME 0, PCUT_ITEM_NAME 1] @ list_defines 2 ds"

text \<open>The last macro of the main file and of an imported file.\<close>

definition main_defines :: "string list" where
  "main_defines = [''pcut_main_extras'', ''pcut_item_last'', ''main'']"

definition export_defines :: "string \<Rightarrow> string list" where
  "export_defines identifier = [exported_name identifier]"

text \<open>An import declares the item that the other file defines.\<close>

fun imports_of :: "decl list \<Rightarrow> string list" where
  "imports_of [] = []"
| "imports_of (D_import exp_name ds # rest) = exp_name # imports_of rest"
| "imports_of (_ # rest) = imports_of rest"

text \<open>
  A file compiles if all these are identifiers, nothing is defined twice, and nothing is static
  that is declared extern.
\<close>

definition file_compiles :: "string list \<Rightarrow> decl list \<Rightarrow> bool" where
  "file_compiles last_defines ds \<longleftrightarrow>
     (let externs = map exported_name (imports_of ds)
      in list_all c_identifier (statics ds @ last_defines @ externs) \<and> distinct (statics ds @ last_defines) \<and>
        list_all (\<lambda>x. x \<notin> set externs) (statics ds))"

section \<open>The program\<close>

text \<open>All imported files, with the names under which they are exported.\<close>

fun imported_decl :: "decl \<Rightarrow> (string \<times> decl list) list" and imported :: "decl list \<Rightarrow> (string \<times> decl list) list" where
  "imported_decl (D_import exp_name ds) = (exp_name, ds) # imported ds"
| "imported_decl _ = []"
| "imported [] = []"
| "imported (d # ds) = imported_decl d @ imported ds"

text \<open>
  The files compile one by one and link if no symbol is global in two of them; then the numbers
  of their items have to suffice, and the result is the memory of \<open>program\<close>.
\<close>

definition build :: "decl list \<Rightarrow> pcut_main_extra list \<Rightarrow> (heap \<times> addr \<times> src list) option" where
  "build ds mx =
     (if file_compiles main_defines ds \<and> list_all (\<lambda>(e, f). file_compiles (export_defines e) f) (imported ds) \<and>
         distinct (''main'' # map (\<lambda>(e, f). exported_name e) (imported ds))
      then program ds mx else None)"

lemma build_program: "build ds mx = Some r \<Longrightarrow> program ds mx = Some r"
  by (simp add: build_def split: if_splits)

section \<open>Names of tests and files\<close>

definition test_names :: "decl list \<Rightarrow> string list" where
  "test_names ds = concat (map (\<lambda>d. case d of D_test name f es \<Rightarrow> [name] | _ \<Rightarrow> []) ds)"

lemma test_names_simps [simp]:
  "test_names [] = []"
  "test_names (d # ds) = (case d of D_test name f es \<Rightarrow> [name] | _ \<Rightarrow> []) @ test_names ds"
  by (simp_all add: test_names_def)

text \<open>An identifier by what it stands for.\<close>

datatype ident = Item nat | Extras nat | Setup nat | Guard string | Test_func string | Exported string | Main_extras | Last | Main

fun ident_text :: "ident \<Rightarrow> string" where
  "ident_text (Item n) = PCUT_ITEM_NAME n"
| "ident_text (Extras n) = PCUT_ITEM_EXTRAS_NAME n"
| "ident_text (Setup n) = PCUT_ITEM_SETUP_NAME n"
| "ident_text (Guard s) = guard_name s"
| "ident_text (Test_func s) = test_func_name s"
| "ident_text (Exported s) = exported_name s"
| "ident_text Main_extras = ''pcut_main_extras''"
| "ident_text Last = ''pcut_item_last''"
| "ident_text Main = ''main''"


lemmas name_defs = PCUT_ITEM_NAME_def PCUT_ITEM_EXTRAS_NAME_def PCUT_ITEM_SETUP_NAME_def guard_name_def test_func_name_def exported_name_def

lemma show_nat_inject [simp]: "show_nat m = show_nat n \<longleftrightarrow> m = n"
  using digits_val_show_nat [of m] digits_val_show_nat [of n] by (metis of_nat_eq_iff)


lemma last_of_number: "is_digit (last (s @ show_nat n))"
  using show_nat_digits [of n] show_nat_ne [of n] by (simp add: list_all_iff)


lemma pcut_names:
  "ident_text (Item n) = ''pcut_'' @ ''item_'' @ show_nat n" "ident_text (Extras n) = ''pcut_'' @ ''extras_'' @ show_nat n"
  "ident_text (Setup n) = ''pcut_'' @ ''setup_'' @ show_nat n" "ident_text (Test_func s) = ''pcut_'' @ ''test__'' @ s"
  "ident_text (Exported s) = ''pcut_'' @ ''exported_'' @ s" "ident_text Main_extras = ''pcut_'' @ ''main_extras''"
  "ident_text Last = ''pcut_'' @ ''item_last''"
  by (simp_all add: name_defs)



section \<open>When a file compiles\<close>













section \<open>When a program is built\<close>







end
