(* ===== verification/Typing.thy ===== *)
theory Typing
  imports MainSpec
begin

text \<open>
  What every call keeps, whatever the code of the tests does and however the call ends: the static
  arrays have the sizes of their declarations and the static indices and message pointers point into
  them, the list of items is not touched while tests run, and what was printed stays printed.
  No theorem here assumes that strings are terminated or that the tests behave.
\<close>

section \<open>Calls that keep a property\<close>

text \<open>
  A relation between the states before and after a call, and the rules for sequences of calls.  It
  is used for what tests keep and for what a whole run keeps.
\<close>

locale keeping =
  fixes keeps :: "'s \<Rightarrow> 's \<Rightarrow> bool" and wf_state :: "'s \<Rightarrow> bool"
  assumes keeps_refl: "wf_state s \<Longrightarrow> keeps s s"
    and keeps_trans: "keeps s t \<Longrightarrow> keeps t r \<Longrightarrow> keeps s r"
    and keeps_wf: "keeps s t \<Longrightarrow> wf_state t"
begin

lemma and_then_keeps:
  assumes "keeps s (snd m)" and "\<And>x t. m = (Returned x, t) \<Longrightarrow> keeps s t \<Longrightarrow> keeps s (snd (k x t))"
  shows "keeps s (snd (and_then m k))"
  using assms by (cases m; cases "fst m") auto

lemma lift_keeps:
  assumes "wf_state s" and "\<And>x. m = Some x \<Longrightarrow> keeps s (snd (k x s))"
  shows "keeps s (snd (lift_opt m s k))"
  using assms by (cases m) (auto simp: keeps_refl)

text \<open>A call as a step of a sequence: it continues from the state it is called in.\<close>

lemma call_keeps: "keeps s t \<Longrightarrow> (wf_state t \<Longrightarrow> keeps t (snd m)) \<Longrightarrow> keeps s (snd m)"
  using keeps_trans keeps_wf by blast

lemma step_keeps:
  assumes "wf_state t \<Longrightarrow> keeps t (snd m)" and "keeps s t"
    and "\<And>x r. m = (Returned x, r) \<Longrightarrow> keeps s r \<Longrightarrow> keeps s (snd (k x r))"
  shows "keeps s (snd (and_then m k))"
  using and_then_keeps [OF call_keeps [OF assms(2,1)]] assms(3) by blast

lemma lift_step_keeps:
  "keeps s t \<Longrightarrow> (\<And>x. m = Some x \<Longrightarrow> keeps s (snd (k x t))) \<Longrightarrow> keeps s (snd (lift_opt m t k))"
  by (cases m) auto

lemma maybe_keeps:
  "(wf_state s \<Longrightarrow> keeps s (snd m)) \<Longrightarrow> wf_state s \<Longrightarrow> keeps s (snd (if b then m else (Returned x, s)))"
  by (simp add: keeps_refl)

end

section \<open>Well-formed states\<close>

definition sized :: "nat \<Rightarrow> bytes \<Rightarrow> bool" where
  "sized n b \<longleftrightarrow> length b = n"

definition well_formed :: "'u process \<Rightarrow> bool" where
  "well_formed s \<longleftrightarrow> buffers_ok s \<and>
     (\<forall>i. prev_message s = Some i \<longrightarrow> i < MESSAGE_BUFFER_COUNT) \<and>
     sized BUFFER_SIZE (buffer_for_extra_output s) \<and> sized BUFFER_SIZE (buffer_for_error_messages s) \<and>
     sized OUTPUT_BUFFER_SIZE (error_message_buffer s) \<and> sized OUTPUT_BUFFER_SIZE (extra_output_buffer s)"

text \<open>How a state can change while tests run.\<close>

definition evolves :: "'u process \<Rightarrow> 'u process \<Rightarrow> bool" where
  "evolves s s' \<longleftrightarrow> well_formed s' \<and> items s' = items s \<and> pcut_run_mode s' = pcut_run_mode s \<and>
     report_ops s' = report_ops s \<and> (\<exists>as. trace s' = trace s @ as)"

lemma well_formed_start: "well_formed (start_state h u)"
  by (simp add: well_formed_def start_state_buffers) (simp add: start_state_def sized_def)

interpretation test: keeping evolves well_formed
  by unfold_locales (auto simp: evolves_def)

text \<open>What a whole run keeps: the loops before and after the tests change items and options too.\<close>

definition goes_on :: "'u process \<Rightarrow> 'u process \<Rightarrow> bool" where
  "goes_on s s' \<longleftrightarrow> well_formed s' \<and> (\<exists>as. trace s' = trace s @ as)"

interpretation run: keeping goes_on well_formed
  by unfold_locales (auto simp: goes_on_def)

lemma evolves_goes_on: "evolves s t \<Longrightarrow> goes_on s t"
  by (simp add: evolves_def goes_on_def)

section \<open>Arrays keep their sizes\<close>

lemma print_by_lines_length:
  "print_by_lines m prefix = Some (out, m') \<Longrightarrow> map_option length m' = map_option length m"
  "xml_print_by_lines m element = Some (out, m') \<Longrightarrow> map_option length m' = map_option length m"
  by (auto simp: print_by_lines_def xml_print_by_lines_def dest: print_lines_length
      split: option.splits list.splits if_splits)

lemma test_done_shape:
  "tap_test_done it outcome msgs st = Some (st', out, msgs') \<Longrightarrow> same_shape msgs msgs'"
  "xml_test_done it outcome msgs sx = Some (sx', out, msgs') \<Longrightarrow> same_shape msgs msgs'"
  by (auto simp: tap_test_done_def xml_test_done_def Let_def bind_Some_conv same_shape_def
      dest: print_by_lines_length split: if_splits)

lemma write_message_length: "write_message filename line fmt args b = Some b' \<Longrightarrow> length b' = length b"
  by (auto simp: write_message_def bind_Some_conv pcut_snprintf_def dest!: snprintf_length split: if_splits)

lemma parse_loop_step:
  assumes "parse_loop full n stdio so err eo = Some (x, e)"
  shows "x = stdio \<and> e = err \<or> (\<exists>full' n' stdio' so' err' eo'. length full' < length full \<and>
    length stdio' = length stdio \<and> length err' = length err \<and> parse_loop full' n' stdio' so' err' eo' = Some (x, e))"
proof -
  from assms consider "skip_zeros full n 0 = Some None" |
    z full1 n1 len where "skip_zeros full n 0 = Some (Some (z, full1, n1))" "pcut_str_size full1 = Some len"
    by (subst (asm) parse_loop.simps) (auto split: option.splits)
  then show ?thesis
  proof cases
    case 1
    with assms show ?thesis by (subst (asm) parse_loop.simps) simp
  next
    case 2
    have less: "length (drop (len + 1) full1) < length full"
      using skip_zeros_length [OF 2(1)] strlen_less [OF 2(2)] by simp
    show ?thesis
    proof (cases "z < 2")
      case True
      with assms 2 less show ?thesis
        by (subst (asm) parse_loop.simps) (auto dest!: store_length split: option.splits if_splits)
    next
      case False
      with assms 2 less show ?thesis
        by (subst (asm) parse_loop.simps) (auto dest!: store_length split: option.splits if_splits)
    qed
  qed
qed

lemma parse_loop_length:
  "parse_loop full n stdio so err eo = Some (x, e) \<Longrightarrow> length x = length stdio \<and> length e = length err"
proof (induction "length full" arbitrary: full n stdio so err eo rule: less_induct)
  case less
  from parse_loop_step [OF less.prems] show ?case by (auto dest!: less.hyps)
qed

lemma parse_command_output_length:
  "parse_command_output full n stdio_size error_size = Some (x, e) \<Longrightarrow> length x = stdio_size \<and> length e = error_size"
  by (auto simp: parse_command_output_def Let_def dest: parse_loop_length split: if_splits)

lemma read_loop_length: "read_loop reads b off n = Some (b', m) \<Longrightarrow> length b' = length b"
  by (induction reads b off n rule: read_loop.induct) (auto simp: Let_def dest: store_length split: if_splits option.splits)

lemma read_all_length: "read_all reads b n = Some (b', m) \<Longrightarrow> length b' = length b"
  by (auto simp: read_all_def bind_Some_conv dest: read_loop_length split: if_splits)

section \<open>Reports\<close>

lemma evolves_report:
  "well_formed s \<Longrightarrow> evolves s (set_reports r s)" "well_formed s \<Longrightarrow> evolves s (emit out (set_reports r s))"
  "well_formed s \<Longrightarrow> evolves s (emit out s)"
  by (simp_all add: evolves_def well_formed_def buffers_ok_def set_reports_def emit_def)

lemma report_item_call_evolves: "well_formed s \<Longrightarrow> evolves s (snd (report_item_call op p s))"
  by (auto simp: report_item_call_def intro!: test.lift_keeps test.keeps_refl evolves_report split: option.split prod.split)

lemma report_calls_evolve:
  assumes "well_formed s"
  shows "evolves s (snd (pcut_report_suite_start p s))" "evolves s (snd (pcut_report_suite_done p s))"
    "evolves s (snd (pcut_report_test_start p s))" "evolves s (snd (pcut_report_init p s))" "evolves s (snd (pcut_report_done s))"
  using assms
  by (auto simp: pcut_report_suite_start_def pcut_report_suite_done_def pcut_report_test_start_def pcut_report_init_def
      pcut_report_done_def intro!: report_item_call_evolves test.lift_keeps test.keeps_refl evolves_report split: option.split prod.split)

text \<open>The arrays of a finished report have the sizes of the given ones.\<close>

lemma the_op_done:
  assumes "the_op op_test_done s = Some f" and "f it outcome msgs r = Some (r', out, msgs')"
  shows "same_shape msgs msgs'"
proof -
  from assms(1) obtain h where "op_test_done (ops_of h) = Some f" by (auto simp: the_op_def split: option.splits)
  with assms(2) show ?thesis
    by (cases h) (auto simp: pcut_report_tap_def pcut_report_xml_def dest: test_done_shape)
qed

lemma report_test_done_evolves:
  assumes "well_formed s"
  shows "evolves s (snd (pcut_report_test_done p outcome msgs s))"
    and "pcut_report_test_done p outcome msgs s = (Returned msgs', t) \<Longrightarrow> same_shape msgs msgs'"
proof -
  show "evolves s (snd (pcut_report_test_done p outcome msgs s))"
    using assms by (auto simp: pcut_report_test_done_def intro!: test.lift_keeps test.keeps_refl evolves_report split: option.split)
  show "same_shape msgs msgs'" if "pcut_report_test_done p outcome msgs s = (Returned msgs', t)"
    using that by (auto simp: pcut_report_test_done_def lift_opt_def same_shape_def dest!: the_op_done
        split: option.splits prod.splits)
qed

lemma sized_update: "same_shape (e, t, x) (e', t', x') \<Longrightarrow>
   (\<And>b. e = Some b \<Longrightarrow> sized n b) \<Longrightarrow> e' = Some b' \<Longrightarrow> sized n b'"
  by (cases e) (auto simp: same_shape_def sized_def)

section \<open>Failed assertions\<close>

lemma message_at_sized:
  "well_formed s \<Longrightarrow> message_at m s = Some (Some b) \<Longrightarrow> sized (MAX_MESSAGE_LENGTH + 1) b"
  by (auto simp: well_formed_def buffers_ok_def message_at_def sized_def list_all_length split: option.splits if_splits)

lemma put_message_evolves:
  "well_formed s \<Longrightarrow> (\<And>c. b = Some c \<Longrightarrow> sized (MAX_MESSAGE_LENGTH + 1) c) \<Longrightarrow> evolves s (put_message m b s)"
  using bufs_update [of "message_buffer s" "message_buffer_index s" "the b" "the m"]
  by (auto simp: put_message_def evolves_def well_formed_def buffers_ok_bufs sized_def split: option.split)

lemma report_failure_evolves:
  assumes "well_formed s"
  shows "evolves s (snd (report_failure m1 m2 s))"
proof (unfold report_failure_def, intro test.lift_keeps [OF assms], rule test.and_then_keeps [OF report_test_done_evolves(1) [OF assms]])
  fix b1 b2 msgs t
  assume b: "message_at m1 s = Some b1" "message_at m2 s = Some b2" and ev: "evolves s t"
    and rep: "pcut_report_test_done (current_test s) PCUT_OUTCOME_FAIL (b1, b2, None) s = (Returned msgs, t)"
  obtain c1 c2 c3 where msgs: "msgs = (c1, c2, c3)" by (metis prod_cases3)
  have shape: "same_shape (b1, b2, None) (c1, c2, c3)"
    using report_test_done_evolves(2) [OF assms rep] msgs by simp
  have c1: "sized (MAX_MESSAGE_LENGTH + 1) c" if "c1 = Some c" for c
    using shape message_at_sized [OF assms, of m1] b(1) that by (cases b1) (auto simp: same_shape_def sized_def)
  have c2: "sized (MAX_MESSAGE_LENGTH + 1) c" if "c2 = Some c" for c
    using shape message_at_sized [OF assms, of m2] b(2) that by (cases b2) (auto simp: same_shape_def sized_def)
  have "evolves t (put_message m1 c1 t)" by (rule put_message_evolves [OF test.keeps_wf [OF ev] c1])
  moreover from test.keeps_wf [OF this]
  have "evolves (put_message m1 c1 t) (put_message m2 c2 (put_message m1 c1 t))"
    by (rule put_message_evolves) (rule c2)
  ultimately show "evolves s (snd ((case msgs of (b1, b2, _) \<Rightarrow> \<lambda>s. (Returned (), put_message m2 b2 (put_message m1 b1 s))) t))"
    using ev msgs by (auto intro: test.keeps_trans)
qed

lemma print_message_evolves: "well_formed s \<Longrightarrow> evolves s (snd (print_message m s))"
  by (auto simp: print_message_def intro!: test.lift_keeps test.keeps_refl evolves_report)

lemma leave_test_evolves: "evolves s t \<Longrightarrow> evolves s (snd (leave_test outcome t))"
  by (simp add: leave_test_def)

text \<open>Fields that can be set freely.\<close>

lemma evolves_upd:
  assumes "evolves s t"
  shows "evolves s (do_acts as u t)" "evolves s (t\<lparr>execute_teardown_on_failure := b\<rparr>)"
    "evolves s (t\<lparr>prev_message := None\<rparr>)" "evolves s (t\<lparr>current_test := p\<rparr>)" "evolves s (t\<lparr>current_suite := q\<rparr>)"
    "evolves s (t\<lparr>default_suite := d\<rparr>)" "evolves s (t\<lparr>report_test_result := b\<rparr>)"
    "evolves s (t\<lparr>print_test_error := b\<rparr>)" "evolves s (t\<lparr>leave_means_exit := b\<rparr>)"
    "i < MESSAGE_BUFFER_COUNT \<Longrightarrow> evolves s (t\<lparr>prev_message := Some i\<rparr>)"
  using assms by (auto simp: evolves_def well_formed_def buffers_ok_def do_acts_def)

lemma next_buffer_evolves:
  assumes "well_formed s" and "sized (MAX_MESSAGE_LENGTH + 1) b"
  shows "evolves s (s\<lparr>message_buffer := (message_buffer s)[j := b],
    message_buffer_index := (i + 1) mod MESSAGE_BUFFER_COUNT\<rparr>)"
  using assms bufs_update [of "message_buffer s" "(i + 1) mod MESSAGE_BUFFER_COUNT" b j]
  by (simp add: evolves_def well_formed_def buffers_ok_bufs bufs_def sized_def MESSAGE_BUFFER_COUNT_def)

lemma maybe_report_evolves:
  "evolves s t \<Longrightarrow> evolves s (snd (if report_test_result t then report_failure m1 m2 t else (Returned (), t)))"
  by (auto intro: test.keeps_trans [OF _ report_failure_evolves [OF test.keeps_wf]])

text \<open>A failed assertion runs the tear-down or reports, for any tear-down that keeps the state well-formed.\<close>

lemma teardown_or_report_evolves:
  assumes st: "evolves s t" and m: "m < MESSAGE_BUFFER_COUNT"
    and teardown: "\<And>suite. execute_teardown_on_failure t \<Longrightarrow> suite_item t = Some suite \<Longrightarrow>
      evolves t (t\<lparr>execute_teardown_on_failure := False, prev_message := Some m\<rparr>) \<Longrightarrow>
      evolves (t\<lparr>execute_teardown_on_failure := False, prev_message := Some m\<rparr>)
        (snd (run_setup_teardown E (teardown_func suite) (t\<lparr>execute_teardown_on_failure := False, prev_message := Some m\<rparr>)))"
  shows "evolves s (snd (if execute_teardown_on_failure t then
      lift_opt (suite_item t) t (\<lambda>suite _.
      and_then (run_setup_teardown E (teardown_func suite)
                 (t\<lparr>execute_teardown_on_failure := False, prev_message := Some m\<rparr>)) (\<lambda>_ s.
      if report_test_result s then report_failure (Some m) None s else (Returned (), s)))
    else if report_test_result t then report_failure (prev_message t) (Some m) t
    else (Returned (), t)))"
proof (cases "execute_teardown_on_failure t")
  case False
  with maybe_report_evolves [OF st, of "prev_message t" "Some m"] show ?thesis by simp
next
  case True
  let ?t = "t\<lparr>execute_teardown_on_failure := False, prev_message := Some m\<rparr>"
  have up: "evolves t ?t" using test.keeps_refl [OF test.keeps_wf [OF st]] m by (intro evolves_upd)
  show ?thesis
  proof (cases "suite_item t")
    case None
    with True st show ?thesis by simp
  next
    case (Some suite)
    have "evolves s (snd (run_setup_teardown E (teardown_func suite) ?t))"
      by (rule test.keeps_trans [OF test.keeps_trans [OF st up] teardown [OF True Some up]])
    then have "evolves s (snd (and_then (run_setup_teardown E (teardown_func suite) ?t) (\<lambda>_ s.
        if report_test_result s then report_failure (Some m) None s else (Returned (), s))))"
      by (rule test.and_then_keeps) (rule maybe_report_evolves)
    with True Some show ?thesis by simp
  qed
qed

text \<open>The functions that call each other: user functions and failed assertions.\<close>

lemma calls_evolve:
  "well_formed s \<Longrightarrow> evolves s (snd (call_user E f s))"
  "well_formed s \<Longrightarrow> evolves s (snd (run_setup_teardown E g s))"
  "well_formed s \<Longrightarrow> evolves s (snd (pcut_failed_assertion_fmt E filename line fmt args s))"
  "well_formed s \<Longrightarrow> m < MESSAGE_BUFFER_COUNT \<Longrightarrow> evolves s (snd (pcut_failed_assertion E m s))"
proof (induction E f s and E g s and E filename line fmt args s and E m s
    rule: call_user_run_setup_teardown_pcut_failed_assertion_fmt_pcut_failed_assertion.induct)
  case (1 E f s)
  have did: "evolves s (do_acts as u s)" for as u by (rule evolves_upd(1) [OF test.keeps_refl [OF 1(2)]])
  have "evolves s (snd (pcut_failed_assertion_fmt E filename line fmt args (do_acts as u s)))"
    if "E f (user s) = Effect as u (U_assert filename line fmt args)" for as u filename line fmt args
    using test.keeps_trans [OF did 1(1) [OF that refl test.keeps_wf [OF did]]] .
  with did show ?case by (auto simp: call_user.simps split: effect.split user_end.split)
next
  case (2 E g s)
  then show ?case by (auto simp: run_setup_teardown.simps test.keeps_refl split: option.split)
next
  case (3 E filename line fmt args s)
  note wf = \<open>well_formed s\<close>
  have idx: "message_buffer_index s < MESSAGE_BUFFER_COUNT" using wf by (simp add: well_formed_def buffers_ok_def)
  show ?case unfolding pcut_failed_assertion_fmt.simps
  proof (intro test.lift_keeps [OF wf])
    fix cb b
    assume cb: "message_at (Some (message_buffer_index s)) s = Some cb"
      and b: "write_message filename line fmt args (the cb) = Some b"
    from cb obtain c where c: "cb = Some c" by (auto simp: message_at_def split: if_splits)
    have "sized (MAX_MESSAGE_LENGTH + 1) b"
      using write_message_length [OF b] message_at_sized [OF wf cb [unfolded c]] c by (simp add: sized_def)
    note nx = next_buffer_evolves [OF wf this]
    from test.keeps_trans [OF nx 3(1) [OF cb b test.keeps_wf [OF nx] idx]]
    show "evolves s (snd (pcut_failed_assertion E (message_buffer_index s)
        (s\<lparr>message_buffer := (message_buffer s)[message_buffer_index s := b],
           message_buffer_index := (message_buffer_index s + 1) mod MESSAGE_BUFFER_COUNT\<rparr>)))" .
  qed
next
  case (4 E m s)
  note wf = \<open>well_formed s\<close> and m = \<open>m < MESSAGE_BUFFER_COUNT\<close>
  show ?case unfolding pcut_failed_assertion.simps
  proof (rule test.and_then_keeps)
    show "evolves s (snd (if print_test_error s then print_message m s else (Returned (), s)))"
      using wf by (simp add: print_message_evolves test.keeps_refl)
  next
    fix x t
    assume m1: "(if print_test_error s then print_message m s else (Returned (), s)) = (Returned x, t)"
      and st: "evolves s t"
    note IH = 4(1) [OF m1 _ _ test.keeps_wf]
    show "evolves s (snd (and_then
       (if execute_teardown_on_failure t then
          lift_opt (suite_item t) t (\<lambda>suite _.
          and_then (run_setup_teardown E (teardown_func suite)
                     (t\<lparr>execute_teardown_on_failure := False, prev_message := Some m\<rparr>)) (\<lambda>_ s.
          if report_test_result s then report_failure (Some m) None s else (Returned (), s)))
        else if report_test_result t then report_failure (prev_message t) (Some m) t
        else (Returned (), t)) (\<lambda>_ s.
     leave_test PCUT_OUTCOME_FAIL (s\<lparr>prev_message := None\<rparr>))))"
      by (rule test.and_then_keeps, rule teardown_or_report_evolves [OF st m], rule IH, assumption+)
        (intro leave_test_evolves evolves_upd)
  qed
qed

section \<open>Running a test\<close>

lemma find_parent_suite_evolves: "well_formed s \<Longrightarrow> evolves s (snd (pcut_find_parent_suite it s))"
  by (auto simp: pcut_find_parent_suite_def init_default_suite_when_needed_def
      intro!: test.lift_keeps evolves_upd test.keeps_refl split: option.split)

lemmas test_calls_evolve = report_calls_evolve find_parent_suite_evolves calls_evolve report_test_done_evolves(1)

lemma run_test_body_evolves:
  assumes "well_formed s"
  shows "evolves s (snd (run_test_body E test s))"
  unfolding run_test_body_def Let_def pcut_hook_before_test_def
  apply (rule test.step_keeps)
    apply (rule test.maybe_keeps, erule test_calls_evolve, assumption)
   apply (rule test.keeps_refl [OF assms])
  apply (rule test.step_keeps, erule test_calls_evolve, assumption)
  apply (rule test.lift_step_keeps, intro evolves_upd, assumption)
  apply (rule test.step_keeps, erule test_calls_evolve, intro evolves_upd, assumption)
  apply (rule test.lift_step_keeps, assumption)
  apply (rule test.step_keeps, erule test_calls_evolve, assumption)
  apply (rule test.lift_step_keeps, intro evolves_upd, assumption)
  apply (rule test.step_keeps, erule test_calls_evolve, intro evolves_upd, assumption)
  apply (rule test.step_keeps, rule test.maybe_keeps)
     apply (rule test.step_keeps, erule test_calls_evolve, erule test.keeps_refl)
     apply simp
    apply assumption
   apply assumption
  apply simp
  done

lemma run_test_evolves: "well_formed s \<Longrightarrow> evolves s (snd (run_test E test s))"
  using run_test_body_evolves [of s E test] by (auto simp: run_test_def split: outcome.split prod.split)

text \<open>Both ways to run a test: in its own process and in that of the runner.\<close>

lemma run_test_modes_evolve:
  assumes "well_formed s"
  shows "evolves s (snd (pcut_run_test_forked E test s))" "evolves s (snd (pcut_run_test_single E test s))"
  unfolding pcut_run_test_forked_def pcut_run_test_single_def
  by (rule test.step_keeps, erule run_test_evolves, intro evolves_upd test.keeps_refl [OF assms], simp add: evolves_upd)+

section \<open>Launchers\<close>

text \<open>What every launcher uses: the two arrays of the system and the reports of an output.\<close>

lemma evolves_buffers:
  assumes "evolves s t"
  shows "sized OUTPUT_BUFFER_SIZE b \<Longrightarrow> evolves s (t\<lparr>error_message_buffer := b\<rparr>)"
    "sized OUTPUT_BUFFER_SIZE b \<Longrightarrow> evolves s (t\<lparr>extra_output_buffer := b\<rparr>)"
    "sized BUFFER_SIZE b \<Longrightarrow> evolves s (t\<lparr>buffer_for_extra_output := b\<rparr>)"
    "sized BUFFER_SIZE b \<Longrightarrow> evolves s (t\<lparr>buffer_for_error_messages := b\<rparr>)"
  using assms by (auto simp: evolves_def well_formed_def buffers_ok_def)

lemma well_formed_buffers:
  assumes "well_formed s"
  shows "sized OUTPUT_BUFFER_SIZE (error_message_buffer s)" "sized OUTPUT_BUFFER_SIZE (extra_output_buffer s)"
    "sized BUFFER_SIZE (buffer_for_extra_output s)" "sized BUFFER_SIZE (buffer_for_error_messages s)"
  using assms by (simp_all add: well_formed_def)

lemma same_shape_sized:
  assumes "same_shape (e, t, x) (e', t', x')"
  shows "e = Some b \<Longrightarrow> sized n b \<Longrightarrow> e' = Some c \<Longrightarrow> sized n c"
    "x = Some b \<Longrightarrow> sized n b \<Longrightarrow> x' = Some c \<Longrightarrow> sized n c" "e = None \<Longrightarrow> e' = None"
  using assms by (auto simp: same_shape_def sized_def)

lemma report_unparsed_evolves:
  assumes "well_formed s"
  shows "evolves s (snd (pcut_report_test_done_unparsed p outcome b n s))"
  unfolding pcut_report_test_done_unparsed_def
proof (rule test.lift_keeps [OF assms], clarify)
  fix stdio err
  assume pc: "parse_command_output b n BUFFER_SIZE BUFFER_SIZE = Some (stdio, err)"
  have len: "sized BUFFER_SIZE stdio" "sized BUFFER_SIZE err"
    using parse_command_output_length [OF pc] by (simp_all add: sized_def)
  let ?s = "s\<lparr>buffer_for_extra_output := stdio, buffer_for_error_messages := err\<rparr>"
  have up: "evolves s ?s" by (intro evolves_buffers test.keeps_refl assms len)
  show "evolves s (snd (and_then (pcut_report_test_done p outcome (Some err, None, Some stdio) ?s)
    (\<lambda>(err, _, stdio) s. (Returned (),
      s\<lparr>buffer_for_extra_output := (case stdio of None \<Rightarrow> buffer_for_extra_output s | Some b \<Rightarrow> b),
        buffer_for_error_messages := (case err of None \<Rightarrow> buffer_for_error_messages s | Some b \<Rightarrow> b)\<rparr>))))"
  proof (rule test.step_keeps, erule report_test_done_evolves(1), rule up, clarify, unfold snd_conv)
    fix e t x r
    assume rep: "pcut_report_test_done p outcome (Some err, None, Some stdio) ?s = (Returned (e, t, x), r)" and r: "evolves s r"
    note shape = report_test_done_evolves(2) [OF test.keeps_wf [OF up] rep]
    note sizes = well_formed_buffers [OF test.keeps_wf [OF r]]
    have "sized BUFFER_SIZE (case x of None \<Rightarrow> buffer_for_extra_output r | Some b \<Rightarrow> b)"
      using same_shape_sized(2) [OF shape refl len(1)] sizes(3) by (auto split: option.split)
    moreover have "sized BUFFER_SIZE (case e of None \<Rightarrow> buffer_for_error_messages r | Some b \<Rightarrow> b)"
      using same_shape_sized(1) [OF shape refl len(2)] sizes(4) by (auto split: option.split)
    ultimately show "evolves s (r\<lparr>buffer_for_extra_output := (case x of None \<Rightarrow> buffer_for_extra_output r | Some b \<Rightarrow> b),
        buffer_for_error_messages := (case e of None \<Rightarrow> buffer_for_error_messages r | Some b \<Rightarrow> b)\<rparr>)"
      by (intro evolves_buffers r)
  qed
qed

lemma before_test_start_evolves: "well_formed s \<Longrightarrow> evolves s (snd (before_test_start p s))"
  unfolding before_test_start_def
  by (rule test.step_keeps, erule report_calls_evolve, erule test.keeps_refl)
    (simp add: evolves_buffers sized_def)

lemma snprintf_sized: "pcut_snprintf b n txt = Some b' \<Longrightarrow> sized k b \<Longrightarrow> sized k b'"
  by (auto simp: pcut_snprintf_def sized_def dest: snprintf_length)

lemma report_os_failure_evolves:
  assumes "well_formed s"
  shows "evolves s (snd (report_os_failure p txt s))"
  unfolding report_os_failure_def
proof (rule test.lift_keeps [OF assms])
  fix b assume b: "pcut_snprintf (error_message_buffer s) (OUTPUT_BUFFER_SIZE - 1) txt = Some b"
  have len: "sized OUTPUT_BUFFER_SIZE b" by (rule snprintf_sized [OF b well_formed_buffers(1) [OF assms]])
  have up: "evolves s (s\<lparr>error_message_buffer := b\<rparr>)" by (intro evolves_buffers test.keeps_refl assms len)
  show "evolves s (snd (and_then (pcut_report_test_done p PCUT_OUTCOME_INTERNAL_ERROR (Some b, None, None)
      (s\<lparr>error_message_buffer := b\<rparr>)) (\<lambda>(b, _, _) s. (Returned PCUT_OUTCOME_INTERNAL_ERROR,
      s\<lparr>error_message_buffer := (case b of None \<Rightarrow> error_message_buffer s | Some b \<Rightarrow> b)\<rparr>))))"
  proof (rule test.step_keeps, erule report_test_done_evolves(1), rule up, clarify, unfold snd_conv)
    fix e t x r
    assume rep: "pcut_report_test_done p PCUT_OUTCOME_INTERNAL_ERROR (Some b, None, None) (s\<lparr>error_message_buffer := b\<rparr>) =
        (Returned (e, t, x), r)" and r: "evolves s r"
    note shape = report_test_done_evolves(2) [OF test.keeps_wf [OF up] rep]
    have "sized OUTPUT_BUFFER_SIZE (case e of None \<Rightarrow> error_message_buffer r | Some b \<Rightarrow> b)"
      using same_shape_sized(1) [OF shape refl len] well_formed_buffers(1) [OF test.keeps_wf [OF r]]
      by (auto split: option.split)
    then show "evolves s (r\<lparr>error_message_buffer := (case e of None \<Rightarrow> error_message_buffer r | Some b \<Rightarrow> b)\<rparr>)"
      by (intro evolves_buffers r)
  qed
qed

lemma read_all_sized: "read_all reads b n = Some (b', m) \<Longrightarrow> sized k b \<Longrightarrow> sized k b'"
  by (auto simp: sized_def dest: read_all_length)

lemma report_output_evolves:
  "evolves s t \<Longrightarrow> sized OUTPUT_BUFFER_SIZE c \<Longrightarrow>
   evolves s (snd (and_then (pcut_report_test_done_unparsed p outcome b n (t\<lparr>extra_output_buffer := c\<rparr>))
     (\<lambda>_ s. (Returned outcome', s))))"
  by (rule test.step_keeps, erule report_unparsed_evolves, erule (1) evolves_buffers(2)) simp

lemma unix_launch_evolves:
  assumes "well_formed s"
  shows "evolves s (snd (pcut_run_test_forking K E test s))"
  unfolding pcut_run_test_forking_def
proof (rule test.step_keeps, erule before_test_start_evolves, rule test.keeps_refl [OF assms])
  fix x t assume t: "evolves s t"
  note wf = test.keeps_wf [OF t]
  have fork: "evolves s (snd (lift_opt (pcut_snprintf (error_message_buffer t) (OUTPUT_BUFFER_SIZE - 1) msg) t (\<lambda>b s.
       and_then (pcut_report_test_done_unparsed (Some test) PCUT_OUTCOME_INTERNAL_ERROR
           (extra_output_buffer s) OUTPUT_BUFFER_SIZE (s\<lparr>error_message_buffer := b\<rparr>)) (\<lambda>_ s.
         (Returned PCUT_OUTCOME_INTERNAL_ERROR, s)))))" for msg
    by (rule test.lift_step_keeps [OF t], rule test.step_keeps, erule report_unparsed_evolves, rule evolves_buffers(1) [OF t])
      (auto intro: snprintf_sized well_formed_buffers [OF wf])
  have child: "evolves s (snd (lift_opt (child_run E test t) t (\<lambda>(acts, e) s.
       lift_opt (do { it \<leftarrow> items s test; pcut_get_test_timeout it }) s (\<lambda>tm s.
       case run_child K acts e (alarm_of tm) of (stderr_reads, stdout_reads, status) \<Rightarrow>
       lift_opt (read_all stderr_reads (extra_output_buffer s) (OUTPUT_BUFFER_SIZE - 1)) s (\<lambda>(b, stderr_size) s.
       lift_opt (read_all stdout_reads b (OUTPUT_BUFFER_SIZE - 1 - stderr_size)) s (\<lambda>(b, _) s.
       let outcome = convert_wait_status_to_outcome status
       in and_then (pcut_report_test_done_unparsed (Some test) outcome b OUTPUT_BUFFER_SIZE
            (s\<lparr>extra_output_buffer := b\<rparr>)) (\<lambda>_ s.
          (Returned outcome, s))))))))"
    unfolding Let_def
    by (rule test.lift_step_keeps [OF t], clarify, rule test.lift_step_keeps [OF t], split prod.split, split prod.split, clarify,
        rule test.lift_step_keeps [OF t], clarify, rule test.lift_step_keeps [OF t], clarify, rule report_output_evolves [OF t])
      (blast intro: read_all_sized well_formed_buffers [OF wf])
  show "evolves s (snd (if \<not> pipe_stdout_ok K \<or> \<not> pipe_stderr_ok K
     then report_os_failure (Some test) (''pipe() failed: '' @ strerror K (-1) @ ''.'') t
     else if \<not> fork_ok K then
       lift_opt (pcut_snprintf (error_message_buffer t) (OUTPUT_BUFFER_SIZE - 1)
         (''fork() failed: '' @ strerror K 0 @ ''.'')) t (\<lambda>b s.
       and_then (pcut_report_test_done_unparsed (Some test) PCUT_OUTCOME_INTERNAL_ERROR
           (extra_output_buffer s) OUTPUT_BUFFER_SIZE (s\<lparr>error_message_buffer := b\<rparr>)) (\<lambda>_ s.
         (Returned PCUT_OUTCOME_INTERNAL_ERROR, s)))
     else
       lift_opt (child_run E test t) t (\<lambda>(acts, e) s.
       lift_opt (do { it \<leftarrow> items s test; pcut_get_test_timeout it }) s (\<lambda>tm s.
       case run_child K acts e (alarm_of tm) of (stderr_reads, stdout_reads, status) \<Rightarrow>
       lift_opt (read_all stderr_reads (extra_output_buffer s) (OUTPUT_BUFFER_SIZE - 1)) s (\<lambda>(b, stderr_size) s.
       lift_opt (read_all stdout_reads b (OUTPUT_BUFFER_SIZE - 1 - stderr_size)) s (\<lambda>(b, _) s.
       let outcome = convert_wait_status_to_outcome status
       in and_then (pcut_report_test_done_unparsed (Some test) outcome b OUTPUT_BUFFER_SIZE
            (s\<lparr>extra_output_buffer := b\<rparr>)) (\<lambda>_ s.
          (Returned outcome, s))))))))"
    using test.call_keeps [OF t report_os_failure_evolves] fork child by simp
qed

section \<open>A whole run\<close>

text \<open>The interface of the loops to a launcher: it keeps what tests keep.\<close>

locale launcher_type =
  fixes forking :: "'u forking"
  assumes launch_evolves: "well_formed s \<Longrightarrow> evolves s (snd (forking path test s))"
begin

lemma run_one_evolves: "well_formed s \<Longrightarrow> evolves s (snd (run_one E forking path suite first a s))"
  unfolding run_one_def
  by (rule test.step_keeps, rule test.maybe_keeps, erule report_calls_evolve, assumption, erule test.keeps_refl)
    (auto intro: test.keeps_trans launch_evolves run_test_modes_evolve(2) test.keeps_wf)

lemma run_suite_loop_evolves:
  assumes "run_suite_loop E forking path suite it first cnt ret s = Some y" and "well_formed s"
  shows "evolves s (snd y)"
proof -
  let ?P = "\<lambda>(E :: 'u code) f (path :: bytes option) (suite :: ptr) (it :: ptr) (first :: bool) (cnt :: int) (ret :: int) s
    (y :: (ptr \<times> int \<times> int) outcome \<times> 'u process). f = forking \<longrightarrow> well_formed s \<longrightarrow> evolves s (snd y)"
  have "?P E forking path suite it first cnt ret s y"
  proof (rule run_suite_loop.raw_induct [where P = ?P, OF _ assms(1)], intro impI)
    fix loop and E :: "'u code" and f path suite it first cnt ret s y
    assume IH: "\<And>E f path suite it first cnt ret s y. loop E f path suite it first cnt ret s = Some y \<Longrightarrow>
        f = forking \<longrightarrow> well_formed s \<longrightarrow> evolves s (snd y)"
      and body: "(case it of
        None \<Rightarrow> Some (Returned (it, cnt, ret), s)
      | Some a \<Rightarrow>
          (case items s a of
             None \<Rightarrow> Some (Fault, s)
           | Some item \<Rightarrow>
               if kind item = PCUT_KIND_TESTSUITE then Some (Returned (it, cnt, ret), s)
               else if kind item \<noteq> PCUT_KIND_TEST then
                 (case pcut_get_real_next (items s) it of
                    None \<Rightarrow> Some (Fault, s)
                  | Some nx \<Rightarrow> loop E f path suite nx first cnt ret s)
               else
                 (case run_one E f path suite first a s of
                    (Returned ret_code_tmp, s) \<Rightarrow>
                      (case pcut_get_real_next (items s) it of
                         None \<Rightarrow> Some (Fault, s)
                       | Some nx \<Rightarrow>
                           loop E f path suite nx False (cnt + 1)
                             (if ret_code_tmp \<noteq> PCUT_OUTCOME_PASS then PCUT_OUTCOME_FAIL else ret) s)
                  | (Jumped, s) \<Rightarrow> Some (Jumped, s)
                  | (Ended e, s) \<Rightarrow> Some (Ended e, s)
                  | (Fault, s) \<Rightarrow> Some (Fault, s)))) = Some y"
      and f: "f = forking" and wf: "well_formed s"
    have go_on: "evolves s (snd y)" if "evolves s t" "loop E f path suite nx b n c t = Some y" for t nx b n c
      using IH [OF that(2)] that(1) f test.keeps_trans test.keeps_wf by blast
    have one: "evolves s t" if "run_one E f path suite first a s = (r, t)" for a r t
      using run_one_evolves [OF wf, of E path suite first a] that f by simp
    show "evolves s (snd y)"
      using body test.keeps_refl [OF wf]
      by (auto split: option.splits if_splits prod.splits outcome.splits intro: go_on dest: one)
  qed
  with assms show ?thesis by blast
qed

lemma run_suite_evolves:
  assumes "run_suite E forking path suite s = Some y" and wf: "well_formed s"
  shows "evolves s (snd y)"
proof -
  have tail: "evolves s (snd (and_then r (\<lambda>(it, total_count, ret_code) s.
      and_then (if total_count > 0 then pcut_report_suite_done (Some suite) s else (Returned (), s))
        (\<lambda>_ s. (Returned (ret_code, it), s)))))"
    if "run_suite_loop E forking path (Some suite) it True 0 PCUT_OUTCOME_PASS s = Some r" for it r
  proof (rule test.and_then_keeps [OF run_suite_loop_evolves [OF that wf]], clarify)
    fix it :: ptr and cnt ret :: int and t
    assume "evolves s t"
    then show "evolves s (snd (and_then (if cnt > 0 then pcut_report_suite_done (Some suite) t else (Returned (), t))
        (\<lambda>_ s. (Returned (ret, it), s))))"
      by (rule test.step_keeps [rotated]) (auto intro: report_calls_evolve test.keeps_refl)
  qed
  show ?thesis
    using assms(1) test.keeps_refl [OF wf] by (auto simp: run_suite_def split: option.splits if_splits intro: tail)
qed

lemma all_suites_loop_evolves:
  assumes "all_suites_loop E forking path it rc s = Some y" and "well_formed s"
  shows "evolves s (snd y)"
proof -
  let ?P = "\<lambda>(E :: 'u code) f (path :: bytes option) (it :: ptr) (rc :: int) s
    (y :: int outcome \<times> 'u process). f = forking \<longrightarrow> well_formed s \<longrightarrow> evolves s (snd y)"
  have "?P E forking path it rc s y"
  proof (rule all_suites_loop.raw_induct [where P = ?P, OF _ assms(1)], intro impI)
    fix loop and E :: "'u code" and f path it rc s y
    assume IH: "\<And>E f path it rc s y. loop E f path it rc s = Some y \<Longrightarrow> f = forking \<longrightarrow> well_formed s \<longrightarrow> evolves s (snd y)"
      and body: "(case it of
        None \<Rightarrow> Some (Returned rc, s)
      | Some a \<Rightarrow>
          (case items s a of
             None \<Rightarrow> Some (Fault, s)
           | Some item \<Rightarrow>
               if kind item = PCUT_KIND_TESTSUITE then
                 (case run_suite E f path a s of
                    None \<Rightarrow> None
                  | Some (Returned (rc_tmp, tmp), s) \<Rightarrow>
                      loop E f path tmp (if rc_tmp \<noteq> PCUT_OUTCOME_PASS then rc_tmp else rc) s
                  | Some (Jumped, s) \<Rightarrow> Some (Jumped, s)
                  | Some (Ended e, s) \<Rightarrow> Some (Ended e, s)
                  | Some (Fault, s) \<Rightarrow> Some (Fault, s))
               else
                 (case pcut_get_real_next (items s) it of
                    None \<Rightarrow> Some (Fault, s)
                  | Some nx \<Rightarrow> loop E f path nx rc s))) = Some y"
      and f: "f = forking" and wf: "well_formed s"
    have go_on: "evolves s (snd y)" if "evolves s t" "loop E f path nx c t = Some y" for t nx c
      using IH [OF that(2)] that(1) f test.keeps_trans test.keeps_wf by blast
    have one: "evolves s t" if "run_suite E f path a s = Some (r, t)" for a r t
      using run_suite_evolves [of E path a s "(r, t)"] that f wf by simp
    show "evolves s (snd y)"
      using body test.keeps_refl [OF wf]
      by (auto split: option.splits if_splits prod.splits outcome.splits intro: go_on dest: one)
  qed
  with assms show ?thesis by blast
qed

end

lemma goes_on_upd:
  assumes "goes_on s t"
  shows "goes_on s (t\<lparr>items := h\<rparr>)" "goes_on s (t\<lparr>report_ops := r\<rparr>)" "goes_on s (t\<lparr>pcut_run_mode := m\<rparr>)" "goes_on s (emit out t)"
  using assms by (auto simp: goes_on_def well_formed_def buffers_ok_def emit_def)

lemma goes_on_calls:
  assumes "well_formed s"
  shows "goes_on s (snd (call_user E f s))" "goes_on s (snd (pcut_report_init p s))" "goes_on s (snd (pcut_report_done s))"
    "goes_on s (snd (pcut_run_test_forked E test s))" "goes_on s (snd (pcut_run_test_single E test s))"
  using calls_evolve(1) [OF assms] report_calls_evolve(4,5) [OF assms] run_test_modes_evolve [OF assms]
  by (auto intro: evolves_goes_on)

lemma preinit_loop_goes_on: "well_formed s \<Longrightarrow> goes_on s (snd (preinit_loop E H xs argv s))"
proof (induction E H xs argv s rule: preinit_loop.induct)
  case (2 E H x xs argv s)
  let ?s = "if main_extra_type x = PCUT_MAIN_EXTRA_REPORT_XML then pcut_report_register_handler Report_xml s else s"
  have s: "goes_on s ?s" using run.keeps_refl [OF "2.prems"] by (simp add: pcut_report_register_handler_def goes_on_upd)
  note IH = "2.IH" [OF _ refl]
  have "goes_on s (snd (lift_opt (preinit_hook x) ?s (\<lambda>f s.
      and_then (call_user E f s) (\<lambda>_ s. preinit_loop E H xs (H f argv) s))))"
    if "main_extra_type x \<noteq> PCUT_MAIN_EXTRA_LAST" "main_extra_type x = PCUT_MAIN_EXTRA_PREINIT_HOOK"
    by (rule run.lift_step_keeps [OF s], rule run.step_keeps [OF goes_on_calls(1)], assumption, rule s,
        rule run.call_keeps, assumption, rule IH(1) [OF that], assumption+)
  moreover have "goes_on s (snd (preinit_loop E H xs argv ?s))"
    if "main_extra_type x \<noteq> PCUT_MAIN_EXTRA_LAST" "main_extra_type x \<noteq> PCUT_MAIN_EXTRA_PREINIT_HOOK"
    by (rule run.call_keeps [OF s]) (rule IH(2) [OF that])
  ultimately show ?case using run.keeps_refl [OF "2.prems"] by (simp add: Let_def)
qed (simp add: run.keeps_refl)

lemma init_loop_goes_on: "well_formed s \<Longrightarrow> goes_on s (snd (init_loop E xs s))"
proof (induction E xs s rule: init_loop.induct)
  case (2 E x xs s)
  have "goes_on s (snd (lift_opt (init_hook x) s (\<lambda>f s. and_then (call_user E f s) (\<lambda>_ s. init_loop E xs s))))"
    if "main_extra_type x \<noteq> PCUT_MAIN_EXTRA_LAST" "main_extra_type x = PCUT_MAIN_EXTRA_INIT_HOOK"
    by (rule run.lift_keeps [OF "2.prems"], rule run.and_then_keeps [OF goes_on_calls(1) [OF "2.prems"]],
        rule run.call_keeps, assumption, rule "2.IH"(1) [OF that], assumption+)
  with "2.IH"(2) "2.prems" run.keeps_refl [OF "2.prems"] show ?case by simp
qed (simp add: run.keeps_refl)

lemma arg_loop_goes_on: "well_formed s \<Longrightarrow> goes_on s (snd (arg_loop args first a b s))"
proof (induction args arbitrary: a b s)
  case (Cons arg args)
  let ?s = "\<lambda>is_x is_u. let s = (if is_x then pcut_report_register_handler Report_xml s else s)
      in if is_u then s\<lparr>pcut_run_mode := PCUT_RUN_MODE_SINGLE\<rparr> else s"
  have s: "goes_on s (?s is_x is_u)" for is_x is_u
    using run.keeps_refl [OF Cons.prems] by (simp add: pcut_report_register_handler_def goes_on_upd)
  have rest: "goes_on s (snd (arg_loop args first a b (?s is_x is_u)))" for a b is_x is_u
    by (rule run.call_keeps [OF s Cons.IH])
  have listing: "goes_on s (snd (lift_opt (pcut_print_tests (items s) first) s (\<lambda>out s. (Returned None, emit out s))))"
    by (rule run.lift_keeps [OF Cons.prems]) (simp add: goes_on_upd run.keeps_refl [OF Cons.prems])
  show ?case unfolding arg_loop.simps
    by (intro run.lift_keeps [OF Cons.prems], split if_split, intro conjI impI listing run.lift_keeps [OF Cons.prems] rest)
qed (simp add: run.keeps_refl)

context launcher_type begin

lemma run_selected_goes_on:
  assumes "run_selected E forking path first a b s = Some y" and wf: "well_formed s"
  shows "goes_on s (snd y)"
proof -
  have said: "goes_on s (emit out s)" for out using run.keeps_refl [OF wf] by (rule goes_on_upd)
  have suite: "goes_on s (snd (and_then r (\<lambda>_ s. (Returned PCUT_OUTCOME_PASS, s))))"
    if "run_suite E forking path c s = Some r" for c r
    by (rule run.and_then_keeps [OF evolves_goes_on [OF run_suite_evolves [OF that wf]]]) simp
  have "goes_on s (snd y)" if "run_only_suite_id E forking path first a s = Some y"
    using that said run.keeps_refl [OF wf]
    by (auto simp: run_only_suite_id_def split: option.splits if_splits intro: suite)
  moreover have "goes_on s (snd (run_only_test_id E first b s))"
    unfolding run_only_test_id_def
    by (rule run.lift_keeps [OF wf]) (auto intro: said goes_on_calls [OF wf] split: option.split)
  moreover have "goes_on s (snd y)" if r: "run_everything E forking path first s = Some y"
  proof -
    obtain o1 t where init: "pcut_report_init first s = (o1, t)" by fastforce
    then have t: "goes_on s t" using goes_on_calls(2) [OF wf, of first] by simp
    have "goes_on t (snd (and_then r (\<lambda>rc s. and_then (pcut_report_done s) (\<lambda>_ s. (Returned rc, s)))))"
      if "all_suites_loop E forking path first PCUT_OUTCOME_PASS t = Some r" for r
      by (rule run.and_then_keeps [OF evolves_goes_on [OF all_suites_loop_evolves [OF that run.keeps_wf [OF t]]]],
          rule run.step_keeps, erule goes_on_calls(3), assumption, simp)
    with r init t show ?thesis
      by (auto simp: run_everything_def split: outcome.splits intro: run.keeps_trans)
  qed
  ultimately show ?thesis using assms(1) said by (auto simp: run_selected_def split: if_splits)
qed

lemma main_goes_on:
  assumes "pcut_main E H forking l argv s = Some y" and wf: "well_formed s"
  shows "goes_on s (snd y)"
proof (cases "pcut_fix_list_get_real_head (items s) l")
  case None
  with assms show ?thesis by (auto simp: pcut_main_def run.keeps_refl)
next
  case (Some hf)
  then obtain h first where hf: "pcut_fix_list_get_real_head (items s) l = Some (h, first)" by (cases hf) auto
  define r where "r = and_then (lift_opt (h l) (s\<lparr>items := h\<rparr>) (\<lambda>it s. (Returned (main_extras it), s)))
     (\<lambda>xs s.
      let main_extras = (case xs of None \<Rightarrow> empty_main_extra | Some xs \<Rightarrow> xs)
      in and_then (preinit_loop E H main_extras argv (pcut_report_register_handler Report_tap s)) (\<lambda>argv s.
         and_then (arg_loop (drop 1 argv) (Some first) (-1) (-1) s) (\<lambda>sel s.
         case sel of
           None \<Rightarrow> (Returned None, s)
         | Some sel \<Rightarrow>
             lift_opt (set_setup_teardown_callbacks (items s) (Some first)) s (\<lambda>h s.
             and_then (init_loop E main_extras (s\<lparr>items := h\<rparr>)) (\<lambda>_ s.
               (Returned (Some (argv, sel)), s))))))"
  have s: "goes_on s (s\<lparr>items := h\<rparr>)" using run.keeps_refl [OF wf] by (rule goes_on_upd)
  have "goes_on s (snd r)"
    unfolding r_def Let_def pcut_report_register_handler_def
    apply (rule run.and_then_keeps, rule run.lift_step_keeps [OF s], simp add: s)
    apply (rule run.step_keeps, erule preinit_loop_goes_on, erule goes_on_upd)
    apply (rule run.step_keeps, erule arg_loop_goes_on, assumption)
    apply (split option.split, intro conjI impI allI, simp)
    apply (rule run.lift_step_keeps, assumption)
    apply (rule run.step_keeps, erule init_loop_goes_on, erule goes_on_upd)
    apply simp
    done
  moreover have "pcut_main E H forking l argv s = (case r of
       (Returned None, s) \<Rightarrow> Some (Returned PCUT_OUTCOME_PASS, s)
     | (Returned (Some (argv, run_only_suite, run_only_test)), s) \<Rightarrow>
         run_selected E forking (case argv of [] \<Rightarrow> None | p # _ \<Rightarrow> Some p) (Some first)
           run_only_suite run_only_test s
     | (Jumped, s) \<Rightarrow> Some (Jumped, s) | (Ended e, s) \<Rightarrow> Some (Ended e, s) | (Fault, s) \<Rightarrow> Some (Fault, s))"
    unfolding r_def pcut_main_def hf by simp
  moreover have "goes_on s (snd y)" if "goes_on s t" "Some y = run_selected E forking p f a b t" for t p f a b
    using run.keeps_trans [OF that(1) run_selected_goes_on [OF that(2) [symmetric] run.keeps_wf [OF that(1)]]] .
  ultimately show ?thesis
    using assms(1) by (auto split: outcome.splits option.splits prod.splits)
qed

end

interpretation unix_type: launcher_type "\<lambda>_. pcut_run_test_forking K E" for K E
  by unfold_locales (rule unix_launch_evolves)

end
