(* ===== verification/Reexec.thy ===== *)
theory Reexec
  imports Documents
begin

text \<open>
  Launchers that start the program itself again with \<open>-t\<close>: what such a child does, and how its
  parent reports the bytes that the child has written.
\<close>

section \<open>The program as its own child\<close>

text \<open>The actions and the end of a process that runs the program for one test.\<close>

definition reexec ::
    "'u code \<Rightarrow> hooks \<Rightarrow> 'u forking \<Rightarrow> heap \<Rightarrow> addr \<Rightarrow> 'u \<Rightarrow> bytes \<Rightarrow> int \<Rightarrow> (act list \<times> proc_end) option" where
  "reexec E H F h l u p i =
     (case pcut_main E H F l [p, cstr (''-t'' @ show_int i)] (start_state h u) of
        Some (Returned rc, s) \<Rightarrow> Some (trace s, Exited rc)
      | Some (Ended e, s) \<Rightarrow> Some (trace s, e)
      | _ \<Rightarrow> None)"

lemma reexec_spec:
  assumes "decls_ok h l xs" and "h l = Some lit" and "no_extras lit"
    and "pcut_fix_list_get_real_head h l = Some (h1, first)"
    and "code_ok E" and "k < length (reals h1 (order xs))" and "1 + int k < 2 ^ 31"
    and "kind_at h1 (reals h1 (order xs) ! k) = PCUT_KIND_TEST"
    and "test_spec E (give_hooks h1 (order xs)) (reals h1 (order xs) ! k) u = Some (es, u', v)"
  shows "reexec E H F h l u p (1 + int k) = Some (forked_acts es, end_of v)"
  using main_selected_test [OF assms, of H F p]
  by (cases v) (auto simp: reexec_def verdict_status_def end_of_def)

section \<open>One file for both streams\<close>

text \<open>The output of a process whose two streams are the same file.\<close>

fun both_of :: "act list \<Rightarrow> string" where
  "both_of [] = []"
| "both_of (Out s # as) = s @ both_of as"
| "both_of (Err s # as) = s @ both_of as"
| "both_of (Sleep n # as) = both_of as"

lemma both_of_append [simp]: "both_of (as @ bs) = both_of as @ both_of bs"
  by (induction as rule: both_of.induct) auto

fun merged_chunks :: "event list \<Rightarrow> chunk list" where
  "merged_chunks [] = []"
| "merged_chunks (Did as # es) = Text (both_of as) # merged_chunks es"
| "merged_chunks (Message m # es) = Fail m # merged_chunks es"

lemma both_forked: "both_of (forked_acts es) = concat (map frame (merged_chunks es))"
  by (induction es rule: merged_chunks.induct) simp_all

section \<open>Reporting the output of a child\<close>

text \<open>Texts and messages that fit into the buffers of the report, in \<open>n\<close> bytes altogether.\<close>

definition fit_chunks :: "chunk list \<Rightarrow> bool" where
  "fit_chunks cs \<longleftrightarrow> list_all chunk_ok cs \<and> length (concat (map frame cs)) + 2 \<le> OUTPUT_BUFFER_SIZE \<and>
     length (stdio_text cs) < BUFFER_SIZE \<and> length (error_text cs) < BUFFER_SIZE"

text \<open>The text that is left when the final newline of the output is cut.\<close>

definition kept_text :: "chunk list \<Rightarrow> string" where
  "kept_text cs = (let full = concat (map frame cs)
     in if full \<noteq> [] \<and> last full = NL then butlast (stdio_text cs) else stdio_text cs)"

lemma fit_chomped:
  assumes "fit_chunks cs"
  shows "\<exists>cs'. chomp (concat (map frame cs)) = concat (map frame cs') \<and> fit_chunks cs' \<and>
    error_text cs' = error_text cs \<and> stdio_text cs' = kept_text cs"
proof -
  let ?full = "concat (map frame cs)"
  from assms have "list_all chunk_ok cs" by (simp add: fit_chunks_def)
  from chomp_frames [OF this refl] obtain cs' where cs': "chomp ?full = concat (map frame cs')" "list_all chunk_ok cs'"
    "error_text cs' = error_text cs" "stdio_text cs' = kept_text cs"
    by (auto simp: kept_text_def Let_def)
  have "length (chomp ?full) \<le> length ?full" "length (kept_text cs) \<le> length (stdio_text cs)"
    by (simp_all add: chomp_def kept_text_def Let_def)
  with cs' assms have "fit_chunks cs'" by (simp add: fit_chunks_def)
  with cs' show ?thesis by blast
qed

definition cleared :: "'u process \<Rightarrow> 'u process" where
  "cleared s = (started s)\<lparr>error_message_buffer := replicate OUTPUT_BUFFER_SIZE NUL,
     extra_output_buffer := replicate OUTPUT_BUFFER_SIZE NUL\<rparr>"

lemma cleared_simps:
  "items (cleared s) = items s" "user (cleared s) = user s" "report_ops (cleared s) = report_ops s"
  "trace (cleared s) = trace s" "pcut_run_mode (cleared s) = pcut_run_mode s"
  "extra_output_buffer (cleared s) = replicate OUTPUT_BUFFER_SIZE NUL"
  "error_message_buffer (cleared s) = replicate OUTPUT_BUFFER_SIZE NUL"
  by (simp_all add: cleared_def frame_simps)

lemma cleared_ready: "ready s \<Longrightarrow> ready (cleared s)"
  by (simp add: cleared_def frame_simps ready_def buffers_ok_def)

lemma cleared_reports: "report_ops s = Some h \<Longrightarrow> reports_of (cleared s) = start_of h (reports_of s)"
  using reports_of_started [of s h] by (simp add: cleared_def reports_of_def)

text \<open>The entry that a launcher adds to the report of the state before the test.\<close>

definition adds_entry ::
    "'u process \<Rightarrow> string \<Rightarrow> handler \<Rightarrow> int \<Rightarrow> string \<Rightarrow> string \<Rightarrow> 'u process \<Rightarrow> bool" where
  "adds_entry s test_name h outcome e x s' \<longleftrightarrow>
     trace s' = trace s @ [Out (entry_of h (start_of h (reports_of s)) test_name outcome e [] x)] \<and>
     reports_of s' = count_of h outcome (start_of h (reports_of s)) \<and> user s' = user s \<and> carried s s'"

lemma report_chunks:
  assumes ready: "ready s" and it: "items s test = Some it" and h: "report_ops s = Some h"
    and fit: "fit_chunks cs" and b: "b = concat (map frame cs) @ replicate k NUL" "length b = OUTPUT_BUFFER_SIZE"
  shows "\<exists>s'. pcut_report_test_done_unparsed (Some test) outcome b OUTPUT_BUFFER_SIZE
      ((cleared s)\<lparr>extra_output_buffer := b\<rparr>) = (Returned (), s') \<and>
    adds_entry s (item_name it) h outcome (error_text cs) (stdio_text cs) s'"
proof -
  let ?s = "(cleared s)\<lparr>extra_output_buffer := b\<rparr>"
  have f: "list_all chunk_ok cs" "2 \<le> k" "length (stdio_text cs) \<le> BUFFER_SIZE" "length (error_text cs) \<le> BUFFER_SIZE"
    "length (stdio_text cs) < BUFFER_SIZE" "length (error_text cs) < BUFFER_SIZE"
    using fit b by (auto simp: fit_chunks_def)
  have out: "parse_command_output b OUTPUT_BUFFER_SIZE BUFFER_SIZE BUFFER_SIZE =
      Some (filled (stdio_text cs) BUFFER_SIZE, filled (error_text cs) BUFFER_SIZE)"
    using parse_command_output_frames [OF f(1-4) b(1)] b(2) by simp
  have s: "items ?s test = Some it" "report_ops ?s = Some h" "ready ?s"
    using it h cleared_ready [OF ready] by (simp_all add: cleared_simps ready_def buffers_ok_def)
  have r: "reports_of ?s = start_of h (reports_of s)" using cleared_reports [OF h] by (simp add: reports_of_def)
  from report_unparsed_call [OF out stdio_text_nul_free [OF f(1)] f(5) error_text_nul_free [OF f(1)] f(6) s, of outcome]
  obtain s' where "pcut_report_test_done_unparsed (Some test) outcome b OUTPUT_BUFFER_SIZE ?s = (Returned (), s')"
    "trace s' = trace ?s @ [Out (entry_of h (reports_of ?s) (item_name it) outcome (error_text cs) [] (stdio_text cs))]"
    "reports_of s' = count_of h outcome (reports_of ?s)" "user s' = user ?s" "carried ?s s'" by blast
  with r show ?thesis by (auto simp: adds_entry_def cleared_simps carried_def)
qed

text \<open>The buffer after a file has been read into it.\<close>

lemma store_file:
  assumes "fit_chunks cs" and "content = concat (map frame cs)"
  shows "\<exists>k. store (replicate OUTPUT_BUFFER_SIZE NUL) 0 (take OUTPUT_BUFFER_SIZE content) = Some (content @ replicate k NUL) \<and>
    length (content @ replicate k NUL) = OUTPUT_BUFFER_SIZE"
  using assms by (auto simp: fit_chunks_def store_def intro!: exI [of _ "OUTPUT_BUFFER_SIZE - length content"])

text \<open>A failure before there is any output: one entry with the text.\<close>

lemma report_text_call:
  assumes ready: "ready s" and it: "items s test = Some it" and h: "report_ops s = Some h"
    and b: "c_text b = Some msg" and s1: "s1 = (cleared s)\<lparr>error_message_buffer := eb\<rparr>"
  shows "\<exists>b' s'. pcut_report_test_done (Some test) outcome (Some b, None, None) s1 = (Returned (b', None, None), s') \<and>
    adds_entry s (item_name it) h outcome msg [] s' \<and> error_message_buffer s' = eb"
proof -
  have s: "deref (Some test) s1 = Some it" "report_ops s1 = Some h" "ready s1"
    using it h cleared_ready [OF ready] by (simp_all add: s1 cleared_simps ready_def buffers_ok_def)
  have r: "reports_of s1 = start_of h (reports_of s)" using cleared_reports [OF h] by (simp add: s1 reports_of_def)
  have m: "msg_text (Some b) = Some msg" "msg_text None = Some []" using b by (simp_all add: msg_text_def)
  from report_test_done_call [OF s(1) m(1) m(2) m(2), of outcome] obtain b1 b2 b3 where
    "pcut_report_test_done (Some test) outcome (Some b, None, None) s1 =
      (Returned (b1, b2, b3), reported (item_name it) outcome msg [] [] s1)" "same_shape (Some b, None, None) (b1, b2, b3)"
    by (metis prod_cases3)
  moreover have "adds_entry s (item_name it) h outcome msg [] (reported (item_name it) outcome msg [] [] s1)"
    using s r h reported_acts [OF s(2), of "item_name it" outcome msg "[]" "[]"]
    by (simp add: adds_entry_def carried_def ready_def frame_simps buffers_ok_def) (simp add: s1 cleared_simps)
  moreover have "error_message_buffer (reported (item_name it) outcome msg [] [] s1) = eb"
    by (simp add: s1 reported_def emit_def set_reports_def split: option.split)
  ultimately show ?thesis by (auto simp: same_shape_def)
qed

text \<open>Formatting into a buffer gives the text, cut to what fits.\<close>

lemma snprintf_c_text:
  "sz \<le> length b \<Longrightarrow> 0 < sz \<Longrightarrow> nul_free t \<Longrightarrow> pcut_snprintf b sz t \<bind> c_text = Some (take (sz - 1) t)"
  using snprintf_text [of sz b t] by (simp add: c_text_app)

text \<open>The buffer of the launcher is no part of its report.\<close>

lemma adds_entry_buffer [simp]:
  "adds_entry s n h outcome e x (s'\<lparr>error_message_buffer := b\<rparr>) = adds_entry s n h outcome e x s'"
  by (simp add: adds_entry_def carried_def ready_def buffers_ok_def reports_of_def)

section \<open>Answers for the tests of a list\<close>

text \<open>The specification of a run asks for the answers for the tests of its suites only.\<close>

lemma tests_spec_cong:
  "(\<And>a u. a \<in> set as \<Longrightarrow> f h a u = g h a u) \<Longrightarrow> tests_spec f rp h as r u = tests_spec g rp h as r u"
proof (induction as arbitrary: r u)
  case (Cons a as)
  have "f h a u = g h a u" by (rule Cons.prems) simp
  moreover have "tests_spec f rp h as r u = tests_spec g rp h as r u" for r u
    by (rule Cons.IH) (rule Cons.prems, simp)
  ultimately show ?case by (simp cong: option.case_cong)
qed simp

lemma suites_spec_cong:
  "(\<And>s a u. s \<in> set ss \<Longrightarrow> a \<in> set (snd s) \<Longrightarrow> f h a u = g h a u) \<Longrightarrow>
   suites_spec f rp h ss r u = suites_spec g rp h ss r u"
proof (induction ss arbitrary: r u)
  case (Cons s ss)
  obtain suite tests where s: "s = (suite, tests)" by fastforce
  have "tests_spec f rp h tests r u = tests_spec g rp h tests r u" for r u
    by (rule tests_spec_cong) (rule Cons.prems [of s], simp_all add: s)
  then have "suite_spec f rp h suite tests r u = suite_spec g rp h suite tests r u" for r u
    by (simp add: suite_spec_def)
  moreover have "suites_spec f rp h ss r u = suites_spec g rp h ss r u" for r u
    by (rule Cons.IH) (rule Cons.prems, simp_all)
  ultimately show ?case by (simp add: s cong: option.case_cong)
qed simp

lemma run_spec_cong:
  assumes "suites_of h as = ss" and "\<And>s a u. s \<in> set ss \<Longrightarrow> a \<in> set (snd s) \<Longrightarrow> f h a u = g h a u"
  shows "run_spec f rp h as r u = run_spec g rp h as r u"
  using suites_spec_cong [of ss f h g] assms by (simp add: run_spec_def)

end
