(* ===== verification/OsGeneric.thy ===== *)
theory OsGeneric
  imports Reexec
begin

text \<open>
  Running a test with \<open>system\<close>, \<^verbatim>\<open>src/os/generic.c\<close>: the program starts itself again through the
  command interpreter, with the output in a temporary file.
\<close>

section \<open>The system\<close>

text \<open>
  \<open>system_call\<close> gives the result of \<open>system\<close> and the files that can be read afterwards.  The
  identifier \<open>TEST_OUTCOME_ERROR\<close> is not defined anywhere under \<open>src\<close>.
\<close>

record system =
  is_windows :: bool
  getpid :: int
  system_call :: "string \<Rightarrow> int \<times> (string \<Rightarrow> bytes option)"
  TEST_OUTCOME_ERROR :: int

section \<open>Operations\<close>

definition PCUT_COMMAND_LINE_BUFFER_SIZE :: nat where "PCUT_COMMAND_LINE_BUFFER_SIZE = 256"
definition PCUT_TEMP_FILENAME_BUFFER_SIZE :: nat where "PCUT_TEMP_FILENAME_BUFFER_SIZE = 128"

definition FORMAT_COMMAND :: "system \<Rightarrow> bytes \<Rightarrow> nat \<Rightarrow> string \<Rightarrow> int \<Rightarrow> string \<Rightarrow> bytes option" where
  "FORMAT_COMMAND S buffer buffer_size self_path test_id temp_file =
     pcut_snprintf buffer buffer_size
       (if is_windows S
        then [DQ, DQ] @ self_path @ [DQ] @ '' -t'' @ show_int test_id @ '' >'' @ temp_file @ [DQ]
        else self_path @ '' -t'' @ show_int test_id @ '' &>'' @ temp_file)"

definition FORMAT_TEMP_FILENAME :: "system \<Rightarrow> bytes \<Rightarrow> nat \<Rightarrow> bytes option" where
  "FORMAT_TEMP_FILENAME S buffer buffer_size =
     pcut_snprintf buffer buffer_size (''pcut_'' @ show_int (getpid S) @ ''.tmp'')"

definition generic_before_test_start :: "ptr \<Rightarrow> 'u process \<Rightarrow> unit outcome \<times> 'u process" where
  "generic_before_test_start test s =
     and_then (pcut_report_test_start test s) (\<lambda>_ s.
       (Returned (), s\<lparr>error_message_buffer := replicate OUTPUT_BUFFER_SIZE NUL,
                       extra_output_buffer := replicate OUTPUT_BUFFER_SIZE NUL\<rparr>))"

definition generic_wait_status_to_outcome :: "int \<Rightarrow> int" where
  "generic_wait_status_to_outcome status =
     (if status < 0 then PCUT_OUTCOME_INTERNAL_ERROR
      else if status = 0 then PCUT_OUTCOME_PASS else PCUT_OUTCOME_FAIL)"

text \<open>The two texts that are formatted: the name of the file and the command.\<close>

definition generic_command :: "system \<Rightarrow> bytes option \<Rightarrow> int \<Rightarrow> (string \<times> string) option" where
  "generic_command S self_path test_id =
     do { path \<leftarrow> self_path;
          path \<leftarrow> c_text path;
          tempfile_name \<leftarrow> FORMAT_TEMP_FILENAME S (replicate PCUT_TEMP_FILENAME_BUFFER_SIZE NUL) (PCUT_TEMP_FILENAME_BUFFER_SIZE - 1);
          tempfile_name \<leftarrow> c_text tempfile_name;
          command \<leftarrow> FORMAT_COMMAND S (replicate PCUT_COMMAND_LINE_BUFFER_SIZE NUL) (PCUT_COMMAND_LINE_BUFFER_SIZE - 1)
            path test_id tempfile_name;
          command \<leftarrow> c_text command;
          Some (command, tempfile_name) }"

definition generic_run_test_forking :: "system \<Rightarrow> bytes option \<Rightarrow> addr \<Rightarrow> 'u process \<Rightarrow> int outcome \<times> 'u process" where
  "generic_run_test_forking S self_path test s =
     and_then (generic_before_test_start (Some test) s) (\<lambda>_ s.
     lift_opt (do { it \<leftarrow> items s test; generic_command S self_path (ident it) }) s (\<lambda>(command, tempfile_name) s.
     case system_call S command of (rc, files) \<Rightarrow>
       let outcome = generic_wait_status_to_outcome rc
       in (case files tempfile_name of
             None \<Rightarrow>
               and_then (pcut_report_test_done (Some test) (TEST_OUTCOME_ERROR S)
                   (Some (cstr ''Failed to open temporary file.''), None, None) s) (\<lambda>_ s.
                 (Returned PCUT_OUTCOME_INTERNAL_ERROR, s))
           | Some content \<Rightarrow>
               lift_opt (store (extra_output_buffer s) 0 (take OUTPUT_BUFFER_SIZE content)) s (\<lambda>b s.
               and_then (pcut_report_test_done_unparsed (Some test) outcome b OUTPUT_BUFFER_SIZE
                   (s\<lparr>extra_output_buffer := b\<rparr>)) (\<lambda>_ s.
                 (Returned outcome, s))))))"

definition generic_hook_before_test :: "ptr \<Rightarrow> 'u process \<Rightarrow> 'u process" where
  "generic_hook_before_test test s = s"

section \<open>What the launcher does\<close>

lemma generic_before_call:
  assumes "items s test = Some it"
  shows "generic_before_test_start (Some test) s = (Returned (), cleared s)"
  using report_test_start_call [OF assms] by (simp add: generic_before_test_start_def cleared_def)

definition temp_name :: "system \<Rightarrow> string" where
  "temp_name S = take 126 (''pcut_'' @ show_int (getpid S) @ ''.tmp'')"

definition command_text :: "system \<Rightarrow> string \<Rightarrow> int \<Rightarrow> string" where
  "command_text S path i =
     (if is_windows S
      then [DQ, DQ] @ path @ [DQ] @ '' -t'' @ show_int i @ '' >'' @ temp_name S @ [DQ]
      else path @ '' -t'' @ show_int i @ '' &>'' @ temp_name S)"

lemma generic_command_text:
  assumes "nul_free path"
  shows "generic_command S (Some (cstr path)) i = Some (take 254 (command_text S path i), temp_name S)"
proof -
  have tn: "FORMAT_TEMP_FILENAME S (replicate PCUT_TEMP_FILENAME_BUFFER_SIZE NUL) (PCUT_TEMP_FILENAME_BUFFER_SIZE - 1) \<bind> c_text =
      Some (temp_name S)"
    unfolding FORMAT_TEMP_FILENAME_def temp_name_def
    by (subst snprintf_c_text) (simp_all add: PCUT_TEMP_FILENAME_BUFFER_SIZE_def nul_free_def [of "''pcut_''"])
  have nf: "nul_free (temp_name S)" by (simp add: temp_name_def)
  have cmd: "FORMAT_COMMAND S (replicate PCUT_COMMAND_LINE_BUFFER_SIZE NUL) (PCUT_COMMAND_LINE_BUFFER_SIZE - 1) path i (temp_name S) \<bind> c_text =
      Some (take 254 (command_text S path i))"
    unfolding FORMAT_COMMAND_def command_text_def
    by (subst snprintf_c_text) (use assms nf in \<open>simp_all add: PCUT_COMMAND_LINE_BUFFER_SIZE_def\<close>)
  from tn obtain tb where tb: "FORMAT_TEMP_FILENAME S (replicate PCUT_TEMP_FILENAME_BUFFER_SIZE NUL) (PCUT_TEMP_FILENAME_BUFFER_SIZE - 1) = Some tb"
    "c_text tb = Some (temp_name S)" by (auto simp: bind_Some_conv)
  from cmd obtain cb where cb: "FORMAT_COMMAND S (replicate PCUT_COMMAND_LINE_BUFFER_SIZE NUL) (PCUT_COMMAND_LINE_BUFFER_SIZE - 1) path i (temp_name S) = Some cb"
    "c_text cb = Some (take 254 (command_text S path i))" by (auto simp: bind_Some_conv)
  show ?thesis using tb cb c_text_cstr [OF assms] by (simp add: generic_command_def)
qed

text \<open>A run whose file can be read.\<close>

lemma generic_run:
  assumes ready: "ready s" and it: "items s test = Some it" and h: "report_ops s = Some h"
    and path: "nul_free path" and sys: "system_call S (take 254 (command_text S path (ident it))) = (rc, files)"
    and content: "files (temp_name S) = Some (concat (map frame cs))" and fit: "fit_chunks cs"
  shows "\<exists>s'. generic_run_test_forking S (Some (cstr path)) test s = (Returned (generic_wait_status_to_outcome rc), s') \<and>
    adds_entry s (item_name it) h (generic_wait_status_to_outcome rc) (error_text cs) (stdio_text cs) s'"
proof -
  from store_file [OF fit refl] obtain k where
    st: "store (replicate OUTPUT_BUFFER_SIZE NUL) 0 (take OUTPUT_BUFFER_SIZE (concat (map frame cs))) =
      Some (concat (map frame cs) @ replicate k NUL)" "length (concat (map frame cs) @ replicate k NUL) = OUTPUT_BUFFER_SIZE"
    by blast
  from report_chunks [OF ready it h fit refl st(2), of "generic_wait_status_to_outcome rc"] show ?thesis
    using it sys content st(1)
    by (auto simp: generic_run_test_forking_def generic_before_call [OF it] cleared_simps generic_command_text [OF path] Let_def)
qed

section \<open>The launcher\<close>

text \<open>The result of \<open>system\<close> for a command that ends like this, by way of a shell.\<close>

definition shell_status :: "proc_end \<Rightarrow> int" where
  "shell_status e = (case e of Exited c \<Rightarrow> (c mod 256) * 256 | Signaled n \<Rightarrow> (128 + n) mod 256 * 256 | Hung \<Rightarrow> 0)"

text \<open>
  \<open>rerun i\<close> is what the program does when it is started with \<open>-t\<close> and the id.  The shell, one that
  knows the redirection of both streams, waits for it and has its output in the file.
\<close>

definition shell_runs :: "system \<Rightarrow> string \<Rightarrow> int \<Rightarrow> act list \<Rightarrow> proc_end \<Rightarrow> bool" where
  "shell_runs S path i acts e \<longleftrightarrow> \<not> is_windows S \<and>
     (case e of Exited _ \<Rightarrow> True | Signaled n \<Rightarrow> 0 < n \<and> n < 128 | Hung \<Rightarrow> False) \<and> length (command_text S path i) \<le> 254 \<and>
     (case system_call S (command_text S path i) of (rc, files) \<Rightarrow>
        rc = shell_status e \<and> files (temp_name S) = Some (both_of acts))"

text \<open>What is reported for a command that ends like this: the shell hides that a command was killed.\<close>

definition shell_outcome :: "proc_end \<Rightarrow> int" where
  "shell_outcome e =
     (case e of Exited c \<Rightarrow> if c mod 256 = 0 then PCUT_OUTCOME_PASS else PCUT_OUTCOME_FAIL | _ \<Rightarrow> PCUT_OUTCOME_FAIL)"

lemma shell_outcome:
  assumes "shell_runs S path i acts e"
  shows "generic_wait_status_to_outcome (shell_status e) = shell_outcome e"
proof (cases e)
  case (Exited c)
  have "0 \<le> c mod 256 * 256" by simp
  then show ?thesis unfolding Exited by (simp add: generic_wait_status_to_outcome_def shell_status_def shell_outcome_def)
next
  case (Signaled n)
  with assms have "0 < n" "n < 128" by (simp_all add: shell_runs_def)
  with Signaled show ?thesis by (simp add: generic_wait_status_to_outcome_def shell_status_def shell_outcome_def)
qed (use assms in \<open>simp add: shell_runs_def\<close>)

definition generic_answer ::
    "system \<Rightarrow> string \<Rightarrow> (int \<Rightarrow> (act list \<times> proc_end) option) \<Rightarrow> 'u code \<Rightarrow> 'u \<Rightarrow> heap \<Rightarrow> addr \<Rightarrow> 'u \<Rightarrow> 'u answer option" where
  "generic_answer S path rerun E u0 h test u =
     do { it \<leftarrow> h test;
          (acts, e) \<leftarrow> rerun (ident it);
          (es, _, v) \<leftarrow> test_spec E h test u0;
          if nul_free path \<and> acts = forked_acts es \<and> e = end_of v \<and> shell_runs S path (ident it) acts e \<and>
             fit_chunks (merged_chunks es)
          then Some ([], u, shell_outcome e, error_text (merged_chunks es), [],
                 stdio_text (merged_chunks es))
          else None }"

interpretation in_shell: isolated_launcher E "generic_run_test_forking S" "Some (cstr path)" PCUT_RUN_MODE_FORKING
  "generic_answer S path rerun E u0"
  for E :: "'u code" and S path rerun u0
proof
  fix s :: "'u process" and test it h acts u outcome e t x
  assume a: "ready s" "items s test = Some it" "report_ops s = Some h"
    "generic_answer S path rerun E u0 (items s) test (user s) = Some (acts, u, outcome, e, t, x)"
  then obtain es v cacts files where v: "nul_free path" "length (command_text S path (ident it)) \<le> 254"
    "cacts = forked_acts es" "system_call S (command_text S path (ident it)) = (shell_status (end_of v), files)"
    "files (temp_name S) = Some (both_of cacts)" "fit_chunks (merged_chunks es)"
    "acts = []" "u = user s" "outcome = generic_wait_status_to_outcome (shell_status (end_of v))"
    "e = error_text (merged_chunks es)" "t = []" "x = stdio_text (merged_chunks es)"
    by (auto simp: generic_answer_def shell_outcome [symmetric] bind_Some_conv split: if_splits) (auto simp: shell_runs_def)
  have "system_call S (take 254 (command_text S path (ident it))) = (shell_status (end_of v), files)"
    using v(2,4) by simp
  moreover have "files (temp_name S) = Some (concat (map frame (merged_chunks es)))"
    using v(3,5) by (simp add: both_forked)
  ultimately show "\<exists>s'. (if PCUT_RUN_MODE_FORKING = PCUT_RUN_MODE_FORKING then generic_run_test_forking S (Some (cstr path)) test s
         else pcut_run_test_single E test s) = (Returned outcome, s') \<and>
       trace s' = trace s @ acts @ [Out (entry_of h (start_of h (reports_of s)) (item_name it) outcome e t x)] \<and>
       reports_of s' = count_of h outcome (start_of h (reports_of s)) \<and> user s' = u \<and> carried s s'"
    using generic_run [OF a(1-3) v(1) _ _ v(6)] by (auto simp: v(7-12) adds_entry_def)
qed (auto simp: generic_answer_def bind_Some_conv split: if_splits)

end
