(* ===== verification/OsWindows.thy ===== *)
theory OsWindows
  imports Reexec
begin

text \<open>
  Running a test on Windows, \<^verbatim>\<open>src/os/windows.c\<close>: the program is started again with \<open>-t\<close>, a
  thread reads its two pipes, and the parent waits for it with a time-out.
\<close>

section \<open>The system\<close>

text \<open>
  \<open>call_ok\<close> tells for each call of the system, named by the text that is reported if it fails,
  whether it succeeds.  \<open>create_process\<close> gets the command and the time-out and gives the results of
  \<open>ReadFile\<close> on the two pipes (none for a failed call), of the two waits for the process and for
  the reader thread, and the exit code.
\<close>

datatype wait_result = WAIT_OBJECT_0 | WAIT_TIMEOUT | WAIT_FAILED

record windows_child =
  stderr_reads :: "string option list"
  stdout_reads :: "string option list"
  first_wait :: wait_result
  second_wait :: wait_result
  thread_wait :: wait_result
  exit_code :: nat

record windows =
  call_ok :: "string \<Rightarrow> bool"
  create_process :: "string \<Rightarrow> nat \<Rightarrow> windows_child"

section \<open>Operations\<close>

definition WINDOWS_COMMAND_LINE_BUFFER_SIZE :: nat where "WINDOWS_COMMAND_LINE_BUFFER_SIZE = 256"

definition windows_before_test_start :: "ptr \<Rightarrow> 'u process \<Rightarrow> unit outcome \<times> 'u process" where
  "windows_before_test_start test s =
     and_then (pcut_report_test_start test s) (\<lambda>_ s.
       (Returned (), s\<lparr>error_message_buffer := replicate OUTPUT_BUFFER_SIZE NUL,
                       extra_output_buffer := replicate OUTPUT_BUFFER_SIZE NUL\<rparr>))"

text \<open>The failure of a system call ends the test.\<close>

definition report_func_fail :: "ptr \<Rightarrow> string \<Rightarrow> 'u process \<Rightarrow> int outcome \<times> 'u process" where
  "report_func_fail test failed_function_name s =
     lift_opt (pcut_snprintf (error_message_buffer s) (OUTPUT_BUFFER_SIZE - 1)
       (failed_function_name @ '' failed: unknown reason.'')) s (\<lambda>b s.
     and_then (pcut_report_test_done test PCUT_OUTCOME_INTERNAL_ERROR (Some b, None, None)
       (s\<lparr>error_message_buffer := b\<rparr>)) (\<lambda>(b, _, _) s.
     (Returned PCUT_OUTCOME_INTERNAL_ERROR,
      s\<lparr>error_message_buffer := (case b of None \<Rightarrow> error_message_buffer s | Some b \<Rightarrow> b)\<rparr>)))"

text \<open>The loop over \<open>ReadFile\<close>: \<open>off\<close> is the offset of the pointer, \<open>n\<close> the size that is left.\<close>

fun windows_read_loop :: "string option list \<Rightarrow> bytes \<Rightarrow> nat \<Rightarrow> nat \<Rightarrow> (bytes \<times> nat) option" where
  "windows_read_loop [] buffer off n = Some (buffer, off)"
| "windows_read_loop (None # rs) buffer off n = Some (buffer, off)"
| "windows_read_loop (Some c # rs) buffer off n =
     (let d = take n c
      in if d = [] then Some (buffer, off)
         else (case store buffer off d of
                 None \<Rightarrow> None
               | Some buffer \<Rightarrow>
                   if n - length d = 0 then Some (buffer, off + length d)
                   else windows_read_loop rs buffer (off + length d) (n - length d)))"

definition windows_read_all :: "string option list \<Rightarrow> bytes \<Rightarrow> nat \<Rightarrow> (bytes \<times> nat) option" where
  "windows_read_all rs buffer buffer_size =
     do { (buffer, n) \<leftarrow> windows_read_loop rs buffer 0 buffer_size;
          Some (if n \<noteq> 0 \<and> buffer ! (n - 1) = NL then (buffer[n - 1 := NUL], n - 1) else (buffer, n)) }"

definition read_test_output_on_background :: "windows_child \<Rightarrow> bytes \<Rightarrow> nat \<Rightarrow> bytes option" where
  "read_test_output_on_background C output_buffer output_buffer_size =
     do { (b, stderr_size) \<leftarrow> windows_read_all (stderr_reads C) output_buffer (output_buffer_size - 1);
          (b, _) \<leftarrow> windows_read_all (stdout_reads C) b (output_buffer_size - 1 - stderr_size);
          Some b }"

text \<open>The calls before the child runs, and those that follow its creation, in order.\<close>

definition pipe_calls :: "string list" where
  "pipe_calls = [''CreatePipe(/* stdout */)'', ''SetHandleInformation(/* stdout */)'',
     ''CreatePipe(/* stderr */)'', ''SetHandleInformation(/* stderr */)'',
     ''CreatePipe(/* stdin */)'', ''SetHandleInformation(/* stdin */)'', ''CreateProcess()'',
     ''CloseHandle(/* stdout */)'', ''CloseHandle(/* stderr */)'', ''CloseHandle(/* stdin */)'',
     ''CreateThread(/* read test stdout */)'']"

definition windows_command :: "bytes option \<Rightarrow> int \<Rightarrow> string option" where
  "windows_command self_path test_id =
     do { path \<leftarrow> self_path;
          path \<leftarrow> c_text path;
          b \<leftarrow> pcut_snprintf (replicate WINDOWS_COMMAND_LINE_BUFFER_SIZE NUL) (WINDOWS_COMMAND_LINE_BUFFER_SIZE - 1)
            ([DQ] @ path @ [DQ] @ '' -t'' @ show_int test_id);
          c_text b }"

text \<open>\<open>int\<close> milliseconds, passed on as \<open>DWORD\<close>.\<close>

definition time_out_millis :: "int \<Rightarrow> nat" where
  "time_out_millis secs = nat (secs * 1000 mod 2 ^ 32)"

definition windows_outcome :: "bool \<Rightarrow> nat \<Rightarrow> int" where
  "windows_outcome timed_out rc =
     (if rc = 0 then PCUT_OUTCOME_PASS
      else if rc > 0 \<and> rc < 10 \<and> \<not> timed_out then PCUT_OUTCOME_FAIL
      else PCUT_OUTCOME_INTERNAL_ERROR)"

text \<open>Waiting for the child: whether it timed out, or the call that failed.\<close>

definition wait_for_child :: "windows \<Rightarrow> windows_child \<Rightarrow> string + bool" where
  "wait_for_child W C =
     (let timed_out = (first_wait C = WAIT_TIMEOUT)
      in if timed_out \<and> \<not> call_ok W ''TerminateProcess(/* PROCESS_INFORMATION.hProcess */)''
         then Inl ''TerminateProcess(/* PROCESS_INFORMATION.hProcess */)''
         else if (if timed_out then second_wait C else first_wait C) \<noteq> WAIT_OBJECT_0
         then Inl ''WaitForSingleObject(/* PROCESS_INFORMATION.hProcess */)''
         else if \<not> call_ok W ''GetExitCodeProcess()'' then Inl ''GetExitCodeProcess()''
         else Inr timed_out)"

definition windows_run_test_forking :: "windows \<Rightarrow> bytes option \<Rightarrow> addr \<Rightarrow> 'u process \<Rightarrow> int outcome \<times> 'u process" where
  "windows_run_test_forking W self_path test s =
     and_then (windows_before_test_start (Some test) s) (\<lambda>_ s.
     case find (\<lambda>c. \<not> call_ok W c) pipe_calls of
       Some failed \<Rightarrow> report_func_fail (Some test) failed s
     | None \<Rightarrow>
         lift_opt (do { it \<leftarrow> items s test; c \<leftarrow> windows_command self_path (ident it);
                        t \<leftarrow> pcut_get_test_timeout it; Some (c, t) }) s (\<lambda>(command, secs) s.
         let C = create_process W command (time_out_millis secs)
         in (case wait_for_child W C of
               Inl failed \<Rightarrow> report_func_fail (Some test) failed s
             | Inr timed_out \<Rightarrow>
                 let outcome = windows_outcome timed_out (exit_code C)
                 in if thread_wait C \<noteq> WAIT_OBJECT_0
                    then report_func_fail (Some test) ''WaitForSingleObject(/* stdout reader thread */)'' s
                    else
                      lift_opt (read_test_output_on_background C (extra_output_buffer s) OUTPUT_BUFFER_SIZE) s (\<lambda>b s.
                      and_then (pcut_report_test_done_unparsed (Some test) outcome b OUTPUT_BUFFER_SIZE
                          (s\<lparr>extra_output_buffer := b\<rparr>)) (\<lambda>_ s.
                        (Returned outcome, s))))))"

text \<open>No error box is shown for a test that crashes; the state of the library does not change.\<close>

definition windows_hook_before_test :: "ptr \<Rightarrow> 'u process \<Rightarrow> 'u process" where
  "windows_hook_before_test test s = s"

section \<open>Reading\<close>

text \<open>Apart from failing calls, reading is that of the Unix launcher.\<close>

definition good_reads :: "string option list \<Rightarrow> string list" where
  "good_reads rs = map the (takeWhile (\<lambda>r. r \<noteq> None) rs)"

lemma windows_read_loop_eq: "windows_read_loop rs buffer off n = read_loop (good_reads rs) buffer off n"
  by (induction rs buffer off n rule: windows_read_loop.induct)
    (auto simp: good_reads_def Let_def split: option.split)

lemma windows_read_all_eq: "windows_read_all rs buffer n = read_all (good_reads rs) buffer n"
  by (simp add: windows_read_all_def read_all_def windows_read_loop_eq)

text \<open>The standard output of a child whose error stream is empty, in a cleared buffer.\<close>

lemma read_in_background:
  assumes "stream (good_reads (stderr_reads C)) = []" and "stream (good_reads (stdout_reads C)) = out"
    and "length out + 2 \<le> OUTPUT_BUFFER_SIZE"
  shows "\<exists>k. 2 \<le> k \<and> length (chomp out) + k = OUTPUT_BUFFER_SIZE \<and>
    read_test_output_on_background C (replicate OUTPUT_BUFFER_SIZE NUL) OUTPUT_BUFFER_SIZE =
      Some (chomp out @ replicate k NUL)"
  using read_stdout [OF assms(1,2)] assms(3)
  by (fastforce simp: read_test_output_on_background_def windows_read_all_eq)

section \<open>What the launcher does\<close>

lemma windows_before_call:
  assumes "items s test = Some it"
  shows "windows_before_test_start (Some test) s = (Returned (), cleared s)"
  using report_test_start_call [OF assms] by (simp add: windows_before_test_start_def cleared_def)

text \<open>The report of a failed call.\<close>

definition fail_text :: "string \<Rightarrow> string" where
  "fail_text f = f @ '' failed: unknown reason.''"

lemma func_fail_call:
  assumes ready: "ready s" and it: "items s test = Some it" and h: "report_ops s = Some h"
    and f: "nul_free f" "length (fail_text f) < OUTPUT_BUFFER_SIZE - 1"
  shows "\<exists>s'. report_func_fail (Some test) f (cleared s) = (Returned PCUT_OUTCOME_INTERNAL_ERROR, s') \<and>
    adds_entry s (item_name it) h PCUT_OUTCOME_INTERNAL_ERROR (fail_text f) [] s'"
proof -
  have nf: "nul_free (fail_text f)" using f(1) by (simp add: fail_text_def nul_free_def)
  have len: "OUTPUT_BUFFER_SIZE - 1 \<le> length (error_message_buffer (cleared s))" "0 < OUTPUT_BUFFER_SIZE - 1"
    by (simp_all add: cleared_simps OUTPUT_BUFFER_SIZE_def)
  from snprintf_c_text [OF len nf] f(2)
  have "pcut_snprintf (error_message_buffer (cleared s)) (OUTPUT_BUFFER_SIZE - 1) (fail_text f) \<bind> c_text = Some (fail_text f)"
    by simp
  then obtain b where b: "pcut_snprintf (error_message_buffer (cleared s)) (OUTPUT_BUFFER_SIZE - 1) (fail_text f) = Some b"
    "c_text b = Some (fail_text f)" by (auto simp: bind_Some_conv)
  from report_text_call [OF ready it h b(2) refl, of PCUT_OUTCOME_INTERNAL_ERROR b] obtain b' s' where
    s': "pcut_report_test_done (Some test) PCUT_OUTCOME_INTERNAL_ERROR (Some b, None, None)
      ((cleared s)\<lparr>error_message_buffer := b\<rparr>) = (Returned (b', None, None), s')"
    "adds_entry s (item_name it) h PCUT_OUTCOME_INTERNAL_ERROR (fail_text f) [] s'" "error_message_buffer s' = b" by blast
  show ?thesis
    using b(1) s'(1,2) by (cases b') (simp_all add: report_func_fail_def fail_text_def cleared_simps)
qed

text \<open>
  Every call succeeds up to the report, and both threads are waited for; \<open>timed_out\<close> tells whether the
  child had to be terminated.
\<close>

definition runs_through :: "windows \<Rightarrow> windows_child \<Rightarrow> bool \<Rightarrow> bool" where
  "runs_through W C timed_out \<longleftrightarrow> list_all (call_ok W) pipe_calls \<and> call_ok W ''GetExitCodeProcess()'' \<and>
     (if timed_out
      then first_wait C = WAIT_TIMEOUT \<and> second_wait C = WAIT_OBJECT_0 \<and>
        call_ok W ''TerminateProcess(/* PROCESS_INFORMATION.hProcess */)''
      else first_wait C = WAIT_OBJECT_0) \<and> thread_wait C = WAIT_OBJECT_0"

lemma windows_run:
  assumes ready: "ready s" and it: "items s test = Some it" and h: "report_ops s = Some h"
    and cmd: "windows_command self (ident it) = Some command" and t: "pcut_get_test_timeout it = Some secs"
    and C: "C = create_process W command (time_out_millis secs)" and through: "runs_through W C timed_out"
    and reads: "stream (good_reads (stderr_reads C)) = []"
      "stream (good_reads (stdout_reads C)) = concat (map frame cs)" and fit: "fit_chunks cs"
  shows "\<exists>s'. windows_run_test_forking W self test s = (Returned (windows_outcome timed_out (exit_code C)), s') \<and>
    adds_entry s (item_name it) h (windows_outcome timed_out (exit_code C)) (error_text cs) (kept_text cs) s'"
proof -
  from fit_chomped [OF fit] obtain cs' where cs': "chomp (concat (map frame cs)) = concat (map frame cs')" "fit_chunks cs'"
    "error_text cs' = error_text cs" "stdio_text cs' = kept_text cs" by blast
  from fit have "length (concat (map frame cs)) + 2 \<le> OUTPUT_BUFFER_SIZE" by (simp add: fit_chunks_def)
  from read_in_background [OF reads this] cs'(1) obtain k where k: "length (concat (map frame cs') @ replicate k NUL) = OUTPUT_BUFFER_SIZE"
    "read_test_output_on_background C (replicate OUTPUT_BUFFER_SIZE NUL) OUTPUT_BUFFER_SIZE = Some (concat (map frame cs') @ replicate k NUL)"
    by auto
  have calls: "find (\<lambda>c. \<not> call_ok W c) pipe_calls = None"
    using through by (simp add: runs_through_def find_None_iff list_all_iff)
  have wait: "wait_for_child W C = Inr timed_out" using through by (auto simp: wait_for_child_def runs_through_def split: if_splits)
  from report_chunks [OF ready it h cs'(2) refl k(1), of "windows_outcome timed_out (exit_code C)"] cs'(3,4)
  obtain s' where s': "pcut_report_test_done_unparsed (Some test) (windows_outcome timed_out (exit_code C))
      (concat (map frame cs') @ replicate k NUL) OUTPUT_BUFFER_SIZE
      ((cleared s)\<lparr>extra_output_buffer := concat (map frame cs') @ replicate k NUL\<rparr>) = (Returned (), s')"
    "adds_entry s (item_name it) h (windows_outcome timed_out (exit_code C)) (error_text cs) (kept_text cs) s'" by auto
  have "windows_run_test_forking W self test s = (Returned (windows_outcome timed_out (exit_code C)), s')"
    using it cmd t s'(1) k(2) wait calls through
    by (simp add: windows_run_test_forking_def windows_before_call [OF it] cleared_simps C [symmetric] Let_def runs_through_def)
  with s'(2) show ?thesis by blast
qed

text \<open>A call that fails before the child exists is the only thing reported.\<close>

lemma windows_call_fails:
  assumes ready: "ready s" and it: "items s test = Some it" and h: "report_ops s = Some h"
    and f: "find (\<lambda>c. \<not> call_ok W c) pipe_calls = Some f"
  shows "\<exists>s'. windows_run_test_forking W self test s = (Returned PCUT_OUTCOME_INTERNAL_ERROR, s') \<and>
    adds_entry s (item_name it) h PCUT_OUTCOME_INTERNAL_ERROR (fail_text f) [] s'"
proof -
  have "f \<in> set pipe_calls" using f by (auto simp: find_Some_iff)
  moreover have "list_all (\<lambda>f. nul_free f \<and> length (fail_text f) < OUTPUT_BUFFER_SIZE - 1) pipe_calls"
    by (simp add: pipe_calls_def fail_text_def OUTPUT_BUFFER_SIZE_def nul_free_def)
  ultimately have "nul_free f" "length (fail_text f) < OUTPUT_BUFFER_SIZE - 1" by (simp_all add: list_all_iff)
  from func_fail_call [OF ready it h this] f show ?thesis
    by (auto simp: windows_run_test_forking_def windows_before_call [OF it])
qed

section \<open>The launcher\<close>

abbreviation CR :: char where "CR \<equiv> CHR 0x0D"

text \<open>The C library of the child writes each newline as two bytes.\<close>

fun text_mode :: "string \<Rightarrow> string" where
  "text_mode [] = []"
| "text_mode (c # cs) = (if c = NL then [CR, NL] else [c]) @ text_mode cs"

lemma text_mode_append [simp]: "text_mode (s @ t) = text_mode s @ text_mode t"
  by (induction s) auto

fun windows_chunk :: "chunk \<Rightarrow> chunk" where
  "windows_chunk (Text t) = Text (text_mode t)"
| "windows_chunk (Fail m) = Fail (text_mode m @ [CR])"

lemma text_mode_frame: "text_mode (frame c) = frame (windows_chunk c)"
  by (cases c) simp_all

lemma text_mode_frames: "text_mode (concat (map frame cs)) = concat (map frame (map windows_chunk cs))"
  by (induction cs) (simp_all add: text_mode_frame)

text \<open>
  The exit code of a process that ends like this; an exception has a code of its own, none of them
  below ten.
\<close>

definition ends_with_code :: "proc_end \<Rightarrow> nat \<Rightarrow> bool" where
  "ends_with_code e rc = (case e of Exited c \<Rightarrow> rc = nat (c mod 2 ^ 32) | Signaled _ \<Rightarrow> 10 \<le> rc | Hung \<Rightarrow> False)"

definition windows_delivers :: "windows \<Rightarrow> windows_child \<Rightarrow> act list \<Rightarrow> proc_end \<Rightarrow> bool" where
  "windows_delivers W C acts e \<longleftrightarrow> runs_through W C False \<and> ends_with_code e (exit_code C) \<and>
     stream (good_reads (stderr_reads C)) = text_mode (stderr_of acts) \<and>
     stream (good_reads (stdout_reads C)) = text_mode (stdout_of acts)"

text \<open>What is reported for it.\<close>

definition windows_end_outcome :: "proc_end \<Rightarrow> int" where
  "windows_end_outcome e =
     (case e of
        Exited c \<Rightarrow> if c mod 2 ^ 32 = 0 then PCUT_OUTCOME_PASS
          else if c mod 2 ^ 32 < 10 then PCUT_OUTCOME_FAIL else PCUT_OUTCOME_INTERNAL_ERROR
      | _ \<Rightarrow> PCUT_OUTCOME_INTERNAL_ERROR)"

lemma windows_end_outcome: "ends_with_code e rc \<Longrightarrow> windows_outcome False rc = windows_end_outcome e"
proof (cases e)
  case (Exited c)
  assume "ends_with_code e rc"
  then have rc: "int rc = c mod 2 ^ 32" using Exited by (simp add: ends_with_code_def)
  have "windows_end_outcome e =
      (if int rc = 0 then PCUT_OUTCOME_PASS else if int rc < 10 then PCUT_OUTCOME_FAIL else PCUT_OUTCOME_INTERNAL_ERROR)"
    unfolding windows_end_outcome_def Exited proc_end.case rc ..
  then show ?thesis by (auto simp: windows_outcome_def)
qed (simp_all add: ends_with_code_def windows_outcome_def windows_end_outcome_def)

definition windows_answer ::
    "windows \<Rightarrow> string \<Rightarrow> (int \<Rightarrow> (act list \<times> proc_end) option) \<Rightarrow> 'u code \<Rightarrow> 'u \<Rightarrow> heap \<Rightarrow> addr \<Rightarrow> 'u \<Rightarrow> 'u answer option" where
  "windows_answer W path rerun E u0 h test u =
     do { it \<leftarrow> h test;
          (acts, e) \<leftarrow> rerun (ident it);
          (es, _, v) \<leftarrow> test_spec E h test u0;
          command \<leftarrow> windows_command (Some (cstr path)) (ident it);
          secs \<leftarrow> pcut_get_test_timeout it;
          let C = create_process W command (time_out_millis secs);
              cs = map windows_chunk (chunks_of es)
          in if acts = forked_acts es \<and> e = end_of v \<and> stderr_of acts = [] \<and> windows_delivers W C acts e \<and> fit_chunks cs
             then Some ([], u, windows_end_outcome e, error_text cs, [], kept_text cs)
             else None }"

interpretation on_windows: isolated_launcher E "windows_run_test_forking W" "Some (cstr path)" PCUT_RUN_MODE_FORKING
  "windows_answer W path rerun E u0"
  for E :: "'u code" and W path rerun u0
proof
  fix s :: "'u process" and test it h acts u outcome e t x
  assume a: "ready s" "items s test = Some it" "report_ops s = Some h"
    "windows_answer W path rerun E u0 (items s) test (user s) = Some (acts, u, outcome, e, t, x)"
  then obtain cacts ce es v command secs C cs where v: "windows_command (Some (cstr path)) (ident it) = Some command"
    "pcut_get_test_timeout it = Some secs" "C = create_process W command (time_out_millis secs)"
    "cs = map windows_chunk (chunks_of es)" "cacts = forked_acts es" "stderr_of cacts = []"
    "windows_delivers W C cacts ce" "fit_chunks cs"
    "acts = []" "u = user s" "outcome = windows_end_outcome ce" "e = error_text cs" "t = []" "x = kept_text cs"
    by (auto simp: windows_answer_def bind_Some_conv Let_def split: if_splits)
  have "runs_through W C False" "stream (good_reads (stderr_reads C)) = []"
    "stream (good_reads (stdout_reads C)) = concat (map frame cs)"
    using v(4-7) by (simp_all add: windows_delivers_def stdout_forked text_mode_frames)
  moreover have "outcome = windows_outcome False (exit_code C)"
    using v(7,11) windows_end_outcome [of ce] by (auto simp: windows_delivers_def)
  ultimately show "\<exists>s'. (if PCUT_RUN_MODE_FORKING = PCUT_RUN_MODE_FORKING then windows_run_test_forking W (Some (cstr path)) test s
         else pcut_run_test_single E test s) = (Returned outcome, s') \<and>
       trace s' = trace s @ acts @ [Out (entry_of h (start_of h (reports_of s)) (item_name it) outcome e t x)] \<and>
       reports_of s' = count_of h outcome (start_of h (reports_of s)) \<and> user s' = u \<and> carried s s'"
    using windows_run [OF a(1-3) v(1-3) _ _ _ v(8)] v(9,10,12-14) by (auto simp: adds_entry_def)
qed (auto simp: windows_answer_def bind_Some_conv Let_def split: if_splits)

end
