(* ===== verification/OsHelenos.thy ===== *)
theory OsHelenos
  imports Reexec
begin

text \<open>
  Running a test on HelenOS, \<^verbatim>\<open>src/os/helenos.c\<close>: the program is spawned again with \<open>-t\<close> and its
  output in a temporary file; a fibril of its own kills the task when it runs too long.  That fibril
  is the theory \<open>Killer\<close>; here the system says how the task ends if it is killed after a time.
\<close>

section \<open>String functions\<close>

text \<open>
  The string library of HelenOS, by the documentation of \<^verbatim>\<open>str.h\<close>: comparisons are by characters in
  UTF-8, so \<open>str_lcmp\<close> counts characters and not bytes.
\<close>

record helenos_strings =
  str_cmp :: "bytes \<Rightarrow> bytes \<Rightarrow> int option"
  str_lcmp :: "bytes \<Rightarrow> bytes \<Rightarrow> nat \<Rightarrow> int option"
  str_size :: "bytes \<Rightarrow> nat option"
  str_chr :: "bytes \<Rightarrow> char \<Rightarrow> nat option option"
  str_error :: "int \<Rightarrow> string option"
  str_cpy :: "bytes \<Rightarrow> nat \<Rightarrow> string \<Rightarrow> bytes option"

definition helenos_str_equals :: "helenos_strings \<Rightarrow> bytes \<Rightarrow> bytes \<Rightarrow> bool option" where
  "helenos_str_equals L a b = map_option (\<lambda>d. d = 0) (str_cmp L a b)"

definition helenos_str_start_equals :: "helenos_strings \<Rightarrow> bytes \<Rightarrow> bytes \<Rightarrow> nat \<Rightarrow> bool option" where
  "helenos_str_start_equals L a b len = map_option (\<lambda>d. d = 0) (str_lcmp L a b len)"

definition helenos_str_size :: "helenos_strings \<Rightarrow> bytes \<Rightarrow> nat option" where
  "helenos_str_size L s = str_size L s"

definition helenos_str_to_int :: "bytes \<Rightarrow> int option" where
  "helenos_str_to_int s = map_option to_int (c_strtol10 s)"

definition helenos_str_find_char :: "helenos_strings \<Rightarrow> bytes \<Rightarrow> char \<Rightarrow> nat option option" where
  "helenos_str_find_char L haystack needle = str_chr L haystack needle"

definition helenos_str_error :: "helenos_strings \<Rightarrow> int \<Rightarrow> bytes \<Rightarrow> nat \<Rightarrow> bytes option" where
  "helenos_str_error L err buffer sz =
     str_cpy L buffer sz (case str_error L err of None \<Rightarrow> ''(strerror failure)'' | Some s \<Rightarrow> s)"

text \<open>Texts of one-byte characters, and what the library promises for them.\<close>

definition ascii :: "string \<Rightarrow> bool" where
  "ascii s \<longleftrightarrow> list_all (\<lambda>c. 0 < byte c \<and> byte c < 128) s"

definition documented :: "helenos_strings \<Rightarrow> bool" where
  "documented L \<longleftrightarrow>
     (\<forall>a b. ascii a \<longrightarrow> ascii b \<longrightarrow> (\<exists>d. str_cmp L (cstr a) (cstr b) = Some d \<and> (d = 0 \<longleftrightarrow> a = b))) \<and>
     (\<forall>a b n. ascii a \<longrightarrow> ascii b \<longrightarrow>
        (\<exists>d. str_lcmp L (cstr a) (cstr b) n = Some d \<and> (d = 0 \<longleftrightarrow> take n a = take n b))) \<and>
     (\<forall>s. ascii s \<longrightarrow> str_size L (cstr s) = Some (length s)) \<and>
     (\<forall>buffer n s. ascii s \<longrightarrow> 0 < n \<longrightarrow> n \<le> length buffer \<longrightarrow>
        str_cpy L buffer n s = store buffer 0 (take (n - 1) s @ [NUL]))"

lemma ascii_nul_free: "ascii s \<Longrightarrow> nul_free s"
  by (auto simp: ascii_def nul_free_def list_all_iff byte_def)

section \<open>The system\<close>

text \<open>
  \<open>task_spawnvf\<close> gets the path and the arguments.  For a task that is started the result tells what
  becomes of it if it is killed after some microseconds: whether \<open>task_wait\<close> succeeds, whether the
  task ended unexpectedly, its return value, and what is read from the temporary file.
\<close>

record task =
  wait_ok :: bool
  exit_unexpected :: bool
  retval :: int
  written :: bytes

record helenos =
  task_get_id :: int
  open_ok :: "string \<Rightarrow> bool"
  task_spawnvf :: "string \<Rightarrow> string list \<Rightarrow> (int \<Rightarrow> task) option"
  fibril_create_ok :: bool

section \<open>Operations\<close>

definition MAX_TEST_NUMBER_WIDTH :: nat where "MAX_TEST_NUMBER_WIDTH = 24"
definition HELENOS_TEMP_FILENAME_BUFFER_SIZE :: nat where "HELENOS_TEMP_FILENAME_BUFFER_SIZE = 128"

definition helenos_before_test_start :: "ptr \<Rightarrow> 'u process \<Rightarrow> unit outcome \<times> 'u process" where
  "helenos_before_test_start test s =
     and_then (pcut_report_test_start test s) (\<lambda>_ s.
       (Returned (), s\<lparr>error_message_buffer := replicate OUTPUT_BUFFER_SIZE NUL,
                       extra_output_buffer := replicate OUTPUT_BUFFER_SIZE NUL\<rparr>))"

definition tempfile_name :: "helenos \<Rightarrow> string option" where
  "tempfile_name H =
     do { b \<leftarrow> c_snprintf (replicate HELENOS_TEMP_FILENAME_BUFFER_SIZE NUL) 0 (HELENOS_TEMP_FILENAME_BUFFER_SIZE - 1)
            (''pcut_'' @ show_int (task_get_id H) @ ''.tmp'');
          c_text b }"

definition test_number_argument :: "int \<Rightarrow> string option" where
  "test_number_argument test_id =
     do { b \<leftarrow> c_snprintf (replicate MAX_TEST_NUMBER_WIDTH NUL) 0 MAX_TEST_NUMBER_WIDTH (''-t'' @ show_int test_id);
          c_text b }"

text \<open>When the task is killed: at its time-out, or at once if there is no fibril to do it.\<close>

definition kill_time :: "helenos \<Rightarrow> pcut_item \<Rightarrow> int option" where
  "kill_time H it =
     (if fibril_create_ok H then map_option (\<lambda>timeout_sec. timeout_sec * 1000000) (pcut_get_test_timeout it) else Some 0)"

definition task_status :: "task \<Rightarrow> int" where
  "task_status T =
     (if exit_unexpected T then PCUT_OUTCOME_INTERNAL_ERROR
      else if retval T = 0 then PCUT_OUTCOME_PASS else PCUT_OUTCOME_FAIL)"

text \<open>The part between the creation of the file and the report: the status and the output buffer.\<close>

definition run_task :: "helenos \<Rightarrow> bytes option \<Rightarrow> pcut_item \<Rightarrow> bytes \<Rightarrow> (int \<times> bytes) option" where
  "run_task H self_path it buffer =
     do { path \<leftarrow> self_path;
          path \<leftarrow> c_text path;
          arg \<leftarrow> test_number_argument (ident it);
          case task_spawnvf H path [path, arg] of
            None \<Rightarrow> Some (PCUT_OUTCOME_INTERNAL_ERROR, buffer)
          | Some task_until \<Rightarrow>
              do { us \<leftarrow> kill_time H it;
                   let T = task_until us
                   in if \<not> wait_ok T then Some (PCUT_OUTCOME_INTERNAL_ERROR, buffer)
                      else do { buffer \<leftarrow> store buffer 0 (take OUTPUT_BUFFER_SIZE (written T));
                                Some (task_status T, buffer) } } }"

definition helenos_run_test_forking :: "helenos \<Rightarrow> bytes option \<Rightarrow> addr \<Rightarrow> 'u process \<Rightarrow> int outcome \<times> 'u process" where
  "helenos_run_test_forking H self_path test s =
     and_then (helenos_before_test_start (Some test) s) (\<lambda>_ s.
     lift_opt (tempfile_name H) s (\<lambda>name s.
     if \<not> open_ok H name
     then and_then (pcut_report_test_done (Some test) PCUT_OUTCOME_INTERNAL_ERROR
            (Some (cstr ''Failed to create temporary file.''), None, None) s) (\<lambda>_ s.
          (Returned PCUT_OUTCOME_INTERNAL_ERROR, s))
     else
       lift_opt (do { it \<leftarrow> items s test; run_task H self_path it (extra_output_buffer s) }) s (\<lambda>(status, b) s.
       and_then (pcut_report_test_done_unparsed (Some test) status b OUTPUT_BUFFER_SIZE
           (s\<lparr>extra_output_buffer := b\<rparr>)) (\<lambda>_ s.
         (Returned status, s)))))"

definition helenos_hook_before_test :: "ptr \<Rightarrow> 'u process \<Rightarrow> 'u process" where
  "helenos_hook_before_test test s = s"

section \<open>What the launcher does\<close>

lemma helenos_before_call:
  assumes "items s test = Some it"
  shows "helenos_before_test_start (Some test) s = (Returned (), cleared s)"
  using report_test_start_call [OF assms] by (simp add: helenos_before_test_start_def cleared_def)

definition helenos_temp :: "helenos \<Rightarrow> string" where
  "helenos_temp H = take 126 (''pcut_'' @ show_int (task_get_id H) @ ''.tmp'')"

lemma tempfile_name_eq: "tempfile_name H = Some (helenos_temp H)"
  using snprintf_c_text [of 127 "replicate 128 NUL" "''pcut_'' @ show_int (task_get_id H) @ ''.tmp''"]
  by (simp add: tempfile_name_def helenos_temp_def HELENOS_TEMP_FILENAME_BUFFER_SIZE_def pcut_snprintf_def)

lemma test_number_argument_eq: "test_number_argument i = Some (take 23 (''-t'' @ show_int i))"
  using snprintf_c_text [of 24 "replicate 24 NUL" "''-t'' @ show_int i"]
  by (simp add: test_number_argument_def MAX_TEST_NUMBER_WIDTH_def pcut_snprintf_def)

text \<open>Every run whose file can be opened reports the status with what is read from the file.\<close>

lemma helenos_run:
  assumes ready: "ready s" and it: "items s test = Some it" and h: "report_ops s = Some h"
    and opens: "open_ok H (helenos_temp H)" and fit: "fit_chunks cs"
    and run: "run_task H self it (replicate OUTPUT_BUFFER_SIZE NUL) =
      map_option (Pair st) (store (replicate OUTPUT_BUFFER_SIZE NUL) 0 (take OUTPUT_BUFFER_SIZE (concat (map frame cs))))"
  shows "\<exists>s'. helenos_run_test_forking H self test s = (Returned st, s') \<and>
    adds_entry s (item_name it) h st (error_text cs) (stdio_text cs) s'"
proof -
  from store_file [OF fit refl] obtain k where
    st: "store (replicate OUTPUT_BUFFER_SIZE NUL) 0 (take OUTPUT_BUFFER_SIZE (concat (map frame cs))) =
      Some (concat (map frame cs) @ replicate k NUL)" "length (concat (map frame cs) @ replicate k NUL) = OUTPUT_BUFFER_SIZE"
    by blast
  from report_chunks [OF ready it h fit refl st(2), of st] show ?thesis
    using it run opens
    by (auto simp: helenos_run_test_forking_def helenos_before_call [OF it] cleared_simps tempfile_name_eq st(1))
qed

text \<open>A file that cannot be opened, a task that cannot be started or waited for.\<close>

lemma helenos_no_file:
  assumes ready: "ready s" and it: "items s test = Some it" and h: "report_ops s = Some h"
    and f: "\<not> open_ok H (helenos_temp H)"
  shows "\<exists>s'. helenos_run_test_forking H self test s = (Returned PCUT_OUTCOME_INTERNAL_ERROR, s') \<and>
    adds_entry s (item_name it) h PCUT_OUTCOME_INTERNAL_ERROR ''Failed to create temporary file.'' [] s'"
proof -
  have b: "c_text (cstr ''Failed to create temporary file.'') = Some ''Failed to create temporary file.''"
    by (simp add: c_text_cstr)
  have s1: "cleared s = (cleared s)\<lparr>error_message_buffer := error_message_buffer (cleared s)\<rparr>" by simp
  from report_text_call [OF ready it h b s1, of PCUT_OUTCOME_INTERNAL_ERROR]
  show ?thesis using f
    by (auto simp: helenos_run_test_forking_def helenos_before_call [OF it] tempfile_name_eq)
qed

lemma helenos_no_task:
  assumes "ready s" and "items s test = Some it" and "report_ops s = Some h"
    and "open_ok H (helenos_temp H)" and self: "nul_free path" and "pcut_get_test_timeout it \<noteq> None"
    and task: "\<forall>task_until us. task_spawnvf H path [path, take 23 (''-t'' @ show_int (ident it))] = Some task_until \<longrightarrow>
      \<not> wait_ok (task_until us)"
  shows "\<exists>s'. helenos_run_test_forking H (Some (cstr path)) test s = (Returned PCUT_OUTCOME_INTERNAL_ERROR, s') \<and>
    adds_entry s (item_name it) h PCUT_OUTCOME_INTERNAL_ERROR [] [] s'"
proof -
  have fit: "fit_chunks []" by (simp add: fit_chunks_def OUTPUT_BUFFER_SIZE_def BUFFER_SIZE_def)
  have "run_task H (Some (cstr path)) it (replicate OUTPUT_BUFFER_SIZE NUL) =
      map_option (Pair PCUT_OUTCOME_INTERNAL_ERROR)
        (store (replicate OUTPUT_BUFFER_SIZE NUL) 0 (take OUTPUT_BUFFER_SIZE (concat (map frame []))))"
    using assms(6) task c_text_cstr [OF self]
    by (auto simp: run_task_def test_number_argument_eq store_def kill_time_def Let_def split: option.split)
  from helenos_run [OF assms(1-4) fit this] show ?thesis by simp
qed

section \<open>The launcher\<close>

text \<open>
  The task ends in time like the program does when it is started with \<open>-t\<close>, has nothing on its error
  stream, and its standard output is in the file.
\<close>

definition helenos_delivers :: "task \<Rightarrow> act list \<Rightarrow> proc_end \<Rightarrow> bool" where
  "helenos_delivers T acts e \<longleftrightarrow> wait_ok T \<and> stderr_of acts = [] \<and> written T = stdout_of acts \<and>
     (case e of Exited c \<Rightarrow> \<not> exit_unexpected T \<and> retval T = c | Signaled _ \<Rightarrow> exit_unexpected T | Hung \<Rightarrow> False)"

definition helenos_end_outcome :: "proc_end \<Rightarrow> int" where
  "helenos_end_outcome e =
     (case e of Exited c \<Rightarrow> if c = 0 then PCUT_OUTCOME_PASS else PCUT_OUTCOME_FAIL | _ \<Rightarrow> PCUT_OUTCOME_INTERNAL_ERROR)"

lemma helenos_end_outcome: "helenos_delivers T acts e \<Longrightarrow> task_status T = helenos_end_outcome e"
  by (auto simp: helenos_delivers_def task_status_def helenos_end_outcome_def split: proc_end.splits)

definition helenos_answer ::
    "helenos \<Rightarrow> string \<Rightarrow> (int \<Rightarrow> (act list \<times> proc_end) option) \<Rightarrow> 'u code \<Rightarrow> 'u \<Rightarrow> heap \<Rightarrow> addr \<Rightarrow> 'u \<Rightarrow> 'u answer option" where
  "helenos_answer H path rerun E u0 h test u =
     do { it \<leftarrow> h test;
          (acts, e) \<leftarrow> rerun (ident it);
          (es, _, v) \<leftarrow> test_spec E h test u0;
          us \<leftarrow> kill_time H it;
          task_until \<leftarrow> task_spawnvf H path [path, take 23 (''-t'' @ show_int (ident it))];
          let T = task_until us; cs = chunks_of es
          in if nul_free path \<and> open_ok H (helenos_temp H) \<and> acts = forked_acts es \<and> e = end_of v \<and>
               helenos_delivers T acts e \<and> fit_chunks cs
             then Some ([], u, helenos_end_outcome e, error_text cs, [], stdio_text cs)
             else None }"

interpretation on_helenos: isolated_launcher E "helenos_run_test_forking H" "Some (cstr path)" PCUT_RUN_MODE_FORKING
  "helenos_answer H path rerun E u0"
  for E :: "'u code" and H path rerun u0
proof
  fix s :: "'u process" and test it h acts u outcome e t x
  assume a: "ready s" "items s test = Some it" "report_ops s = Some h"
    "helenos_answer H path rerun E u0 (items s) test (user s) = Some (acts, u, outcome, e, t, x)"
  then obtain cacts ce es v us task_until T cs where v: "kill_time H it = Some us"
    "task_spawnvf H path [path, take 23 (''-t'' @ show_int (ident it))] = Some task_until"
    "T = task_until us" "cs = chunks_of es" "nul_free path" "open_ok H (helenos_temp H)" "cacts = forked_acts es"
    "helenos_delivers T cacts ce" "fit_chunks cs"
    "acts = []" "u = user s" "outcome = task_status T" "e = error_text cs" "t = []" "x = stdio_text cs"
    by (auto simp: helenos_answer_def helenos_end_outcome [symmetric] bind_Some_conv Let_def split: if_splits)
  have w: "wait_ok T" "written T = concat (map frame cs)"
    using v(4,7,8) by (simp_all add: helenos_delivers_def stdout_forked)
  have "run_task H (Some (cstr path)) it (replicate OUTPUT_BUFFER_SIZE NUL) =
      map_option (Pair (task_status T))
        (store (replicate OUTPUT_BUFFER_SIZE NUL) 0 (take OUTPUT_BUFFER_SIZE (concat (map frame cs))))"
    using v(1-3) w c_text_cstr [OF v(5)]
    by (simp add: run_task_def test_number_argument_eq Let_def) (simp add: map_option_case split: option.split)
  from helenos_run [OF a(1-3) v(6,9) this] v(10-15)
  show "\<exists>s'. (if PCUT_RUN_MODE_FORKING = PCUT_RUN_MODE_FORKING then helenos_run_test_forking H (Some (cstr path)) test s
         else pcut_run_test_single E test s) = (Returned outcome, s') \<and>
       trace s' = trace s @ acts @ [Out (entry_of h (start_of h (reports_of s)) (item_name it) outcome e t x)] \<and>
       reports_of s' = count_of h outcome (start_of h (reports_of s)) \<and> user s' = u \<and> carried s s'"
    by (auto simp: adds_entry_def)
qed (auto simp: helenos_answer_def bind_Some_conv Let_def split: if_splits)

end
