(* ===== verification/TypeProps.thy ===== *)
theory TypeProps
  imports Typing OsGeneric OsWindows OsHelenos Example
begin

text \<open>
  The launchers of the other systems keep the state well-formed as well, and the properties of whole
  runs that follow: whatever the tests do and whatever the system answers, the memory of the library
  keeps its shape.
\<close>

section \<open>The other launchers\<close>

lemma other_before_test_start_evolves:
  assumes "well_formed s"
  shows "evolves s (snd (generic_before_test_start p s))" "evolves s (snd (windows_before_test_start p s))"
    "evolves s (snd (helenos_before_test_start p s))"
  using before_test_start_evolves [OF assms, of p]
  by (simp_all add: before_test_start_def generic_before_test_start_def windows_before_test_start_def helenos_before_test_start_def)

text \<open>A fixed text that is reported; its array is a constant of the program.\<close>

lemma report_constant_evolves:
  "evolves s t \<Longrightarrow> evolves s (snd (and_then (pcut_report_test_done p c msgs t) (\<lambda>_ s. (Returned c', s))))"
  by (rule test.step_keeps, erule report_test_done_evolves(1)) simp_all

lemma store_sized: "store b off d = Some b' \<Longrightarrow> sized n b \<Longrightarrow> sized n b'"
  by (auto simp: sized_def dest: store_length)

lemma generic_launch_evolves:
  assumes "well_formed s"
  shows "evolves s (snd (generic_run_test_forking S path test s))"
  unfolding generic_run_test_forking_def Let_def
proof (rule test.step_keeps, erule other_before_test_start_evolves(1), rule test.keeps_refl [OF assms],
    rule test.lift_step_keeps, assumption, clarify, split prod.split, clarify)
  fix x t command name rc and files :: "string \<Rightarrow> bytes option"
  assume t: "evolves s t"
  have content: "evolves s (snd (lift_opt (store (extra_output_buffer t) 0 (take OUTPUT_BUFFER_SIZE content)) t (\<lambda>b s.
      and_then (pcut_report_test_done_unparsed (Some test) outcome b OUTPUT_BUFFER_SIZE (s\<lparr>extra_output_buffer := b\<rparr>))
        (\<lambda>_ s. (Returned outcome, s)))))" for content outcome
    by (rule test.lift_step_keeps [OF t], rule report_output_evolves [OF t])
      (blast intro: store_sized well_formed_buffers [OF test.keeps_wf [OF t]])
  show "evolves s (snd (case files name of
      None \<Rightarrow> and_then (pcut_report_test_done (Some test) (TEST_OUTCOME_ERROR S)
          (Some (cstr ''Failed to open temporary file.''), None, None) t) (\<lambda>_ s. (Returned PCUT_OUTCOME_INTERNAL_ERROR, s))
    | Some content \<Rightarrow> lift_opt (store (extra_output_buffer t) 0 (take OUTPUT_BUFFER_SIZE content)) t (\<lambda>b s.
        and_then (pcut_report_test_done_unparsed (Some test) (generic_wait_status_to_outcome rc) b OUTPUT_BUFFER_SIZE
            (s\<lparr>extra_output_buffer := b\<rparr>)) (\<lambda>_ s. (Returned (generic_wait_status_to_outcome rc), s)))))"
    by (cases "files name") (simp_all only: option.case report_constant_evolves [OF t] content)
qed

lemma run_task_sized: "run_task H path it b = Some (status, b') \<Longrightarrow> sized n b \<Longrightarrow> sized n b'"
  by (auto simp: run_task_def bind_Some_conv Let_def intro: store_sized split: option.splits if_splits)

lemma helenos_launch_evolves:
  assumes "well_formed s"
  shows "evolves s (snd (helenos_run_test_forking H path test s))"
  unfolding helenos_run_test_forking_def
proof (rule test.step_keeps, erule other_before_test_start_evolves(3), rule test.keeps_refl [OF assms],
    rule test.lift_step_keeps, assumption, split if_split, intro conjI impI report_constant_evolves, assumption)
  fix x t assume t: "evolves s t"
  show "evolves s (snd (lift_opt (do { it \<leftarrow> items t test; run_task H path it (extra_output_buffer t) }) t (\<lambda>(status, b) s.
       and_then (pcut_report_test_done_unparsed (Some test) status b OUTPUT_BUFFER_SIZE
           (s\<lparr>extra_output_buffer := b\<rparr>)) (\<lambda>_ s. (Returned status, s)))))"
    by (rule test.lift_step_keeps [OF t], clarify, rule report_output_evolves [OF t])
      (auto simp: bind_Some_conv intro: run_task_sized well_formed_buffers [OF test.keeps_wf [OF t]])
qed

lemma report_func_fail_evolves: "evolves s t \<Longrightarrow> evolves s (snd (report_func_fail p f t))"
  unfolding report_func_fail_def report_os_failure_def [symmetric]
  by (erule test.call_keeps) (rule report_os_failure_evolves)

lemma background_sized: "read_test_output_on_background C b n = Some b' \<Longrightarrow> sized k b \<Longrightarrow> sized k b'"
  by (auto simp: read_test_output_on_background_def bind_Some_conv windows_read_all_eq dest!: read_all_sized)

lemma windows_launch_evolves:
  assumes "well_formed s"
  shows "evolves s (snd (windows_run_test_forking W path test s))"
  unfolding windows_run_test_forking_def Let_def
proof (rule test.step_keeps, erule other_before_test_start_evolves(2), rule test.keeps_refl [OF assms],
    split option.split, intro conjI impI allI, goal_cases)
  case (1 x t)
  then have t: "evolves s t" by blast
  have read: "evolves s (snd (lift_opt (read_test_output_on_background C (extra_output_buffer t) OUTPUT_BUFFER_SIZE) t (\<lambda>b s.
      and_then (pcut_report_test_done_unparsed (Some test) outcome b OUTPUT_BUFFER_SIZE (s\<lparr>extra_output_buffer := b\<rparr>))
        (\<lambda>_ s. (Returned outcome, s)))))" for C outcome
    by (rule test.lift_step_keeps [OF t], rule report_output_evolves [OF t])
      (blast intro: background_sized well_formed_buffers [OF test.keeps_wf [OF t]])
  show ?case
    by (rule test.lift_step_keeps [OF t]) (auto intro: read report_func_fail_evolves [OF t] split: sum.split)
next
  case (2 x t f)
  then show ?case by (blast intro: report_func_fail_evolves)
qed

interpretation generic_type: launcher_type "generic_run_test_forking S" for S
  by unfold_locales (rule generic_launch_evolves)

interpretation helenos_type: launcher_type "helenos_run_test_forking H" for H
  by unfold_locales (rule helenos_launch_evolves)

interpretation windows_type: launcher_type "windows_run_test_forking W" for W
  by unfold_locales (rule windows_launch_evolves)

section \<open>Running a test\<close>

text \<open>Running a test, in the process of the runner or in any other way and on every system, with any
  code and any answers of the system: the static arrays keep their sizes, the indices and message
  pointers stay inside them, the list of items and the options are not touched, and nothing that was
  printed is taken back, however the call ends.\<close>

theorem test_keeps_types:
  assumes "well_formed s"
  shows "evolves s (snd (pcut_run_test_single E test s)) \<and> evolves s (snd (pcut_run_test_forked E test s)) \<and>
    evolves s (snd (pcut_run_test_forking K E test s)) \<and> evolves s (snd (generic_run_test_forking S path test s)) \<and>
    evolves s (snd (windows_run_test_forking W path test s)) \<and> evolves s (snd (helenos_run_test_forking H path test s))"
  using run_test_modes_evolve [OF assms] unix_type.launch_evolves [OF assms] generic_type.launch_evolves [OF assms]
    windows_type.launch_evolves [OF assms] helenos_type.launch_evolves [OF assms] by blast

section \<open>A whole run\<close>

lemma any_launcher_keeps_types:
  assumes "forking \<in> {(\<lambda>_. pcut_run_test_forking K E), generic_run_test_forking S, windows_run_test_forking W,
      helenos_run_test_forking T}"
    and "pcut_main E H forking l argv s = Some y" and "well_formed s"
  shows "goes_on s (snd y)"
proof -
  have "launcher_type forking"
    using assms(1) unix_type.launcher_type_axioms generic_type.launcher_type_axioms
      windows_type.launcher_type_axioms helenos_type.launcher_type_axioms by auto
  from launcher_type.main_goes_on [OF this assms(2,3)] show ?thesis .
qed

end
