(* ===== verification/Preproc.thy ===== *)
theory Preproc
  imports CString
begin

text \<open>
  The preprocessor for compilers without \<open>__COUNTER__\<close>, \<^verbatim>\<open>src/preproc.c\<close>: a filter that replaces
  the names of items by numbered ones and copies everything else.
\<close>

section \<open>Identifiers\<close>

definition MAX_IDENTIFIER_LENGTH :: nat where "MAX_IDENTIFIER_LENGTH = 256"

record identifier_t =
  name :: bytes
  length_field :: nat

definition identifier_init :: "identifier_t \<Rightarrow> identifier_t" where
  "identifier_init i = i\<lparr>name := (name i)[0 := NUL], length_field := 0\<rparr>"

text \<open>An identifier that is too long ends the program; the result is then the text on the error stream.\<close>

definition identifier_add_char :: "identifier_t \<Rightarrow> char \<Rightarrow> (string + identifier_t) option" where
  "identifier_add_char i c =
     (if length_field i + 1 \<ge> MAX_IDENTIFIER_LENGTH
      then do { n \<leftarrow> c_strlen (name i);
                Some (Inl (''Identifier '' @ take n (name i) @ '' is too long, aborting!'' @ [NL])) }
      else if length_field i + 1 < length (name i)
      then Some (Inr (i\<lparr>name := (name i)[length_field i := c, length_field i + 1 := NUL],
                        length_field := length_field i + 1\<rparr>))
      else None)"

section \<open>Expansion\<close>

definition print_numbered_identifier :: "int \<Rightarrow> string" where
  "print_numbered_identifier value = ''pcut_item_'' @ show_int value"

definition print_numbered_identifier2 :: "int \<Rightarrow> string" where
  "print_numbered_identifier2 value = ''pcut_item2_'' @ show_int value"

definition print_numbered_identifier3 :: "int \<Rightarrow> string" where
  "print_numbered_identifier3 value = ''pcut_item3_'' @ show_int value"

text \<open>The result is what is printed, and the new value of \<open>counter\<close>.\<close>

definition identifier_print_or_expand :: "identifier_t \<Rightarrow> int \<Rightarrow> (string \<times> int) option" where
  "identifier_print_or_expand i counter =
     do { d \<leftarrow> c_strcmp (name i) (cstr ''PCUT_ITEM_NAME'');
          if d = 0 then Some (print_numbered_identifier counter, counter)
          else do {
          d \<leftarrow> c_strcmp (name i) (cstr ''PCUT_ITEM_NAME_PREV'');
          if d = 0 then Some (print_numbered_identifier (counter - 1), counter)
          else do {
          d \<leftarrow> c_strcmp (name i) (cstr ''PCUT_ITEM_COUNTER_INCREMENT'');
          if d = 0 then Some ([], counter + 1)
          else do {
          d \<leftarrow> c_strcmp (name i) (cstr ''PCUT_ITEM2_NAME'');
          if d = 0 then Some (print_numbered_identifier2 counter, counter)
          else do {
          d \<leftarrow> c_strcmp (name i) (cstr ''PCUT_ITEM3_NAME'');
          if d = 0 then Some (print_numbered_identifier3 counter, counter)
          else do {
          n \<leftarrow> c_strlen (name i);
          Some (take n (name i), counter) }}}}}}"

definition is_identifier_char :: "char \<Rightarrow> bool \<Rightarrow> bool" where
  "is_identifier_char c inside_identifier \<longleftrightarrow>
     is_alpha c \<or> c = CHR ''_'' \<or> inside_identifier \<and> is_digit c"

section \<open>The filter\<close>

text \<open>
  The loop over the input: the result is the standard output, and the text on the error stream
  when the program ends with status 1.
\<close>

fun filter_loop :: "string \<Rightarrow> bool \<Rightarrow> identifier_t \<Rightarrow> int \<Rightarrow> (string \<times> string option) option" where
  "filter_loop [] last_char_was_identifier last_identifier counter =
     (if last_char_was_identifier
      then do { (out, _) \<leftarrow> identifier_print_or_expand last_identifier counter; Some (out @ [NL], None) }
      else Some ([NL], None))"
| "filter_loop (c # cs) last_char_was_identifier last_identifier counter =
     (if is_identifier_char c last_char_was_identifier then
        do { r \<leftarrow> identifier_add_char
               (if \<not> last_char_was_identifier then identifier_init last_identifier else last_identifier) c;
             (case r of
                Inl err \<Rightarrow> Some ([], Some err)
              | Inr last_identifier \<Rightarrow> filter_loop cs True last_identifier counter) }
      else
        do { (out, counter) \<leftarrow> (if last_char_was_identifier
               then identifier_print_or_expand last_identifier counter else Some ([], counter));
             (rest, err) \<leftarrow> filter_loop cs False last_identifier counter;
             Some (out @ [c] @ rest, err) })"

definition preproc_main :: "string \<Rightarrow> (string \<times> string option) option" where
  "preproc_main input =
     filter_loop input False \<lparr>name = replicate MAX_IDENTIFIER_LENGTH NUL, length_field = 0\<rparr> 0"

section \<open>Specification\<close>

text \<open>The input as words and other characters; a word starts with a letter or an underscore.\<close>

datatype token = Word string | Other char

definition is_word_char :: "char \<Rightarrow> bool" where
  "is_word_char c \<longleftrightarrow> is_identifier_char c True"

function tokens :: "string \<Rightarrow> token list" where
  "tokens [] = []"
| "tokens (c # cs) =
     (if is_identifier_char c False
      then Word (c # takeWhile is_word_char cs) # tokens (dropWhile is_word_char cs)
      else Other c # tokens cs)"
  by pat_completeness auto
termination
  by (relation "measure length") (auto simp: less_Suc_eq_le length_dropWhile_le)

fun token_text :: "token \<Rightarrow> string" where
  "token_text (Word w) = w"
| "token_text (Other c) = [c]"

lemma tokens_text: "concat (map token_text (tokens s)) = s"
  by (induction s rule: tokens.induct) auto

text \<open>What a word stands for.\<close>

definition expand_word :: "string \<Rightarrow> int \<Rightarrow> string \<times> int" where
  "expand_word w counter =
     (if w = ''PCUT_ITEM_NAME'' then (''pcut_item_'' @ show_int counter, counter)
      else if w = ''PCUT_ITEM_NAME_PREV'' then (''pcut_item_'' @ show_int (counter - 1), counter)
      else if w = ''PCUT_ITEM_COUNTER_INCREMENT'' then ([], counter + 1)
      else if w = ''PCUT_ITEM2_NAME'' then (''pcut_item2_'' @ show_int counter, counter)
      else if w = ''PCUT_ITEM3_NAME'' then (''pcut_item3_'' @ show_int counter, counter)
      else (w, counter))"

text \<open>The whole text: words of 256 and more characters end the program.\<close>

fun expand :: "token list \<Rightarrow> int \<Rightarrow> string \<times> string option" where
  "expand [] counter = ([NL], None)"
| "expand (Other c # ts) counter = (case expand ts counter of (out, err) \<Rightarrow> (c # out, err))"
| "expand (Word w # ts) counter =
     (if MAX_IDENTIFIER_LENGTH \<le> length w
      then ([], Some (''Identifier '' @ take (MAX_IDENTIFIER_LENGTH - 1) w @ '' is too long, aborting!'' @ [NL]))
      else (case expand_word w counter of (out1, counter) \<Rightarrow>
             (case expand ts counter of (out, err) \<Rightarrow> (out1 @ out, err))))"

section \<open>The filter implements the specification\<close>

lemma strcmp_array:
  "nul_free a \<Longrightarrow> nul_free b \<Longrightarrow> \<exists>d. c_strcmp (a @ NUL # r) (cstr b) = Some d \<and> (d = 0 \<longleftrightarrow> a = b)"
proof (induction a arbitrary: b)
  case Nil
  then show ?case by (cases b) (auto simp: cstr_def)
next
  case (Cons x a)
  then show ?case by (cases b) (auto simp: cstr_def)
qed

lemma word_char_not_NUL: "is_identifier_char c b \<Longrightarrow> c \<noteq> NUL"
  by (auto simp: is_identifier_char_def is_alpha_def is_digit_def byte_def)

text \<open>The array holds the part of the word that has been read.\<close>

definition reads :: "identifier_t \<Rightarrow> string \<Rightarrow> bool" where
  "reads i w \<longleftrightarrow> length (name i) = MAX_IDENTIFIER_LENGTH \<and> length w < MAX_IDENTIFIER_LENGTH \<and>
     nul_free w \<and> length_field i = length w \<and> (\<exists>r. name i = w @ NUL # r)"

lemma reads_init: "length (name i) = MAX_IDENTIFIER_LENGTH \<Longrightarrow> reads (identifier_init i) []"
  by (cases "name i") (auto simp: reads_def identifier_init_def MAX_IDENTIFIER_LENGTH_def)

lemma expand_reads:
  assumes "reads i w"
  shows "identifier_print_or_expand i counter = Some (expand_word w counter)"
proof -
  from assms obtain r where r: "name i = w @ NUL # r" "nul_free w" by (auto simp: reads_def)
  have cmp: "(c_strcmp (name i) (cstr b) \<bind> (\<lambda>d. if d = 0 then x else y)) = (if w = b then x else y)"
    if "nul_free b" for b and x y :: "(string \<times> int) option"
    using strcmp_array [OF r(2) that, of r] r(1) by auto
  have len: "(c_strlen (name i) \<bind> (\<lambda>n. Some (take n (name i), counter))) = Some (w, counter)"
    using strlen_app [OF r(2), of r] by (simp add: r(1))
  have nf: "nul_free ''PCUT_ITEM_NAME''" "nul_free ''PCUT_ITEM_NAME_PREV''" "nul_free ''PCUT_ITEM_COUNTER_INCREMENT''"
    "nul_free ''PCUT_ITEM2_NAME''" "nul_free ''PCUT_ITEM3_NAME''" by (simp_all add: nul_free_def)
  show ?thesis
    unfolding identifier_print_or_expand_def cmp [OF nf(1)] cmp [OF nf(2)] cmp [OF nf(3)] cmp [OF nf(4)] cmp [OF nf(5)] len
      expand_word_def print_numbered_identifier_def print_numbered_identifier2_def print_numbered_identifier3_def
    by (simp only: if_distrib [of Some])
qed

lemma add_reads:
  assumes "reads i w" and "c \<noteq> NUL"
  shows "if length w + 1 < MAX_IDENTIFIER_LENGTH
    then \<exists>i'. identifier_add_char i c = Some (Inr i') \<and> reads i' (w @ [c])
    else identifier_add_char i c = Some (Inl (''Identifier '' @ w @ '' is too long, aborting!'' @ [NL]))"
proof -
  from assms(1) obtain r where r: "name i = w @ NUL # r" "nul_free w" "length_field i = length w"
    "length (name i) = MAX_IDENTIFIER_LENGTH" by (auto simp: reads_def)
  show ?thesis
  proof (cases "length w + 1 < MAX_IDENTIFIER_LENGTH")
    case True
    then obtain x r' where x: "r = x # r'" using r(1,4) by (cases r) auto
    with r have "(name i)[length w := c, length w + 1 := NUL] = (w @ [c]) @ NUL # r'"
      by (simp add: list_update_append)
    with True r x assms(2) show ?thesis by (simp add: identifier_add_char_def reads_def nul_free_def)
  next
    case False
    with r strlen_app [OF r(2), of r] show ?thesis by (simp add: identifier_add_char_def)
  qed
qed

text \<open>Reading the rest of a word.\<close>

lemma filter_word:
  assumes "reads i w" "list_all is_word_char v" "cs = [] \<or> \<not> is_word_char (hd cs)"
  shows "if length w + length v < MAX_IDENTIFIER_LENGTH
    then \<exists>i'. reads i' (w @ v) \<and> filter_loop (v @ cs) True i counter = filter_loop cs True i' counter
    else filter_loop (v @ cs) True i counter =
      Some ([], Some (''Identifier '' @ take (MAX_IDENTIFIER_LENGTH - 1) (w @ v) @ '' is too long, aborting!'' @ [NL]))"
  using assms(1,2)
proof (induction v arbitrary: i w)
  case Nil
  then show ?case by (auto simp: reads_def)
next
  case (Cons c v)
  then have c: "is_identifier_char c True" by (simp add: is_word_char_def)
  note add = add_reads [OF Cons.prems(1) word_char_not_NUL [OF c]]
  show ?case
  proof (cases "length w + 1 < MAX_IDENTIFIER_LENGTH")
    case True
    with add obtain i' where i': "identifier_add_char i c = Some (Inr i')" "reads i' (w @ [c])" by auto
    from Cons.IH [OF i'(2)] Cons.prems(2) i'(1) c show ?thesis by (auto split: if_splits)
  next
    case False
    then have "length w = MAX_IDENTIFIER_LENGTH - 1" using Cons.prems(1) by (auto simp: reads_def)
    with False add c show ?thesis by simp
  qed
qed

lemma filter_after_word:
  assumes "reads i w" and "expand_word w counter = (out1, k)" and "ds = [] \<or> \<not> is_word_char (hd ds)"
    and "\<And>k. filter_loop ds False i k = Some (expand (tokens ds) k)"
  shows "filter_loop ds True i counter = Some (case expand (tokens ds) k of (out, err) \<Rightarrow> (out1 @ out, err))"
proof (cases ds)
  case Nil
  then show ?thesis using expand_reads [OF assms(1), of counter] assms(2) by simp
next
  case (Cons d ds')
  with assms(3) have "\<not> is_identifier_char d True" "\<not> is_identifier_char d False"
    by (auto simp: is_word_char_def is_identifier_char_def)
  with Cons assms(4) [of k] expand_reads [OF assms(1), of counter] assms(2) show ?thesis
    by (auto simp: bind_Some_conv split: prod.splits)
qed

lemma filter_loop_spec:
  "length (name i) = MAX_IDENTIFIER_LENGTH \<Longrightarrow> filter_loop cs False i counter = Some (expand (tokens cs) counter)"
proof (induction cs arbitrary: i counter rule: tokens.induct)
  case (2 c cs)
  show ?case
  proof (cases "is_identifier_char c False")
    case False
    with 2 show ?thesis by (simp split: prod.split)
  next
    case True
    define v ds where "v = takeWhile is_word_char cs" and "ds = dropWhile is_word_char cs"
    have cs: "cs = v @ ds" "list_all is_word_char v" "ds = [] \<or> \<not> is_word_char (hd ds)"
      using hd_dropWhile [of is_word_char cs] by (auto simp: v_def ds_def list_all_iff dest: set_takeWhileD)
    have r0: "reads (identifier_init i) []" by (rule reads_init [OF "2.prems"])
    from add_reads [OF r0 word_char_not_NUL [OF True]] obtain i1 where
      i1: "identifier_add_char (identifier_init i) c = Some (Inr i1)" "reads i1 [c]"
      by (auto simp: MAX_IDENTIFIER_LENGTH_def)
    have start: "filter_loop (c # cs) False i counter = filter_loop (v @ ds) True i1 counter"
      using True i1(1) by (simp add: cs(1))
    note word = filter_word [OF i1(2) cs(2,3), of counter]
    show ?thesis
    proof (cases "length v + 1 < MAX_IDENTIFIER_LENGTH")
      case False
      with word start True show ?thesis by (simp add: v_def [symmetric])
    next
      case len: True
      with word obtain i2 where i2: "reads i2 (c # v)"
        "filter_loop (v @ ds) True i1 counter = filter_loop ds True i2 counter" by auto
      have l2: "length (name i2) = MAX_IDENTIFIER_LENGTH" using i2(1) by (simp add: reads_def)
      obtain out1 k where e: "expand_word (c # v) counter = (out1, k)" by fastforce
      have "\<And>k. filter_loop ds False i2 k = Some (expand (tokens ds) k)"
        using "2.IH"(1) [OF True l2] by (simp add: ds_def)
      from filter_after_word [OF i2(1) e cs(3) this]
      have "filter_loop ds True i2 counter = Some (case expand (tokens ds) k of (out, err) \<Rightarrow> (out1 @ out, err))" .
      with start i2(2) len True e show ?thesis by (simp add: v_def [symmetric] ds_def [symmetric])
    qed
  qed
qed simp

section \<open>Properties\<close>

text \<open>C28: for every input, the filter does what the specification on words says: the names of the macros are
  replaced, all other text is copied, the array for a word is never overrun, and the first word of
  256 or more characters ends the program.\<close>

theorem preproc_expands: "preproc_main input = Some (expand (tokens input) 0)"
  unfolding preproc_main_def by (rule filter_loop_spec) simp

definition special_words :: "string set" where
  "special_words = {''PCUT_ITEM_NAME'', ''PCUT_ITEM_NAME_PREV'', ''PCUT_ITEM_COUNTER_INCREMENT'',
     ''PCUT_ITEM2_NAME'', ''PCUT_ITEM3_NAME''}"

lemma expand_plain:
  "(\<And>w. Word w \<in> set ts \<Longrightarrow> w \<notin> special_words \<and> length w < MAX_IDENTIFIER_LENGTH) \<Longrightarrow>
   expand ts counter = (concat (map token_text ts) @ [NL], None)"
proof (induction ts counter rule: expand.induct)
  case (3 w ts counter)
  have w: "w \<notin> special_words" "length w < MAX_IDENTIFIER_LENGTH" using "3.prems" by auto
  then have e: "expand_word w counter = (w, counter)" by (simp add: expand_word_def special_words_def)
  have "expand ts counter = (concat (map token_text ts) @ [NL], None)"
  proof (rule "3.IH" [of w counter])
    show "\<not> MAX_IDENTIFIER_LENGTH \<le> length w" "(w, counter) = expand_word w counter" using w(2) e by simp_all
    show "v \<notin> special_words \<and> length v < MAX_IDENTIFIER_LENGTH" if "Word v \<in> set ts" for v
      by (rule "3.prems") (use that in simp)
  qed
  with e w(2) show ?case by (simp add: not_le)
qed auto

text \<open>A text without the names of the macros, and without too long words, is copied and completed by
  a newline.\<close>

theorem preproc_copies:
  assumes "\<And>w. Word w \<in> set (tokens input) \<Longrightarrow> w \<notin> special_words \<and> length w < MAX_IDENTIFIER_LENGTH"
  shows "preproc_main input = Some (input @ [NL], None)"
proof -
  have "preproc_main input = Some (expand (tokens input) 0)"
    unfolding preproc_main_def by (rule filter_loop_spec) simp
  with expand_plain [of "tokens input" 0] assms show ?thesis by (simp add: tokens_text)
qed

text \<open>A use of a macro that defines an item, reduced to the names.\<close>

definition item_use :: string where
  "item_use = ''PCUT_ITEM_COUNTER_INCREMENT PCUT_ITEM_NAME=PCUT_ITEM_NAME_PREV;''"

lemma tokens_item_use:
  "tokens (item_use @ rest) =
     [Word ''PCUT_ITEM_COUNTER_INCREMENT'', Other CHR '' '', Word ''PCUT_ITEM_NAME'', Other CHR ''='',
      Word ''PCUT_ITEM_NAME_PREV'', Other CHR '';''] @ tokens rest"
  by (simp add: item_use_def is_identifier_char_def is_word_char_def is_alpha_def is_digit_def byte_def)

text \<open>What it becomes for the item with number \<open>k\<close>.\<close>

definition item_text :: "int \<Rightarrow> string" where
  "item_text k = '' pcut_item_'' @ show_int k @ ''=pcut_item_'' @ show_int (k - 1) @ '';''"

lemma expand_items:
  "expand (tokens (concat (replicate n item_use))) counter =
     (concat (map (\<lambda>k. item_text (counter + int k)) [1..<n + 1]) @ [NL], None)"
proof (induction n arbitrary: counter)
  case (Suc n)
  have "map (\<lambda>k. item_text (counter + int k)) [1..<Suc n + 1] =
      item_text (counter + 1) # map (\<lambda>k. item_text (counter + 1 + int k)) [1..<n + 1]"
    by (simp add: upt_conv_Cons map_Suc_upt [symmetric] del: upt_Suc) (simp add: algebra_simps)
  with Suc.IH [of "counter + 1"] show ?case
    by (simp add: tokens_item_use expand_word_def MAX_IDENTIFIER_LENGTH_def item_text_def del: tokens.simps upt_Suc)
qed simp

text \<open>The items of a file are numbered from 1 without gaps and each one points to the one before it,
  as with \<open>__COUNTER__\<close>.\<close>

theorem preproc_links_items:
  "preproc_main (concat (replicate n item_use)) = Some (concat (map (\<lambda>k. item_text (int k)) [1..<n + 1]) @ [NL], None)"
proof -
  have "preproc_main (concat (replicate n item_use)) = Some (expand (tokens (concat (replicate n item_use))) 0)"
    unfolding preproc_main_def by (rule filter_loop_spec) simp
  then show ?thesis by (simp only: expand_items add_0)
qed

end
