(* ===== verification/LauncherProps.thy ===== *)
theory LauncherProps
  imports OsGeneric OsWindows OsHelenos Example
begin

text \<open>
  The properties of the launchers that start the program again for every test: complete runs through
  a shell, on Windows and on HelenOS, and what is reported when something fails.
\<close>

section \<open>The example as its own child\<close>

text \<open>The tests of the example by their ids, with what they do and their verdicts.\<close>

definition demo_events :: "(int \<times> event list \<times> verdict) list" where
  "demo_events =
     [(5, [Did [Out ''up''], Did [Out ''work''], Did [Out ''down'']], Passed),
      (6, [Did [Out ''up''], Did [], Message ''demo.c:7: Expected <42>'', Did [Out ''down'']],
         Failed ''demo.c:7: Expected <42>'' []),
      (8, [Did [], Did [], Did []], Passed)]"

lemma demo_specs:
  "test_spec demo_code (give_hooks demo_fixed demo_order) 5 0 = Some (fst (the (map_of demo_events 5)), 1, Passed)"
  "test_spec demo_code (give_hooks demo_fixed demo_order) 6 0 =
     Some (fst (the (map_of demo_events 6)), 1, Failed ''demo.c:7: Expected <42>'' [])"
  "test_spec demo_code (give_hooks demo_fixed demo_order) 12 0 = Some (fst (the (map_of demo_events 8)), 0, Passed)"
  by code_simp+

lemma demo_child:
  assumes "k < 8" and "[1, 2, 3, 4, 5, 6, 11, 12] ! k = a" and "kind_at demo_fixed a = PCUT_KIND_TEST"
    and "test_spec demo_code (give_hooks demo_fixed demo_order) a 0 = Some (es, u', v)"
  shows "reexec demo_code (\<lambda>_ a. a) F demo_heap 9 0 p (1 + int k) = Some (forked_acts es, end_of v)"
  by (rule reexec_spec [OF demo_decls demo_last demo_plain demo_fix demo_code_ok])
    (use assms in \<open>simp_all add: demo_order demo_reals\<close>)

lemma demo_children:
  "reexec demo_code (\<lambda>_ a. a) F demo_heap 9 0 p 5 = Some (forked_acts (fst (the (map_of demo_events 5))), end_of Passed)"
  "reexec demo_code (\<lambda>_ a. a) F demo_heap 9 0 p 6 =
     Some (forked_acts (fst (the (map_of demo_events 6))), end_of (Failed ''demo.c:7: Expected <42>'' []))"
  "reexec demo_code (\<lambda>_ a. a) F demo_heap 9 0 p 8 = Some (forked_acts (fst (the (map_of demo_events 8))), end_of Passed)"
proof -
  have k: "kind_at demo_fixed 5 = PCUT_KIND_TEST" "kind_at demo_fixed 6 = PCUT_KIND_TEST" "kind_at demo_fixed 12 = PCUT_KIND_TEST"
    by code_simp+
  show "reexec demo_code (\<lambda>_ a. a) F demo_heap 9 0 p 5 = Some (forked_acts (fst (the (map_of demo_events 5))), end_of Passed)"
    using demo_child [of 4, OF _ _ k(1) demo_specs(1), of F p] by simp
  show "reexec demo_code (\<lambda>_ a. a) F demo_heap 9 0 p 6 =
     Some (forked_acts (fst (the (map_of demo_events 6))), end_of (Failed ''demo.c:7: Expected <42>'' []))"
    using demo_child [of 5, OF _ _ k(2) demo_specs(2), of F p] by simp
  show "reexec demo_code (\<lambda>_ a. a) F demo_heap 9 0 p 8 = Some (forked_acts (fst (the (map_of demo_events 8))), end_of Passed)"
    using demo_child [of 7, OF _ _ k(3) demo_specs(3), of F p] by simp
qed

lemma demo_timeouts:
  "give_hooks demo_fixed demo_order 5 = Some it \<Longrightarrow> pcut_get_test_timeout it = Some 3"
  "give_hooks demo_fixed demo_order 6 = Some it \<Longrightarrow> pcut_get_test_timeout it = Some 5"
  "give_hooks demo_fixed demo_order 12 = Some it \<Longrightarrow> pcut_get_test_timeout it = Some 3"
proof -
  have "give_hooks demo_fixed demo_order 5 \<bind> pcut_get_test_timeout = Some 3"
    "give_hooks demo_fixed demo_order 6 \<bind> pcut_get_test_timeout = Some 5"
    "give_hooks demo_fixed demo_order 12 \<bind> pcut_get_test_timeout = Some 3" by code_simp+
  then show
    "give_hooks demo_fixed demo_order 5 = Some it \<Longrightarrow> pcut_get_test_timeout it = Some 3"
    "give_hooks demo_fixed demo_order 6 = Some it \<Longrightarrow> pcut_get_test_timeout it = Some 5"
    "give_hooks demo_fixed demo_order 12 = Some it \<Longrightarrow> pcut_get_test_timeout it = Some 3" by simp_all
qed

lemma demo_items:
  obtains it5 it6 it12 where "give_hooks demo_fixed demo_order 5 = Some it5" "ident it5 = 5"
    "give_hooks demo_fixed demo_order 6 = Some it6" "ident it6 = 6"
    "give_hooks demo_fixed demo_order 12 = Some it12" "ident it12 = 8"
proof -
  have "map_option ident (give_hooks demo_fixed demo_order 5) = Some 5"
    "map_option ident (give_hooks demo_fixed demo_order 6) = Some 6"
    "map_option ident (give_hooks demo_fixed demo_order 12) = Some 8" by code_simp+
  then show thesis using that by auto
qed

text \<open>A launcher that answers like this for the tests of the example.\<close>

definition demo_answers :: "string \<Rightarrow> heap \<Rightarrow> addr \<Rightarrow> nat \<Rightarrow> nat answer option" where
  "demo_answers nl h a u =
     map_option (\<lambda>(outcome, e, x). ([], u, outcome, e, [], x))
       (map_of [(5, (PCUT_OUTCOME_PASS, [], ''upworkdown'')),
                (6, (PCUT_OUTCOME_FAIL, ''demo.c:7: Expected <42>'' @ nl, ''updown'')),
                (12, (PCUT_OUTCOME_PASS, [], []))] a)"

lemma demo_answers_run:
  assumes "\<And>u. f (give_hooks demo_fixed demo_order) 5 u = demo_answers nl (give_hooks demo_fixed demo_order) 5 u"
    and "\<And>u. f (give_hooks demo_fixed demo_order) 6 u = demo_answers nl (give_hooks demo_fixed demo_order) 6 u"
    and "\<And>u. f (give_hooks demo_fixed demo_order) 12 u = demo_answers nl (give_hooks demo_fixed demo_order) 12 u"
  shows "run_spec f Report_tap (give_hooks demo_fixed (order demo_srcs)) (order demo_srcs) (tap_zero, xml_zero) 0 =
    run_spec (demo_answers nl) Report_tap (give_hooks demo_fixed demo_order) demo_order (tap_zero, xml_zero) 0"
  unfolding demo_order using assms by (intro run_spec_cong [OF demo_suites]) auto

section \<open>Complete runs\<close>

text \<open>C18: a complete run where every test is a command for the shell that starts the program again with \<open>-t\<close>: if the
  shell runs these commands, the report is that of the specification for the declared tests, and the result says whether
  all of them passed.\<close>

theorem run_through_shell:
  assumes "decls_ok h l xs" and "h l = Some lit" and "no_extras lit"
    and "pcut_fix_list_get_real_head h l = Some (h1, first)"
    and "run_spec (generic_answer S path (reexec E H (generic_run_test_forking S) h l u (cstr path)) E u) rp
      (give_hooks h1 (order xs)) (order xs) (tap_zero, xml_zero) u = Some (acts, u', ok)"
  shows "\<exists>s'. pcut_main E H (generic_run_test_forking S) l (cstr path # options rp PCUT_RUN_MODE_FORKING) (start_state h u) =
      Some (Returned (if ok then PCUT_OUTCOME_PASS else PCUT_OUTCOME_FAIL), s') \<and> trace s' = acts \<and> user s' = u"
  using in_shell.main_spec [OF assms(1-4) refl assms(5)] in_shell.run_isolated [OF assms(5)] by auto

definition demo_shell :: system where
  "demo_shell = \<lparr>is_windows = False, getpid = 7,
     system_call = (\<lambda>cmd.
       case find (\<lambda>(i, _). cmd = ''prog -t'' @ show_int i @ '' &>pcut_7.tmp'') demo_events of
         None \<Rightarrow> (-1, \<lambda>_. None)
       | Some (i, es, v) \<Rightarrow> (shell_status (end_of v), [''pcut_7.tmp'' \<mapsto> both_of (forked_acts es)])),
     TEST_OUTCOME_ERROR = -1\<rparr>"

lemma demo_shell_answers:
  fixes F p
  defines "r \<equiv> reexec demo_code (\<lambda>_ a. a) F demo_heap 9 0 p"
  shows "generic_answer demo_shell ''prog'' r demo_code 0 (give_hooks demo_fixed demo_order) 5 u =
      demo_answers [NL] (give_hooks demo_fixed demo_order) 5 u"
    "generic_answer demo_shell ''prog'' r demo_code 0 (give_hooks demo_fixed demo_order) 6 u =
      demo_answers [NL] (give_hooks demo_fixed demo_order) 6 u"
    "generic_answer demo_shell ''prog'' r demo_code 0 (give_hooks demo_fixed demo_order) 12 u =
      demo_answers [NL] (give_hooks demo_fixed demo_order) 12 u"
proof -
  note d = demo_children [of F p, folded r_def]
  have s5: "shell_runs demo_shell ''prog'' 5 (forked_acts (fst (the (map_of demo_events 5)))) (end_of Passed)" by code_simp
  have s6: "shell_runs demo_shell ''prog'' 6 (forked_acts (fst (the (map_of demo_events 6)))) (end_of (Failed ''demo.c:7: Expected <42>'' []))" by code_simp
  have s8: "shell_runs demo_shell ''prog'' 8 (forked_acts (fst (the (map_of demo_events 8)))) (end_of Passed)" by code_simp
  have f5: "fit_chunks (merged_chunks (fst (the (map_of demo_events 5))))" by code_simp
  have f6: "fit_chunks (merged_chunks (fst (the (map_of demo_events 6))))" by code_simp
  have f8: "fit_chunks (merged_chunks (fst (the (map_of demo_events 8))))" by code_simp
  obtain it5 it6 it12 where it: "give_hooks demo_fixed demo_order 5 = Some it5" "ident it5 = 5"
    "give_hooks demo_fixed demo_order 6 = Some it6" "ident it6 = 6"
    "give_hooks demo_fixed demo_order 12 = Some it12" "ident it12 = 8" by (rule demo_items)
  note o = shell_outcome_def end_of_def PCUT_OUTCOME_PASS_def PCUT_OUTCOME_FAIL_def
  show "generic_answer demo_shell ''prog'' r demo_code 0 (give_hooks demo_fixed demo_order) 5 u =
      demo_answers [NL] (give_hooks demo_fixed demo_order) 5 u"
    using s5 f5 by (simp add: generic_answer_def demo_answers_def it d demo_specs) (simp add: o demo_events_def)
  show "generic_answer demo_shell ''prog'' r demo_code 0 (give_hooks demo_fixed demo_order) 6 u =
      demo_answers [NL] (give_hooks demo_fixed demo_order) 6 u"
    using s6 f6 by (simp add: generic_answer_def demo_answers_def it d demo_specs) (simp add: o demo_events_def)
  show "generic_answer demo_shell ''prog'' r demo_code 0 (give_hooks demo_fixed demo_order) 12 u =
      demo_answers [NL] (give_hooks demo_fixed demo_order) 12 u"
    using s8 f8 by (simp add: generic_answer_def demo_answers_def it d demo_specs) (simp add: o demo_events_def)
qed

lemma demo_answers_report:
  "map_option (\<lambda>(acts, r). (length acts, r)) (run_spec (demo_answers [NL]) Report_tap (give_hooks demo_fixed demo_order)
     demo_order (tap_zero, xml_zero) 0) = Some (9, 0, False)"
  "map_option (\<lambda>(acts, r). (length acts, r)) (run_spec (demo_answers [CR, NL]) Report_tap (give_hooks demo_fixed demo_order)
     demo_order (tap_zero, xml_zero) 0) = Some (9, 0, False)"
  by code_simp+

theorem run_through_shell_witness:
  "\<exists>s'. pcut_main demo_code (\<lambda>_ a. a) (generic_run_test_forking demo_shell) 9 [cstr ''prog''] (start_state demo_heap 0) =
      Some (Returned PCUT_OUTCOME_FAIL, s') \<and> length (trace s') = 9 \<and> user s' = 0"
proof -
  let ?f = "generic_answer demo_shell ''prog''
    (reexec demo_code (\<lambda>_ a. a) (generic_run_test_forking demo_shell) demo_heap 9 0 (cstr ''prog'')) demo_code 0"
  from demo_answers_report(1) obtain acts where "length acts = 9"
    "run_spec ?f Report_tap (give_hooks demo_fixed (order demo_srcs)) (order demo_srcs) (tap_zero, xml_zero) 0 = Some (acts, 0, False)"
    using demo_answers_run [of ?f "[NL]", OF demo_shell_answers] by auto
  with run_through_shell [OF demo_decls demo_last demo_plain demo_fix this(2)] show ?thesis by (auto simp: options_def)
qed

text \<open>C19: a complete run on Windows, where every test is a process of its own whose output is read by a thread.\<close>

theorem run_on_windows:
  assumes "decls_ok h l xs" and "h l = Some lit" and "no_extras lit"
    and "pcut_fix_list_get_real_head h l = Some (h1, first)"
    and "run_spec (windows_answer W path (reexec E H (windows_run_test_forking W) h l u (cstr path)) E u) rp
      (give_hooks h1 (order xs)) (order xs) (tap_zero, xml_zero) u = Some (acts, u', ok)"
  shows "\<exists>s'. pcut_main E H (windows_run_test_forking W) l (cstr path # options rp PCUT_RUN_MODE_FORKING) (start_state h u) =
      Some (Returned (if ok then PCUT_OUTCOME_PASS else PCUT_OUTCOME_FAIL), s') \<and> trace s' = acts \<and> user s' = u"
  using on_windows.main_spec [OF assms(1-4) refl assms(5)] on_windows.run_isolated [OF assms(5)] by auto

definition demo_process :: "event list \<Rightarrow> verdict \<Rightarrow> windows_child" where
  "demo_process es v = \<lparr>stderr_reads = [], stdout_reads = [Some (text_mode (stdout_of (forked_acts es))), None],
     first_wait = WAIT_OBJECT_0, second_wait = WAIT_FAILED, thread_wait = WAIT_OBJECT_0,
     exit_code = (case end_of v of Exited c \<Rightarrow> nat c | _ \<Rightarrow> 1000)\<rparr>"

definition demo_windows :: windows where
  "demo_windows = \<lparr>call_ok = (\<lambda>_. True),
     create_process = (\<lambda>cmd _.
       case find (\<lambda>(i, _). cmd = [DQ] @ ''prog'' @ [DQ] @ '' -t'' @ show_int i) demo_events of
         None \<Rightarrow> demo_process [] (Died Hung)
       | Some (i, es, v) \<Rightarrow> demo_process es v)\<rparr>"

lemma demo_commands:
  obtains c5 c6 c8 where "windows_command (Some (cstr ''prog'')) 5 = Some c5"
    "windows_command (Some (cstr ''prog'')) 6 = Some c6" "windows_command (Some (cstr ''prog'')) 8 = Some c8"
    "\<forall>n. create_process demo_windows c5 n = demo_process (fst (the (map_of demo_events 5))) Passed"
    "\<forall>n. create_process demo_windows c6 n =
       demo_process (fst (the (map_of demo_events 6))) (Failed ''demo.c:7: Expected <42>'' [])"
    "\<forall>n. create_process demo_windows c8 n = demo_process (fst (the (map_of demo_events 8))) Passed"
proof -
  have "list_all (\<lambda>i. windows_command (Some (cstr ''prog'')) i \<noteq> None) [5, 6, 8]" by code_simp
  then obtain c5 c6 c8 where c: "windows_command (Some (cstr ''prog'')) 5 = Some c5"
    "windows_command (Some (cstr ''prog'')) 6 = Some c6" "windows_command (Some (cstr ''prog'')) 8 = Some c8" by auto
  have "create_process demo_windows (the (windows_command (Some (cstr ''prog'')) 5)) n =
      demo_process (fst (the (map_of demo_events 5))) Passed"
    "create_process demo_windows (the (windows_command (Some (cstr ''prog'')) 6)) n =
      demo_process (fst (the (map_of demo_events 6))) (Failed ''demo.c:7: Expected <42>'' [])"
    "create_process demo_windows (the (windows_command (Some (cstr ''prog'')) 8)) n =
      demo_process (fst (the (map_of demo_events 8))) Passed" for n by code_simp+
  then have "\<forall>n. create_process demo_windows c5 n = demo_process (fst (the (map_of demo_events 5))) Passed"
    "\<forall>n. create_process demo_windows c6 n =
       demo_process (fst (the (map_of demo_events 6))) (Failed ''demo.c:7: Expected <42>'' [])"
    "\<forall>n. create_process demo_windows c8 n = demo_process (fst (the (map_of demo_events 8))) Passed"
    by (simp_all add: c)
  then show thesis by (rule that [OF c])
qed

lemma demo_windows_answers:
  fixes F p
  defines "r \<equiv> reexec demo_code (\<lambda>_ a. a) F demo_heap 9 0 p"
  shows "windows_answer demo_windows ''prog'' r demo_code 0 (give_hooks demo_fixed demo_order) 5 u =
      demo_answers [CR, NL] (give_hooks demo_fixed demo_order) 5 u"
    "windows_answer demo_windows ''prog'' r demo_code 0 (give_hooks demo_fixed demo_order) 6 u =
      demo_answers [CR, NL] (give_hooks demo_fixed demo_order) 6 u"
    "windows_answer demo_windows ''prog'' r demo_code 0 (give_hooks demo_fixed demo_order) 12 u =
      demo_answers [CR, NL] (give_hooks demo_fixed demo_order) 12 u"
proof -
  note d = demo_children [of F p, folded r_def]
  obtain it5 it6 it12 where it: "give_hooks demo_fixed demo_order 5 = Some it5" "ident it5 = 5"
    "give_hooks demo_fixed demo_order 6 = Some it6" "ident it6 = 6"
    "give_hooks demo_fixed demo_order 12 = Some it12" "ident it12 = 8" by (rule demo_items)
  note t = demo_timeouts(1) [OF it(1)] demo_timeouts(2) [OF it(3)] demo_timeouts(3) [OF it(5)]
  obtain c5 c6 c8 where c: "windows_command (Some (cstr ''prog'')) 5 = Some c5"
    "windows_command (Some (cstr ''prog'')) 6 = Some c6" "windows_command (Some (cstr ''prog'')) 8 = Some c8"
    "\<forall>n. create_process demo_windows c5 n = demo_process (fst (the (map_of demo_events 5))) Passed"
    "\<forall>n. create_process demo_windows c6 n =
       demo_process (fst (the (map_of demo_events 6))) (Failed ''demo.c:7: Expected <42>'' [])"
    "\<forall>n. create_process demo_windows c8 n = demo_process (fst (the (map_of demo_events 8))) Passed"
    by (rule demo_commands)
  have w: "windows_delivers demo_windows (demo_process (fst (the (map_of demo_events 5))) Passed)
      (forked_acts (fst (the (map_of demo_events 5)))) (end_of Passed)"
    "windows_delivers demo_windows (demo_process (fst (the (map_of demo_events 6))) (Failed ''demo.c:7: Expected <42>'' []))
      (forked_acts (fst (the (map_of demo_events 6)))) (end_of (Failed ''demo.c:7: Expected <42>'' []))"
    "windows_delivers demo_windows (demo_process (fst (the (map_of demo_events 8))) Passed)
      (forked_acts (fst (the (map_of demo_events 8)))) (end_of Passed)" by code_simp+
  have f: "list_all (\<lambda>i. stderr_of (forked_acts (fst (the (map_of demo_events i)))) = [] \<and>
      fit_chunks (map windows_chunk (chunks_of (fst (the (map_of demo_events i)))))) [5, 6, 8]" by code_simp
  have k: "kept_text (map windows_chunk (chunks_of (fst (the (map_of demo_events 5))))) = ''upworkdown''"
    "kept_text (map windows_chunk (chunks_of (fst (the (map_of demo_events 6))))) = ''updown''"
    "kept_text (map windows_chunk (chunks_of (fst (the (map_of demo_events 8))))) = []"
    "error_text (map windows_chunk (chunks_of (fst (the (map_of demo_events 5))))) = []"
    "error_text (map windows_chunk (chunks_of (fst (the (map_of demo_events 6))))) = ''demo.c:7: Expected <42>'' @ [CR, NL]"
    "error_text (map windows_chunk (chunks_of (fst (the (map_of demo_events 8))))) = []" by code_simp+
  have o: "windows_end_outcome (end_of Passed) = PCUT_OUTCOME_PASS"
    "windows_end_outcome (end_of (Failed m ms)) = PCUT_OUTCOME_FAIL" for m ms
    by (simp_all add: windows_end_outcome_def end_of_def PCUT_OUTCOME_PASS_def PCUT_OUTCOME_FAIL_def)
  show "windows_answer demo_windows ''prog'' r demo_code 0 (give_hooks demo_fixed demo_order) 5 u =
      demo_answers [CR, NL] (give_hooks demo_fixed demo_order) 5 u"
    using f w(1) by (simp add: windows_answer_def demo_answers_def it d t demo_specs c o k)
  show "windows_answer demo_windows ''prog'' r demo_code 0 (give_hooks demo_fixed demo_order) 6 u =
      demo_answers [CR, NL] (give_hooks demo_fixed demo_order) 6 u"
    using f w(2) by (simp add: windows_answer_def demo_answers_def it d t demo_specs c o k)
  show "windows_answer demo_windows ''prog'' r demo_code 0 (give_hooks demo_fixed demo_order) 12 u =
      demo_answers [CR, NL] (give_hooks demo_fixed demo_order) 12 u"
    using f w(3) by (simp add: windows_answer_def demo_answers_def it d t demo_specs c o k)
qed

theorem run_on_windows_witness:
  "\<exists>s'. pcut_main demo_code (\<lambda>_ a. a) (windows_run_test_forking demo_windows) 9 [cstr ''prog''] (start_state demo_heap 0) =
      Some (Returned PCUT_OUTCOME_FAIL, s') \<and> length (trace s') = 9 \<and> user s' = 0"
proof -
  let ?f = "windows_answer demo_windows ''prog''
    (reexec demo_code (\<lambda>_ a. a) (windows_run_test_forking demo_windows) demo_heap 9 0 (cstr ''prog'')) demo_code 0"
  from demo_answers_report(2) obtain acts where "length acts = 9"
    "run_spec ?f Report_tap (give_hooks demo_fixed (order demo_srcs)) (order demo_srcs) (tap_zero, xml_zero) 0 = Some (acts, 0, False)"
    using demo_answers_run [of ?f "[CR, NL]", OF demo_windows_answers] by auto
  with run_on_windows [OF demo_decls demo_last demo_plain demo_fix this(2)] show ?thesis by (auto simp: options_def)
qed

text \<open>C20: a complete run on HelenOS, where every test is a task of its own with its output in a file.\<close>

theorem run_on_helenos:
  assumes "decls_ok h l xs" and "h l = Some lit" and "no_extras lit"
    and "pcut_fix_list_get_real_head h l = Some (h1, first)"
    and "run_spec (helenos_answer Y path (reexec E H (helenos_run_test_forking Y) h l u (cstr path)) E u) rp
      (give_hooks h1 (order xs)) (order xs) (tap_zero, xml_zero) u = Some (acts, u', ok)"
  shows "\<exists>s'. pcut_main E H (helenos_run_test_forking Y) l (cstr path # options rp PCUT_RUN_MODE_FORKING) (start_state h u) =
      Some (Returned (if ok then PCUT_OUTCOME_PASS else PCUT_OUTCOME_FAIL), s') \<and> trace s' = acts \<and> user s' = u"
  using on_helenos.main_spec [OF assms(1-4) refl assms(5)] on_helenos.run_isolated [OF assms(5)] by auto

definition demo_task :: "event list \<Rightarrow> verdict \<Rightarrow> task" where
  "demo_task es v = \<lparr>wait_ok = True, exit_unexpected = (case end_of v of Exited _ \<Rightarrow> False | _ \<Rightarrow> True),
     retval = (case end_of v of Exited c \<Rightarrow> c | _ \<Rightarrow> 0), written = stdout_of (forked_acts es)\<rparr>"

definition demo_helenos :: helenos where
  "demo_helenos = \<lparr>task_get_id = 7, open_ok = (\<lambda>f. f = ''pcut_7.tmp''),
     task_spawnvf = (\<lambda>path args.
       case find (\<lambda>(i, _). args = [path, ''-t'' @ show_int i]) demo_events of
         None \<Rightarrow> None
       | Some (i, es, v) \<Rightarrow> Some (\<lambda>us. demo_task es v)),
     fibril_create_ok = True\<rparr>"

lemma demo_helenos_answers:
  fixes F p
  defines "r \<equiv> reexec demo_code (\<lambda>_ a. a) F demo_heap 9 0 p"
  shows "helenos_answer demo_helenos ''prog'' r demo_code 0 (give_hooks demo_fixed demo_order) 5 u =
      demo_answers [NL] (give_hooks demo_fixed demo_order) 5 u"
    "helenos_answer demo_helenos ''prog'' r demo_code 0 (give_hooks demo_fixed demo_order) 6 u =
      demo_answers [NL] (give_hooks demo_fixed demo_order) 6 u"
    "helenos_answer demo_helenos ''prog'' r demo_code 0 (give_hooks demo_fixed demo_order) 12 u =
      demo_answers [NL] (give_hooks demo_fixed demo_order) 12 u"
proof -
  note d = demo_children [of F p, folded r_def]
  obtain it5 it6 it12 where it: "give_hooks demo_fixed demo_order 5 = Some it5" "ident it5 = 5"
    "give_hooks demo_fixed demo_order 6 = Some it6" "ident it6 = 6"
    "give_hooks demo_fixed demo_order 12 = Some it12" "ident it12 = 8" by (rule demo_items)
  have t: "kill_time demo_helenos it5 = Some 3000000" "kill_time demo_helenos it6 = Some 5000000"
    "kill_time demo_helenos it12 = Some 3000000"
    using demo_timeouts(1) [OF it(1)] demo_timeouts(2) [OF it(3)] demo_timeouts(3) [OF it(5)]
    by (simp_all add: kill_time_def demo_helenos_def)
  have p: "map_option (\<lambda>T. T us) (task_spawnvf demo_helenos ''prog'' [''prog'', take 23 (''-t'' @ show_int 5)]) =
      Some (demo_task (fst (the (map_of demo_events 5))) Passed)"
    "map_option (\<lambda>T. T us) (task_spawnvf demo_helenos ''prog'' [''prog'', take 23 (''-t'' @ show_int 6)]) =
      Some (demo_task (fst (the (map_of demo_events 6))) (Failed ''demo.c:7: Expected <42>'' []))"
    "map_option (\<lambda>T. T us) (task_spawnvf demo_helenos ''prog'' [''prog'', take 23 (''-t'' @ show_int 8)]) =
      Some (demo_task (fst (the (map_of demo_events 8))) Passed)" for us by code_simp+
  have o: "open_ok demo_helenos (helenos_temp demo_helenos) \<and> nul_free ''prog''" by code_simp
  have w: "helenos_delivers (demo_task (fst (the (map_of demo_events 5))) Passed)
      (forked_acts (fst (the (map_of demo_events 5)))) (end_of Passed)"
    "helenos_delivers (demo_task (fst (the (map_of demo_events 6))) (Failed ''demo.c:7: Expected <42>'' []))
      (forked_acts (fst (the (map_of demo_events 6)))) (end_of (Failed ''demo.c:7: Expected <42>'' []))"
    "helenos_delivers (demo_task (fst (the (map_of demo_events 8))) Passed)
      (forked_acts (fst (the (map_of demo_events 8)))) (end_of Passed)" by code_simp+
  have f: "list_all (\<lambda>i. fit_chunks (chunks_of (fst (the (map_of demo_events i))))) [5, 6, 8]" by code_simp
  have k: "stdio_text (chunks_of (fst (the (map_of demo_events 5)))) = ''upworkdown''"
    "stdio_text (chunks_of (fst (the (map_of demo_events 6)))) = ''updown''"
    "stdio_text (chunks_of (fst (the (map_of demo_events 8)))) = []"
    "error_text (chunks_of (fst (the (map_of demo_events 5)))) = []"
    "error_text (chunks_of (fst (the (map_of demo_events 6)))) = ''demo.c:7: Expected <42>'' @ [NL]"
    "error_text (chunks_of (fst (the (map_of demo_events 8)))) = []" by code_simp+
  have st: "helenos_end_outcome (end_of Passed) = PCUT_OUTCOME_PASS"
    "helenos_end_outcome (end_of (Failed m ms)) = PCUT_OUTCOME_FAIL" for m ms
    by (simp_all add: helenos_end_outcome_def end_of_def PCUT_OUTCOME_PASS_def PCUT_OUTCOME_FAIL_def)
  show "helenos_answer demo_helenos ''prog'' r demo_code 0 (give_hooks demo_fixed demo_order) 5 u =
      demo_answers [NL] (give_hooks demo_fixed demo_order) 5 u"
    using f w(1) o p(1) [of 3000000] by (auto simp: helenos_answer_def demo_answers_def it d t demo_specs k st)
  show "helenos_answer demo_helenos ''prog'' r demo_code 0 (give_hooks demo_fixed demo_order) 6 u =
      demo_answers [NL] (give_hooks demo_fixed demo_order) 6 u"
    using f w(2) o p(2) [of 5000000] by (auto simp: helenos_answer_def demo_answers_def it d t demo_specs k st)
  show "helenos_answer demo_helenos ''prog'' r demo_code 0 (give_hooks demo_fixed demo_order) 12 u =
      demo_answers [NL] (give_hooks demo_fixed demo_order) 12 u"
    using f w(3) o p(3) [of 3000000] by (auto simp: helenos_answer_def demo_answers_def it d t demo_specs k st)
qed

theorem run_on_helenos_witness:
  "\<exists>s'. pcut_main demo_code (\<lambda>_ a. a) (helenos_run_test_forking demo_helenos) 9 [cstr ''prog''] (start_state demo_heap 0) =
      Some (Returned PCUT_OUTCOME_FAIL, s') \<and> length (trace s') = 9 \<and> user s' = 0"
proof -
  let ?f = "helenos_answer demo_helenos ''prog''
    (reexec demo_code (\<lambda>_ a. a) (helenos_run_test_forking demo_helenos) demo_heap 9 0 (cstr ''prog'')) demo_code 0"
  from demo_answers_report(1) obtain acts where "length acts = 9"
    "run_spec ?f Report_tap (give_hooks demo_fixed (order demo_srcs)) (order demo_srcs) (tap_zero, xml_zero) 0 = Some (acts, 0, False)"
    using demo_answers_run [of ?f "[NL]", OF demo_helenos_answers] by auto
  with run_on_helenos [OF demo_decls demo_last demo_plain demo_fix this(2)] show ?thesis by (auto simp: options_def)
qed

section \<open>Failures\<close>

text \<open>The state in which a run with the example starts, and its failing test.\<close>

definition demo_state :: "nat process" where
  "demo_state = pcut_report_register_handler Report_tap (start_state (give_hooks demo_fixed demo_order) 0)"

definition demo_bad :: pcut_item where
  "demo_bad = the (give_hooks demo_fixed demo_order 6)"

lemma demo_state_facts:
  "ready demo_state" "items demo_state 6 = Some demo_bad" "report_ops demo_state = Some Report_tap"
  "ident demo_bad = 6" "item_name demo_bad = ''bad''" "trace demo_state = []" "pcut_get_test_timeout demo_bad = Some 5"
  "entry_of Report_tap (start_of Report_tap (reports_of demo_state)) ''bad'' PCUT_OUTCOME_PASS [] [] [] = ''ok 1 bad'' @ [NL]"
proof -
  show "ready demo_state" using ready_start [of "give_hooks demo_fixed demo_order" "0::nat"]
    by (simp add: demo_state_def pcut_report_register_handler_def ready_def buffers_ok_def)
  have "map_option (\<lambda>it. (ident it, item_name it)) (give_hooks demo_fixed demo_order 6) = Some (6, ''bad'')" by code_simp
  then obtain it where it: "give_hooks demo_fixed demo_order 6 = Some it" "ident it = 6" "item_name it = ''bad''" by auto
  then show "items demo_state 6 = Some demo_bad" "ident demo_bad = 6" "item_name demo_bad = ''bad''"
    by (simp_all add: demo_bad_def demo_state_def pcut_report_register_handler_def start_state_def)
  show "pcut_get_test_timeout demo_bad = Some 5" using demo_timeouts(2) it(1) by (simp add: demo_bad_def)
  show "report_ops demo_state = Some Report_tap" "trace demo_state = []"
    by (simp_all add: demo_state_def pcut_report_register_handler_def start_state_def)
  show "entry_of Report_tap (start_of Report_tap (reports_of demo_state)) ''bad'' PCUT_OUTCOME_PASS [] [] [] = ''ok 1 bad'' @ [NL]"
    by code_simp
qed

text \<open>C38: if the shell does not wait for the command, as a POSIX shell that reads \<open>&>\<close> as the end of a background
  command followed by a redirection, the status is zero and the file is empty: the test is reported as passed, without
  any message, whatever it does.\<close>

theorem unfinished_command_passes:
  assumes "ready s" and "items s test = Some it" and "report_ops s = Some h" and "nul_free path"
    and "system_call S (take 254 (command_text S path (ident it))) = (0, files)" and "files (temp_name S) = Some []"
  shows "\<exists>s'. generic_run_test_forking S (Some (cstr path)) test s = (Returned PCUT_OUTCOME_PASS, s') \<and>
    trace s' = trace s @ [Out (entry_of h (start_of h (reports_of s)) (item_name it) PCUT_OUTCOME_PASS [] [] [])]"
proof -
  have fit: "fit_chunks []" by (simp add: fit_chunks_def OUTPUT_BUFFER_SIZE_def BUFFER_SIZE_def)
  from generic_run [OF assms(1-5) _ fit] assms(6) show ?thesis
    by (simp add: generic_wait_status_to_outcome_def adds_entry_def) blast
qed

theorem unfinished_command_passes_witness:
  "\<exists>s'. generic_run_test_forking (demo_shell\<lparr>system_call := \<lambda>_. (0, [''pcut_7.tmp'' \<mapsto> []])\<rparr>) (Some (cstr ''prog'')) 6 demo_state =
      (Returned PCUT_OUTCOME_PASS, s') \<and> trace s' = [Out (''ok 1 bad'' @ [NL])]"
proof -
  let ?S = "demo_shell\<lparr>system_call := \<lambda>_. (0, [''pcut_7.tmp'' \<mapsto> []])\<rparr>"
  have n: "temp_name ?S = ''pcut_7.tmp''" by code_simp
  have p: "nul_free ''prog''" by code_simp
  show ?thesis
    using unfinished_command_passes [OF demo_state_facts(1-3) p, of ?S "[''pcut_7.tmp'' \<mapsto> []]"] n
    unfolding demo_state_facts(5,6,8) by simp
qed

lemma find_first: "list_all (\<lambda>x. \<not> P x) xs \<Longrightarrow> P y \<Longrightarrow> find P (xs @ y # ys) = Some y"
  by (induction xs) auto

text \<open>A call of the Windows system that fails before the child runs ends the test with an error, and the report
  names the first call that failed.\<close>

theorem failed_call_named:
  assumes "ready s" and "items s test = Some it" and "report_ops s = Some h"
    and "pipe_calls = cs @ f # ds" and "list_all (call_ok W) cs" and "\<not> call_ok W f"
  shows "\<exists>s'. windows_run_test_forking W self test s = (Returned PCUT_OUTCOME_INTERNAL_ERROR, s') \<and>
    trace s' = trace s @ [Out (entry_of h (start_of h (reports_of s)) (item_name it) PCUT_OUTCOME_INTERNAL_ERROR
      (f @ '' failed: unknown reason.'') [] [])] \<and> user s' = user s \<and> ready s'"
proof -
  have "find (\<lambda>c. \<not> call_ok W c) pipe_calls = Some f"
    unfolding assms(4) by (rule find_first) (use assms(5,6) in \<open>simp_all add: list_all_iff\<close>)
  from windows_call_fails [OF assms(1-3) this] show ?thesis by (auto simp: adds_entry_def fail_text_def carried_def)
qed

text \<open>A Windows child that had to be terminated is an error, reported with what it had written until then,
  whatever small exit code it was given.\<close>

theorem terminated_child_is_error:
  assumes "ready s" and "items s test = Some it" and "report_ops s = Some h"
    and "windows_command self (ident it) = Some command" and "pcut_get_test_timeout it = Some secs"
    and "C = create_process W command (time_out_millis secs)" and "runs_through W C True" and "exit_code C \<noteq> 0"
    and "stream (good_reads (stderr_reads C)) = []" and "stream (good_reads (stdout_reads C)) = concat (map frame cs)"
    and "fit_chunks cs"
  shows "\<exists>s'. windows_run_test_forking W self test s = (Returned PCUT_OUTCOME_INTERNAL_ERROR, s') \<and>
    trace s' = trace s @ [Out (entry_of h (start_of h (reports_of s)) (item_name it) PCUT_OUTCOME_INTERNAL_ERROR
      (error_text cs) [] (kept_text cs))] \<and> user s' = user s"
  using windows_run [OF assms(1-7,9-11)] assms(8) by (auto simp: windows_outcome_def adds_entry_def)

text \<open>On HelenOS a task that cannot be started, or waited for, is an error without any message.\<close>

theorem lost_task_is_error:
  assumes "ready s" and "items s test = Some it" and "report_ops s = Some h"
    and "open_ok Y (helenos_temp Y)" and "nul_free path" and "pcut_get_test_timeout it \<noteq> None"
    and "\<forall>task_until us. task_spawnvf Y path [path, take 23 (''-t'' @ show_int (ident it))] = Some task_until \<longrightarrow>
      \<not> wait_ok (task_until us)"
  shows "\<exists>s'. helenos_run_test_forking Y (Some (cstr path)) test s = (Returned PCUT_OUTCOME_INTERNAL_ERROR, s') \<and>
    trace s' = trace s @ [Out (entry_of h (start_of h (reports_of s)) (item_name it) PCUT_OUTCOME_INTERNAL_ERROR [] [] [])] \<and>
    user s' = user s \<and> ready s'"
  using helenos_no_task [OF assms] by (auto simp: adds_entry_def carried_def)

section \<open>Strings on HelenOS\<close>

text \<open>On texts of one-byte characters the string functions for HelenOS, over a string library that does what it
  documents, are those of the other systems.\<close>

theorem helenos_strings_agree:
  assumes "documented L" and "ascii a" and "ascii b"
  shows "helenos_str_equals L (cstr a) (cstr b) = pcut_str_equals (cstr a) (cstr b) \<and>
    helenos_str_start_equals L (cstr a) (cstr b) (length b) = pcut_str_start_equals (cstr a) (cstr b) (length b) \<and>
    helenos_str_size L (cstr a) = pcut_str_size (cstr a) \<and> helenos_str_to_int (cstr a) = pcut_str_to_int (cstr a)"
proof -
  have n: "nul_free a" "nul_free b" using assms(2,3) by (simp_all add: ascii_nul_free)
  from assms obtain d e where d: "str_cmp L (cstr a) (cstr b) = Some d" "d = 0 \<longleftrightarrow> a = b"
    and e: "str_lcmp L (cstr a) (cstr b) (length b) = Some e" "e = 0 \<longleftrightarrow> take (length b) a = b"
    unfolding documented_def by (metis take_all order_refl)
  have s: "str_size L (cstr a) = Some (length a)" using assms unfolding documented_def by blast
  from strcmp_cstr [OF n] obtain d' where d': "c_strcmp (cstr a) (cstr b) = Some d'" "d' = 0 \<longleftrightarrow> a = b" by blast
  from strncmp_cstr [OF n, of "[]" "[]"] obtain e' where
    e': "c_strncmp (cstr a) (cstr b) (length b) = Some e'" "e' = 0 \<longleftrightarrow> take (length b) a = b" by (auto simp: cstr_def)
  show ?thesis
    using d d' e e' s strlen_cstr [OF n(1)]
    by (simp add: helenos_str_equals_def helenos_str_start_equals_def helenos_str_size_def helenos_str_to_int_def
        pcut_str_defs c_atoi_def)
qed

definition demo_strings :: helenos_strings where
  "demo_strings = \<lparr>str_cmp = c_strcmp, str_lcmp = c_strncmp, str_size = c_strlen, str_chr = c_strchr,
     str_error = (\<lambda>_. None), str_cpy = (\<lambda>buffer n s. store buffer 0 (take (n - 1) s @ [NUL]))\<rparr>"

lemma strncmp_take:
  "nul_free a \<Longrightarrow> nul_free b \<Longrightarrow> \<exists>d. c_strncmp (cstr a) (cstr b) n = Some d \<and> (d = 0 \<longleftrightarrow> take n a = take n b)"
proof (induction n arbitrary: a b)
  case (Suc n)
  then show ?case by (cases a; cases b) (auto simp: cstr_def)
qed simp

lemma demo_strings_documented: "documented demo_strings"
  unfolding documented_def demo_strings_def
  using strcmp_cstr strncmp_take strlen_cstr ascii_nul_free by simp

end
