(* ===== verification/Killer.thy ===== *)
theory Killer
  imports Prelude
begin

text \<open>
  The time-out of a test on HelenOS, \<^verbatim>\<open>src/os/helenos.c\<close>: the main fibril and the fibrils that kill
  a task which runs too long.  They share the identifier of the task, the flag that the test is
  running, and a condition variable; one fibril at a time holds the mutex, so the parts between
  locking and unlocking or waiting are single steps.
\<close>

section \<open>State\<close>

text \<open>
  A fibril is ready until it first gets the mutex, then it waits until a time; tasks are numbered in
  the order in which they are spawned, and the fibril that is created for a task has its number.
\<close>

datatype phase = Absent | Ready | Waiting nat | Gone

datatype main_fibril = Between | Task_wait nat

record timeouts =
  clock :: nat
  test_running :: bool
  test_task_id :: nat
  spawned :: nat
  main_at :: main_fibril
  killer :: "nat \<Rightarrow> phase"
  kills :: "(nat \<times> nat) list"

definition initial :: timeouts where
  "initial = \<lparr>clock = 0, test_running = False, test_task_id = 0, spawned = 0, main_at = Between,
     killer = (\<lambda>_. Absent), kills = []\<rparr>"

section \<open>Steps\<close>

text \<open>The main fibril: a task is spawned and its killer made ready.\<close>

definition spawn_test :: "timeouts \<Rightarrow> timeouts" where
  "spawn_test s =
     s\<lparr>test_task_id := spawned s, spawned := spawned s + 1, test_running := True,
       killer := (killer s)(spawned s := Ready), main_at := Task_wait (spawned s)\<rparr>"

text \<open>If the fibril cannot be created, the main fibril kills the task at once.\<close>

definition spawn_unwatched :: "timeouts \<Rightarrow> timeouts" where
  "spawn_unwatched s =
     s\<lparr>test_task_id := spawned s, spawned := spawned s + 1, test_running := True,
       killer := (killer s)(spawned s := Gone), main_at := Task_wait (spawned s),
       kills := kills s @ [(spawned s, spawned s)]\<rparr>"

text \<open>The wait has ended: the flag is cleared and one waiting fibril, if there is any, is woken.\<close>

definition finish_test :: "nat option \<Rightarrow> timeouts \<Rightarrow> timeouts" where
  "finish_test woken s =
     s\<lparr>test_running := False, main_at := Between,
       killer := (case woken of None \<Rightarrow> killer s | Some k \<Rightarrow> (killer s)(k := Gone))\<rparr>"

text \<open>The wait has failed: the code leaves without clearing the flag.\<close>

definition leave_test :: "timeouts \<Rightarrow> timeouts" where
  "leave_test s = s\<lparr>main_at := Between\<rparr>"

text \<open>A killer gets the mutex: it leaves if no test is running, and waits for its time-out else.\<close>

definition killer_enter :: "nat \<Rightarrow> nat \<Rightarrow> timeouts \<Rightarrow> timeouts" where
  "killer_enter timeout_us k s =
     s\<lparr>killer := (killer s)(k := if test_running s then Waiting (clock s + timeout_us) else Gone)\<rparr>"

text \<open>The time-out is over: the task that is the current one is killed.\<close>

definition killer_expire :: "nat \<Rightarrow> timeouts \<Rightarrow> timeouts" where
  "killer_expire k s = s\<lparr>killer := (killer s)(k := Gone), kills := kills s @ [(k, test_task_id s)]\<rparr>"

definition waiting :: "timeouts \<Rightarrow> nat \<Rightarrow> bool" where
  "waiting s k \<longleftrightarrow> (case killer s k of Waiting _ \<Rightarrow> True | _ \<Rightarrow> False)"

text \<open>\<open>T k\<close> is the time-out of the test with number \<open>k\<close>.\<close>

inductive step :: "(nat \<Rightarrow> nat) \<Rightarrow> timeouts \<Rightarrow> timeouts \<Rightarrow> bool" for T where
  spawn: "main_at s = Between \<Longrightarrow> step T s (spawn_test s)"
| spawn_alone: "main_at s = Between \<Longrightarrow> step T s (spawn_unwatched s)"
| finish_wake: "main_at s = Task_wait n \<Longrightarrow> waiting s k \<Longrightarrow> step T s (finish_test (Some k) s)"
| finish: "main_at s = Task_wait n \<Longrightarrow> \<forall>k < spawned s. \<not> waiting s k \<Longrightarrow> step T s (finish_test None s)"
| leave: "main_at s = Task_wait n \<Longrightarrow> step T s (leave_test s)"
| enter: "killer s k = Ready \<Longrightarrow> step T s (killer_enter (T k) k s)"
| expire: "killer s k = Waiting d \<Longrightarrow> d \<le> clock s \<Longrightarrow> step T s (killer_expire k s)"
| tick: "step T s (s\<lparr>clock := clock s + 1\<rparr>)"

inductive reachable :: "(nat \<Rightarrow> nat) \<Rightarrow> timeouts \<Rightarrow> bool" for T where
  start: "reachable T initial"
| further: "reachable T s \<Longrightarrow> step T s s' \<Longrightarrow> reachable T s'"

text \<open>
  Runs in which the wait never fails and a test starts only when the killer of the one before has
  had its turn.
\<close>

inductive calm_step :: "(nat \<Rightarrow> nat) \<Rightarrow> timeouts \<Rightarrow> timeouts \<Rightarrow> bool" for T where
  calm: "step T s s' \<Longrightarrow> main_at s = Between \<longrightarrow> main_at s' \<noteq> Between \<longrightarrow> (\<forall>k < spawned s. killer s k = Gone) \<Longrightarrow>
    main_at s \<noteq> Between \<longrightarrow> main_at s' = Between \<longrightarrow> \<not> test_running s' \<Longrightarrow> calm_step T s s'"

inductive calm_reachable :: "(nat \<Rightarrow> nat) \<Rightarrow> timeouts \<Rightarrow> bool" for T where
  calm_start: "calm_reachable T initial"
| calm_further: "calm_reachable T s \<Longrightarrow> calm_step T s s' \<Longrightarrow> calm_reachable T s'"

lemmas step_defs = spawn_test_def spawn_unwatched_def finish_test_def leave_test_def killer_enter_def killer_expire_def

inductive_cases stepE: "step T s s'"
inductive_cases calmE: "calm_step T s s'"

section \<open>Invariants\<close>

text \<open>
  Every spawned task has its killer; the flag is set while the main fibril waits; a kill by the
  fibril of a test hits the task of this test or of a later one, and no fibril kills twice.
\<close>

definition sound :: "timeouts \<Rightarrow> bool" where
  "sound s \<longleftrightarrow> (\<forall>k. killer s k = Absent \<longleftrightarrow> spawned s \<le> k) \<and>
     (spawned s = 0 \<or> Suc (test_task_id s) = spawned s) \<and>
     (\<forall>n. main_at s = Task_wait n \<longrightarrow> test_running s \<and> Suc n = spawned s) \<and>
     (\<forall>(k, t) \<in> set (kills s). k \<le> t \<and> t < spawned s \<and> killer s k = Gone) \<and> distinct (map fst (kills s))"

lemma sound_initial: "sound initial"
  by (simp add: sound_def initial_def)

lemma soundD:
  assumes "sound s"
  shows "killer s k = Absent \<longleftrightarrow> spawned s \<le> k" "spawned s = 0 \<or> Suc (test_task_id s) = spawned s"
    "main_at s = Task_wait n \<Longrightarrow> test_running s" "main_at s = Task_wait n \<Longrightarrow> Suc n = spawned s"
    "(k, t) \<in> set (kills s) \<Longrightarrow> k \<le> t \<and> t < spawned s \<and> killer s k = Gone" "distinct (map fst (kills s))"
  using assms by (auto simp: sound_def)

text \<open>A killer that has not left exists, and has not killed.\<close>

lemma sound_alive:
  assumes "sound s" and "killer s k = Ready \<or> waiting s k"
  shows "k < spawned s" "k \<le> test_task_id s" "test_task_id s < spawned s" "(k, t) \<notin> set (kills s)"
proof -
  have k: "killer s k \<noteq> Absent" "killer s k \<noteq> Gone" using assms(2) by (auto simp: waiting_def)
  then show "k < spawned s" using soundD(1) [OF assms(1), of k] by simp
  then show "k \<le> test_task_id s" "test_task_id s < spawned s" using soundD(2) [OF assms(1)] by auto
  show "(k, t) \<notin> set (kills s)" using k soundD(5) [OF assms(1), of k t] by blast
qed

lemma sound_killer:
  assumes "sound s" and "killer s k = Ready \<or> waiting s k" and "p \<noteq> Absent"
  shows "sound (s\<lparr>killer := (killer s)(k := p)\<rparr>)"
proof -
  have "\<And>t. (k, t) \<notin> set (kills s)" "k < spawned s" using sound_alive [OF assms(1,2)] by auto
  then show ?thesis using assms(1,3) unfolding sound_def by (auto split: if_splits)
qed

lemma sound_step:
  assumes "step T s s'" and "sound s"
  shows "sound s'"
  using assms
proof (cases rule: step.cases)
  case spawn
  with assms(2) show ?thesis by (fastforce simp: sound_def step_defs)
next
  case spawn_alone
  have "spawned s \<notin> fst ` set (kills s)" using assms(2) by (fastforce simp: sound_def)
  with assms(2) spawn_alone(1) show ?thesis by (fastforce simp: sound_def step_defs)
next
  case (finish_wake n k)
  have "sound (s\<lparr>killer := (killer s)(k := Gone)\<rparr>)" using sound_killer [OF assms(2)] finish_wake(3) by simp
  with finish_wake(1) show ?thesis by (simp add: sound_def step_defs)
next
  case (finish n)
  with assms(2) show ?thesis by (auto simp: sound_def step_defs)
next
  case (leave n)
  with assms(2) show ?thesis by (auto simp: sound_def step_defs)
next
  case (enter k)
  with sound_killer [OF assms(2), of k] show ?thesis by (simp add: step_defs)
next
  case (expire k d)
  then have w: "killer s k = Ready \<or> waiting s k" by (simp add: waiting_def)
  have "sound (s\<lparr>killer := (killer s)(k := Gone)\<rparr>)" by (rule sound_killer [OF assms(2) w]) simp
  with sound_alive [OF assms(2) w] expire(1) show ?thesis by (auto simp: sound_def step_defs)
next
  case tick
  with assms(2) show ?thesis by (simp add: sound_def)
qed

lemma sound_reachable: "reachable T s \<Longrightarrow> sound s"
  by (induction rule: reachable.induct) (auto intro: sound_initial sound_step)

text \<open>In a calm run only the killer of the current test is left.\<close>

definition settled_killers :: "timeouts \<Rightarrow> bool" where
  "settled_killers s \<longleftrightarrow> (\<forall>k. killer s k = Ready \<or> waiting s k \<longrightarrow> Suc k = spawned s) \<and>
     (main_at s = Between \<longrightarrow> \<not> test_running s \<and> (\<forall>k. \<not> waiting s k)) \<and>
     (\<forall>(k, t) \<in> set (kills s). k = t)"

lemma settled_initial: "settled_killers initial"
  by (simp add: settled_killers_def initial_def waiting_def)

text \<open>A test is started when all killers have left.\<close>

lemma settled_spawned:
  assumes "sound s" and "settled_killers s" and gone: "\<forall>k < spawned s. killer s k = Gone"
  shows "settled_killers (spawn_test s)" "settled_killers (spawn_unwatched s)"
proof -
  have none: "killer s k \<noteq> Ready \<and> \<not> waiting s k" for k
  proof (cases "k < spawned s")
    case True
    with gone have "killer s k = Gone" by blast
    then show ?thesis by (simp add: waiting_def)
  next
    case False
    with sound_alive(1) [OF assms(1), of k] show ?thesis by blast
  qed
  have own: "\<forall>(k, t) \<in> set (kills s). k = t" using assms(2) by (simp add: settled_killers_def)
  have "settled_killers (spawn_test s) \<longleftrightarrow> (\<forall>(k, t) \<in> set (kills s). k = t)"
    "settled_killers (spawn_unwatched s) \<longleftrightarrow> (\<forall>(k, t) \<in> set (kills s). k = t)"
    using none by (simp_all add: settled_killers_def step_defs waiting_def)
  with own show "settled_killers (spawn_test s)" "settled_killers (spawn_unwatched s)" by blast+
qed

lemma settled_step:
  assumes "calm_step T s s'" and sound: "sound s" and inv: "settled_killers s"
  shows "settled_killers s'"
proof -
  from assms(1) have c: "step T s s'" "main_at s = Between \<longrightarrow> main_at s' \<noteq> Between \<longrightarrow> (\<forall>k < spawned s. killer s k = Gone)"
    "main_at s \<noteq> Between \<longrightarrow> main_at s' = Between \<longrightarrow> \<not> test_running s'" by (auto elim: calmE)
  have alone: "\<And>k. killer s k = Ready \<or> waiting s k \<Longrightarrow> Suc k = spawned s" using inv by (auto simp: settled_killers_def)
  from c(1) show ?thesis
  proof (cases rule: step.cases)
    case spawn
    with c(2) have "\<forall>k < spawned s. killer s k = Gone" by (simp add: step_defs)
    from settled_spawned(1) [OF sound inv this] spawn(1) show ?thesis by simp
  next
    case spawn_alone
    with c(2) have "\<forall>k < spawned s. killer s k = Gone" by (simp add: step_defs)
    from settled_spawned(2) [OF sound inv this] spawn_alone(1) show ?thesis by simp
  next
    case (finish_wake n k)
    have "j = k" if "waiting s j" for j using alone [of k] alone [of j] that finish_wake(3) by simp
    with inv finish_wake(1) show ?thesis by (auto simp: settled_killers_def step_defs waiting_def)
  next
    case (finish n)
    have "\<not> waiting s j" for j using alone [of j] finish(3) by force
    with inv finish(1) show ?thesis by (auto simp: settled_killers_def step_defs waiting_def)
  next
    case (leave n)
    with c(3) sound show ?thesis by (auto simp: sound_def step_defs)
  next
    case (enter k)
    then have "Suc k = spawned s" using alone [of k] by simp
    with inv enter(1) show ?thesis by (auto simp: settled_killers_def step_defs waiting_def)
  next
    case (expire k d)
    then have w: "waiting s k" by (simp add: waiting_def)
    then have "Suc k = spawned s" "main_at s \<noteq> Between" using alone [of k] inv by (auto simp: settled_killers_def)
    moreover from this sound have "test_task_id s = k" by (auto simp: sound_def)
    ultimately show ?thesis using inv expire(1) by (auto simp: settled_killers_def step_defs waiting_def)
  next
    case tick
    with inv show ?thesis by (simp add: settled_killers_def waiting_def)
  qed
qed

lemma calm_invariant: "calm_reachable T s \<Longrightarrow> sound s \<and> settled_killers s"
  by (induction rule: calm_reachable.induct)
    (auto intro: sound_initial settled_initial sound_step settled_step elim: calmE)

section \<open>Properties\<close>

text \<open>Whatever the order of the fibrils, the fibril of a test kills the task of that test or of a later one, which
  has been spawned, and it kills once at most.\<close>

theorem killer_hits_no_earlier:
  assumes "reachable T s" and "(k, t) \<in> set (kills s)"
  shows "k \<le> t \<and> t < spawned s \<and> distinct (map fst (kills s))"
  using soundD(5,6) [OF sound_reachable [OF assms(1)]] assms(2) by blast

text \<open>C25: if waiting for a task never fails and the fibril of a test has had its turn before the next test starts, a
  task is only killed by the fibril of its own test, and no fibril is left to kill once no test runs.\<close>

theorem calm_killer_hits_own:
  assumes "calm_reachable T s"
  shows "(\<forall>(k, t) \<in> set (kills s). k = t) \<and> (main_at s = Between \<longrightarrow> (\<forall>k. \<not> waiting s k))"
  using calm_invariant [OF assms] by (simp add: settled_killers_def)

text \<open>Time passes.\<close>

lemma ticks: "(step T)\<^sup>*\<^sup>* s (s\<lparr>clock := clock s + m\<rparr>)"
proof (induction m)
  case (Suc m)
  from rtranclp.rtrancl_into_rtrancl [OF Suc step.tick] show ?case by simp
qed simp

lemma reachable_steps: "(step T)\<^sup>*\<^sup>* s s' \<Longrightarrow> reachable T s \<Longrightarrow> reachable T s'"
  by (induction rule: rtranclp_induct) (auto intro: reachable.further)

lemma waiting_kills:
  assumes "killer s k = Waiting d"
  shows "\<exists>s'. (step T)\<^sup>*\<^sup>* s s' \<and> main_at s' = main_at s \<and> kills s' = kills s @ [(k, test_task_id s)]"
proof -
  let ?s = "s\<lparr>clock := clock s + (d - clock s)\<rparr>"
  have "step T ?s (killer_expire k ?s)" by (rule step.expire [of _ _ d]) (use assms in simp, simp)
  with ticks [of T s "d - clock s"] have "(step T)\<^sup>*\<^sup>* s (killer_expire k ?s)" by (rule rtranclp.rtrancl_into_rtrancl)
  then show ?thesis by (intro exI [of _ "killer_expire k ?s"]) (simp add: killer_expire_def)
qed

text \<open>A test that keeps running can always be killed: as long as its fibril has not left, there is a run of that
  fibril and the clock alone that kills the task.\<close>

theorem time_out_can_kill:
  assumes "reachable T s" and "main_at s = Task_wait n" and "killer s n \<noteq> Gone"
  shows "\<exists>s'. (step T)\<^sup>*\<^sup>* s s' \<and> main_at s' = Task_wait n \<and> kills s' = kills s @ [(n, n)]"
proof -
  note snd = soundD [OF sound_reachable [OF assms(1)]]
  from snd(2) snd(4) [OF assms(2)] have n: "test_task_id s = n" "n < spawned s" by auto
  show ?thesis
  proof (cases "killer s n")
    case Absent
    with snd(1) [of n] n show ?thesis by simp
  next
    case Ready
    let ?s = "killer_enter (T n) n s"
    have r: "test_running s" by (rule snd(3) [OF assms(2)])
    have st: "step T s ?s" by (rule step.enter [OF Ready])
    have "killer ?s n = Waiting (clock s + T n)" using r by (simp add: killer_enter_def)
    from waiting_kills [OF this, of T] st n(1) assms(2) show ?thesis
      by (auto simp: killer_enter_def intro: converse_rtranclp_into_rtranclp)
  next
    case (Waiting d)
    from waiting_kills [OF this, of T] n(1) assms(2) show ?thesis by simp
  qed (use assms(3) in simp)
qed

text \<open>A late killer: the first test is over before its fibril has had its turn.\<close>

definition late_wait :: "nat \<Rightarrow> timeouts" where
  "late_wait t = killer_enter t 0 (spawn_test (finish_test None (spawn_test initial)))"

lemma late_wait_reachable: "reachable T (late_wait (T 0))"
proof -
  let ?a = "spawn_test initial"
  let ?b = "finish_test None ?a"
  have "reachable T ?a" by (rule reachable.further [OF reachable.start step.spawn]) (simp add: initial_def)
  then have "reachable T ?b"
    by (rule reachable.further [OF _ step.finish [of _ 0]]) (simp_all add: initial_def step_defs waiting_def)
  then have "reachable T (spawn_test ?b)"
    by (rule reachable.further [OF _ step.spawn]) (simp add: step_defs)
  then show ?thesis unfolding late_wait_def
    by (rule reachable.further [OF _ step.enter]) (simp add: initial_def step_defs)
qed

text \<open>C36: a fibril that gets its turn only after the next test was started kills the task of that next test when its
  own time-out is over, whatever the time-out of that test is.\<close>

theorem late_killer_hits_next:
  "\<exists>s. reachable T s \<and> main_at s = Task_wait 1 \<and> kills s = [(0, 1)]"
proof -
  have "killer (late_wait (T 0)) 0 = Waiting (T 0)" "main_at (late_wait (T 0)) = Task_wait 1"
    "kills (late_wait (T 0)) = []" "test_task_id (late_wait (T 0)) = 1"
    by (simp_all add: late_wait_def initial_def step_defs)
  from waiting_kills [OF this(1), of T] this(2-4) reachable_steps [OF _ late_wait_reachable [of T]] show ?thesis by auto
qed

text \<open>One test, and its fibril.\<close>

definition one_test :: timeouts where
  "one_test = killer_enter 5 0 (spawn_test initial)"

lemma one_test_step:
  "calm_step (\<lambda>_. 5) initial (spawn_test initial)" "calm_step (\<lambda>_. 5) (spawn_test initial) one_test"
proof -
  have "step (\<lambda>_. 5) initial (spawn_test initial)" by (rule step.spawn) (simp add: initial_def)
  then show "calm_step (\<lambda>_. 5) initial (spawn_test initial)"
    by (rule calm_step.calm) (simp_all add: initial_def)
  have "step (\<lambda>_. 5) (spawn_test initial) one_test"
    unfolding one_test_def by (rule step.enter) (simp add: initial_def step_defs)
  then show "calm_step (\<lambda>_. 5) (spawn_test initial) one_test"
    by (rule calm_step.calm) (simp_all add: one_test_def step_defs)
qed

theorem calm_killer_hits_own_witness:
  "main_at (finish_test (Some 0) one_test) = Between \<and> \<not> waiting (finish_test (Some 0) one_test) 0"
proof -
  let ?s = "finish_test (Some 0) one_test"
  have "calm_reachable (\<lambda>_. 5) one_test"
    by (rule calm_reachable.calm_further [OF _ one_test_step(2)])
      (rule calm_reachable.calm_further [OF calm_reachable.calm_start one_test_step(1)])
  moreover have "calm_step (\<lambda>_. 5) one_test ?s"
  proof (rule calm_step.calm)
    show "step (\<lambda>_. 5) one_test ?s"
      by (rule step.finish_wake [of _ 0]) (simp_all add: one_test_def initial_def step_defs waiting_def)
  qed (simp_all add: one_test_def initial_def step_defs)
  ultimately have "calm_reachable (\<lambda>_. 5) ?s" by (rule calm_reachable.calm_further)
  moreover have "main_at ?s = Between" by (simp add: finish_test_def)
  ultimately show ?thesis using calm_killer_hits_own by blast
qed

end
