(* ===== verification/Pipes.thy ===== *)
theory Pipes
  imports UnixSpec
begin

text \<open>
  The two processes of a test on Unix, \<^verbatim>\<open>src/os/unix.c\<close>, as they run at the same time: the child
  writes into two pipes of limited size, the parent reads one of them to its end and then the other,
  waits for the child and switches its alarm off, and the handler of the alarm may interrupt it
  anywhere.  \<open>OsUnix\<close> takes the answer of the kernel to all of this as a parameter; this theory says
  which answers there are.

  A system call that is interrupted by the handler is restarted (\<^verbatim>\<open>signal\<close> with \<open>_DEFAULT_SOURCE\<close>), and
  the child leaves no process behind that holds the pipes.
\<close>

section \<open>State\<close>

text \<open>
  The parent is at one of its calls; the two numbers are the status that \<open>wait\<close> gave.  \<open>todo\<close> is what
  the child has still to do, \<open>fate\<close> whether and how it has ended.  The lists of reads hold what each
  call of \<open>read\<close> gave, \<open>strays\<close> counts signals that were sent to the number of a process that is
  not the child any more.
\<close>

datatype parent_at = Forked | Reading_stderr | Reading_stdout | Waiting_for_child | Reaped int | Reported int

datatype fate = By_itself | Killed

record test_pair =
  todo :: "act list"
  fate :: "fate option"
  out_pipe :: string
  err_pipe :: string
  parent_at :: parent_at
  err_reads :: "string list"
  out_reads :: "string list"
  now :: nat
  alarm_at :: "nat option"
  strays :: nat

definition forked :: "act list \<Rightarrow> test_pair" where
  "forked acts = \<lparr>todo = acts, fate = None, out_pipe = [], err_pipe = [], parent_at = Forked, err_reads = [],
     out_reads = [], now = 0, alarm_at = None, strays = 0\<rparr>"

text \<open>The variable \<open>buffer_size\<close> in the two calls of \<open>read_all\<close>.\<close>

definition err_room :: "test_pair \<Rightarrow> nat" where
  "err_room s = OUTPUT_BUFFER_SIZE - 1 - length (concat (err_reads s))"

definition out_room :: "test_pair \<Rightarrow> nat" where
  "out_room s = OUTPUT_BUFFER_SIZE - 1 - length (chomp (concat (err_reads s))) - length (concat (out_reads s))"

section \<open>The parent\<close>

text \<open>\<open>alarm\<close> is called with a number of seconds, and 0 sets no alarm.\<close>

definition set_alarm :: "nat option \<Rightarrow> test_pair \<Rightarrow> test_pair" where
  "set_alarm secs s = s\<lparr>alarm_at := map_option (\<lambda>n. now s + n) secs, parent_at := Reading_stderr\<rparr>"

text \<open>A \<open>read\<close> of \<open>k\<close> bytes; the loop of \<open>read_all\<close> ends when the buffer is full or nothing comes.\<close>

definition read_stderr :: "nat \<Rightarrow> test_pair \<Rightarrow> test_pair" where
  "read_stderr k s =
     s\<lparr>err_reads := err_reads s @ [take k (err_pipe s)], err_pipe := drop k (err_pipe s),
       parent_at := (if k = err_room s then Reading_stdout else Reading_stderr)\<rparr>"

definition read_stdout :: "nat \<Rightarrow> test_pair \<Rightarrow> test_pair" where
  "read_stdout k s =
     s\<lparr>out_reads := out_reads s @ [take k (out_pipe s)], out_pipe := drop k (out_pipe s),
       parent_at := (if k = out_room s then Waiting_for_child else Reading_stdout)\<rparr>"

definition end_of_stderr :: "test_pair \<Rightarrow> test_pair" where
  "end_of_stderr s = s\<lparr>parent_at := Reading_stdout\<rparr>"

definition end_of_stdout :: "test_pair \<Rightarrow> test_pair" where
  "end_of_stdout s = s\<lparr>parent_at := Waiting_for_child\<rparr>"

text \<open>The status of a child that was killed is the number of the signal.\<close>

definition wait_status :: "proc_end \<Rightarrow> fate \<Rightarrow> int" where
  "wait_status e f = (case f of By_itself \<Rightarrow> status_of e | Killed \<Rightarrow> 9)"

definition wait_child :: "int \<Rightarrow> test_pair \<Rightarrow> test_pair" where
  "wait_child st s = s\<lparr>parent_at := Reaped st\<rparr>"

definition alarm_off :: "int \<Rightarrow> test_pair \<Rightarrow> test_pair" where
  "alarm_off st s = s\<lparr>alarm_at := None, parent_at := Reported st\<rparr>"

text \<open>
  The handler.  A child that has ended is not hurt as long as it was not waited for; after that its
  number may belong to any process.
\<close>

definition kill_child_on_alarm :: "test_pair \<Rightarrow> test_pair" where
  "kill_child_on_alarm s =
     (case parent_at s of
        Reaped _ \<Rightarrow> s\<lparr>alarm_at := None, strays := strays s + 1\<rparr>
      | _ \<Rightarrow> s\<lparr>alarm_at := None, fate := (if fate s = None then Some Killed else fate s)\<rparr>)"

section \<open>Steps\<close>

text \<open>While time passes a child that sleeps comes nearer to the end of its sleep.\<close>

definition second :: "test_pair \<Rightarrow> test_pair" where
  "second s = s\<lparr>now := now s + 1,
     todo := (case todo s of Sleep n # as \<Rightarrow> Sleep (n - 1) # as | as \<Rightarrow> as)\<rparr>"

text \<open>
  \<open>cap\<close> is the size of a pipe, \<open>e\<close> how the child ends if nobody kills it, \<open>secs\<close> the time-out.
  A write blocks while the pipe is full, a read while it is empty and the child could write.
\<close>

inductive pair_step :: "nat \<Rightarrow> proc_end \<Rightarrow> nat option \<Rightarrow> test_pair \<Rightarrow> test_pair \<Rightarrow> bool" for cap e secs where
  child_out: "fate s = None \<Longrightarrow> todo s = Out bs # as \<Longrightarrow> 0 < k \<Longrightarrow> k \<le> length bs \<Longrightarrow>
     length (out_pipe s) + k \<le> cap \<Longrightarrow>
     pair_step cap e secs s (s\<lparr>todo := Out (drop k bs) # as, out_pipe := out_pipe s @ take k bs\<rparr>)"
| child_err: "fate s = None \<Longrightarrow> todo s = Err bs # as \<Longrightarrow> 0 < k \<Longrightarrow> k \<le> length bs \<Longrightarrow>
     length (err_pipe s) + k \<le> cap \<Longrightarrow>
     pair_step cap e secs s (s\<lparr>todo := Err (drop k bs) # as, err_pipe := err_pipe s @ take k bs\<rparr>)"
| child_next: "fate s = None \<Longrightarrow> todo s = a # as \<Longrightarrow> a \<in> {Out [], Err [], Sleep 0} \<Longrightarrow>
     pair_step cap e secs s (s\<lparr>todo := as\<rparr>)"
| child_end: "fate s = None \<Longrightarrow> todo s = [] \<Longrightarrow> e \<noteq> Hung \<Longrightarrow>
     pair_step cap e secs s (s\<lparr>fate := Some By_itself\<rparr>)"
| start: "parent_at s = Forked \<Longrightarrow> pair_step cap e secs s (set_alarm secs s)"
| err_read: "parent_at s = Reading_stderr \<Longrightarrow> 0 < k \<Longrightarrow> k \<le> length (err_pipe s) \<Longrightarrow> k \<le> err_room s \<Longrightarrow>
     pair_step cap e secs s (read_stderr k s)"
| err_end: "parent_at s = Reading_stderr \<Longrightarrow> err_pipe s = [] \<Longrightarrow> fate s \<noteq> None \<Longrightarrow>
     pair_step cap e secs s (end_of_stderr s)"
| out_read: "parent_at s = Reading_stdout \<Longrightarrow> 0 < k \<Longrightarrow> k \<le> length (out_pipe s) \<Longrightarrow> k \<le> out_room s \<Longrightarrow>
     pair_step cap e secs s (read_stdout k s)"
| out_end: "parent_at s = Reading_stdout \<Longrightarrow> out_room s = 0 \<or> out_pipe s = [] \<and> fate s \<noteq> None \<Longrightarrow>
     pair_step cap e secs s (end_of_stdout s)"
| reap: "parent_at s = Waiting_for_child \<Longrightarrow> fate s = Some f \<Longrightarrow> pair_step cap e secs s (wait_child (wait_status e f) s)"
| finish: "parent_at s = Reaped st \<Longrightarrow> pair_step cap e secs s (alarm_off st s)"
| alarm: "alarm_at s = Some t \<Longrightarrow> t \<le> now s \<Longrightarrow> pair_step cap e secs s (kill_child_on_alarm s)"
| time: "pair_step cap e secs s (second s)"

inductive pair_reach :: "nat \<Rightarrow> proc_end \<Rightarrow> nat option \<Rightarrow> act list \<Rightarrow> test_pair \<Rightarrow> bool" for cap e secs acts where
  pair_start: "pair_reach cap e secs acts (forked acts)"
| pair_more: "pair_reach cap e secs acts s \<Longrightarrow> pair_step cap e secs s s' \<Longrightarrow> pair_reach cap e secs acts s'"

lemmas pair_defs = set_alarm_def read_stderr_def read_stdout_def end_of_stderr_def end_of_stdout_def
  wait_child_def alarm_off_def kill_child_on_alarm_def second_def

section \<open>What is in the pipes\<close>

text \<open>The bytes that a list of actions writes, in order, each with the mark of its stream (true: standard output).\<close>

fun written :: "act list \<Rightarrow> (bool \<times> char) list" where
  "written [] = []"
| "written (Out s # as) = map (Pair True) s @ written as"
| "written (Err s # as) = map (Pair False) s @ written as"
| "written (Sleep n # as) = written as"

definition on_stream :: "bool \<Rightarrow> (bool \<times> char) list \<Rightarrow> string" where
  "on_stream b w = map snd (filter (\<lambda>c. fst c = b) w)"

lemma on_stream_append [simp]: "on_stream b (w @ v) = on_stream b w @ on_stream b v"
  by (simp add: on_stream_def)

lemma on_stream_map [simp]: "on_stream b (map (Pair c) s) = (if b = c then s else [])"
  by (simp add: on_stream_def comp_def)

lemma on_stream_Nil [simp]: "on_stream b [] = []"
  by (simp add: on_stream_def)

lemma stdout_written: "stdout_of as = on_stream True (written as)"
  by (induction as rule: written.induct) simp_all

lemma stderr_written: "stderr_of as = on_stream False (written as)"
  by (induction as rule: written.induct) simp_all

lemma written_second: "written (todo (second s)) = written (todo s)"
  by (simp add: second_def split: list.split act.split)

text \<open>What the child has written is in the pipes or was read, in order.\<close>

definition bytes_kept :: "act list \<Rightarrow> test_pair \<Rightarrow> bool" where
  "bytes_kept acts s \<longleftrightarrow>
     (\<exists>w. written acts = w @ written (todo s) \<and>
        on_stream True w = concat (out_reads s) @ out_pipe s \<and> on_stream False w = concat (err_reads s) @ err_pipe s)"

lemma bytes_forked: "bytes_kept acts (forked acts)"
  by (simp add: bytes_kept_def forked_def on_stream_def)

lemma bytes_keptI:
  assumes "written acts = w @ written (todo s)" and "on_stream True w = concat (out_reads s) @ out_pipe s"
    and "on_stream False w = concat (err_reads s) @ err_pipe s"
  shows "bytes_kept acts s"
  using assms by (auto simp: bytes_kept_def)

lemma bytes_step:
  assumes "pair_step cap e secs s s'" and "bytes_kept acts s"
  shows "bytes_kept acts s'"
proof -
  obtain w where w: "written acts = w @ written (todo s)" "on_stream True w = concat (out_reads s) @ out_pipe s"
    "on_stream False w = concat (err_reads s) @ err_pipe s" using assms(2) by (auto simp: bytes_kept_def)
  have cut: "map (Pair b) (take k bs) @ map (Pair b) (drop k bs) @ v = map (Pair b) bs @ v" for b k and bs :: string and v
    by (simp flip: append_assoc map_append)
  from assms(1) show ?thesis
  proof (cases rule: pair_step.cases)
    case (child_out bs as k)
    with w cut [of True k bs] show ?thesis by (intro bytes_keptI [of _ "w @ map (Pair True) (take k bs)"]) simp_all
  next
    case (child_err bs as k)
    with w cut [of False k bs] show ?thesis by (intro bytes_keptI [of _ "w @ map (Pair False) (take k bs)"]) simp_all
  next
    case (child_next a as)
    with w show ?thesis by (intro bytes_keptI [of _ w]) auto
  next
    case time
    with w show ?thesis by (intro bytes_keptI [of _ w]) (simp_all add: written_second, simp_all add: second_def)
  qed (use assms(2) in \<open>simp_all add: bytes_kept_def pair_defs split: parent_at.splits\<close>)
qed

text \<open>The room in the pipes and in the buffer of the parent; the reads are never empty.\<close>

definition rooms_kept :: "nat \<Rightarrow> test_pair \<Rightarrow> bool" where
  "rooms_kept cap s \<longleftrightarrow> length (out_pipe s) \<le> cap \<and> length (err_pipe s) \<le> cap \<and>
     [] \<notin> set (err_reads s) \<and> [] \<notin> set (out_reads s) \<and>
     length (concat (err_reads s)) \<le> OUTPUT_BUFFER_SIZE - 1 \<and>
     length (concat (out_reads s)) + length (chomp (concat (err_reads s))) \<le> OUTPUT_BUFFER_SIZE - 1"

text \<open>The parent leaves a pipe when its buffer is full, or the child has ended and the pipe is empty.\<close>

definition err_over :: "test_pair \<Rightarrow> bool" where
  "err_over s \<longleftrightarrow> err_room s = 0 \<or> err_pipe s = [] \<and> fate s \<noteq> None"

definition out_over :: "test_pair \<Rightarrow> bool" where
  "out_over s \<longleftrightarrow> out_room s = 0 \<or> out_pipe s = [] \<and> fate s \<noteq> None"

definition knows_end :: "proc_end \<Rightarrow> int \<Rightarrow> test_pair \<Rightarrow> bool" where
  "knows_end e st s \<longleftrightarrow> (\<exists>f. fate s = Some f \<and> st = wait_status e f)"

definition place_kept :: "proc_end \<Rightarrow> test_pair \<Rightarrow> bool" where
  "place_kept e s \<longleftrightarrow> (fate s = Some By_itself \<longrightarrow> todo s = [] \<and> e \<noteq> Hung) \<and>
     (case parent_at s of
        Forked \<Rightarrow> err_reads s = [] \<and> out_reads s = [] \<and> alarm_at s = None
      | Reading_stderr \<Rightarrow> out_reads s = [] \<and> 0 < err_room s
      | Reading_stdout \<Rightarrow> err_over s
      | Waiting_for_child \<Rightarrow> err_over s \<and> out_over s
      | Reaped st \<Rightarrow> err_over s \<and> out_over s \<and> knows_end e st s
      | Reported st \<Rightarrow> err_over s \<and> out_over s \<and> knows_end e st s \<and> alarm_at s = None)"

lemmas place_defs = place_kept_def err_over_def out_over_def knows_end_def err_room_def out_room_def

lemma chomp_le: "length (chomp s) \<le> length s"
  by (simp add: chomp_def)

lemma rooms_forked: "rooms_kept cap (forked acts)"
  by (simp add: rooms_kept_def forked_def chomp_def)

lemma place_forked: "place_kept e (forked acts)"
  by (simp add: place_kept_def forked_def)

lemma rooms_step:
  assumes "pair_step cap e secs s s'" and "rooms_kept cap s" and "place_kept e s"
  shows "rooms_kept cap s'"
  using assms(1)
proof (cases rule: pair_step.cases)
  case (err_read k)
  have "length (chomp (concat (err_reads s) @ take k (err_pipe s))) \<le> OUTPUT_BUFFER_SIZE - 1"
    using chomp_le [of "concat (err_reads s) @ take k (err_pipe s)"] err_read assms(2)
    by (simp add: rooms_kept_def err_room_def)
  with err_read assms(2,3) show ?thesis
    by (auto simp: rooms_kept_def err_room_def place_kept_def pair_defs)
next
  case (out_read k)
  with assms(2) show ?thesis by (auto simp: rooms_kept_def out_room_def pair_defs)
qed (use assms(2) in \<open>auto simp: rooms_kept_def pair_defs split: parent_at.splits\<close>)

lemma place_step:
  assumes "pair_step cap e secs s s'" and "rooms_kept cap s" and "place_kept e s"
  shows "place_kept e s'"
  using assms(1)
proof (cases rule: pair_step.cases)
  case (start)
  with assms(3) show ?thesis by (simp add: place_defs pair_defs OUTPUT_BUFFER_SIZE_def)
next
  case (err_read k)
  with assms(2,3) show ?thesis by (auto simp: place_defs rooms_kept_def pair_defs)
next
  case (out_read k)
  with assms(2,3) show ?thesis by (auto simp: place_defs rooms_kept_def pair_defs)
next
  case time
  with assms(3) show ?thesis
    by (simp add: second_def place_defs split: parent_at.splits)
qed (use assms(3) in \<open>auto simp: place_defs pair_defs split: parent_at.splits\<close>)

lemma pair_invariant:
  assumes "pair_reach cap e secs acts s"
  shows "bytes_kept acts s" "rooms_kept cap s" "place_kept e s"
proof -
  have "bytes_kept acts s \<and> rooms_kept cap s \<and> place_kept e s"
    using assms by (induction rule: pair_reach.induct) (auto intro: bytes_forked rooms_forked place_forked bytes_step rooms_step place_step)
  then show "bytes_kept acts s" "rooms_kept cap s" "place_kept e s" by auto
qed

end
