(* ===== verification/PipeProps.thy ===== *)
theory PipeProps
  imports UnixProps Pipes
begin

text \<open>
  What the two processes of \<open>Pipes\<close> do in every order of their steps: what the parent has read when it
  reports, when a test comes to its end without its alarm, when it never does, that the alarm always
  ends it, and whom the handler may hit.
\<close>

section \<open>What the parent has read\<close>

lemma stream_concat: "[] \<notin> set cs \<Longrightarrow> stream cs = concat cs"
  by (induction cs) auto

text \<open>What the child has written until now, and what it has still to write.\<close>

lemma pair_streams:
  assumes "pair_reach cap e secs acts s"
  shows "stdout_of acts = concat (out_reads s) @ out_pipe s @ stdout_of (todo s)"
    "stderr_of acts = concat (err_reads s) @ err_pipe s @ stderr_of (todo s)"
  using pair_invariant(1) [OF assms] by (auto simp: bytes_kept_def stdout_written stderr_written)

lemma reported_over:
  assumes "pair_reach cap e secs acts s" and "parent_at s = Reported st"
  shows "err_over s" "out_over s" "knows_end e st s" "stream (err_reads s) = concat (err_reads s)"
    "stream (out_reads s) = concat (out_reads s)"
  using pair_invariant(2,3) [OF assms(1)] assms(2) by (simp_all add: place_kept_def rooms_kept_def stream_concat)

text \<open>A child that has ended by itself has delivered as much as its reader takes.\<close>

lemma all_taken:
  assumes "bytes_kept acts s" and "rooms_kept cap s" and "place_kept e s" and "err_over s" and "out_over s"
    and "fate s = Some By_itself"
  shows "stream (err_reads s) = take (OUTPUT_BUFFER_SIZE - 1) (stderr_of acts)"
    "stream (out_reads s) = take (OUTPUT_BUFFER_SIZE - 1 - length (chomp (stream (err_reads s)))) (stdout_of acts)"
proof -
  have td: "todo s = []" using assms(3,6) by (simp add: place_kept_def)
  with assms(1) have w: "stdout_of acts = concat (out_reads s) @ out_pipe s" "stderr_of acts = concat (err_reads s) @ err_pipe s"
    by (auto simp: bytes_kept_def stdout_written stderr_written)
  have st: "stream (err_reads s) = concat (err_reads s)" "stream (out_reads s) = concat (out_reads s)"
    using assms(2) by (simp_all add: rooms_kept_def stream_concat)
  show "stream (err_reads s) = take (OUTPUT_BUFFER_SIZE - 1) (stderr_of acts)"
    using assms(2,4,6) w(2) st(1) by (auto simp: err_over_def err_room_def rooms_kept_def)
  show "stream (out_reads s) = take (OUTPUT_BUFFER_SIZE - 1 - length (chomp (stream (err_reads s)))) (stdout_of acts)"
    using assms(2,5,6) w(1) st by (auto simp: out_over_def out_room_def rooms_kept_def)
qed

lemma reported_by_itself:
  assumes "pair_reach cap e secs acts s" and "parent_at s = Reported st" and "fate s = Some By_itself"
  shows "stream (err_reads s) = take (OUTPUT_BUFFER_SIZE - 1) (stderr_of acts)"
    "stream (out_reads s) = take (OUTPUT_BUFFER_SIZE - 1 - length (chomp (stream (err_reads s)))) (stdout_of acts)"
    "st = status_of e"
  using all_taken [OF pair_invariant [OF assms(1)] _ _ assms(3)] reported_over [OF assms(1,2)] assms(3)
  by (auto simp: knows_end_def wait_status_def)

text \<open>The answer of a kernel that runs the two processes to the state \<open>p\<close>.\<close>

definition gives_pair :: "kernel \<Rightarrow> act list \<Rightarrow> proc_end \<Rightarrow> nat option \<Rightarrow> test_pair \<Rightarrow> bool" where
  "gives_pair K acts e al p \<longleftrightarrow> pipe_stdout_ok K \<and> pipe_stderr_ok K \<and> fork_ok K \<and>
     (\<exists>cap st. pair_reach cap e al acts p \<and> parent_at p = Reported st \<and>
        run_child K acts e al = (err_reads p, out_reads p, st))"

lemma gives_pair_delivers:
  assumes "gives_pair K acts e al p" and "fate p = Some By_itself" and "stderr_of acts = []"
    and "length (stdout_of acts) < OUTPUT_BUFFER_SIZE" and "case e of Signaled n \<Rightarrow> 0 < n \<and> n < 127 | _ \<Rightarrow> True"
  shows "delivers K acts e al"
proof -
  from assms(1) obtain cap st where p: "pair_reach cap e al acts p" "parent_at p = Reported st"
    "run_child K acts e al = (err_reads p, out_reads p, st)" by (auto simp: gives_pair_def)
  from pair_invariant(3) [OF p(1)] assms(2) have "e \<noteq> Hung" by (simp add: place_kept_def)
  with reported_by_itself [OF p(1,2) assms(2)] p(3) assms show ?thesis
    by (auto simp: delivers_def gives_pair_def chomp_def split: proc_end.splits)
qed

lemma gives_pair_kills:
  assumes "gives_pair K acts e al p" and "fate p = Some Killed" and "stderr_of acts = []"
  shows "kills K acts e al (stream (out_reads p))"
proof -
  from assms(1) obtain cap st where p: "pair_reach cap e al acts p" "parent_at p = Reported st"
    "run_child K acts e al = (err_reads p, out_reads p, st)" by (auto simp: gives_pair_def)
  have "st = 9" using reported_over(3) [OF p(1,2)] assms(2) by (simp add: knows_end_def wait_status_def)
  with pair_streams [OF p(1)] reported_over(4,5) [OF p(1,2)] p(3) assms(1,3) show ?thesis
    by (auto simp: kills_def gives_pair_def)
qed

lemma gives_pair_fate:
  assumes "gives_pair K acts e al p"
  shows "fate p = Some By_itself \<or> fate p = Some Killed"
proof -
  from assms obtain cap st where p: "pair_reach cap e al acts p" "parent_at p = Reported st"
    by (auto simp: gives_pair_def)
  from reported_over(3) [OF this] obtain f where "fate p = Some f" by (auto simp: knows_end_def)
  then show ?thesis by (cases f) simp_all
qed

text \<open>C6: a test in its own process, with the parent, the child and the handler of the alarm taking
  their steps in any order: once the parent reports, it reports the verdict of the test with its messages and its text, or
  an error if the alarm has killed the child, and nothing else of the test is seen by the runner.\<close>

theorem pair_reports_verdict:
  assumes "code_ok E" and "ready s" and "items s test = Some it" and "report_ops s = Some h"
    and "test_spec E (items s) test (user s) = Some (es, u, v)" and "pcut_get_test_timeout it = Some t"
    and "fits es" and "length (stdout_of (forked_acts es)) < BUFFER_SIZE"
    and "case end_of v of Signaled n \<Rightarrow> 0 < n \<and> n < 127 | _ \<Rightarrow> True"
    and "gives_pair K (forked_acts es) (end_of v) (alarm_of t) p"
  shows "\<exists>s' rc e x. pcut_run_test_forking K E test s = (Returned rc, s') \<and>
    trace s' = trace s @ [Out (entry_of h (start_of h (reports_of s)) (item_name it) rc e [] x)] \<and>
    user s' = user s \<and> ready s' \<and>
    (if fate p = Some Killed then rc = PCUT_OUTCOME_INTERNAL_ERROR
     else rc = unix_outcome v \<and> e = error_text (chunks_of es) \<and> x = kept_stdio es)"
proof (cases "fate p = Some Killed")
  case False
  then have itself: "fate p = Some By_itself" using gives_pair_fate [OF assms(10)] by simp
  have "delivers K (forked_acts es) (end_of v) (alarm_of t)"
    by (rule gives_pair_delivers [OF assms(10) itself]) (use assms(7,9) in \<open>auto simp: fits_def\<close>)
  from unix_run [OF assms(1-6) this assms(7)] False show ?thesis by (auto simp: carried_def)
next
  case True
  from gives_pair_kills [OF assms(10) this] assms(7) obtain er ou r where
    run: "run_child K (forked_acts es) (end_of v) (alarm_of t) = (er, ou, 9)" "stream er = []"
    and out: "stdout_of (forked_acts es) = stream ou @ r"
    by (cases "run_child K (forked_acts es) (end_of v) (alarm_of t)") (auto simp: kills_def fits_def)
  have short: "length (stream er) + length (stream ou) < BUFFER_SIZE" using out assms(8) run(2) by simp
  have ok: "pipe_stdout_ok K" "pipe_stderr_ok K" "fork_ok K" using assms(10) by (simp_all add: gives_pair_def)
  have "convert_wait_status_to_outcome 9 = PCUT_OUTCOME_INTERNAL_ERROR" by code_simp
  with any_child_reported [OF assms(1-6) ok run(1) short] True show ?thesis by (auto simp: carried_def)
qed

section \<open>Tests that need no alarm\<close>

text \<open>
  Time may pass without any process doing anything.  A step is busy if it is a step of a process or
  of the handler, or time passes for a child that sleeps.
\<close>

definition sleeping :: "test_pair \<Rightarrow> bool" where
  "sleeping s \<longleftrightarrow> (case todo s of Sleep n # _ \<Rightarrow> 0 < n | _ \<Rightarrow> False) \<and> fate s = None"

definition busy :: "nat \<Rightarrow> proc_end \<Rightarrow> nat option \<Rightarrow> test_pair \<Rightarrow> test_pair \<Rightarrow> bool" where
  "busy cap e secs s s' \<longleftrightarrow> pair_step cap e secs s s' \<and> (s' = second s \<longrightarrow> sleeping s)"

text \<open>The work that is left: every byte is written and read.\<close>

fun act_work :: "act \<Rightarrow> nat" where
  "act_work (Out s) = 2 * length s + 1"
| "act_work (Err s) = 2 * length s + 1"
| "act_work (Sleep n) = n + 1"

fun place_work :: "parent_at \<Rightarrow> nat" where
  "place_work Forked = 6"
| "place_work Reading_stderr = 4"
| "place_work Reading_stdout = 3"
| "place_work Waiting_for_child = 2"
| "place_work (Reaped _) = 1"
| "place_work (Reported _) = 0"

definition work :: "test_pair \<Rightarrow> nat" where
  "work s = sum_list (map act_work (todo s)) + length (out_pipe s) + length (err_pipe s) +
     (if fate s = None then 1 else 0) + (if alarm_at s = None then 0 else 1) + place_work (parent_at s)"

lemma second_now: "s' = second s \<Longrightarrow> now s' = now s + 1"
  by (simp add: second_def)

lemma busy_works:
  assumes "busy cap e secs s s'"
  shows "work s' < work s"
proof -
  from assms have st: "pair_step cap e secs s s'" and sl: "s' = second s \<Longrightarrow> sleeping s" by (auto simp: busy_def)
  from st show ?thesis
  proof (cases rule: pair_step.cases)
    case (alarm t)
    then show ?thesis by (auto simp: kill_child_on_alarm_def work_def split: parent_at.splits)
  next
    case time
    with sl have "sleeping s" by simp
    with time show ?thesis
      by (auto simp: sleeping_def second_def work_def split: list.splits act.splits)
  qed (auto simp: pair_defs work_def)
qed

lemma busyI: "pair_step cap e secs s s' \<Longrightarrow> now s' = now s \<Longrightarrow> busy cap e secs s s'"
  using second_now [of s' s] by (auto simp: busy_def)

lemmas pair_selectors = test_pair.simps

text \<open>If both streams find room, some process can always go on.\<close>

lemma child_goes_on:
  assumes "pair_reach cap e secs acts s" and "fate s = None" and "e \<noteq> Hung"
    and "length (stdout_of acts) \<le> cap" and "\<And>c as. todo s = Err c # as \<Longrightarrow> c \<noteq> [] \<Longrightarrow> length (err_pipe s) < cap"
  shows "\<exists>s'. busy cap e secs s s'"
proof (cases "todo s")
  case Nil
  from busyI [OF pair_step.child_end [OF assms(2) this assms(3)]] show ?thesis by auto
next
  case (Cons a as)
  show ?thesis
  proof (cases "a \<in> {Out [], Err [], Sleep 0}")
    case True
    from busyI [OF pair_step.child_next [OF assms(2) Cons this]] show ?thesis by auto
  next
    case False
    show ?thesis
    proof (cases a)
      case (Out c)
      with False have c: "0 < (1::nat)" "1 \<le> length c" by (cases c; simp)+
      have "length (out_pipe s) + 1 \<le> cap"
        using pair_streams(1) [OF assms(1)] Cons Out c(2) assms(4) by simp
      from busyI [OF pair_step.child_out [OF assms(2) Cons [unfolded Out] c this]] show ?thesis by auto
    next
      case (Err c)
      with False have c: "0 < (1::nat)" "1 \<le> length c" by (cases c; simp)+
      have "length (err_pipe s) + 1 \<le> cap" using assms(5) [of c as] Cons Err False by simp
      from busyI [OF pair_step.child_err [OF assms(2) Cons [unfolded Err] c this]] show ?thesis by auto
    next
      case (Sleep n)
      with False Cons assms(2) have "sleeping s" by (simp add: sleeping_def)
      then show ?thesis by (intro exI [of _ "second s"]) (simp add: busy_def pair_step.time)
    qed
  qed
qed

lemma reader_busy:
  assumes "pair_step cap e secs s s'" and "now s' = now s" and "parent_at s' \<noteq> Forked" and "fate s' = fate s"
  shows "\<exists>s'. busy cap e secs s s' \<and> parent_at s' \<noteq> Forked \<and> fate s' = fate s"
  using busyI [OF assms(1,2)] assms(3,4) by blast

text \<open>The parent goes on once there is something for it.\<close>

lemma reader_goes_on:
  assumes "place_kept e s" and "parent_at s \<noteq> Forked" and "\<And>st. parent_at s \<noteq> Reported st"
    and "fate s \<noteq> None \<or> (\<exists>st. parent_at s = Reaped st) \<or> parent_at s = Reading_stderr \<and> err_pipe s \<noteq> []"
  shows "\<exists>s'. busy cap e secs s s' \<and> parent_at s' \<noteq> Forked \<and> fate s' = fate s"
proof (cases "parent_at s")
  case Reading_stderr
  show ?thesis
  proof (cases "err_pipe s = []")
    case True
    with assms(4) Reading_stderr have f: "fate s \<noteq> None" by auto
    show ?thesis by (rule reader_busy [OF pair_step.err_end [OF Reading_stderr True f]]) (simp_all add: end_of_stderr_def)
  next
    case False
    then have k: "0 < (1::nat)" "1 \<le> length (err_pipe s)" by (cases "err_pipe s"; simp)+
    have r: "1 \<le> err_room s" using assms(1) Reading_stderr by (simp add: place_kept_def)
    show ?thesis by (rule reader_busy [OF pair_step.err_read [OF Reading_stderr k r]]) (simp_all add: read_stderr_def)
  qed
next
  case Reading_stdout
  then have f: "fate s \<noteq> None" using assms(4) by auto
  show ?thesis
  proof (cases "out_room s = 0 \<or> out_pipe s = [] \<and> fate s \<noteq> None")
    case over: True
    show ?thesis by (rule reader_busy [OF pair_step.out_end [OF Reading_stdout over]]) (simp_all add: end_of_stdout_def)
  next
    case False
    with f have k: "0 < (1::nat)" "1 \<le> length (out_pipe s)" "1 \<le> out_room s" by (cases "out_pipe s"; simp)+
    show ?thesis by (rule reader_busy [OF pair_step.out_read [OF Reading_stdout k]]) (simp_all add: read_stdout_def)
  qed
next
  case Waiting_for_child
  then obtain f where f: "fate s = Some f" using assms(4) by auto
  show ?thesis by (rule reader_busy [OF pair_step.reap [OF Waiting_for_child f]]) (simp_all add: wait_child_def)
next
  case (Reaped st)
  show ?thesis by (rule reader_busy [OF pair_step.finish [OF Reaped]]) (simp_all add: alarm_off_def)
qed (use assms(2,3) in auto)

lemma quiet_goes_on:
  assumes "pair_reach cap e secs acts s" and "\<And>st. parent_at s \<noteq> Reported st" and "e \<noteq> Hung" and "0 < cap"
    and "length (stdout_of acts) \<le> cap" and "length (stderr_of acts) < OUTPUT_BUFFER_SIZE + cap"
  shows "\<exists>s'. busy cap e secs s s'"
proof (cases "parent_at s = Forked")
  case True
  from busyI [OF pair_step.start [OF True]] show ?thesis by (auto simp: set_alarm_def)
next
  case False
  show ?thesis
  proof (cases "fate s \<noteq> None \<or> (\<exists>st. parent_at s = Reaped st) \<or> parent_at s = Reading_stderr \<and> err_pipe s \<noteq> []")
    case True
    from reader_goes_on [OF pair_invariant(3) [OF assms(1)] False assms(2) True] show ?thesis by blast
  next
    case stuck: False
    then have f: "fate s = None" by simp
    show ?thesis
    proof (rule child_goes_on [OF assms(1) f assms(3,5)])
      fix c as assume c: "todo s = Err c # as" "c \<noteq> []"
      show "length (err_pipe s) < cap"
      proof (cases "parent_at s = Reading_stderr")
        case True
        with stuck assms(4) show ?thesis by simp
      next
        case nr: False
        then have "err_room s = 0"
          using pair_invariant(3) [OF assms(1)] False stuck f assms(2)
          by (auto simp: place_kept_def err_over_def split: parent_at.splits)
        then have "OUTPUT_BUFFER_SIZE - 1 \<le> length (concat (err_reads s))" by (simp add: err_room_def)
        moreover have "length (concat (err_reads s)) + length (err_pipe s) + length c \<le> length (stderr_of acts)"
          using pair_streams(2) [OF assms(1)] c(1) by simp
        moreover have "0 < length c" using c(2) by simp
        ultimately show ?thesis using assms(6) by arith
      qed
    qed
  qed
qed

lemma busy_reach:
  assumes "(busy cap e secs)\<^sup>*\<^sup>* s s'" and "pair_reach cap e secs acts s"
  shows "pair_reach cap e secs acts s'"
  using assms by (induction rule: rtranclp_induct) (auto simp: busy_def intro: pair_more)

text \<open>C7: a test that comes to an end, whose standard output fits into a pipe and whose standard error text fits into the
  buffer and a pipe, needs no alarm: in every order of the steps the processes are busy only for a limited time,
  and they stop only when the parent has reported.\<close>

theorem quiet_test_finishes:
  assumes "pair_reach cap e secs acts s" and "e \<noteq> Hung" and "0 < cap"
    and "length (stdout_of acts) \<le> cap" and "length (stderr_of acts) < OUTPUT_BUFFER_SIZE + cap"
  shows "(\<nexists>f. f 0 = s \<and> (\<forall>i. busy cap e secs (f i) (f (Suc i)))) \<and>
    (\<forall>s'. (busy cap e secs)\<^sup>*\<^sup>* s s' \<longrightarrow> (\<exists>st. parent_at s' = Reported st) \<or> (\<exists>s''. busy cap e secs s' s''))"
proof
  have "\<nexists>f. \<forall>i. (f (Suc i), f i) \<in> measure work"
    using wf_measure [of work] unfolding wf_iff_no_infinite_down_chain .
  then show "\<nexists>f. f 0 = s \<and> (\<forall>i. busy cap e secs (f i) (f (Suc i)))" using busy_works by fastforce
  show "\<forall>s'. (busy cap e secs)\<^sup>*\<^sup>* s s' \<longrightarrow> (\<exists>st. parent_at s' = Reported st) \<or> (\<exists>s''. busy cap e secs s' s'')"
    using quiet_goes_on [OF busy_reach [OF _ assms(1)] _ assms(2-5)] by blast
qed

theorem quiet_test_finishes_witness:
  "(\<nexists>f. f 0 = forked [Out ''up''] \<and> (\<forall>i. busy 4 (Exited 0) None (f i) (f (Suc i)))) \<and>
   (\<exists>s. busy 4 (Exited 0) None (forked [Out ''up'']) s)"
proof -
  have "\<nexists>st. parent_at (forked [Out ''up'']) = Reported st" by (simp add: forked_def)
  then show ?thesis
    using quiet_test_finishes [OF pair_start [of 4 "Exited 0" None "[Out ''up'']"]] by (auto simp: OUTPUT_BUFFER_SIZE_def)
qed

section \<open>Tests that write too much\<close>

lemma written_append: "written (as @ bs) = written as @ written bs"
  by (induction as rule: written.induct) simp_all

text \<open>As long as nothing is read from the standard output, the child does not get past \<open>as\<close>.\<close>

lemma blocked_output:
  assumes "bytes_kept (as @ bs) s" and "out_reads s = []" and "length (out_pipe s) < length (stdout_of as)"
  shows "length (concat (err_reads s)) + length (err_pipe s) \<le> length (stderr_of as)" "todo s \<noteq> []"
proof -
  from assms(1,2) obtain w where w: "written as @ written bs = w @ written (todo s)"
    "on_stream True w = out_pipe s" "on_stream False w = concat (err_reads s) @ err_pipe s"
    by (auto simp: bytes_kept_def written_append)
  have long: "w \<noteq> written as @ us" for us
  proof
    assume "w = written as @ us"
    with w(2) have "out_pipe s = stdout_of as @ on_stream True us" by (simp add: stdout_written)
    with assms(3) show False by simp
  qed
  from w(1) long obtain us where us: "written as = w @ us" by (auto simp: append_eq_append_conv2)
  then have "stderr_of as = on_stream False w @ on_stream False us" by (simp add: stderr_written)
  with w(3) show "length (concat (err_reads s)) + length (err_pipe s) \<le> length (stderr_of as)" by simp
  show "todo s \<noteq> []" using w(1) long [of "written bs"] by auto
qed

definition held_up :: "test_pair \<Rightarrow> bool" where
  "held_up s \<longleftrightarrow> fate s \<noteq> Some By_itself \<and> (fate s = Some Killed \<or> parent_at s = Forked \<or> parent_at s = Reading_stderr)"

lemma not_by_itself: "f \<noteq> By_itself \<longleftrightarrow> f = Killed"
  by (cases f) simp_all

lemma held_up_step:
  assumes "pair_step cap e secs s s'" and "pair_reach cap e secs (as @ bs) s" and "held_up s"
    and "cap < length (stdout_of as)" and "length (stderr_of as) < OUTPUT_BUFFER_SIZE - 1"
  shows "held_up s'"
proof -
  note inv = pair_invariant [OF assms(2)]
  have small: "length (concat (err_reads s)) + length (err_pipe s) \<le> length (stderr_of as)" "todo s \<noteq> []"
    if "parent_at s = Forked \<or> parent_at s = Reading_stderr"
  proof -
    have "out_reads s = []" "length (out_pipe s) < length (stdout_of as)"
      using that inv(2,3) assms(4) by (auto simp: place_kept_def rooms_kept_def)
    from blocked_output [OF inv(1) this]
    show "length (concat (err_reads s)) + length (err_pipe s) \<le> length (stderr_of as)" "todo s \<noteq> []" .
  qed
  from assms(1) show ?thesis
  proof (cases rule: pair_step.cases)
    case child_end
    with assms(3) small show ?thesis by (auto simp: held_up_def)
  next
    case (err_read k)
    with small assms(5) have "k \<noteq> err_room s" by (simp add: err_room_def)
    with err_read assms(3) show ?thesis by (auto simp: held_up_def read_stderr_def)
  qed (use assms(3) in \<open>auto simp: held_up_def pair_defs not_by_itself split: parent_at.splits\<close>)
qed

lemma held_up_always:
  assumes "pair_reach cap e secs acts s" and "acts = as @ bs"
    and "cap < length (stdout_of as)" and "length (stderr_of as) < OUTPUT_BUFFER_SIZE - 1"
  shows "held_up s"
  using assms(1)
proof (induction rule: pair_reach.induct)
  case pair_start
  show ?case by (simp add: held_up_def forked_def)
next
  case (pair_more s s')
  then show ?case using held_up_step assms(2-4) by blast
qed

lemma no_alarm_no_kill:
  assumes "pair_reach cap e None acts s"
  shows "alarm_at s = None \<and> fate s \<noteq> Some Killed"
  using assms
proof (induction rule: pair_reach.induct)
  case pair_start
  show ?case by (simp add: forked_def)
next
  case (pair_more s s')
  from pair_more.hyps(2) pair_more.IH show ?case by (cases rule: pair_step.cases) (auto simp: pair_defs)
qed

text \<open>C9: a test that writes more to its standard output than a pipe takes, with less than the whole buffer of the parent on
  its standard error stream until then, never comes to its end: the parent reads the standard error stream first,
  and goes on only when the alarm has killed the test.  Without an alarm (a time-out of 0) it waits forever.\<close>

theorem loud_test_only_killed:
  assumes "pair_reach cap e secs (as @ bs) s" and "cap < length (stdout_of as)"
    and "length (stderr_of as) < OUTPUT_BUFFER_SIZE - 1"
  shows "fate s \<noteq> Some By_itself \<and> (fate s = Some Killed \<and> secs \<noteq> None \<or> parent_at s = Forked \<or> parent_at s = Reading_stderr)"
proof -
  from held_up_always [OF assms(1) refl assms(2,3)] have "held_up s" .
  moreover have "secs \<noteq> None" if "fate s = Some Killed" using no_alarm_no_kill [of cap e "as @ bs" s] assms(1) that by (cases secs) auto
  ultimately show ?thesis by (auto simp: held_up_def)
qed

theorem loud_test_only_killed_witness:
  "\<exists>s. pair_reach 1 (Exited 0) (Some 0) [Out ''up''] s \<and> fate s = Some Killed \<and> parent_at s = Reading_stderr"
proof -
  let ?s = "set_alarm (Some 0) (forked [Out ''up''])" and ?e = "Exited 0"
  have "pair_step 1 ?e (Some 0) (forked [Out ''up'']) ?s" by (rule pair_step.start) (simp add: forked_def)
  from pair_more [OF pair_start this] have r: "pair_reach 1 ?e (Some 0) [Out ''up''] ?s" .
  have "pair_step 1 ?e (Some 0) ?s (kill_child_on_alarm ?s)"
    by (rule pair_step.alarm [of _ 0]) (simp_all add: forked_def set_alarm_def)
  from pair_more [OF r this] have k: "pair_reach 1 ?e (Some 0) [Out ''up''] (kill_child_on_alarm ?s)" .
  have "fate (kill_child_on_alarm ?s) \<noteq> Some By_itself"
    using loud_test_only_killed [of 1 ?e "Some 0" "[Out ''up'']" "[]"] k by (simp add: OUTPUT_BUFFER_SIZE_def)
  with k show ?thesis
    by (intro exI [of _ "kill_child_on_alarm ?s"]) (simp add: kill_child_on_alarm_def set_alarm_def forked_def)
qed

section \<open>The alarm\<close>

lemma reach_steps:
  assumes "(pair_step cap e secs)\<^sup>*\<^sup>* s s'" and "pair_reach cap e secs acts s"
  shows "pair_reach cap e secs acts s'"
  using assms by (induction rule: rtranclp_induct) (auto intro: pair_more)

lemma ended_reports:
  assumes "pair_reach cap e secs acts s" and "fate s \<noteq> None" and "parent_at s \<noteq> Forked"
  shows "\<exists>s' st. (pair_step cap e secs)\<^sup>*\<^sup>* s s' \<and> parent_at s' = Reported st \<and> fate s' = fate s"
  using assms
proof (induction "work s" arbitrary: s rule: less_induct)
  case less
  show ?case
  proof (cases "\<exists>st. parent_at s = Reported st")
    case False
    with reader_goes_on [OF pair_invariant(3) [OF less.prems(1)] less.prems(3)] less.prems(2) obtain s1 where
      s1: "busy cap e secs s s1" "parent_at s1 \<noteq> Forked" "fate s1 = fate s" by blast
    then have st: "pair_step cap e secs s s1" by (simp add: busy_def)
    from less.hyps [OF busy_works [OF s1(1)] pair_more [OF less.prems(1) st]] s1 less.prems(2) obtain s' st where
      "(pair_step cap e secs)\<^sup>*\<^sup>* s1 s'" "parent_at s' = Reported st" "fate s' = fate s" by auto
    with converse_rtranclp_into_rtranclp [of "pair_step cap e secs", OF st] show ?thesis by blast
  qed auto
qed

lemma second_same [simp]:
  "now (second s) = Suc (now s)" "parent_at (second s) = parent_at s" "fate (second s) = fate s"
  "alarm_at (second s) = alarm_at s" "strays (second s) = strays s"
  by (simp_all add: second_def)

lemma seconds:
  "(pair_step cap e secs)\<^sup>*\<^sup>* s ((second ^^ m) s)" "now ((second ^^ m) s) = now s + m"
  "parent_at ((second ^^ m) s) = parent_at s" "fate ((second ^^ m) s) = fate s" "alarm_at ((second ^^ m) s) = alarm_at s"
  "strays ((second ^^ m) s) = strays s"
  by (induction m) (auto intro: rtranclp.rtrancl_into_rtrancl pair_step.time)

text \<open>When its time has come the handler runs.\<close>

lemma alarm_comes:
  assumes "alarm_at s = Some d"
  shows "\<exists>s'. (pair_step cap e secs)\<^sup>*\<^sup>* s s' \<and> parent_at s' = parent_at s \<and>
    (if \<exists>st. parent_at s = Reaped st then fate s' = fate s \<and> strays s' = strays s + 1 else fate s' \<noteq> None)"
proof -
  let ?s = "(second ^^ (d - now s)) s"
  have "pair_step cap e secs ?s (kill_child_on_alarm ?s)"
    by (rule pair_step.alarm [of _ d]) (use assms in \<open>simp_all add: seconds\<close>)
  with seconds(1) have "(pair_step cap e secs)\<^sup>*\<^sup>* s (kill_child_on_alarm ?s)" by (rule rtranclp.rtrancl_into_rtrancl)
  then show ?thesis
    by (intro exI [of _ "kill_child_on_alarm ?s"]) (auto simp: kill_child_on_alarm_def seconds split: parent_at.splits)
qed

lemma alarm_set:
  assumes "pair_reach cap e (Some t) acts s"
  shows "parent_at s = Forked \<or> alarm_at s \<noteq> None \<or> fate s \<noteq> None"
  using assms
proof (induction rule: pair_reach.induct)
  case pair_start
  show ?case by (simp add: forked_def)
next
  case (pair_more s s')
  from pair_more.hyps(2) pair_more.IH pair_invariant(3) [OF pair_more.hyps(1)] show ?case
    by (cases rule: pair_step.cases) (auto simp: pair_defs place_kept_def knows_end_def split: parent_at.splits)
qed

text \<open>C8: with an alarm every test can be brought to its end, whatever it does and whatever has happened: there is a run
  in which only time passes, the handler kills the child if it still runs, and the parent reads and reports.\<close>

theorem alarm_ends_test:
  assumes "pair_reach cap e (Some t) acts s"
  shows "\<exists>s' st. (pair_step cap e (Some t))\<^sup>*\<^sup>* s s' \<and> parent_at s' = Reported st"
proof -
  have started: "\<exists>s' st. (pair_step cap e (Some t))\<^sup>*\<^sup>* s s' \<and> parent_at s' = Reported st"
    if r: "pair_reach cap e (Some t) acts s" and p: "parent_at s \<noteq> Forked" for s
  proof (cases "fate s = None")
    case False
    from ended_reports [OF r False p] show ?thesis by blast
  next
    case True
    then have np: "\<nexists>st. parent_at s = Reaped st"
      using pair_invariant(3) [OF r] by (auto simp: place_kept_def knows_end_def)
    from alarm_set [OF r] True p obtain d where "alarm_at s = Some d" by auto
    from alarm_comes [OF this, of cap e "Some t"] np obtain s1 where
      s1: "(pair_step cap e (Some t))\<^sup>*\<^sup>* s s1" "parent_at s1 = parent_at s" "fate s1 \<noteq> None" by auto
    from ended_reports [OF reach_steps [OF s1(1) r] s1(3)] s1(2) p obtain s' st where
      "(pair_step cap e (Some t))\<^sup>*\<^sup>* s1 s'" "parent_at s' = Reported st" by auto
    with s1(1) show ?thesis by (meson rtranclp_trans)
  qed
  show ?thesis
  proof (cases "parent_at s = Forked")
    case False
    from started [OF assms False] show ?thesis .
  next
    case True
    then have st: "pair_step cap e (Some t) s (set_alarm (Some t) s)" by (rule pair_step.start)
    from started [OF pair_more [OF assms st]] obtain s' r where
      "(pair_step cap e (Some t))\<^sup>*\<^sup>* (set_alarm (Some t) s) s'" "parent_at s' = Reported r" by (auto simp: set_alarm_def)
    with converse_rtranclp_into_rtranclp [of "pair_step cap e (Some t)", OF st] show ?thesis by blast
  qed
qed

theorem alarm_ends_test_witness:
  "\<exists>s' st. (pair_step 4 Hung (Some 3))\<^sup>*\<^sup>* (forked [Out ''more than fits'']) s' \<and> parent_at s' = Reported st"
  by (rule alarm_ends_test [OF pair_start])

text \<open>A child that does nothing, up to the call of \<open>wait\<close>.\<close>

definition reaped_nothing :: "nat option \<Rightarrow> test_pair" where
  "reaped_nothing secs = wait_child 0 (end_of_stdout (end_of_stderr ((set_alarm secs (forked []))\<lparr>fate := Some By_itself\<rparr>)))"

lemma reaped_nothing_reach: "pair_reach cap (Exited 0) secs [] (reaped_nothing secs)"
proof -
  let ?R = "pair_reach cap (Exited 0) secs []" and ?S = "pair_step cap (Exited 0) secs"
  let ?a = "set_alarm secs (forked [])"
  let ?b = "?a\<lparr>fate := Some By_itself\<rparr>"
  have "?S (forked []) ?a" by (rule pair_step.start) (simp add: forked_def)
  with pair_start have a: "?R ?a" by (rule pair_more)
  have "?S ?a ?b" by (rule pair_step.child_end) (simp_all add: forked_def set_alarm_def)
  with a have b: "?R ?b" by (rule pair_more)
  have "?S ?b (end_of_stderr ?b)" by (rule pair_step.err_end) (simp_all add: forked_def set_alarm_def)
  with b have c: "?R (end_of_stderr ?b)" by (rule pair_more)
  have "?S (end_of_stderr ?b) (end_of_stdout (end_of_stderr ?b))"
    by (rule pair_step.out_end) (simp_all add: forked_def set_alarm_def end_of_stderr_def)
  with c have d: "?R (end_of_stdout (end_of_stderr ?b))" by (rule pair_more)
  have "?S (end_of_stdout (end_of_stderr ?b)) (wait_child (wait_status (Exited 0) By_itself) (end_of_stdout (end_of_stderr ?b)))"
    by (rule pair_step.reap) (simp_all add: forked_def set_alarm_def end_of_stderr_def end_of_stdout_def)
  then have "?S (end_of_stdout (end_of_stderr ?b)) (wait_child 0 (end_of_stdout (end_of_stderr ?b)))"
    by (simp add: wait_status_def status_of_def)
  with d show ?thesis unfolding reaped_nothing_def by (rule pair_more)
qed

text \<open>C37: the alarm may come after the child was waited for and before it is switched off; the handler then sends the
  signal to the number of a process that does not exist any more, or that by now belongs to another program.\<close>

theorem handler_can_hit_stranger:
  "\<exists>s. pair_reach cap (Exited 0) (Some t) [] s \<and> fate s = Some By_itself \<and> parent_at s = Reaped 0 \<and> strays s = 1"
proof -
  let ?s = "reaped_nothing (Some t)"
  have s: "parent_at ?s = Reaped 0" "alarm_at ?s = Some t" "fate ?s = Some By_itself" "strays ?s = 0"
    by (simp_all add: reaped_nothing_def pair_defs forked_def)
  from alarm_comes [OF s(2), of cap "Exited 0" "Some t"] s reach_steps [OF _ reaped_nothing_reach] show ?thesis by auto
qed

section \<open>A test that does nothing\<close>

lemma nothing_given:
  "gives_pair demo_kernel [] (Exited 0) al (alarm_off 0 (reaped_nothing al))"
proof -
  have "pair_step 1 (Exited 0) al (reaped_nothing al) (alarm_off 0 (reaped_nothing al))"
    by (rule pair_step.finish) (simp add: reaped_nothing_def wait_child_def)
  from pair_more [OF reaped_nothing_reach this]
  have "pair_reach 1 (Exited 0) al [] (alarm_off 0 (reaped_nothing al))" .
  then show ?thesis unfolding gives_pair_def
    by (intro conjI exI [of _ 1] exI [of _ 0])
      (simp_all add: demo_kernel_def status_of_def reaped_nothing_def pair_defs forked_def)
qed

theorem pair_reports_verdict_witness:
  "\<exists>s' e x. pcut_run_test_forking demo_kernel (\<lambda>_ u. Effect [] u U_return) 6
      (main_state demo_fixed ()) = (Returned PCUT_OUTCOME_PASS, s') \<and>
    trace s' = [Out (tap_result ''bad'' 1 PCUT_OUTCOME_PASS e [] x)]"
proof -
  let ?s = "main_state demo_fixed ()"
  let ?E = "\<lambda>_ u :: unit. Effect [] u U_return"
  have E: "code_ok ?E" by (simp add: code_ok_def effect_ok_def end_ok_def)
  have it: "items ?s 6 = Some (the (demo_fixed 6))" using demo_alloc [of 6] by (simp add: demo_order_def)
  have "test_spec ?E demo_fixed 6 () = Some ([Did [], Did [], Did []], (), Passed)" by code_simp
  then have sp: "test_spec ?E (items ?s) 6 (user ?s) = Some ([Did [], Did [], Did []], (), Passed)" by simp
  have t: "pcut_get_test_timeout (the (demo_fixed 6)) = Some 5" by code_simp
  have n: "item_name (the (demo_fixed 6)) = ''bad''" by code_simp
  have s: "trace ?s = []" "test_counter (fst (start_of Report_tap (reports_of ?s))) = 1"
    by (simp_all add: tap_test_start_def tap_zero_def)
  let ?es = "[Did [], Did [], Did []]" and ?p = "alarm_off 0 (reaped_nothing (alarm_of 5))"
  have acts: "forked_acts ?es = []" "end_of Passed = Exited 0"
    by (simp_all add: end_of_def PCUT_OUTCOME_PASS_def)
  have g: "gives_pair demo_kernel (forked_acts ?es) (end_of Passed) (alarm_of 5) ?p"
    unfolding acts by (rule nothing_given)
  have f: "fits ?es" "length (stdout_of (forked_acts ?es)) < BUFFER_SIZE"
    by (simp_all add: fits_def BUFFER_SIZE_def OUTPUT_BUFFER_SIZE_def)
  have k: "fate ?p \<noteq> Some Killed" by (simp add: reaped_nothing_def pair_defs forked_def)
  from pair_reports_verdict [OF E main_state_ready it main_state_simps(2) sp t f _ g] k show ?thesis
    unfolding n s entry_of.simps by (auto simp: acts unix_outcome_def)
qed

end
