(* ===== verification/CustomMain.thy ===== *)
theory CustomMain
  imports DeclProps
begin

text \<open>
  Programs whose main function has extras, \<open>PCUT_CUSTOM_MAIN\<close>: hooks of the user that run before and
  after the arguments are read, and the XML report as the default.  A run of such a program is that
  of the program without them, from the state and with the arguments that the hooks leave.
\<close>

section \<open>The macro\<close>

definition PCUT_CUSTOM_MAIN :: "symbols \<Rightarrow> nat \<Rightarrow> pcut_main_extra list \<Rightarrow> pcut_item option" where
  "PCUT_CUSTOM_MAIN names num mx =
     PCUT_MAIN_WITH_NUMBER names num
       (take 1 (mx @ [PCUT_MAIN_EXTRA_SET_LAST]) @ drop 1 (mx @ [PCUT_MAIN_EXTRA_SET_LAST]))"

section \<open>What the hooks do\<close>

text \<open>
  The hooks before the arguments are read: what they write, the arguments and the report that they
  leave, and the state.  They return; an assertion in a hook is not an assertion of a test.
\<close>

fun returned :: "'u effect \<Rightarrow> (act list \<times> 'u) option" where
  "returned (Effect as u e) = (if e = U_return then Some (as, u) else None)"

lemma returned_Some: "returned x = Some (as, u) \<longleftrightarrow> x = Effect as u U_return"
  by (cases x) auto

fun preinit_spec :: "'u code \<Rightarrow> hooks \<Rightarrow> pcut_main_extra list \<Rightarrow> bytes list \<Rightarrow> handler \<Rightarrow> 'u \<Rightarrow>
    (act list \<times> bytes list \<times> handler \<times> 'u) option" where
  "preinit_spec E H [] argv rp u = None"
| "preinit_spec E H (x # xs) argv rp u =
     (case main_extra_type x of
        PCUT_MAIN_EXTRA_LAST \<Rightarrow> Some ([], argv, rp, u)
      | PCUT_MAIN_EXTRA_REPORT_XML \<Rightarrow> preinit_spec E H xs argv Report_xml u
      | PCUT_MAIN_EXTRA_PREINIT_HOOK \<Rightarrow>
          do { f \<leftarrow> preinit_hook x;
               (as, u) \<leftarrow> returned (E f u);
               (as', argv, rp, u) \<leftarrow> preinit_spec E H xs (H f argv) rp u;
               Some (as @ as', argv, rp, u) }
      | _ \<Rightarrow> preinit_spec E H xs argv rp u)"

fun init_spec :: "'u code \<Rightarrow> pcut_main_extra list \<Rightarrow> 'u \<Rightarrow> (act list \<times> 'u) option" where
  "init_spec E [] u = None"
| "init_spec E (x # xs) u =
     (case main_extra_type x of
        PCUT_MAIN_EXTRA_LAST \<Rightarrow> Some ([], u)
      | PCUT_MAIN_EXTRA_INIT_HOOK \<Rightarrow>
          do { f \<leftarrow> init_hook x;
               (as, u) \<leftarrow> returned (E f u);
               (as', u) \<leftarrow> init_spec E xs u;
               Some (as @ as', u) }
      | _ \<Rightarrow> init_spec E xs u)"

text \<open>The state after hooks that wrote \<open>as\<close> and left \<open>u\<close>.\<close>

definition after_hooks :: "act list \<Rightarrow> handler \<Rightarrow> 'u \<Rightarrow> 'u process \<Rightarrow> 'u process" where
  "after_hooks as rp u s = s\<lparr>trace := trace s @ as, user := u, report_ops := Some rp\<rparr>"

lemma call_returns: "E f (user s) = Effect as u U_return \<Longrightarrow> call_user E f s = (Returned (), do_acts as u s)"
  by (simp add: call_user.simps)

lemma preinit_loop_spec:
  "preinit_spec E H xs argv rp (user s) = Some (as, argv', rp', u) \<Longrightarrow> report_ops s = Some rp \<Longrightarrow>
   preinit_loop E H xs argv s = (Returned argv', after_hooks as rp' u s)"
proof (induction xs arbitrary: argv rp s as)
  case (Cons x xs)
  show ?case
  proof (cases "main_extra_type x")
    case PCUT_MAIN_EXTRA_PREINIT_HOOK
    with Cons.prems(1) obtain f as1 u1 as2 where f: "preinit_hook x = Some f" "E f (user s) = Effect as1 u1 U_return"
      "preinit_spec E H xs (H f argv) rp u1 = Some (as2, argv', rp', u)" "as = as1 @ as2"
      by (auto simp: bind_Some_conv returned_Some)
    have "preinit_loop E H xs (H f argv) (do_acts as1 u1 s) = (Returned argv', after_hooks as2 rp' u (do_acts as1 u1 s))"
      by (rule Cons.IH) (use f(3) Cons.prems(2) in \<open>simp_all add: do_acts_def\<close>)
    with PCUT_MAIN_EXTRA_PREINIT_HOOK f call_returns [of E f s, OF f(2)] show ?thesis
      by (simp add: after_hooks_def do_acts_def)
  next
    case PCUT_MAIN_EXTRA_REPORT_XML
    with Cons.prems(1) Cons.IH [of argv Report_xml "pcut_report_register_handler Report_xml s" as] show ?thesis
      by (simp add: after_hooks_def pcut_report_register_handler_def)
  next
    case PCUT_MAIN_EXTRA_LAST
    with Cons.prems show ?thesis by (auto simp: after_hooks_def intro!: process.equality)
  qed (use Cons in auto)
qed simp

lemma init_loop_spec:
  "init_spec E xs (user s) = Some (as, u) \<Longrightarrow> report_ops s = Some rp \<Longrightarrow>
   init_loop E xs s = (Returned (), after_hooks as rp u s)"
proof (induction xs arbitrary: s as)
  case (Cons x xs)
  show ?case
  proof (cases "main_extra_type x")
    case PCUT_MAIN_EXTRA_INIT_HOOK
    with Cons.prems(1) obtain f as1 u1 as2 where f: "init_hook x = Some f" "E f (user s) = Effect as1 u1 U_return"
      "init_spec E xs u1 = Some (as2, u)" "as = as1 @ as2"
      by (auto simp: bind_Some_conv returned_Some)
    have "init_loop E xs (do_acts as1 u1 s) = (Returned (), after_hooks as2 rp u (do_acts as1 u1 s))"
      by (rule Cons.IH) (use f(3) Cons.prems(2) in \<open>simp_all add: do_acts_def\<close>)
    with PCUT_MAIN_EXTRA_INIT_HOOK f call_returns [of E f s, OF f(2)] show ?thesis
      by (simp add: after_hooks_def do_acts_def)
  next
    case PCUT_MAIN_EXTRA_LAST
    with Cons.prems show ?thesis by (auto simp: after_hooks_def intro!: process.equality)
  qed (use Cons in auto)
qed simp

section \<open>Complete runs\<close>

text \<open>\<open>-x\<close> asks for the XML report, which may be the default already.\<close>

definition final_report :: "handler \<Rightarrow> handler \<Rightarrow> handler" where
  "final_report dflt rp = (if rp = Report_xml then Report_xml else dflt)"

lemma arg_xml:
  "arg_loop (cstr ''-x'' # args) first a b s = arg_loop args first a b (pcut_report_register_handler Report_xml s)"
  using equal_option [of "CHR ''x''"] by (simp add: no_number not_equal_option)

lemma arg_loop_custom:
  assumes "pcut_run_mode s = PCUT_RUN_MODE_FORKING" "report_ops s = Some dflt"
  shows "arg_loop (options rp mode) first a b s =
    (Returned (Some (a, b)), s\<lparr>report_ops := Some (final_report dflt rp), pcut_run_mode := mode\<rparr>)"
proof -
  have same: "s\<lparr>report_ops := Some dflt, pcut_run_mode := PCUT_RUN_MODE_FORKING\<rparr> = s"
    "s\<lparr>report_ops := Some dflt, pcut_run_mode := PCUT_RUN_MODE_SINGLE\<rparr> = s\<lparr>pcut_run_mode := PCUT_RUN_MODE_SINGLE\<rparr>"
    "s\<lparr>report_ops := Some Report_xml, pcut_run_mode := PCUT_RUN_MODE_FORKING\<rparr> = s\<lparr>report_ops := Some Report_xml\<rparr>"
    using assms by (auto intro!: process.equality)
  show ?thesis
    unfolding options_def final_report_def
    by (cases rp; cases mode)
      (simp_all only: same arg_xml arg_single arg_loop.simps(1) append_Cons append_Nil append_Nil2 if_True if_False
        simp_thms handler.distinct run_mode.distinct pcut_report_register_handler_def)
qed

text \<open>The state in which the tests run: the hooks have run, and the arguments were read.\<close>

definition custom_state :: "heap \<Rightarrow> act list \<Rightarrow> handler \<Rightarrow> run_mode \<Rightarrow> 'u \<Rightarrow> 'u process" where
  "custom_state h as rp mode u = (start_state h u)\<lparr>trace := as, report_ops := Some rp, pcut_run_mode := mode\<rparr>"

lemma custom_state_idle: "idle mode rp (custom_state h as rp mode u)"
  using ready_start [of h u] by (simp add: idle_def custom_state_def ready_def buffers_ok_def)

lemma custom_state_simps [simp]:
  "items (custom_state h as rp mode u) = h" "user (custom_state h as rp mode u) = u"
  "trace (custom_state h as rp mode u) = as" "reports_of (custom_state h as rp mode u) = (tap_zero, xml_zero)"
  by (simp_all add: custom_state_def start_state_def reports_of_def)

lemma main_custom:
  assumes "decls_ok h l xs" and lit: "h l = Some lit" "main_extras lit = Some mx"
    and fixl: "pcut_fix_list_get_real_head h l = Some (h1, first)"
    and pre: "preinit_spec E H mx argv Report_tap u = Some (as1, p # options rp mode, dflt, u1)"
    and ini: "init_spec E mx u1 = Some (as2, u2)"
  shows "pcut_main E H forking l argv (start_state h u) =
    run_everything E forking (Some p) (Some first)
      (custom_state (give_hooks h1 (order xs)) (as1 @ as2) (final_report dflt rp) mode u2)"
proof -
  note fl = fix_list_dll [OF assms(1) fixl]
  from fl(4) [OF fl(5) lit(1)] obtain lit' where l: "h1 l = Some lit'" "core lit' = core lit" by blast
  then have lit': "h1 l = Some lit'" "main_extras lit' = Some mx"
    using core_main_extras [OF l(2)] lit(2) by simp_all
  have cb: "set_setup_teardown_callbacks h1 (Some first) = Some (give_hooks h1 (order xs))"
    using set_callbacks_dll [OF fl(1,3)] fl(2) by simp
  have st: "items (start_state h u) = h" "(start_state h u)\<lparr>items := h1\<rparr> = start_state h1 u"
    by (simp_all add: start_state_def)
  define s1 where "s1 = after_hooks as1 dflt u1 (pcut_report_register_handler Report_tap (start_state h1 u))"
  have 1: "preinit_loop E H mx argv (pcut_report_register_handler Report_tap (start_state h1 u)) = (Returned (p # options rp mode), s1)"
    unfolding s1_def by (rule preinit_loop_spec)
      (use pre in \<open>simp_all add: pcut_report_register_handler_def start_state_def\<close>)
  have s1: "pcut_run_mode s1 = PCUT_RUN_MODE_FORKING" "report_ops s1 = Some dflt" "items s1 = h1" "user s1 = u1"
    by (simp_all add: s1_def after_hooks_def pcut_report_register_handler_def start_state_def)
  define s2 where "s2 = s1\<lparr>report_ops := Some (final_report dflt rp), pcut_run_mode := mode\<rparr>"
  have 2: "arg_loop (options rp mode) (Some first) (-1) (-1) s1 = (Returned (Some (-1, -1)), s2)"
    unfolding s2_def by (rule arg_loop_custom [OF s1(1,2)])
  define s3 where "s3 = s2\<lparr>items := give_hooks h1 (order xs)\<rparr>"
  have 3: "init_loop E mx s3 = (Returned (), after_hooks as2 (final_report dflt rp) u2 s3)"
    by (rule init_loop_spec) (use ini s1(4) in \<open>simp_all add: s3_def s2_def\<close>)
  have 4: "after_hooks as2 (final_report dflt rp) u2 s3 =
      custom_state (give_hooks h1 (order xs)) (as1 @ as2) (final_report dflt rp) mode u2"
    by (simp add: s3_def s2_def s1_def after_hooks_def custom_state_def pcut_report_register_handler_def start_state_def)
  have i2: "items s2 = h1" using s1(3) by (simp add: s2_def)
  show ?thesis
    using fixl lit' 1 2 3 4 cb i2
    by (simp add: pcut_main_def st lift_opt_def run_selected_def s3_def [symmetric])
qed

context launcher begin

lemma main_custom_spec:
  assumes decls: "decls_ok h l xs" and lit: "h l = Some lit" "main_extras lit = Some mx"
    and fixl: "pcut_fix_list_get_real_head h l = Some (h1, first)"
    and path: "prog_path = Some p"
    and pre: "preinit_spec E H mx argv Report_tap u = Some (as1, p # options rp mode, dflt, u1)"
    and ini: "init_spec E mx u1 = Some (as2, u2)"
    and spec: "run_spec answer (final_report dflt rp) (give_hooks h1 (order xs)) (order xs) (tap_zero, xml_zero) u2 = Some (acts, u', ok)"
  shows "\<exists>s'. pcut_main E H forking l argv (start_state h u) =
      Some (Returned (if ok then PCUT_OUTCOME_PASS else PCUT_OUTCOME_FAIL), s') \<and>
    trace s' = as1 @ as2 @ acts \<and> user s' = u'"
proof -
  note fl = fix_list_dll [OF decls fixl]
  let ?h = "give_hooks h1 (order xs)" and ?rp = "final_report dflt rp"
  have dll: "dll (items (custom_state ?h (as1 @ as2) ?rp mode u2)) None (order xs) None"
    using fl(1) by (simp add: dll_give_hooks)
  from run_everything_spec [OF custom_state_idle dll, of acts u' ok] spec
    main_custom [OF decls lit fixl pre ini, of forking] path fl(2)
  show ?thesis by auto
qed

end

text \<open>A program with extras over a launcher of tests that leave the runner alone, from its macro uses to the last line of the report.\<close>

context isolated_launcher begin

lemma custom_document:
  assumes "program ds mx = Some (h, l, xs)" and "pcut_fix_list_get_real_head h l = Some (h1, first)" and path: "prog_path = Some p"
    and "preinit_spec E H mx argv Report_tap u = Some (as1, p # options rp mode, dflt, u1)"
    and "init_spec E mx u1 = Some (as2, u2)"
    and "suite_results answer (give_hooks h1 (order xs)) u2 (suites_of (give_hooks h1 (order xs)) (order xs)) = Some rss"
  shows "\<exists>s'. pcut_main E H forking l argv (start_state h u) =
      Some (Returned (if list_all passed (all_results rss) then PCUT_OUTCOME_PASS else PCUT_OUTCOME_FAIL), s') \<and>
    stdout_of (trace s') = stdout_of (as1 @ as2) @ document (final_report dflt rp) rss \<and> user s' = u2"
proof -
  from program_ok(3) [OF assms(1)] obtain it where it: "h l = Some it" "main_extras it = Some mx" by blast
  from first_suite [OF assms(1,2)] run_results [OF assms(6) tests_announced [OF assms(6)]] obtain acts where
    acts: "run_spec answer (final_report dflt rp) (give_hooks h1 (order xs)) (order xs) (tap_zero, xml_zero) u2 =
       Some (acts, u2, list_all passed (all_results rss))" "stdout_of acts = document (final_report dflt rp) rss" by blast
  from main_custom_spec [OF program_ok(1) [OF assms(1)] it assms(2) path assms(4,5) acts(1)] acts(2)
  show ?thesis by auto
qed

text \<open>The same for the plain main function.\<close>

lemma plain_document:
  assumes "program ds [PCUT_MAIN_EXTRA_SET_LAST] = Some (h, l, xs)" and "pcut_fix_list_get_real_head h l = Some (h1, first)"
    and "prog_path = Some p"
    and "suite_results answer (give_hooks h1 (order xs)) u (suites_of (give_hooks h1 (order xs)) (order xs)) = Some rss"
  shows "\<exists>s'. pcut_main E H forking l (p # options rp mode) (start_state h u) =
      Some (Returned (if list_all passed (all_results rss) then PCUT_OUTCOME_PASS else PCUT_OUTCOME_FAIL), s') \<and>
    stdout_of (trace s') = document rp rss \<and> user s' = u"
proof -
  have plain: "preinit_spec E H [PCUT_MAIN_EXTRA_SET_LAST] argv Report_tap u = Some ([], argv, Report_tap, u)"
    "init_spec E [PCUT_MAIN_EXTRA_SET_LAST] u = Some ([], u)" for argv
    by (simp_all add: PCUT_MAIN_EXTRA_SET_LAST_def)
  have rp: "final_report Report_tap rp = rp" by (cases rp) (simp_all add: final_report_def)
  from custom_document [OF assms(1-3) plain assms(4), where rp = rp] show ?thesis unfolding rp by simp
qed

end

lemma main_prints_document:
  assumes "program ds mx = Some (h, l, xs)" and "pcut_fix_list_get_real_head h l = Some (h1, first)"
    and "preinit_spec E H mx argv Report_tap u = Some (as1, p # options rp PCUT_RUN_MODE_FORKING, dflt, u1)"
    and "init_spec E mx u1 = Some (as2, u2)"
    and "suite_results (unix_answer K E) (give_hooks h1 (order xs)) u2 (suites_of (give_hooks h1 (order xs)) (order xs)) = Some rss"
  shows "\<exists>s'. pcut_main E H (\<lambda>_. pcut_run_test_forking K E) l argv (start_state h u) =
      Some (Returned (if list_all passed (all_results rss) then PCUT_OUTCOME_PASS else PCUT_OUTCOME_FAIL), s') \<and>
    stdout_of (trace s') = stdout_of (as1 @ as2) @ document (final_report dflt rp) rss \<and> user s' = u2"
  by (rule isolated.custom_document [OF assms(1,2) refl assms(3-5)])

text \<open>C13: a program with extras for its main function prints what its hooks write and then the report of its
  tests, each of them run from the state that the hooks have left; the arguments are those that the hooks
  before the arguments are read have left, and the report is XML if the program or an argument asks for it.
  The hooks that run later see what the earlier ones did, and a hook runs once in the runner, not again for every test.\<close>

theorem custom_main_prints:
  assumes "program ds mx = Some (h, l, xs)" and "pcut_fix_list_get_real_head h l = Some (h1, first)"
    and "preinit_spec E H mx argv Report_tap u = Some (as1, p # options rp PCUT_RUN_MODE_FORKING, dflt, u1)"
    and "init_spec E mx u1 = Some (as2, u2)"
    and "suite_results (unix_answer K E) (give_hooks h1 (order xs)) u2 (suites_of (give_hooks h1 (order xs)) (order xs)) = Some rss"
  shows "\<exists>s'. pcut_main E H (\<lambda>_. pcut_run_test_forking K E) l argv (start_state h u) =
      Some (Returned (if list_all passed (all_results rss) then PCUT_OUTCOME_PASS else PCUT_OUTCOME_FAIL), s') \<and>
    stdout_of (trace s') = stdout_of (as1 @ as2) @ document (final_report dflt rp) rss \<and> user s' = u2"
  by (rule main_prints_document [OF assms])

definition tiny_main :: "pcut_main_extra list" where
  "tiny_main = [PCUT_MAIN_SET_INIT_HOOK 100, PCUT_MAIN_SET_XML_REPORT, PCUT_MAIN_EXTRA_SET_LAST]"

theorem custom_main_prints_witness:
  "\<exists>h l xs s'. program [D_test ''good'' 102 []] tiny_main = Some (h, l, xs) \<and>
     pcut_main demo_code (\<lambda>_ a. a) (\<lambda>_. pcut_run_test_forking demo_kernel demo_code) l [cstr ''prog''] (start_state h 0) =
       Some (Returned PCUT_OUTCOME_PASS, s') \<and> user s' = 1 \<and>
     stdout_of (trace s') = ''up'' @ ''<?xml version='' @ [DQ] @ ''1.0'' @ [DQ] @ ''?>'' @ [NL] @
       ''<report tests-total='' @ [DQ] @ ''1'' @ [DQ] @ ''>'' @ [NL] @
       [TAB] @ ''<suite name='' @ [DQ] @ ''Default'' @ [DQ] @ ''>'' @ [NL] @
       [TAB, TAB] @ ''<testcase name='' @ [DQ] @ ''good'' @ [DQ] @ '' status='' @ [DQ] @ ''pass'' @ [DQ] @ ''>'' @ [NL] @
       [TAB, TAB, TAB] @ ''<standard-output><![CDATA[work'' @ [NL] @ '']]'' @ ''></standard-output>'' @ [NL] @
       [TAB, TAB] @ ''</testcase><!-- good -->'' @ [NL] @
       [TAB] @ ''</suite><!-- Default: 0 / 1 -->'' @ [NL] @ ''</report>'' @ [NL]"
proof -
  let ?ds = "[D_test ''good'' 102 []]"
  define r where "r = the (program ?ds tiny_main)"
  obtain h l xs where r: "r = (h, l, xs)" by (cases r) auto
  have "program ?ds tiny_main \<noteq> None" unfolding program_limit by simp
  then have p: "program ?ds tiny_main = Some (h, l, xs)" using r by (auto simp: r_def)
  from fix_list_correct [OF program_ok(1) [OF p]] obtain h1 where
    fixl: "pcut_fix_list_get_real_head h l = Some (h1, hd (order xs))" by (auto simp: fix_ok_def)
  let ?rss = "[(''Default'', [(''good'', PCUT_OUTCOME_PASS, [], [], ''work'')])]"
  have "do { (h, l, xs) \<leftarrow> program ?ds tiny_main;
             (h1, first) \<leftarrow> pcut_fix_list_get_real_head h l;
             suite_results (unix_promise demo_kernel demo_code) (give_hooks h1 (order xs)) 1
               (suites_of (give_hooks h1 (order xs)) (order xs)) } = Some ?rss" by code_simp
  then have res: "suite_results (unix_answer demo_kernel demo_code) (give_hooks h1 (order xs)) 1
      (suites_of (give_hooks h1 (order xs)) (order xs)) = Some ?rss"
    using p fixl by (auto simp: bind_Some_conv unix_answer_def demo_code_ok)
  have pre: "preinit_spec demo_code (\<lambda>_ a. a) tiny_main [cstr ''prog''] Report_tap 0 =
      Some ([], cstr ''prog'' # options Report_tap PCUT_RUN_MODE_FORKING, Report_xml, 0)" by code_simp
  have ini: "init_spec demo_code tiny_main 0 = Some ([Out ''up''], 1)" by code_simp
  have doc: "document (final_report Report_xml Report_tap) ?rss = ''<?xml version='' @ [DQ] @ ''1.0'' @ [DQ] @ ''?>'' @ [NL] @
       ''<report tests-total='' @ [DQ] @ ''1'' @ [DQ] @ ''>'' @ [NL] @
       [TAB] @ ''<suite name='' @ [DQ] @ ''Default'' @ [DQ] @ ''>'' @ [NL] @
       [TAB, TAB] @ ''<testcase name='' @ [DQ] @ ''good'' @ [DQ] @ '' status='' @ [DQ] @ ''pass'' @ [DQ] @ ''>'' @ [NL] @
       [TAB, TAB, TAB] @ ''<standard-output><![CDATA[work'' @ [NL] @ '']]'' @ ''></standard-output>'' @ [NL] @
       [TAB, TAB] @ ''</testcase><!-- good -->'' @ [NL] @
       [TAB] @ ''</suite><!-- Default: 0 / 1 -->'' @ [NL] @ ''</report>'' @ [NL]" by code_simp
  have "list_all passed (all_results ?rss)" by code_simp
  with custom_main_prints [OF p fixl pre ini res] doc p show ?thesis by auto
qed

end
