(* ===== verification/AnyChild.thy ===== *)
theory AnyChild
  imports PipeProps CustomMain
begin

text \<open>
  Complete runs on Unix whatever the children do and whatever the kernel delivers of it: tests that are
  killed by their alarm, texts on both streams, output that was cut.  The parent reports the status
  of the child and what its parser finds.  With the processes of \<open>Pipes\<close> as the kernel this gives what a
  whole program prints when every test runs in a child that is interleaved with its parent and its alarm.
\<close>

section \<open>The launcher for any kernel\<close>

text \<open>The outcome, the messages and the text that are reported for a child.\<close>

definition raw_result :: "kernel \<Rightarrow> act list \<Rightarrow> proc_end \<Rightarrow> nat option \<Rightarrow> (int \<times> string \<times> string) option" where
  "raw_result K acts e al =
     (if pipe_stdout_ok K \<and> pipe_stderr_ok K \<and> fork_ok K
      then (case run_child K acts e al of
              (er, ou, st) \<Rightarrow> map_option (\<lambda>(e, x). (convert_wait_status_to_outcome st, e, x)) (raw_texts er ou))
      else None)"

lemma raw_result_Some:
  "raw_result K acts ce al = Some (outcome, e, x) \<longleftrightarrow> pipe_stdout_ok K \<and> pipe_stderr_ok K \<and> fork_ok K \<and>
     (\<exists>er ou st. run_child K acts ce al = (er, ou, st) \<and> raw_texts er ou = Some (e, x) \<and> outcome = convert_wait_status_to_outcome st)"
  by (auto simp: raw_result_def split: prod.splits)

definition raw_promise :: "kernel \<Rightarrow> 'u code \<Rightarrow> heap \<Rightarrow> addr \<Rightarrow> 'u \<Rightarrow> 'u answer option" where
  "raw_promise K E h test u =
     do { (es, _, v) \<leftarrow> test_spec E h test u;
          it \<leftarrow> h test;
          t \<leftarrow> pcut_get_test_timeout it;
          (outcome, e, x) \<leftarrow> raw_result K (forked_acts es) (end_of v) (alarm_of t);
          Some ([], u, outcome, e, [], x) }"

definition raw_answer :: "kernel \<Rightarrow> 'u code \<Rightarrow> heap \<Rightarrow> addr \<Rightarrow> 'u \<Rightarrow> 'u answer option" where
  "raw_answer K E = (if code_ok E then raw_promise K E else (\<lambda>_ _ _. None))"

lemma raw_answer_Some:
  "raw_answer K E h test u = Some (acts, u', outcome, e, t, x) \<longleftrightarrow>
     code_ok E \<and> pipe_stdout_ok K \<and> pipe_stderr_ok K \<and> fork_ok K \<and>
     (\<exists>es w v it tm er ou st. test_spec E h test u = Some (es, w, v) \<and> h test = Some it \<and> pcut_get_test_timeout it = Some tm \<and>
        run_child K (forked_acts es) (end_of v) (alarm_of tm) = (er, ou, st) \<and> raw_texts er ou = Some (e, x) \<and>
        acts = [] \<and> u' = u \<and> outcome = convert_wait_status_to_outcome st \<and> t = [])"
  by (auto simp: raw_answer_def raw_promise_def bind_Some_conv raw_result_Some)

interpretation any_child: isolated_launcher E "\<lambda>_. pcut_run_test_forking K E" path PCUT_RUN_MODE_FORKING "raw_answer K E"
  for E :: "'u code" and K path
proof
  fix s :: "'u process" and test it h acts u outcome e t x
  assume a: "ready s" "items s test = Some it" "report_ops s = Some h"
    "raw_answer K E (items s) test (user s) = Some (acts, u, outcome, e, t, x)"
  then obtain es w v tm er ou st where v: "code_ok E" "pipe_stdout_ok K" "pipe_stderr_ok K" "fork_ok K"
    "test_spec E (items s) test (user s) = Some (es, w, v)" "pcut_get_test_timeout it = Some tm"
    "run_child K (forked_acts es) (end_of v) (alarm_of tm) = (er, ou, st)" "raw_texts er ou = Some (e, x)"
    "acts = []" "u = user s" "outcome = convert_wait_status_to_outcome st" "t = []"
    by (auto simp: raw_answer_Some)
  from raw_run [OF v(1) a(1-3) v(5,6,2-4,7,8)] v(9-12)
  show "\<exists>s'. (if PCUT_RUN_MODE_FORKING = PCUT_RUN_MODE_FORKING then pcut_run_test_forking K E test s
         else pcut_run_test_single E test s) = (Returned outcome, s') \<and>
       trace s' = trace s @ acts @ [Out (entry_of h (start_of h (reports_of s)) (item_name it) outcome e t x)] \<and>
       reports_of s' = count_of h outcome (start_of h (reports_of s)) \<and> user s' = u \<and> carried s s'"
    by auto
qed (auto simp: raw_answer_Some)

section \<open>Children that are interleaved with their parent\<close>

text \<open>The kernel runs the processes of a test to the state \<open>p\<close>.\<close>

definition ran_in_pair :: "kernel \<Rightarrow> 'u code \<Rightarrow> heap \<Rightarrow> 'u \<Rightarrow> addr \<Rightarrow> test_pair \<Rightarrow> bool" where
  "ran_in_pair K E h u test p \<longleftrightarrow>
     (\<exists>it t es u' v. h test = Some it \<and> pcut_get_test_timeout it = Some t \<and> test_spec E h test u = Some (es, u', v) \<and>
        fits es \<and> length (stdout_of (forked_acts es)) < BUFFER_SIZE \<and>
        (case end_of v of Signaled n \<Rightarrow> 0 < n \<and> n < 127 | _ \<Rightarrow> True) \<and>
        gives_pair K (forked_acts es) (end_of v) (alarm_of t) p)"

text \<open>The result for it: the verdict of the test with its messages and its text, or an error if the alarm has killed it.\<close>

fun result_of_pair :: "'u code \<Rightarrow> heap \<Rightarrow> 'u \<Rightarrow> addr \<Rightarrow> test_pair \<Rightarrow> test_result \<Rightarrow> bool" where
  "result_of_pair E h u test p (test_name, outcome, e, t, x) \<longleftrightarrow>
     (\<exists>it es u' v. h test = Some it \<and> test_spec E h test u = Some (es, u', v) \<and> test_name = item_name it \<and> t = [] \<and>
        (if fate p = Some Killed then outcome = PCUT_OUTCOME_INTERNAL_ERROR
         else outcome = unix_outcome v \<and> e = error_text (chunks_of es) \<and> x = kept_stdio es))"

lemma pair_answer:
  assumes "ran_in_pair K E h u test p" and "code_ok E"
  obtains it outcome e x where "h test = Some it" "raw_answer K E h test u = Some ([], u, outcome, e, [], x)"
    "result_of_pair E h u test p (item_name it, outcome, e, [], x)"
proof -
  from assms(1) obtain it t es u' v where a: "h test = Some it" "pcut_get_test_timeout it = Some t"
    "test_spec E h test u = Some (es, u', v)" "fits es" "length (stdout_of (forked_acts es)) < BUFFER_SIZE"
    "case end_of v of Signaled n \<Rightarrow> 0 < n \<and> n < 127 | _ \<Rightarrow> True"
    "gives_pair K (forked_acts es) (end_of v) (alarm_of t) p" by (auto simp: ran_in_pair_def)
  obtain er ou st where run: "run_child K (forked_acts es) (end_of v) (alarm_of t) = (er, ou, st)" by (metis prod_cases3)
  have ok: "pipe_stdout_ok K" "pipe_stderr_ok K" "fork_ok K" using a(7) by (simp_all add: gives_pair_def)
  have no_err: "stderr_of (forked_acts es) = []" using a(4) by (simp add: fits_def)
  have ans: "raw_answer K E h test u = Some ([], u, convert_wait_status_to_outcome st, e, [], x)"
    if "raw_texts er ou = Some (e, x)" for e x
    using that run ok a(1-3) assms(2) by (auto simp: raw_answer_Some)
  show ?thesis
  proof (cases "fate p = Some Killed")
    case True
    from gives_pair_kills [OF a(7) this no_err] run obtain r where
      "st = 9" "stream er = []" "stdout_of (forked_acts es) = stream ou @ r" by (auto simp: kills_def)
    with a(5) have "st = 9" "length (stream er) + length (stream ou) < BUFFER_SIZE" by simp_all
    moreover have "convert_wait_status_to_outcome 9 = PCUT_OUTCOME_INTERNAL_ERROR" by code_simp
    ultimately show ?thesis using short_raw_texts [of er ou] that [OF a(1) ans] a(1,3) True by auto
  next
    case False
    then have "fate p = Some By_itself" using gives_pair_fate [OF a(7)] by simp
    from gives_pair_delivers [OF a(7) this no_err] a(4,6) run
    have d: "stream er = []" "stream ou = stdout_of (forked_acts es)" "convert_wait_status_to_outcome st = unix_outcome v"
      using status_outcome [of v] no_err by (auto simp: delivers_def fits_def)
    from that [OF a(1) ans [OF raw_texts_fits [OF a(4) d(1,2)]]] a(1,3) False d(3) show ?thesis by auto
  qed
qed

lemma pair_results:
  assumes "code_ok E" and "list_all (\<lambda>test. ran_in_pair K E h u test (p test)) tests"
  shows "\<exists>rs. results (raw_answer K E) h u tests = Some rs \<and> list_all2 (\<lambda>test r. result_of_pair E h u test (p test) r) tests rs"
  using assms(2)
proof (induction tests)
  case (Cons test tests)
  then obtain rs where rs: "results (raw_answer K E) h u tests = Some rs"
    "list_all2 (\<lambda>test r. result_of_pair E h u test (p test) r) tests rs" by auto
  from Cons.prems have "ran_in_pair K E h u test (p test)" by simp
  from this assms(1) obtain it outcome e x where "h test = Some it" "raw_answer K E h test u = Some ([], u, outcome, e, [], x)"
    "result_of_pair E h u test (p test) (item_name it, outcome, e, [], x)"
    by (rule pair_answer)
  with rs show ?case by (auto simp: bind_Some_conv)
qed simp

definition suite_result_of_pairs :: "'u code \<Rightarrow> heap \<Rightarrow> 'u \<Rightarrow> (addr \<Rightarrow> test_pair) \<Rightarrow> addr \<times> addr list \<Rightarrow> string \<times> test_result list \<Rightarrow> bool" where
  "suite_result_of_pairs E h u p s r \<longleftrightarrow> map_option item_name (h (fst s)) = Some (fst r) \<and>
     list_all2 (\<lambda>test r. result_of_pair E h u test (p test) r) (snd s) (snd r)"

lemma pair_suite_results:
  assumes "code_ok E" and "\<And>suite tests. (suite, tests) \<in> set ss \<Longrightarrow> h suite \<noteq> None \<and> list_all (\<lambda>test. ran_in_pair K E h u test (p test)) tests"
  shows "\<exists>rss. suite_results (raw_answer K E) h u ss = Some rss \<and> list_all2 (suite_result_of_pairs E h u p) ss rss"
  using assms(2)
proof (induction ss)
  case (Cons s ss)
  obtain suite tests where s: "s = (suite, tests)" by (cases s)
  from Cons obtain rss where rss: "suite_results (raw_answer K E) h u ss = Some rss" "list_all2 (suite_result_of_pairs E h u p) ss rss"
    by auto
  from Cons.prems [of suite tests] s obtain it where it: "h suite = Some it" and t: "list_all (\<lambda>test. ran_in_pair K E h u test (p test)) tests"
    by auto
  from pair_results [OF assms(1) t] obtain rs where "results (raw_answer K E) h u tests = Some rs"
    "list_all2 (\<lambda>test r. result_of_pair E h u test (p test) r) tests rs" by blast
  moreover from this it have "suite_result_of_pairs E h u p (suite, tests) (item_name it, rs)"
    by (simp add: suite_result_of_pairs_def)
  ultimately show ?case using rss it s by auto
qed simp

lemma suites_of_members:
  "(suite, tests) \<in> set (suites_of h as) \<Longrightarrow> is_suite h suite \<and> (\<forall>test \<in> set tests. test \<in> set as \<and> is_test h test)"
  by (induction h as rule: suites_of.induct)
    (auto split: if_splits dest: set_takeWhileD set_dropWhileD)

text \<open>C5: a whole program on Unix, each of its tests in a child that is interleaved with the parent and with the handler of the
  alarm in any way: the program prints the report of results that belong to its suites and tests in their
  order, each the verdict of the test with its messages and its text, or an error if its alarm has killed it, and
  returns whether all tests passed.  No test has an effect on another.\<close>

theorem interleaved_run:
  assumes "program ds [PCUT_MAIN_EXTRA_SET_LAST] = Some (h, l, xs)"
    and "pcut_fix_list_get_real_head h l = Some (h1, first)" and "code_ok E"
    and "\<And>test. test \<in> set (order xs) \<Longrightarrow> is_test (give_hooks h1 (order xs)) test \<Longrightarrow>
           ran_in_pair K E (give_hooks h1 (order xs)) u test (p test)"
  shows "\<exists>s' rss. pcut_main E H (\<lambda>_. pcut_run_test_forking K E) l (self # options rp PCUT_RUN_MODE_FORKING) (start_state h u) =
      Some (Returned (if list_all passed (all_results rss) then PCUT_OUTCOME_PASS else PCUT_OUTCOME_FAIL), s') \<and>
    stdout_of (trace s') = document rp rss \<and> user s' = u \<and>
    list_all2 (suite_result_of_pairs E (give_hooks h1 (order xs)) u p) (suites_of (give_hooks h1 (order xs)) (order xs)) rss"
proof -
  let ?h = "give_hooks h1 (order xs)"
  have "?h suite \<noteq> None \<and> list_all (\<lambda>test. ran_in_pair K E ?h u test (p test)) tests"
    if "(suite, tests) \<in> set (suites_of ?h (order xs))" for suite tests
    using suites_of_members [OF that] assms(4)
    by (auto simp: is_suite_def kind_at_def list_all_iff split: option.splits)
  from pair_suite_results [OF assms(3) this] obtain rss where rss:
    "suite_results (raw_answer K E) ?h u (suites_of ?h (order xs)) = Some rss"
    "list_all2 (suite_result_of_pairs E ?h u p) (suites_of ?h (order xs)) rss" by blast
  from any_child.plain_document [OF assms(1,2) refl rss(1)] rss(2) show ?thesis by blast
qed

text \<open>A program with one test that does nothing.\<close>

definition idle_program :: "decl list" where
  "idle_program = [D_test ''idle'' 1 []]"

definition idle_code :: "unit code" where
  "idle_code f u = Effect [] u U_return"

lemma idle_test:
  "do { (h, l, xs) \<leftarrow> program idle_program [PCUT_MAIN_EXTRA_SET_LAST];
        (h1, first) \<leftarrow> pcut_fix_list_get_real_head h l;
        let h2 = give_hooks h1 (order xs);
        Some (filter (is_test h2) (order xs), map_option (\<lambda>it. (pcut_get_test_timeout it, item_name it)) (h2 2),
          test_spec idle_code h2 2 (), suites_of h2 (order xs), map_option item_name (h2 1)) } =
   Some ([2], Some (Some 3, ''idle''), Some ([Did [], Did [], Did []], (), Passed), [(1, [2])], Some ''Default'')"
  by code_simp

theorem interleaved_run_witness:
  "\<exists>h l xs s' e x. program idle_program [PCUT_MAIN_EXTRA_SET_LAST] = Some (h, l, xs) \<and>
     pcut_main idle_code (\<lambda>_ a. a) (\<lambda>_. pcut_run_test_forking demo_kernel idle_code) l [cstr ''prog''] (start_state h ()) =
       Some (Returned PCUT_OUTCOME_PASS, s') \<and>
     stdout_of (trace s') = document Report_tap [(''Default'', [(''idle'', PCUT_OUTCOME_PASS, [], [], [])])]"
proof -
  define r where "r = the (program idle_program [PCUT_MAIN_EXTRA_SET_LAST])"
  obtain h l xs where r: "r = (h, l, xs)" by (cases r) auto
  have "program idle_program [PCUT_MAIN_EXTRA_SET_LAST] \<noteq> None" unfolding program_limit by (simp add: idle_program_def)
  then have p: "program idle_program [PCUT_MAIN_EXTRA_SET_LAST] = Some (h, l, xs)" using r by (auto simp: r_def)
  from fix_list_correct [OF program_ok(1) [OF p]] obtain h1 where
    fixl: "pcut_fix_list_get_real_head h l = Some (h1, hd (order xs))" by (auto simp: fix_ok_def)
  let ?h = "give_hooks h1 (order xs)" and ?p = "\<lambda>_. alarm_off 0 (reaped_nothing (alarm_of 3))"
  from idle_test obtain it where h: "filter (is_test ?h) (order xs) = [2]" "?h 2 = Some it" "pcut_get_test_timeout it = Some 3"
    "item_name it = ''idle''" "test_spec idle_code ?h 2 () = Some ([Did [], Did [], Did []], (), Passed)"
    "suites_of ?h (order xs) = [(1, [2])]" "map_option item_name (?h 1) = Some ''Default''"
    by (auto simp: p fixl Let_def)
  have E: "code_ok idle_code" by (simp add: code_ok_def effect_ok_def end_ok_def idle_code_def)
  have es: "forked_acts [Did [], Did [], Did []] = []" "end_of Passed = Exited 0" "unix_outcome Passed = PCUT_OUTCOME_PASS"
    by (simp_all add: end_of_def PCUT_OUTCOME_PASS_def unix_outcome_def)
  have "ran_in_pair demo_kernel idle_code ?h () test (?p test)" if "test \<in> set (order xs)" "is_test ?h test" for test
  proof -
    have "test \<in> set (filter (is_test ?h) (order xs))" using that by simp
    then have "test = 2" by (simp add: h(1))
    with h(2,3,5) es nothing_given [of "alarm_of 3"] show ?thesis
      by (auto simp: ran_in_pair_def fits_def BUFFER_SIZE_def OUTPUT_BUFFER_SIZE_def)
  qed
  from interleaved_run [OF p fixl E this, of "\<lambda>_ a. a" "cstr ''prog''" Report_tap] obtain s' rss where
    s': "pcut_main idle_code (\<lambda>_ a. a) (\<lambda>_. pcut_run_test_forking demo_kernel idle_code) l [cstr ''prog''] (start_state h ()) =
      Some (Returned (if list_all passed (all_results rss) then PCUT_OUTCOME_PASS else PCUT_OUTCOME_FAIL), s')"
    "stdout_of (trace s') = document Report_tap rss" "list_all2 (suite_result_of_pairs idle_code ?h () ?p) [(1, [2])] rss"
    by (auto simp: options_def h(6))
  have k: "fate (?p 2) \<noteq> Some Killed" by (simp add: reaped_nothing_def pair_defs forked_def)
  have "rss = [(''Default'', [(''idle'', PCUT_OUTCOME_PASS, [], [], [])])]"
    using s'(3) h(2,4,5,7) es k by (auto simp: list_all2_Cons1 suite_result_of_pairs_def kept_stdio_def)
  with s' p show ?thesis by (auto simp: all_results_def passed_def)
qed

end
