(* ===== verification/Threads.thy ===== *)
theory Threads
  imports PipeProps LauncherProps
begin

text \<open>
  A test on Windows, \<^verbatim>\<open>src/os/windows.c\<close>, as the processes and threads run at the same time: the child
  writes into two pipes, a thread of the parent reads them one after the other, and the main thread
  waits for the child with a time-out, terminates it if it takes too long, and waits for the reader
  before it reports.  \<open>OsWindows\<close> takes the results of all of this as a parameter; this theory says
  which results there are.

  The child and the reader are those of \<open>Pipes\<close>: the thread does what the parent on Unix does up to its
  wait.  A \<open>ReadFile\<close> of no bytes returns at once, and a call of \<open>TerminateProcess\<close> fails for a process
  that has ended.
\<close>

section \<open>State and steps\<close>

text \<open>
  The main thread: before \<open>CreateThread\<close>, before its first wait, in that wait up to a time, with the time
  over, in the second wait, in the wait for the reader with the exit code, and after it; or it has
  left because a call has failed.
\<close>

datatype main_thread = Before_thread | Before_wait | First_wait nat | Time_over | Second_wait
  | Thread_wait bool nat | Tested bool nat | Left

record threads =
  reader :: test_pair
  main_thread :: main_thread

definition created :: "act list \<Rightarrow> threads" where
  "created acts = \<lparr>reader = forked acts, main_thread = Before_thread\<rparr>"

text \<open>The reader thread has no part in the wait for the child.\<close>

fun of_reader :: "parent_at \<Rightarrow> bool" where
  "of_reader (Reaped st) = False"
| "of_reader (Reported st) = False"
| "of_reader _ = True"

text \<open>The exit code of a terminated child is the second argument of \<open>TerminateProcess\<close>.\<close>

definition exit_of :: "nat \<Rightarrow> fate \<Rightarrow> nat" where
  "exit_of rc f = (case f of By_itself \<Rightarrow> rc | Killed \<Rightarrow> 5)"

definition terminate_child :: "test_pair \<Rightarrow> test_pair" where
  "terminate_child p = p\<lparr>fate := Some Killed\<rparr>"

text \<open>\<open>T\<close> is the time-out, \<open>rc\<close> the exit code of a child that ends by itself.\<close>

inductive thread_step :: "nat \<Rightarrow> proc_end \<Rightarrow> nat \<Rightarrow> nat \<Rightarrow> threads \<Rightarrow> threads \<Rightarrow> bool" for cap e rc T where
  beside: "pair_step cap e None (reader s) p \<Longrightarrow> of_reader (parent_at p) \<Longrightarrow>
     main_thread s = Before_thread \<longrightarrow> parent_at p = Forked \<Longrightarrow>
     thread_step cap e rc T s (s\<lparr>reader := p\<rparr>)"
| create_thread: "main_thread s = Before_thread \<Longrightarrow> thread_step cap e rc T s (s\<lparr>main_thread := Before_wait\<rparr>)"
| wait: "main_thread s = Before_wait \<Longrightarrow>
     thread_step cap e rc T s (s\<lparr>main_thread := First_wait (now (reader s) + T)\<rparr>)"
| wait_object: "main_thread s = First_wait d \<Longrightarrow> fate (reader s) = Some f \<Longrightarrow>
     thread_step cap e rc T s (s\<lparr>main_thread := Thread_wait False (exit_of rc f)\<rparr>)"
| wait_timeout: "main_thread s = First_wait d \<Longrightarrow> fate (reader s) = None \<Longrightarrow> d \<le> now (reader s) \<Longrightarrow>
     thread_step cap e rc T s (s\<lparr>main_thread := Time_over\<rparr>)"
| terminate: "main_thread s = Time_over \<Longrightarrow> fate (reader s) = None \<Longrightarrow>
     thread_step cap e rc T s (s\<lparr>reader := terminate_child (reader s), main_thread := Second_wait\<rparr>)"
| terminate_fails: "main_thread s = Time_over \<Longrightarrow> fate (reader s) \<noteq> None \<Longrightarrow>
     thread_step cap e rc T s (s\<lparr>main_thread := Left\<rparr>)"
| wait_again: "main_thread s = Second_wait \<Longrightarrow> fate (reader s) = Some f \<Longrightarrow>
     thread_step cap e rc T s (s\<lparr>main_thread := Thread_wait True (exit_of rc f)\<rparr>)"
| join: "main_thread s = Thread_wait t c \<Longrightarrow> parent_at (reader s) = Waiting_for_child \<Longrightarrow>
     thread_step cap e rc T s (s\<lparr>main_thread := Tested t c\<rparr>)"

inductive thread_reach :: "nat \<Rightarrow> proc_end \<Rightarrow> nat \<Rightarrow> nat \<Rightarrow> act list \<Rightarrow> threads \<Rightarrow> bool" for cap e rc T acts where
  thread_start: "thread_reach cap e rc T acts (created acts)"
| thread_more: "thread_reach cap e rc T acts s \<Longrightarrow> thread_step cap e rc T s s' \<Longrightarrow> thread_reach cap e rc T acts s'"

section \<open>Invariants\<close>

lemma pair_alarm_None:
  assumes "pair_step cap e None p p'" and "alarm_at p = None"
  shows "alarm_at p' = None" "fate p' \<noteq> fate p \<Longrightarrow> fate p = None \<and> fate p' = Some By_itself"
  using assms by (auto elim!: pair_step.cases simp: pair_defs)

lemma reader_done:
  assumes "pair_step cap e secs p p'" and "parent_at p = Waiting_for_child" and "of_reader (parent_at p')"
  shows "parent_at p' = Waiting_for_child"
  using assms by (auto elim!: pair_step.cases simp: pair_defs)

text \<open>What the main thread knows of the other two.\<close>

definition main_kept :: "nat \<Rightarrow> threads \<Rightarrow> bool" where
  "main_kept rc s \<longleftrightarrow> alarm_at (reader s) = None \<and> of_reader (parent_at (reader s)) \<and>
     (case main_thread s of
        Before_thread \<Rightarrow> parent_at (reader s) = Forked \<and> fate (reader s) \<noteq> Some Killed
      | Second_wait \<Rightarrow> fate (reader s) = Some Killed
      | Thread_wait t c \<Rightarrow> (\<exists>f. fate (reader s) = Some f \<and> t = (f = Killed) \<and> c = exit_of rc f)
      | Tested t c \<Rightarrow> (\<exists>f. fate (reader s) = Some f \<and> t = (f = Killed) \<and> c = exit_of rc f) \<and>
          parent_at (reader s) = Waiting_for_child
      | _ \<Rightarrow> fate (reader s) \<noteq> Some Killed)"

definition reader_kept :: "nat \<Rightarrow> proc_end \<Rightarrow> act list \<Rightarrow> test_pair \<Rightarrow> bool" where
  "reader_kept cap e acts p \<longleftrightarrow> bytes_kept acts p \<and> rooms_kept cap p \<and> place_kept e p"

lemma reader_step: "pair_step cap e secs p p' \<Longrightarrow> reader_kept cap e acts p \<Longrightarrow> reader_kept cap e acts p'"
  by (auto simp: reader_kept_def intro: bytes_step rooms_step place_step)

text \<open>A terminated child has nothing more to write.\<close>

lemma terminated_kept:
  assumes "reader_kept cap e acts p" and "of_reader (parent_at p)"
  shows "reader_kept cap e acts (terminate_child p)"
  using assms
  by (cases "parent_at p") (auto simp: reader_kept_def terminate_child_def bytes_kept_def rooms_kept_def place_defs)

lemma reader_invariant: "thread_reach cap e rc T acts s \<Longrightarrow> main_kept rc s \<and> reader_kept cap e acts (reader s)"
proof (induction rule: thread_reach.induct)
  case thread_start
  show ?case by (simp add: main_kept_def reader_kept_def created_def bytes_forked rooms_forked place_forked)
      (simp add: forked_def)
next
  case (thread_more s s')
  then have inv: "main_kept rc s" "reader_kept cap e acts (reader s)" by simp_all
  from thread_more.hyps(2) show ?case
  proof (cases rule: thread_step.cases)
    case (beside p)
    from inv(1) have a: "alarm_at (reader s) = None" by (simp add: main_kept_def)
    note p = pair_alarm_None [OF beside(2) a] reader_done [OF beside(2) _ beside(3)]
    have "main_kept rc s'" using inv(1) beside(1,3,4) p
      by (cases "fate p = fate (reader s)") (auto simp: main_kept_def split: main_thread.splits)
    with reader_step [OF beside(2) inv(2)] beside(1) show ?thesis by simp
  next
    case terminate
    with inv terminated_kept [OF inv(2)] show ?thesis by (auto simp: main_kept_def terminate_child_def)
  qed (use inv in \<open>auto simp: main_kept_def\<close>)
qed

section \<open>What is reported\<close>

text \<open>Once the main thread has waited for the reader, the buffer does not change any more.\<close>

lemma tested_final:
  assumes "thread_reach cap e rc T acts s" and "main_thread s = Tested t c" and "thread_step cap e rc T s s'"
  shows "main_thread s' = Tested t c \<and> err_reads (reader s') = err_reads (reader s) \<and> out_reads (reader s') = out_reads (reader s)"
proof -
  from reader_invariant [OF assms(1)] assms(2) have p: "parent_at (reader s) = Waiting_for_child" by (auto simp: main_kept_def)
  from assms(3) show ?thesis
  proof (cases rule: thread_step.cases)
    case (beside p')
    from beside(2,3) p have "err_reads p' = err_reads (reader s) \<and> out_reads p' = out_reads (reader s)"
      by (auto elim!: pair_step.cases simp: pair_defs)
    with beside(1) assms(2) show ?thesis by simp
  qed (use assms(2) in simp_all)
qed

lemma tested_over:
  assumes "thread_reach cap e rc T acts s" and "main_thread s = Tested t c"
  shows "err_over (reader s)" "out_over (reader s)" "t \<longleftrightarrow> fate (reader s) = Some Killed"
    "fate (reader s) = Some (if t then Killed else By_itself)" "c = (if t then 5 else rc)"
proof -
  from reader_invariant [OF assms(1)] assms(2) obtain f where f: "fate (reader s) = Some f" "t = (f = Killed)" "c = exit_of rc f"
    and p: "place_kept e (reader s)" "parent_at (reader s) = Waiting_for_child" by (auto simp: main_kept_def reader_kept_def)
  from p show "err_over (reader s)" "out_over (reader s)" by (simp_all add: place_kept_def)
  show "t \<longleftrightarrow> fate (reader s) = Some Killed" "fate (reader s) = Some (if t then Killed else By_itself)" "c = (if t then 5 else rc)"
    using f by (cases f; simp add: exit_of_def)+
qed

text \<open>The streams of the state of the threads, as the results of the calls.\<close>

definition child_of :: "threads \<Rightarrow> bool \<Rightarrow> nat \<Rightarrow> windows_child" where
  "child_of s timed_out c =
     \<lparr>stderr_reads = map Some (err_reads (reader s)) @ [None], stdout_reads = map Some (out_reads (reader s)) @ [None],
      first_wait = (if timed_out then WAIT_TIMEOUT else WAIT_OBJECT_0), second_wait = WAIT_OBJECT_0,
      thread_wait = WAIT_OBJECT_0, exit_code = c\<rparr>"

definition gives_threads :: "windows \<Rightarrow> windows_child \<Rightarrow> nat \<Rightarrow> act list \<Rightarrow> proc_end \<Rightarrow> threads \<Rightarrow> bool" where
  "gives_threads W C T acts e s \<longleftrightarrow> (\<forall>f. call_ok W f) \<and>
     (\<exists>cap rc t c. (e \<noteq> Hung \<longrightarrow> ends_with_code e rc) \<and> thread_reach cap e rc T acts s \<and>
        main_thread s = Tested t c \<and> C = child_of s t c)"

lemma good_reads_closed [simp]: "good_reads (map Some cs @ [None]) = cs"
  by (induction cs) (simp_all add: good_reads_def)

lemma gives_threads_child:
  assumes "gives_threads W C T acts e s"
  obtains t where "runs_through W C t" "t \<longleftrightarrow> fate (reader s) = Some Killed"
    "good_reads (stderr_reads C) = err_reads (reader s)" "good_reads (stdout_reads C) = out_reads (reader s)"
    "if t then exit_code C = 5 else ends_with_code e (exit_code C)"
proof -
  from assms obtain cap rc t c where r: "e \<noteq> Hung \<longrightarrow> ends_with_code e rc" "thread_reach cap e rc T acts s"
    "main_thread s = Tested t c" "C = child_of s t c" and W: "\<forall>f. call_ok W f" by (auto simp: gives_threads_def)
  note over = tested_over [OF r(2,3)]
  have "\<not> t \<Longrightarrow> e \<noteq> Hung" using over(4) reader_invariant [OF r(2)] by (auto simp: reader_kept_def place_kept_def)
  with r(1) over(5) r(4) have "if t then exit_code C = 5 else ends_with_code e (exit_code C)" by (simp add: child_of_def)
  moreover have "runs_through W C t" using W by (simp add: r(4) runs_through_def child_of_def list_all_iff)
  ultimately show ?thesis using that over(3) r(4) by (simp add: child_of_def)
qed

text \<open>The actions of a child whose C library writes in text mode.\<close>

fun windows_act :: "act \<Rightarrow> act" where
  "windows_act (Out s) = Out (text_mode s)"
| "windows_act (Err s) = Err (text_mode s)"
| "windows_act (Sleep n) = Sleep n"

lemma windows_acts [simp]:
  "stdout_of (map windows_act as) = text_mode (stdout_of as)" "stderr_of (map windows_act as) = text_mode (stderr_of as)"
  by (induction as rule: stdout_of.induct) simp_all

lemma threads_taken:
  assumes "gives_threads W C T acts e s"
  shows "\<exists>out. stdout_of acts = stream (out_reads (reader s)) @ out" "\<exists>err. stderr_of acts = stream (err_reads (reader s)) @ err"
    "fate (reader s) \<noteq> Some Killed \<Longrightarrow> stream (err_reads (reader s)) = take (OUTPUT_BUFFER_SIZE - 1) (stderr_of acts)"
    "fate (reader s) \<noteq> Some Killed \<Longrightarrow>
       stream (out_reads (reader s)) = take (OUTPUT_BUFFER_SIZE - 1 - length (chomp (stream (err_reads (reader s))))) (stdout_of acts)"
proof -
  from assms obtain cap rc t c where r: "thread_reach cap e rc T acts s" "main_thread s = Tested t c"
    by (auto simp: gives_threads_def)
  note over = tested_over [OF r]
  from reader_invariant [OF r(1)] have k: "bytes_kept acts (reader s)" "rooms_kept cap (reader s)" "place_kept e (reader s)"
    by (simp_all add: reader_kept_def)
  have "stream (out_reads (reader s)) = concat (out_reads (reader s))" "stream (err_reads (reader s)) = concat (err_reads (reader s))"
    using k(2) by (simp_all add: rooms_kept_def stream_concat)
  with k(1) show "\<exists>out. stdout_of acts = stream (out_reads (reader s)) @ out" "\<exists>err. stderr_of acts = stream (err_reads (reader s)) @ err"
    by (auto simp: bytes_kept_def stdout_written stderr_written)
  have f: "fate (reader s) \<noteq> Some Killed \<Longrightarrow> fate (reader s) = Some By_itself" using over(4) by (auto split: if_splits)
  from all_taken [OF k over(1,2) f]
  show "fate (reader s) \<noteq> Some Killed \<Longrightarrow> stream (err_reads (reader s)) = take (OUTPUT_BUFFER_SIZE - 1) (stderr_of acts)"
    "fate (reader s) \<noteq> Some Killed \<Longrightarrow>
       stream (out_reads (reader s)) = take (OUTPUT_BUFFER_SIZE - 1 - length (chomp (stream (err_reads (reader s))))) (stdout_of acts)"
    by blast+
qed

text \<open>A child with a short output is reported with its outcome, whatever it has written.\<close>

lemma any_windows_child:
  assumes ready: "ready s" and it: "items s test = Some it" and h: "report_ops s = Some h"
    and cmd: "windows_command self (ident it) = Some command" and t: "pcut_get_test_timeout it = Some secs"
    and C: "C = create_process W command (time_out_millis secs)" and through: "runs_through W C timed_out"
    and short: "length (stream (good_reads (stderr_reads C))) + length (stream (good_reads (stdout_reads C))) < BUFFER_SIZE"
  shows "\<exists>s' e x. windows_run_test_forking W self test s = (Returned (windows_outcome timed_out (exit_code C)), s') \<and>
    adds_entry s (item_name it) h (windows_outcome timed_out (exit_code C)) e x s'"
proof -
  let ?o = "windows_outcome timed_out (exit_code C)"
  from short_raw_texts [OF short] obtain e x where
    raw: "raw_texts (good_reads (stderr_reads C)) (good_reads (stdout_reads C)) = Some (e, x)" by blast
  obtain b1 n b m s' where
    rd: "read_all (good_reads (stderr_reads C)) (replicate OUTPUT_BUFFER_SIZE NUL) (OUTPUT_BUFFER_SIZE - 1) = Some (b1, n)"
      "read_all (good_reads (stdout_reads C)) b1 (OUTPUT_BUFFER_SIZE - 1 - n) = Some (b, m)"
      "pcut_report_test_done_unparsed (Some test) ?o b OUTPUT_BUFFER_SIZE ((cleared s)\<lparr>extra_output_buffer := b\<rparr>) = (Returned (), s')"
    and s': "adds_entry s (item_name it) h ?o e x s'"
    by (rule raw_texts_reported [OF raw ready it h cleared_def, of ?o]) (auto simp: adds_entry_def)
  have rb: "read_test_output_on_background C (replicate OUTPUT_BUFFER_SIZE NUL) OUTPUT_BUFFER_SIZE = Some b"
    using rd(1,2) by (simp add: read_test_output_on_background_def windows_read_all_eq)
  have calls: "find (\<lambda>c. \<not> call_ok W c) pipe_calls = None" "thread_wait C = WAIT_OBJECT_0"
    using through by (simp_all add: runs_through_def find_None_iff list_all_iff)
  have wait: "wait_for_child W C = Inr timed_out" using through by (auto simp: wait_for_child_def runs_through_def split: if_splits)
  have "windows_run_test_forking W self test s = (Returned ?o, s')"
    using calls wait rb rd(3) cmd t
    by (simp add: windows_run_test_forking_def windows_before_call [OF it] it C [symmetric] Let_def cleared_simps)
  with s' show ?thesis by blast
qed

text \<open>C10: a child on Windows that writes texts and messages, with the child, the reader thread and the main thread taking
  their steps in any order: once the main thread reports, it reports the outcome that belongs to the end of the
  child with its messages and its text, with the line ends of text mode, or an error if the child had to be terminated.
  (What the program writes when it is started for a test, and how it ends, is \<open>reexec_spec\<close>.)\<close>

theorem threads_report_verdict:
  assumes "ready s" and "items s test = Some it" and "report_ops s = Some h"
    and "windows_command self (ident it) = Some command" and "pcut_get_test_timeout it = Some secs"
    and "stdout_of acts = concat (map frame cs)" and "stderr_of acts = []"
    and "fit_chunks (map windows_chunk cs)" and "length (text_mode (stdout_of acts)) < BUFFER_SIZE"
    and "gives_threads W (create_process W command (time_out_millis secs)) (time_out_millis secs div 1000)
           (map windows_act acts) e p"
  shows "\<exists>s' rc m x. windows_run_test_forking W self test s = (Returned rc, s') \<and>
    trace s' = trace s @ [Out (entry_of h (start_of h (reports_of s)) (item_name it) rc m [] x)] \<and>
    user s' = user s \<and> ready s' \<and>
    (if fate (reader p) = Some Killed then rc = PCUT_OUTCOME_INTERNAL_ERROR
     else rc = windows_end_outcome e \<and> m = error_text (map windows_chunk cs) \<and> x = kept_text (map windows_chunk cs))"
proof -
  let ?C = "create_process W command (time_out_millis secs)" and ?cs = "map windows_chunk cs"
  from gives_threads_child [OF assms(10)] obtain t where t: "runs_through W ?C t" "t \<longleftrightarrow> fate (reader p) = Some Killed"
    "good_reads (stderr_reads ?C) = err_reads (reader p)" "good_reads (stdout_reads ?C) = out_reads (reader p)"
    "if t then exit_code ?C = 5 else ends_with_code e (exit_code ?C)" .
  note taken = threads_taken [OF assms(10)]
  have no_err: "stream (err_reads (reader p)) = []" using taken(2) assms(7) by auto
  show ?thesis
  proof (cases t)
    case True
    have "length (stream (out_reads (reader p))) < BUFFER_SIZE" using taken(1) assms(9) by auto
    with no_err have "length (stream (good_reads (stderr_reads ?C))) + length (stream (good_reads (stdout_reads ?C))) < BUFFER_SIZE"
      by (simp add: t(3,4))
    from any_windows_child [OF assms(1-5) refl t(1) this] t(2,5) True show ?thesis
      by (auto simp: windows_outcome_def adds_entry_def carried_def)
  next
    case False
    have "length (concat (map frame ?cs)) \<le> OUTPUT_BUFFER_SIZE - 1" using assms(8) unfolding fit_chunks_def by linarith
    then have "stream (out_reads (reader p)) = concat (map frame ?cs)"
      using taken(4) False t(2) no_err assms(6) by (simp add: chomp_def text_mode_frames)
    then have "stream (good_reads (stdout_reads ?C)) = concat (map frame ?cs)" by (simp add: t(4))
    moreover have "stream (good_reads (stderr_reads ?C)) = []" using no_err by (simp add: t(3))
    moreover have "windows_outcome t (exit_code ?C) = windows_end_outcome e"
      using t(5) False by (simp add: windows_end_outcome)
    ultimately show ?thesis using windows_run [OF assms(1-5) refl t(1) _ _ assms(8)] t(2) False
      by (auto simp: adds_entry_def carried_def)
  qed
qed

section \<open>Every test ends\<close>

lemma reader_drains:
  assumes "main_kept rc s" and "place_kept e (reader s)" and "rooms_kept cap (reader s)" and "fate (reader s) \<noteq> None"
    and "parent_at (reader s) \<noteq> Forked" and "main_thread s \<noteq> Before_thread"
  shows "\<exists>p. (thread_step cap e rc T)\<^sup>*\<^sup>* s (s\<lparr>reader := p\<rparr>) \<and> parent_at p = Waiting_for_child \<and> fate p = fate (reader s)"
  using assms
proof (induction "work (reader s)" arbitrary: s rule: less_induct)
  case less
  from less.prems(1) have o: "of_reader (parent_at (reader s))" "alarm_at (reader s) = None" by (simp_all add: main_kept_def)
  show ?case
  proof (cases "parent_at (reader s) = Waiting_for_child")
    case True
    then show ?thesis by (intro exI [of _ "reader s"]) simp
  next
    case False
    with o have "\<And>st. parent_at (reader s) \<noteq> Reported st" by auto
    from reader_goes_on [OF less.prems(2,5) this] less.prems(4) obtain p where
      p: "busy cap e None (reader s) p" "parent_at p \<noteq> Forked" "fate p = fate (reader s)" by blast
    then have st: "pair_step cap e None (reader s) p" by (simp add: busy_def)
    have "of_reader (parent_at p)" using st o False by (auto elim!: pair_step.cases simp: pair_defs)
    with st less.prems(6) have ts: "thread_step cap e rc T s (s\<lparr>reader := p\<rparr>)" by (intro thread_step.beside) simp_all
    let ?s = "s\<lparr>reader := p\<rparr>"
    have "main_kept rc ?s" using less.prems(1) o p pair_alarm_None(1) [OF st o(2)] \<open>of_reader (parent_at p)\<close>
        False less.prems(6) by (auto simp: main_kept_def split: main_thread.splits)
    from less.hyps [OF _ this] busy_works [OF p(1)] place_step [OF st less.prems(3,2)] rooms_step [OF st less.prems(3,2)] p(2,3) less.prems(4,6)
    obtain p' where "(thread_step cap e rc T)\<^sup>*\<^sup>* ?s (?s\<lparr>reader := p'\<rparr>)" "parent_at p' = Waiting_for_child" "fate p' = fate p"
      by auto
    with converse_rtranclp_into_rtranclp [of "thread_step cap e rc T", OF ts] p(3) show ?thesis by (intro exI [of _ p']) simp
  qed
qed

text \<open>The steps of the threads can lead to the report.\<close>

definition can_report :: "nat \<Rightarrow> proc_end \<Rightarrow> nat \<Rightarrow> nat \<Rightarrow> threads \<Rightarrow> bool" where
  "can_report cap e rc T s \<longleftrightarrow> (\<exists>s' t c. (thread_step cap e rc T)\<^sup>*\<^sup>* s s' \<and> main_thread s' = Tested t c)"

lemma can_report_step: "thread_step cap e rc T s s' \<Longrightarrow> can_report cap e rc T s' \<Longrightarrow> can_report cap e rc T s"
  unfolding can_report_def by (meson converse_rtranclp_into_rtranclp)

lemma can_report_steps: "(thread_step cap e rc T)\<^sup>*\<^sup>* s s' \<Longrightarrow> can_report cap e rc T s' \<Longrightarrow> can_report cap e rc T s"
  unfolding can_report_def by (meson rtranclp_trans)

lemma last_wait_reports:
  assumes "thread_reach cap e rc T acts s" and "main_thread s = Thread_wait t c"
  shows "can_report cap e rc T s"
proof -
  have go: "can_report cap e rc T s"
    if r: "thread_reach cap e rc T acts s" and m: "main_thread s = Thread_wait t c" and p: "parent_at (reader s) \<noteq> Forked" for s
  proof -
    from reader_invariant [OF r] have inv: "main_kept rc s" "place_kept e (reader s)" "rooms_kept cap (reader s)"
      by (simp_all add: reader_kept_def)
    then have "fate (reader s) \<noteq> None" using m by (auto simp: main_kept_def)
    from reader_drains [OF inv this p] m obtain q where
      q: "(thread_step cap e rc T)\<^sup>*\<^sup>* s (s\<lparr>reader := q\<rparr>)" "parent_at q = Waiting_for_child" by auto
    have "thread_step cap e rc T (s\<lparr>reader := q\<rparr>) (s\<lparr>reader := q\<rparr>\<lparr>main_thread := Tested t c\<rparr>)"
      by (rule thread_step.join) (use m q(2) in simp_all)
    with q(1) have "(thread_step cap e rc T)\<^sup>*\<^sup>* s (s\<lparr>reader := q\<rparr>\<lparr>main_thread := Tested t c\<rparr>)"
      by (rule rtranclp.rtrancl_into_rtrancl)
    moreover have "main_thread (s\<lparr>reader := q\<rparr>\<lparr>main_thread := Tested t c\<rparr>) = Tested t c" by simp
    ultimately show ?thesis unfolding can_report_def by blast
  qed
  show ?thesis
  proof (cases "parent_at (reader s) = Forked")
    case True
    have st: "thread_step cap e rc T s (s\<lparr>reader := set_alarm None (reader s)\<rparr>)"
      by (rule thread_step.beside [OF pair_step.start [OF True]]) (simp_all add: set_alarm_def assms(2))
    from go [OF thread_more [OF assms(1) st]] assms(2) have "can_report cap e rc T (s\<lparr>reader := set_alarm None (reader s)\<rparr>)"
      by (simp add: set_alarm_def)
    with st show ?thesis by (rule can_report_step)
  qed (rule go [OF assms])
qed

lemma ended_child_reports:
  assumes "thread_reach cap e rc T acts s" and "fate (reader s) = Some f"
    and "main_thread s = Second_wait \<or> main_thread s = First_wait d"
  shows "can_report cap e rc T s"
proof -
  from assms(3) obtain t where "thread_step cap e rc T s (s\<lparr>main_thread := Thread_wait t (exit_of rc f)\<rparr>)"
    using thread_step.wait_again [of s f] thread_step.wait_object [of s d f] assms(2) by blast
  from can_report_step [OF this last_wait_reports [OF thread_more [OF assms(1) this]]] show ?thesis by simp
qed

lemma time_over_reports:
  assumes "thread_reach cap e rc T acts s" and "main_thread s = Time_over" and "fate (reader s) = None"
  shows "can_report cap e rc T s"
proof -
  have st: "thread_step cap e rc T s (s\<lparr>reader := terminate_child (reader s), main_thread := Second_wait\<rparr>)"
    by (rule thread_step.terminate [OF assms(2,3)])
  from can_report_step [OF st ended_child_reports [OF thread_more [OF assms(1) st]]] show ?thesis
    by (simp add: terminate_child_def)
qed

text \<open>Time passes beside the main thread.\<close>

lemma seconds_beside:
  assumes "of_reader (parent_at (reader s))" and "main_thread s \<noteq> Before_thread"
  shows "(thread_step cap e rc T)\<^sup>*\<^sup>* s (s\<lparr>reader := (second ^^ m) (reader s)\<rparr>)"
proof (induction m)
  case (Suc m)
  let ?s = "s\<lparr>reader := (second ^^ m) (reader s)\<rparr>"
  have "thread_step cap e rc T ?s (?s\<lparr>reader := second (reader ?s)\<rparr>)"
    by (rule thread_step.beside [OF pair_step.time]) (use assms in \<open>simp_all add: seconds\<close>)
  with Suc.IH have "(thread_step cap e rc T)\<^sup>*\<^sup>* s (?s\<lparr>reader := second (reader ?s)\<rparr>)" by (rule rtranclp.rtrancl_into_rtrancl)
  then show ?case by simp
qed simp

lemma thread_reach_steps:
  assumes "(thread_step cap e rc T)\<^sup>*\<^sup>* s s'" and "thread_reach cap e rc T acts s"
  shows "thread_reach cap e rc T acts s'"
  using assms by (induction rule: rtranclp_induct) (auto intro: thread_more)

lemma first_wait_reports:
  assumes "thread_reach cap e rc T acts s" and "main_thread s = First_wait d"
  shows "can_report cap e rc T s"
proof (cases "fate (reader s)")
  case None
  let ?s = "s\<lparr>reader := (second ^^ (d - now (reader s))) (reader s)\<rparr>"
  have o: "of_reader (parent_at (reader s))" using reader_invariant [OF assms(1)] by (simp add: main_kept_def)
  have st: "(thread_step cap e rc T)\<^sup>*\<^sup>* s ?s" by (rule seconds_beside [OF o]) (simp add: assms(2))
  have t: "thread_step cap e rc T ?s (?s\<lparr>main_thread := Time_over\<rparr>)"
    by (rule thread_step.wait_timeout [of _ d]) (use None assms(2) le_add_diff_inverse [of "now (reader s)" d] in \<open>simp_all add: seconds\<close>)
  from time_over_reports [OF thread_more [OF thread_reach_steps [OF st assms(1)] t]] None
  have "can_report cap e rc T (?s\<lparr>main_thread := Time_over\<rparr>)" by (simp add: seconds)
  from can_report_steps [OF st can_report_step [OF t this]] show ?thesis .
next
  case (Some f)
  from ended_child_reports [OF assms(1) this] assms(2) show ?thesis by blast
qed

text \<open>C11: on Windows every test can be brought to its end whatever it does, even if it writes more than the reader thread takes
  or never ends by itself: as long as the main thread has not left because of a failed call, and does not find that the
  child has ended just when it wants to terminate it, there is a run that leads to the report.\<close>

theorem windows_test_ends:
  assumes "thread_reach cap e rc T acts s" and "main_thread s \<noteq> Left"
    and "main_thread s = Time_over \<Longrightarrow> fate (reader s) = None"
  shows "\<exists>s' t c. (thread_step cap e rc T)\<^sup>*\<^sup>* s s' \<and> main_thread s' = Tested t c"
proof -
  have "can_report cap e rc T s"
  proof (cases "main_thread s")
    case Before_thread
    have a: "thread_step cap e rc T s (s\<lparr>main_thread := Before_wait\<rparr>)" by (rule thread_step.create_thread [OF Before_thread])
    have b: "thread_step cap e rc T (s\<lparr>main_thread := Before_wait\<rparr>) (s\<lparr>main_thread := First_wait (now (reader s) + T)\<rparr>)"
      using thread_step.wait [of "s\<lparr>main_thread := Before_wait\<rparr>"] by simp
    from first_wait_reports [OF thread_more [OF thread_more [OF assms(1) a] b]] show ?thesis
      by (intro can_report_step [OF a can_report_step [OF b]]) simp
  next
    case Before_wait
    then have b: "thread_step cap e rc T s (s\<lparr>main_thread := First_wait (now (reader s) + T)\<rparr>)" by (rule thread_step.wait)
    from first_wait_reports [OF thread_more [OF assms(1) b]] show ?thesis by (intro can_report_step [OF b]) simp
  next
    case (First_wait d)
    with assms(1) show ?thesis by (rule first_wait_reports)
  next
    case Time_over
    with assms(1,3) show ?thesis by (intro time_over_reports) simp_all
  next
    case Second_wait
    with reader_invariant [OF assms(1)] ended_child_reports [OF assms(1)] show ?thesis by (auto simp: main_kept_def)
  next
    case (Thread_wait t c)
    with assms(1) show ?thesis by (rule last_wait_reports)
  next
    case (Tested t c)
    then show ?thesis unfolding can_report_def by blast
  qed (use assms(2) in simp)
  then show ?thesis by (simp add: can_report_def)
qed

theorem windows_test_ends_witness:
  "\<exists>s' t c. (thread_step 4 Hung 0 3)\<^sup>*\<^sup>* (created [Out ''more than fits'']) s' \<and> main_thread s' = Tested t c"
  by (rule windows_test_ends [OF thread_start]) (simp_all add: created_def)

section \<open>A reader that is left behind\<close>

lemma late_step:
  assumes "pair_step cap e None p p'" and "of_reader (parent_at p')" and "m \<noteq> Before_thread"
  shows "thread_step cap e rc T \<lparr>reader = p, main_thread = m\<rparr> \<lparr>reader = p', main_thread = m\<rparr>"
  using thread_step.beside [of cap e "\<lparr>reader = p, main_thread = m\<rparr>" p' rc T] assms by simp

text \<open>A child that writes four bytes and ends when its time is over; \<open>w\<close> is what the reader has read, \<open>n\<close> the time.\<close>

definition late_pair :: "act list \<Rightarrow> fate option \<Rightarrow> string \<Rightarrow> parent_at \<Rightarrow> string list \<Rightarrow> nat \<Rightarrow> test_pair" where
  "late_pair td f ob pa w n = \<lparr>todo = td, fate = f, out_pipe = ob, err_pipe = [], parent_at = pa, err_reads = [],
     out_reads = w, now = n, alarm_at = None, strays = 0\<rparr>"

definition late_threads :: "act list \<Rightarrow> fate option \<Rightarrow> string \<Rightarrow> parent_at \<Rightarrow> string list \<Rightarrow> nat \<Rightarrow> main_thread \<Rightarrow> threads" where
  "late_threads td f ob pa w n m = \<lparr>reader = late_pair td f ob pa w n, main_thread = m\<rparr>"

lemmas late_defs = late_threads_def late_pair_def

lemma late_beside:
  assumes "pair_step cap e None (late_pair td f ob pa w n) (late_pair td' f' ob' pa' w' n')" and "of_reader pa'" and "m \<noteq> Before_thread"
  shows "thread_step cap e rc T (late_threads td f ob pa w n m) (late_threads td' f' ob' pa' w' n' m)"
  using late_step [OF assms(1) _ assms(3)] assms(2) by (simp add: late_defs)

lemma late_seconds: "(second ^^ k) (late_pair [] f ob pa w n) = late_pair [] f ob pa w (n + k)"
  by (induction k) (simp_all add: second_def late_pair_def)

text \<open>The child has written its bytes, and the main thread waits.\<close>

lemma late_waits:
  "thread_reach (4 + k) (Exited 0) 0 T [Out ''late''] (late_threads [] None ''late'' Reading_stderr [] 0 (First_wait T))"
proof -
  let ?R = "thread_reach (4 + k) (Exited 0) 0 T [Out ''late'']" and ?P = "pair_step (4 + k) (Exited 0) None"
  let ?S = "thread_step (4 + k) (Exited 0) 0 T"
  have "?S (created [Out ''late'']) (late_threads [Out ''late''] None [] Forked [] 0 Before_wait)"
    using thread_step.create_thread [of "created [Out ''late'']"] by (simp add: created_def forked_def late_defs)
  with thread_start have 1: "?R (late_threads [Out ''late''] None [] Forked [] 0 Before_wait)" by (rule thread_more)
  have "?P (late_pair [Out ''late''] None [] Forked [] 0) (late_pair [Out ''late''] None [] Reading_stderr [] 0)"
    using pair_step.start [of "late_pair [Out ''late''] None [] Forked [] 0" "4 + k" "Exited 0" None]
    by (simp add: late_pair_def set_alarm_def)
  from thread_more [OF 1 late_beside [OF this]]
  have 2: "?R (late_threads [Out ''late''] None [] Reading_stderr [] 0 Before_wait)" by simp
  have "?P (late_pair [Out ''late''] None [] Reading_stderr [] 0) (late_pair [Out []] None ''late'' Reading_stderr [] 0)"
    using pair_step.child_out [of "late_pair [Out ''late''] None [] Reading_stderr [] 0" "''late''" "[]" 4 "4 + k"]
    by (simp add: late_pair_def)
  from thread_more [OF 2 late_beside [OF this]]
  have 3: "?R (late_threads [Out []] None ''late'' Reading_stderr [] 0 Before_wait)" by simp
  have "?P (late_pair [Out []] None ''late'' Reading_stderr [] 0) (late_pair [] None ''late'' Reading_stderr [] 0)"
    using pair_step.child_next [of "late_pair [Out []] None ''late'' Reading_stderr [] 0" "Out []" "[]"] by (simp add: late_pair_def)
  from thread_more [OF 3 late_beside [OF this]]
  have 4: "?R (late_threads [] None ''late'' Reading_stderr [] 0 Before_wait)" by simp
  from thread_more [OF 4 thread_step.wait] show ?thesis by (simp add: late_defs)
qed

text \<open>Its time passes, it ends, and it cannot be terminated.\<close>

lemma late_left:
  "thread_reach (4 + k) (Exited 0) 0 T [Out ''late''] (late_threads [] (Some By_itself) ''late'' Reading_stderr [] T Left)"
proof -
  let ?R = "thread_reach (4 + k) (Exited 0) 0 T [Out ''late'']" and ?S = "thread_step (4 + k) (Exited 0) 0 T"
  have "?S\<^sup>*\<^sup>* (late_threads [] None ''late'' Reading_stderr [] 0 (First_wait T)) (late_threads [] None ''late'' Reading_stderr [] T (First_wait T))"
    using seconds_beside [of "late_threads [] None ''late'' Reading_stderr [] 0 (First_wait T)" "4 + k" "Exited 0" 0 T T]
    by (simp add: late_threads_def late_seconds) (simp add: late_pair_def)
  from thread_reach_steps [OF this late_waits] have 5: "?R (late_threads [] None ''late'' Reading_stderr [] T (First_wait T))" .
  from thread_more [OF 5 thread_step.wait_timeout [of _ T]]
  have 6: "?R (late_threads [] None ''late'' Reading_stderr [] T Time_over)" by (simp add: late_defs)
  have "pair_step (4 + k) (Exited 0) None (late_pair [] None ''late'' Reading_stderr [] T) (late_pair [] (Some By_itself) ''late'' Reading_stderr [] T)"
    using pair_step.child_end [of "late_pair [] None ''late'' Reading_stderr [] T"] by (simp add: late_pair_def)
  from thread_more [OF 6 late_beside [OF this]]
  have 7: "?R (late_threads [] (Some By_itself) ''late'' Reading_stderr [] T Time_over)" by simp
  from thread_more [OF 7 thread_step.terminate_fails] show ?thesis by (simp add: late_defs)
qed

lemma late_read:
  "(thread_step (4 + k) (Exited 0) 0 T)\<^sup>*\<^sup>* (late_threads [] (Some By_itself) ''late'' Reading_stderr [] T Left)
     (late_threads [] (Some By_itself) [] Reading_stdout [''late''] T Left)"
proof -
  let ?P = "pair_step (4 + k) (Exited 0) None" and ?p = "late_pair [] (Some By_itself) ''late'' Reading_stderr [] T"
  let ?q = "late_pair [] (Some By_itself) ''late'' Reading_stdout [] T"
  have a: "?P ?p ?q" using pair_step.err_end [of ?p] by (simp add: late_pair_def end_of_stderr_def)
  have b: "?P ?q (late_pair [] (Some By_itself) [] Reading_stdout [''late''] T)"
    using pair_step.out_read [of ?q 4] by (simp add: late_pair_def read_stdout_def out_room_def chomp_def OUTPUT_BUFFER_SIZE_def)
  show ?thesis
    by (rule converse_rtranclp_into_rtranclp [of "thread_step (4 + k) (Exited 0) 0 T", OF late_beside [OF a] r_into_rtranclp [of "thread_step (4 + k) (Exited 0) 0 T", OF late_beside [OF b]]]) simp_all
qed

text \<open>C12: a child may end between the end of its time and the call of \<open>TerminateProcess\<close>, which then fails; the main thread
  reports the failed call and leaves, without waiting for the reader thread, which writes into the shared
  buffer after that, while the next test already uses it.\<close>

theorem reader_left_behind:
  "\<exists>s s'. thread_reach (4 + k) (Exited 0) 0 T [Out ''late''] s \<and> main_thread s = Left \<and> out_reads (reader s) = [] \<and>
     (thread_step (4 + k) (Exited 0) 0 T)\<^sup>*\<^sup>* s s' \<and> main_thread s' = Left \<and> out_reads (reader s') = [''late'']"
  using late_left late_read
  by (intro exI [of _ "late_threads [] (Some By_itself) ''late'' Reading_stderr [] T Left"]
      exI [of _ "late_threads [] (Some By_itself) [] Reading_stdout [''late''] T Left"])
    (simp add: late_defs)

section \<open>A child that does nothing\<close>

lemma nothing_tested:
  "thread_reach k (Exited 0) 0 T [] (late_threads [] (Some By_itself) [] Waiting_for_child [] 0 (Tested False 0))"
proof -
  let ?R = "thread_reach k (Exited 0) 0 T []" and ?P = "pair_step k (Exited 0) None"
  have "thread_step k (Exited 0) 0 T (created []) (late_threads [] None [] Forked [] 0 Before_wait)"
    using thread_step.create_thread [of "created []"] by (simp add: created_def forked_def late_defs)
  with thread_start have 1: "?R (late_threads [] None [] Forked [] 0 Before_wait)" by (rule thread_more)
  have "?P (late_pair [] None [] Forked [] 0) (late_pair [] (Some By_itself) [] Forked [] 0)"
    using pair_step.child_end [of "late_pair [] None [] Forked [] 0"] by (simp add: late_pair_def)
  from thread_more [OF 1 late_beside [OF this]]
  have 2: "?R (late_threads [] (Some By_itself) [] Forked [] 0 Before_wait)" by simp
  have "?P (late_pair [] (Some By_itself) [] Forked [] 0) (late_pair [] (Some By_itself) [] Reading_stderr [] 0)"
    using pair_step.start [of "late_pair [] (Some By_itself) [] Forked [] 0" k "Exited 0" None] by (simp add: late_pair_def set_alarm_def)
  from thread_more [OF 2 late_beside [OF this]]
  have 3: "?R (late_threads [] (Some By_itself) [] Reading_stderr [] 0 Before_wait)" by simp
  have "?P (late_pair [] (Some By_itself) [] Reading_stderr [] 0) (late_pair [] (Some By_itself) [] Reading_stdout [] 0)"
    using pair_step.err_end [of "late_pair [] (Some By_itself) [] Reading_stderr [] 0"] by (simp add: late_pair_def end_of_stderr_def)
  from thread_more [OF 3 late_beside [OF this]]
  have 4: "?R (late_threads [] (Some By_itself) [] Reading_stdout [] 0 Before_wait)" by simp
  have "?P (late_pair [] (Some By_itself) [] Reading_stdout [] 0) (late_pair [] (Some By_itself) [] Waiting_for_child [] 0)"
    using pair_step.out_end [of "late_pair [] (Some By_itself) [] Reading_stdout [] 0"] by (simp add: late_pair_def end_of_stdout_def)
  from thread_more [OF 4 late_beside [OF this]]
  have 5: "?R (late_threads [] (Some By_itself) [] Waiting_for_child [] 0 Before_wait)" by simp
  from thread_more [OF 5 thread_step.wait]
  have 6: "?R (late_threads [] (Some By_itself) [] Waiting_for_child [] 0 (First_wait T))" by (simp add: late_defs)
  from thread_more [OF 6 thread_step.wait_object [of _ T By_itself]]
  have 7: "?R (late_threads [] (Some By_itself) [] Waiting_for_child [] 0 (Thread_wait False 0))" by (simp add: late_defs exit_of_def)
  from thread_more [OF 7 thread_step.join [of _ False 0]] show ?thesis by (simp add: late_defs)
qed

theorem threads_report_verdict_witness:
  "\<exists>s'. windows_run_test_forking (demo_windows\<lparr>create_process := \<lambda>_ _.
       child_of (late_threads [] (Some By_itself) [] Waiting_for_child [] 0 (Tested False 0)) False 0\<rparr>)
       (Some (cstr ''prog'')) 6 demo_state = (Returned PCUT_OUTCOME_PASS, s') \<and> trace s' = [Out (''ok 1 bad'' @ [NL])]"
proof -
  let ?p = "late_threads [] (Some By_itself) [] Waiting_for_child [] 0 (Tested False 0)"
  let ?W = "demo_windows\<lparr>create_process := \<lambda>_ _. child_of ?p False 0\<rparr>"
  obtain c6 where c: "windows_command (Some (cstr ''prog'')) (ident demo_bad) = Some c6"
    using demo_commands by (metis demo_state_facts(4))
  have g: "gives_threads ?W (create_process ?W c6 (time_out_millis 5)) (time_out_millis 5 div 1000) (map windows_act []) (Exited 0) ?p"
    unfolding gives_threads_def
  proof (intro conjI exI)
    show "thread_reach 1 (Exited 0) 0 (time_out_millis 5 div 1000) (map windows_act []) ?p" using nothing_tested by simp
  qed (simp_all add: demo_windows_def late_threads_def ends_with_code_def)
  have f: "fit_chunks (map windows_chunk [])" by code_simp
  have o: "windows_end_outcome (Exited 0) = PCUT_OUTCOME_PASS" by code_simp
  have t: "error_text (map windows_chunk []) = []" "kept_text (map windows_chunk []) = []" by code_simp+
  have k: "fate (reader ?p) \<noteq> Some Killed" by (simp add: late_defs)
  have l: "stdout_of [] = concat (map frame [])" "stderr_of [] = []" "length (text_mode (stdout_of [])) < BUFFER_SIZE"
    by (simp_all add: BUFFER_SIZE_def)
  note demo = demo_state_facts
  from threads_report_verdict [OF demo(1-3) c demo(7) l(1,2) f l(3) g] k
  show ?thesis unfolding o t demo(5,6) by (auto simp: demo(8) simp del: entry_of.simps start_of.simps)
qed

end
