(* ===== verification/AssertThat.thy ===== *)
theory AssertThat
  imports CString
begin

text \<open>
  The first experiment with assertions over matchers, \<^verbatim>\<open>contrib/playground/assert_that.c\<close>, and the one
  with argument counting, \<^verbatim>\<open>contrib/playground/macros.c\<close>.  A matcher is a piece of code that sets the
  variable \<open>result\<close>; here it is a function of \<open>actual_value_eval\<close> and the result so far.  The
  arguments of the macros are expressions without side effects, so they are values here; the texts
  of the macro arguments (\<open>#actual\<close>, \<open>#matchers\<close>) are given with them.
\<close>

section \<open>Matchers\<close>

type_synonym int_matching = "int \<Rightarrow> int \<Rightarrow> int"

definition of_truth :: "bool \<Rightarrow> int" where
  "of_truth b = (if b then 1 else 0)"

definition NOT_matcher :: "int_matching \<Rightarrow> int_matching" where
  "NOT_matcher matcher actual result =
     (let result = matcher actual result in of_truth (result = 0))"

definition OR_matcher :: "int_matching \<Rightarrow> int_matching \<Rightarrow> int_matching" where
  "OR_matcher a b actual result =
     (let result = a actual result
      in if result = 1 then result else b actual result)"

text \<open>The loop over the array of values; \<open>break\<close> leaves it with the result 1.\<close>

fun ANY_OF_INTERNAL :: "('v \<Rightarrow> int \<Rightarrow> bool) \<Rightarrow> 'v list \<Rightarrow> int_matching" where
  "ANY_OF_INTERNAL compare [] actual result = result"
| "ANY_OF_INTERNAL compare (v # values) actual result =
     (if compare v actual then 1 else ANY_OF_INTERNAL compare values actual result)"

definition COMPARE_INT :: "int \<Rightarrow> int \<Rightarrow> bool" where
  "COMPARE_INT a b \<longleftrightarrow> a = b"

definition ANY_OF_INT :: "int list \<Rightarrow> int_matching" where
  "ANY_OF_INT values = ANY_OF_INTERNAL COMPARE_INT values"

text \<open>The remainder of C has the sign of the dividend.\<close>

definition c_rem :: "int \<Rightarrow> int \<Rightarrow> int" where
  "c_rem a b = sgn a * (\<bar>a\<bar> mod \<bar>b\<bar>)"

definition IS_ODD :: int_matching where
  "IS_ODD actual result = of_truth (c_rem actual 2 = 0)"

definition IS_INT :: "int \<Rightarrow> int_matching" where
  "IS_INT what actual result = of_truth (actual = what)"

text \<open>\<open>ANY_OF_CMP\<close> either breaks out of the surrounding loop or does nothing.\<close>

definition ANY_OF_CMP :: "int \<Rightarrow> int \<Rightarrow> bool" where
  "ANY_OF_CMP x actual \<longleftrightarrow> x = actual"

definition ANY_OF2 :: "int \<Rightarrow> int \<Rightarrow> int \<Rightarrow> int \<Rightarrow> int \<Rightarrow> int_matching" where
  "ANY_OF2 a b c d e actual result =
     (if ANY_OF_CMP a actual then 1
      else if ANY_OF_CMP b actual then 1
      else if ANY_OF_CMP c actual then 1
      else if ANY_OF_CMP d actual then 1
      else if ANY_OF_CMP e actual then 1
      else result)"

text \<open>The arguments are padded with the first one; those after the fifth are dropped.\<close>

definition ANY_OF :: "int \<Rightarrow> int list \<Rightarrow> int_matching" where
  "ANY_OF x xs =
     (case x # xs @ [x, x, x, x, x, x, x] of
        a # b # c # d # e # _ \<Rightarrow> ANY_OF2 a b c d e
      | _ \<Rightarrow> (\<lambda>actual result. result))"

definition EQUALS :: "int \<Rightarrow> int_matching" where
  "EQUALS what actual result = of_truth (actual = what)"

definition FAVOURITE :: int_matching where
  "FAVOURITE actual result = of_truth (actual = 42)"

section \<open>The assertion\<close>

text \<open>What is printed: nothing if the matcher accepts the value.\<close>

definition ASSERT_THAT_INTERNAL ::
    "('v \<Rightarrow> string) \<Rightarrow> string \<Rightarrow> 'v \<Rightarrow> string \<Rightarrow> ('v \<Rightarrow> int \<Rightarrow> int) \<Rightarrow> string" where
  "ASSERT_THAT_INTERNAL format_directive q_actual actual matchers_name matchers =
     (let result = matchers actual 0
      in if result = 0
         then ''Expected '' @ q_actual @ '' is '' @ matchers_name @ '' but got <'' @
           format_directive actual @ ''>.'' @ [NL]
         else [])"

definition ASSERT_THAT_INT :: "string \<Rightarrow> int \<Rightarrow> string \<Rightarrow> int_matching \<Rightarrow> string" where
  "ASSERT_THAT_INT q_actual actual q_matchers matchers =
     ASSERT_THAT_INTERNAL show_int q_actual actual q_matchers matchers"

definition assert_that_main :: string where
  "assert_that_main =
     (let x = 40 + 2
      in ASSERT_THAT_INT ''x'' x ''ANY_OF_INT(19, 42)'' (ANY_OF_INT [19, 42]) @
         ASSERT_THAT_INT ''x'' x ''NOT( ANY_OF_INT(19, 42) )'' (NOT_matcher (ANY_OF_INT [19, 42])) @
         ASSERT_THAT_INT ''x + 1'' (x + 1) ''ANY_OF_INT(19, 42)'' (ANY_OF_INT [19, 42]) @
         ASSERT_THAT_INT ''x + 1'' (x + 1) ''NOT(NOT(ANY_OF_INT(19, 42)))''
           (NOT_matcher (NOT_matcher (ANY_OF_INT [19, 42]))) @
         ASSERT_THAT_INT ''x + 1'' (x + 1) ''OR(ANY_OF_INT(19, 43), ANY_OF_INT(20, 42))''
           (OR_matcher (ANY_OF_INT [19, 43]) (ANY_OF_INT [20, 42])) @
         ASSERT_THAT_INT ''x + 2'' (x + 2) ''OR(ANY_OF(23, 45, 41), EQUALS(43))''
           (OR_matcher (ANY_OF 23 [45, 41]) (EQUALS 43)) @
         ASSERT_THAT_INT ''x * 3 + 1'' (x * 3 + 1) ''IS_ODD()'' IS_ODD @
         ASSERT_THAT_INT ''x * 3 + 1'' (x * 3 + 1) ''OR(IS_ODD(), IS_INT(127))''
           (OR_matcher IS_ODD (IS_INT 127)) @
         ASSERT_THAT_INT ''x'' x ''FAVOURITE()'' FAVOURITE @
         ASSERT_THAT_INT ''x'' x ''NOT(FAVOURITE())'' (NOT_matcher FAVOURITE) @
         ASSERT_THAT_INT ''x + 1'' (x + 1) ''FAVOURITE()'' FAVOURITE @
         ASSERT_THAT_INT ''x + 1'' (x + 1) ''NOT(FAVOURITE())'' (NOT_matcher FAVOURITE))"

section \<open>Matchers as formulas\<close>

text \<open>Nested matchers as a data type, the code they stand for, and what they mean.\<close>

datatype int_matcher = M_not int_matcher | M_or int_matcher int_matcher | M_any_of_int "int list"
  | M_any_of int "int list" | M_equals int | M_is_int int | M_is_odd | M_favourite

primrec matching :: "int_matcher \<Rightarrow> int_matching" where
  "matching (M_not m) = NOT_matcher (matching m)"
| "matching (M_or m n) = OR_matcher (matching m) (matching n)"
| "matching (M_any_of_int vs) = ANY_OF_INT vs"
| "matching (M_any_of v vs) = ANY_OF v vs"
| "matching (M_equals v) = EQUALS v"
| "matching (M_is_int v) = IS_INT v"
| "matching M_is_odd = IS_ODD"
| "matching M_favourite = FAVOURITE"

primrec accepts :: "int_matcher \<Rightarrow> int \<Rightarrow> bool" where
  "accepts (M_not m) x \<longleftrightarrow> \<not> accepts m x"
| "accepts (M_or m n) x \<longleftrightarrow> accepts m x \<or> accepts n x"
| "accepts (M_any_of_int vs) x \<longleftrightarrow> x \<in> set vs"
| "accepts (M_any_of v vs) x \<longleftrightarrow> x \<in> set (take 5 (v # vs))"
| "accepts (M_equals v) x \<longleftrightarrow> x = v"
| "accepts (M_is_int v) x \<longleftrightarrow> x = v"
| "accepts M_is_odd x \<longleftrightarrow> even x"
| "accepts M_favourite x \<longleftrightarrow> x = 42"

lemma of_truth_simps [simp]:
  "of_truth True = 1" "of_truth False = 0" "of_truth b = 0 \<longleftrightarrow> \<not> b" "of_truth b = 1 \<longleftrightarrow> b"
  by (simp_all add: of_truth_def)

lemma any_of_internal: "ANY_OF_INTERNAL COMPARE_INT vs x 0 = of_truth (x \<in> set vs)"
  by (induction vs) (auto simp: COMPARE_INT_def)

lemma c_rem_even: "c_rem x 2 = 0 \<longleftrightarrow> even x"
  by (auto simp: c_rem_def sgn_if even_iff_mod_2_eq_zero)

text \<open>The padding with the first value does not change what is accepted.\<close>

lemma any_of_padded: "ANY_OF v vs x 0 = of_truth (x \<in> set (take 5 (v # vs)))"
proof -
  have five: "\<exists>a b c d e r. v # vs @ [v, v, v, v, v, v, v] = a # b # c # d # e # r \<and>
      set [a, b, c, d, e] = set (take 5 (v # vs))"
    by (cases vs; cases "tl vs"; cases "tl (tl vs)"; cases "tl (tl (tl vs))")
      (auto simp: eval_nat_numeral)
  then obtain a b c d e r where "v # vs @ [v, v, v, v, v, v, v] = a # b # c # d # e # r"
    and st: "set [a, b, c, d, e] = set (take 5 (v # vs))" by blast
  then have "ANY_OF v vs x 0 = of_truth (x \<in> set [a, b, c, d, e])"
    by (auto simp: ANY_OF_def ANY_OF2_def ANY_OF_CMP_def)
  then show ?thesis by (simp only: st)
qed

lemma matching_accepts: "matching m x 0 = of_truth (accepts m x)"
  by (induction m)
    (auto simp: NOT_matcher_def OR_matcher_def ANY_OF_INT_def any_of_internal any_of_padded EQUALS_def IS_INT_def
      IS_ODD_def FAVOURITE_def c_rem_even Let_def)

text \<open>C32: however matchers are nested, \<open>ASSERT_THAT_INT\<close> prints its message exactly if the value does not
  satisfy the formula that they stand for; the variable \<open>result\<close> that they share never carries a
  result from one matcher to another.  \<open>ANY_OF\<close> looks at its first five values only, and \<open>IS_ODD\<close>
  is the formula of even numbers.\<close>

theorem assertion_decides_formula:
  "ASSERT_THAT_INT q_actual x q_matchers (matching m) =
    (if accepts m x then []
     else ''Expected '' @ q_actual @ '' is '' @ q_matchers @ '' but got <'' @ show_int x @ ''>.'' @ [NL])"
  by (simp add: ASSERT_THAT_INT_def ASSERT_THAT_INTERNAL_def matching_accepts)

section \<open>Counting macro arguments\<close>

text \<open>
  The experiment of \<^verbatim>\<open>macros.c\<close>.  The arguments of a macro are any tokens, and the numbers that the
  macro adds are \<open>Inr\<close>; the result is the token that the expansion consists of.
\<close>

definition ARG_COUNT_INTERNAL :: "'t list \<Rightarrow> 't option" where
  "ARG_COUNT_INTERNAL args = (case args of a # b # c # d # e # n # _ \<Rightarrow> Some n | _ \<Rightarrow> None)"

definition ARG_COUNT :: "'a list \<Rightarrow> ('a + int) option" where
  "ARG_COUNT args = ARG_COUNT_INTERNAL (map Inl args @ [Inr 5, Inr 4, Inr 3, Inr 2, Inr 1])"

text \<open>The text of the arguments; no result when the expansion is not a number.\<close>

fun quoted_args :: "string list \<Rightarrow> string" where
  "quoted_args [] = []"
| "quoted_args [a] = a"
| "quoted_args (a # as) = a @ '', '' @ quoted_args as"

definition SHOW_ARG_COUNT :: "string list \<Rightarrow> string option" where
  "SHOW_ARG_COUNT args =
     (case ARG_COUNT args of
        Some (Inr n) \<Rightarrow> Some (quoted_args args @ '' ==> '' @ show_int n @ [NL])
      | _ \<Rightarrow> None)"

definition CASE_1 :: "int \<Rightarrow> string" where
  "CASE_1 x = ''CASE_1('' @ show_int x @ '')'' @ [NL]"

text \<open>The sum of two numbers of type \<open>int\<close> is undefined if it is out of range.\<close>

definition CASE_2 :: "int \<Rightarrow> int \<Rightarrow> string option" where
  "CASE_2 x y =
     (if - (2 ^ 31) \<le> x + y \<and> x + y < 2 ^ 31
      then Some (''CASE_2('' @ show_int x @ '' + '' @ show_int y @ '' = '' @ show_int (x + y) @ '')'' @ [NL])
      else None)"

text \<open>\<open>PCUT_JOIN\<close> pastes the count to the name of the macro; there are two such macros.\<close>

definition CASE_macro :: "int list \<Rightarrow> string option" where
  "CASE_macro args =
     (case (ARG_COUNT args, args) of
        (Some (Inr n), [x]) \<Rightarrow> if n = 1 then Some (CASE_1 x) else None
      | (Some (Inr n), [x, y]) \<Rightarrow> if n = 2 then CASE_2 x y else None
      | _ \<Rightarrow> None)"

definition macros_main :: "string option" where
  "macros_main =
     do { a \<leftarrow> SHOW_ARG_COUNT [''x''];
          b \<leftarrow> SHOW_ARG_COUNT [''x'', ''y''];
          c \<leftarrow> SHOW_ARG_COUNT [''x'', ''y'', ''z''];
          d \<leftarrow> CASE_macro [1];
          e \<leftarrow> CASE_macro [4, 2];
          Some (a @ b @ c @ d @ e) }"

text \<open>The count is right for one to five arguments, and for no other number of them.\<close>

lemma arg_count_right:
  assumes "args \<noteq> []"
  shows "ARG_COUNT args = Some (Inr (int (length args))) \<longleftrightarrow> length args \<le> 5"
  using assms
  by (cases args; cases "tl args"; cases "tl (tl args)"; cases "tl (tl (tl args))"; cases "tl (tl (tl (tl args)))";
      cases "tl (tl (tl (tl (tl args))))")
    (auto simp: ARG_COUNT_def ARG_COUNT_INTERNAL_def)

lemma macros_main_prints:
  "macros_main = Some (''x ==> 1'' @ [NL] @ ''x, y ==> 2'' @ [NL] @ ''x, y, z ==> 3'' @ [NL] @
     ''CASE_1(1)'' @ [NL] @ ''CASE_2(4 + 2 = 6)'' @ [NL])"
  by code_simp

end
