(* ===== verification/MatchersFmt.thy ===== *)
theory MatchersFmt
  imports Lines
begin

text \<open>
  The second experiment with assertions over matchers, \<^verbatim>\<open>contrib/playground/assert_that_fmt.c\<close>: a matcher
  also describes itself in a text buffer.  The comparator and the formatter of the type are
  arguments of the assertion.  Nothing checks the size of the buffer, so that every operation on it
  has no result where the code writes behind its end.

  The arguments of the macros are values; each of them is evaluated at most once by the code.  The
  texts of macro arguments are given with them.
\<close>

section \<open>Counting arguments\<close>

text \<open>
  The twelfth of the given arguments followed by 11, 10, ..., 1: the number of the arguments, if
  there are at most eleven, and otherwise the twelfth of them.
\<close>

definition PCUT_VAR_ARG_COUNT_INTERNAL :: "'t list \<Rightarrow> 't option" where
  "PCUT_VAR_ARG_COUNT_INTERNAL args = (if 12 \<le> length args then Some (args ! 11) else None)"

definition PCUT_VAR_ARG_COUNT :: "'a list \<Rightarrow> ('a + int) option" where
  "PCUT_VAR_ARG_COUNT args = PCUT_VAR_ARG_COUNT_INTERNAL
     (map Inl args @ map Inr [11, 10, 9, 8, 7, 6, 5, 4, 3, 2, 1])"

section \<open>Comparing\<close>

definition pcut_comparator_integer :: "int \<Rightarrow> int \<Rightarrow> int option" where
  "pcut_comparator_integer a b = Some (if a = b then 0 else if a < b then -1 else 1)"

definition pcut_comparator_string :: "bytes \<Rightarrow> bytes \<Rightarrow> int option" where
  "pcut_comparator_string a b = c_strcmp a b"

section \<open>The text buffer\<close>

definition PCUT_ASSERTION_TEXT_BUFFER_LENGTH :: nat where "PCUT_ASSERTION_TEXT_BUFFER_LENGTH = 1024"

text \<open>\<open>strcat\<close>, and \<open>sprintf\<close> into a new array of 48 bytes.\<close>

definition c_strcat :: "bytes \<Rightarrow> bytes \<Rightarrow> bytes option" where
  "c_strcat dest src =
     do { n \<leftarrow> c_strlen dest;
          txt \<leftarrow> c_text src;
          store dest n (txt @ [NUL]) }"

definition sprintf48 :: "string \<Rightarrow> bytes option" where
  "sprintf48 txt = store (replicate 48 NUL) 0 (txt @ [NUL])"

definition pcut_assertion_text_buffer_append :: "bytes \<Rightarrow> bytes \<Rightarrow> bytes option" where
  "pcut_assertion_text_buffer_append buffer txt = c_strcat buffer txt"

definition pcut_assertion_text_buffer_append_integer :: "bytes \<Rightarrow> int \<Rightarrow> bytes option" where
  "pcut_assertion_text_buffer_append_integer buffer v =
     do { tmp \<leftarrow> sprintf48 (show_int v);
          pcut_assertion_text_buffer_append buffer tmp }"

definition pcut_assertion_text_buffer_append_string :: "bytes \<Rightarrow> bytes \<Rightarrow> bytes option" where
  "pcut_assertion_text_buffer_append_string buffer v =
     do { buffer \<leftarrow> pcut_assertion_text_buffer_append buffer (cstr [CHR 0x22]);
          buffer \<leftarrow> pcut_assertion_text_buffer_append buffer v;
          pcut_assertion_text_buffer_append buffer (cstr [CHR 0x22]) }"

section \<open>Matchers\<close>

text \<open>The variables that a matcher uses, next to the actual value.\<close>

record 'v that =
  pcut_that_tmp_value_eval :: 'v
  pcut_that_result :: int
  pcut_that_buffer :: bytes

text \<open>The comparator and the formatter.\<close>

type_synonym 'v comparator = "'v \<Rightarrow> 'v \<Rightarrow> int option"
type_synonym 'v formatter = "bytes \<Rightarrow> 'v \<Rightarrow> bytes option"
type_synonym 'v matcher = "'v comparator \<Rightarrow> 'v formatter \<Rightarrow> 'v \<Rightarrow> 'v that \<Rightarrow> 'v that option"

definition PCUT_ASSERT_THAT_APPEND_DESCRIPTION :: "string \<Rightarrow> 'v that \<Rightarrow> 'v that option" where
  "PCUT_ASSERT_THAT_APPEND_DESCRIPTION str st =
     do { b \<leftarrow> pcut_assertion_text_buffer_append (pcut_that_buffer st) (cstr str);
          Some (st\<lparr>pcut_that_buffer := b\<rparr>) }"

definition PCUT_ASSERT_THAT_APPEND_VALUE :: "'v formatter \<Rightarrow> 'v \<Rightarrow> 'v that \<Rightarrow> 'v that option" where
  "PCUT_ASSERT_THAT_APPEND_VALUE F v st =
     do { b \<leftarrow> F (pcut_that_buffer st) v;
          Some (st\<lparr>pcut_that_buffer := b\<rparr>) }"

text \<open>Comparing the actual value with the temporary one, and setting the result.\<close>

definition compare_with_actual :: "'v comparator \<Rightarrow> 'v \<Rightarrow> 'v that \<Rightarrow> 'v that option" where
  "compare_with_actual C actual st =
     do { d \<leftarrow> C actual (pcut_that_tmp_value_eval st);
          Some (st\<lparr>pcut_that_result := (if d = 0 then 1 else 0)\<rparr>) }"

definition PCUT_IS_EQUAL :: "'v \<Rightarrow> 'v matcher" where
  "PCUT_IS_EQUAL v C F actual st =
     do { st \<leftarrow> compare_with_actual C actual (st\<lparr>pcut_that_tmp_value_eval := v\<rparr>);
          st \<leftarrow> PCUT_ASSERT_THAT_APPEND_DESCRIPTION ''equal to '' st;
          PCUT_ASSERT_THAT_APPEND_VALUE F (pcut_that_tmp_value_eval st) st }"

definition PCUT_IS_NOT :: "'v matcher \<Rightarrow> 'v matcher" where
  "PCUT_IS_NOT matcher C F actual st =
     do { st \<leftarrow> PCUT_ASSERT_THAT_APPEND_DESCRIPTION ''not ('' st;
          st \<leftarrow> matcher C F actual st;
          st \<leftarrow> Some (st\<lparr>pcut_that_result := (if pcut_that_result st = 0 then 1 else 0)\<rparr>);
          PCUT_ASSERT_THAT_APPEND_DESCRIPTION '')'' st }"

text \<open>One value of a list; the result tells whether the code breaks out of the inner loop.\<close>

definition PCUT_IS_ANY_OF_NEXT_VALUE ::
    "'v comparator \<Rightarrow> 'v formatter \<Rightarrow> 'v \<Rightarrow> int \<Rightarrow> int \<Rightarrow> 'v \<Rightarrow> 'v that \<Rightarrow> (bool \<times> 'v that) option" where
  "PCUT_IS_ANY_OF_NEXT_VALUE C F actual count current_index v st =
     (if current_index \<ge> count then Some (True, st)
      else do { st \<leftarrow> (if current_index > 0 then PCUT_ASSERT_THAT_APPEND_DESCRIPTION '', '' st else Some st);
                st \<leftarrow> Some (st\<lparr>pcut_that_tmp_value_eval := v\<rparr>);
                st \<leftarrow> PCUT_ASSERT_THAT_APPEND_VALUE F (pcut_that_tmp_value_eval st) st;
                st \<leftarrow> (if pcut_that_result st = 0 then compare_with_actual C actual st else Some st);
                Some (False, st) })"

text \<open>The uses of the previous macro in a row, from an index on; after the last one the error text.\<close>

fun next_values :: "'v comparator \<Rightarrow> 'v formatter \<Rightarrow> 'v \<Rightarrow> int \<Rightarrow> int \<Rightarrow> 'v list \<Rightarrow> 'v that \<Rightarrow> 'v that option" where
  "next_values C F actual count i [] st =
     PCUT_ASSERT_THAT_APPEND_DESCRIPTION '' !!! INTERNAL ERROR (PCUT_IS_ANY_OF too small) !!! '' st"
| "next_values C F actual count i (v # vs) st =
     do { (leave, st) \<leftarrow> PCUT_IS_ANY_OF_NEXT_VALUE C F actual count i v st;
          if leave then Some st else next_values C F actual count (i + 1) vs st }"

definition PCUT_IS_ANY_OF_COUNTED :: "int \<Rightarrow> 'v list \<Rightarrow> 'v matcher" where
  "PCUT_IS_ANY_OF_COUNTED count vs C F actual st = next_values C F actual count 0 (take 7 vs) st"

text \<open>
  With more than eleven values the count is the twelfth value itself, converted to a number, if its
  type has such a conversion: \<open>as_count\<close>.
\<close>

definition PCUT_IS_ANY_OF :: "('v \<Rightarrow> int option) \<Rightarrow> 'v list \<Rightarrow> 'v matcher" where
  "PCUT_IS_ANY_OF as_count vs C F actual st =
     do { st \<leftarrow> Some (st\<lparr>pcut_that_result := 0\<rparr>);
          st \<leftarrow> PCUT_ASSERT_THAT_APPEND_DESCRIPTION ''any of { '' st;
          n \<leftarrow> PCUT_VAR_ARG_COUNT vs;
          count \<leftarrow> (case n of Inr k \<Rightarrow> Some k | Inl v \<Rightarrow> as_count v);
          st \<leftarrow> PCUT_IS_ANY_OF_COUNTED count (vs @ replicate 11 actual) C F actual st;
          PCUT_ASSERT_THAT_APPEND_DESCRIPTION '' }'' st }"

section \<open>Assertions\<close>

text \<open>The buffer is not initialized: \<open>stack\<close> is what the memory holds.  The result is what is printed.\<close>

definition PCUT_ASSERT_THAT_TYPED ::
    "bytes \<Rightarrow> 'v comparator \<Rightarrow> 'v formatter \<Rightarrow> string \<Rightarrow> 'v \<Rightarrow> string \<Rightarrow> 'v matcher \<Rightarrow> string option" where
  "PCUT_ASSERT_THAT_TYPED stack C F q_actual actual matcher_name matcher =
     do { b \<leftarrow> store (take PCUT_ASSERTION_TEXT_BUFFER_LENGTH stack) 0 [NUL];
          st \<leftarrow> Some \<lparr>pcut_that_tmp_value_eval = actual, pcut_that_result = 1, pcut_that_buffer = b\<rparr>;
          st \<leftarrow> PCUT_ASSERT_THAT_APPEND_DESCRIPTION (''Expected '' @ q_actual @ '' is '') st;
          st \<leftarrow> matcher C F actual st;
          st \<leftarrow> PCUT_ASSERT_THAT_APPEND_DESCRIPTION '' but got '' st;
          st \<leftarrow> PCUT_ASSERT_THAT_APPEND_VALUE F actual st;
          st \<leftarrow> PCUT_ASSERT_THAT_APPEND_DESCRIPTION ('' ['' @ matcher_name @ ''].'') st;
          txt \<leftarrow> c_text (pcut_that_buffer st);
          Some ((if pcut_that_result st = 0 then ''ERROR: '' else '' OKAY: '') @ txt @ [NL]) }"

definition PCUT_ASSERT_THAT_INT :: "bytes \<Rightarrow> string \<Rightarrow> int \<Rightarrow> string \<Rightarrow> int matcher \<Rightarrow> string option" where
  "PCUT_ASSERT_THAT_INT stack q_actual actual q_matcher matcher =
     PCUT_ASSERT_THAT_TYPED stack pcut_comparator_integer pcut_assertion_text_buffer_append_integer
       q_actual actual q_matcher matcher"

definition PCUT_ASSERT_THAT_STRING :: "bytes \<Rightarrow> string \<Rightarrow> bytes \<Rightarrow> string \<Rightarrow> bytes matcher \<Rightarrow> string option" where
  "PCUT_ASSERT_THAT_STRING stack q_actual actual q_matcher matcher =
     PCUT_ASSERT_THAT_TYPED stack pcut_comparator_string pcut_assertion_text_buffer_append_string
       q_actual actual q_matcher matcher"

text \<open>A type of the user.\<close>

record coord_t =
  coord_x :: int
  coord_y :: int

definition coord_comparator :: "coord_t \<Rightarrow> coord_t \<Rightarrow> int option" where
  "coord_comparator a b = Some (if coord_x a = coord_x b \<and> coord_y a = coord_y b then 0 else -1)"

definition coord_append_to_buffer :: "bytes \<Rightarrow> coord_t \<Rightarrow> bytes option" where
  "coord_append_to_buffer buffer v =
     do { tmp \<leftarrow> sprintf48 (''['' @ show_int (coord_x v) @ '','' @ show_int (coord_y v) @ '']'');
          c_strcat buffer tmp }"

definition PCUT_ASSERT_THAT_COORD :: "bytes \<Rightarrow> string \<Rightarrow> coord_t \<Rightarrow> string \<Rightarrow> coord_t matcher \<Rightarrow> string option" where
  "PCUT_ASSERT_THAT_COORD stack q_actual actual q_matcher matcher =
     PCUT_ASSERT_THAT_TYPED stack coord_comparator coord_append_to_buffer q_actual actual q_matcher matcher"

text \<open>A matcher of the user.\<close>

definition FMT_FAVOURITE :: "int matcher" where
  "FMT_FAVOURITE C F actual st =
     PCUT_ASSERT_THAT_APPEND_DESCRIPTION ''favourite''
       (st\<lparr>pcut_that_result := (if actual = 42 then 1 else 0)\<rparr>)"

section \<open>The program\<close>

text \<open>Strings and coordinates do not convert to numbers.\<close>

definition no_count :: "'v \<Rightarrow> int option" where
  "no_count v = None"

text \<open>\<open>x++\<close> has the value of \<open>x\<close> before it is increased, \<open>++y\<close> the one after.\<close>

definition fmt_main :: "bytes \<Rightarrow> string option" where
  "fmt_main stack =
     (let ints = PCUT_IS_ANY_OF Some; x = 40 + 2
      in do { o1 \<leftarrow> PCUT_ASSERT_THAT_INT stack ''x'' x ''PCUT_IS_EQUAL(42)'' (PCUT_IS_EQUAL 42);
              o2 \<leftarrow> PCUT_ASSERT_THAT_INT stack ''x + 1'' (x + 1) ''PCUT_IS_EQUAL(42 - 2)'' (PCUT_IS_EQUAL (42 - 2));
              o3 \<leftarrow> PCUT_ASSERT_THAT_INT stack ''x'' x ''PCUT_IS_NOT(PCUT_IS_EQUAL(42))'' (PCUT_IS_NOT (PCUT_IS_EQUAL 42));
              o4 \<leftarrow> PCUT_ASSERT_THAT_INT stack ''x'' x ''PCUT_IS_NOT(PCUT_IS_EQUAL(40))'' (PCUT_IS_NOT (PCUT_IS_EQUAL 40));
              o5 \<leftarrow> PCUT_ASSERT_THAT_INT stack ''x'' x ''PCUT_IS_ANY_OF(4, 5, 23, 42)'' (ints [4, 5, 23, 42]);
              o6 \<leftarrow> PCUT_ASSERT_THAT_INT stack ''x'' x ''PCUT_IS_ANY_OF(4, 5, 23, 12, 42)'' (ints [4, 5, 23, 12, 42]);
              o7 \<leftarrow> PCUT_ASSERT_THAT_INT stack ''x'' x ''PCUT_IS_ANY_OF(4, 5, 23, 41)'' (ints [4, 5, 23, 41]);
              o8 \<leftarrow> PCUT_ASSERT_THAT_INT stack ''x'' x ''PCUT_IS_ANY_OF(4)'' (ints [4]);
              o9 \<leftarrow> PCUT_ASSERT_THAT_INT stack ''x'' x ''PCUT_IS_NOT(PCUT_IS_ANY_OF(4, 5, 23, 42))''
                      (PCUT_IS_NOT (ints [4, 5, 23, 42]));
              y \<leftarrow> Some 41;
              o10 \<leftarrow> PCUT_ASSERT_THAT_INT stack ''x++'' x ''PCUT_IS_EQUAL(++y)'' (PCUT_IS_EQUAL (y + 1));
              x \<leftarrow> Some (x + 1);
              o11 \<leftarrow> PCUT_ASSERT_THAT_INT stack ''x'' x ''FAVOURITE()'' FMT_FAVOURITE;
              o12 \<leftarrow> PCUT_ASSERT_THAT_INT stack ''x'' x ''PCUT_IS_NOT(FAVOURITE())'' (PCUT_IS_NOT FMT_FAVOURITE);
              o13 \<leftarrow> PCUT_ASSERT_THAT_INT stack ''x + 1'' (x + 1) ''FAVOURITE()'' FMT_FAVOURITE;
              o14 \<leftarrow> PCUT_ASSERT_THAT_INT stack ''x + 1'' (x + 1) ''PCUT_IS_NOT(FAVOURITE())'' (PCUT_IS_NOT FMT_FAVOURITE);
              target \<leftarrow> Some \<lparr>coord_x = 4, coord_y = 5\<rparr>;
              good \<leftarrow> Some \<lparr>coord_x = 4, coord_y = 5\<rparr>;
              bad \<leftarrow> Some \<lparr>coord_x = 4, coord_y = 6\<rparr>;
              o15 \<leftarrow> PCUT_ASSERT_THAT_COORD stack ''target'' target ''PCUT_IS_EQUAL(good)'' (PCUT_IS_EQUAL good);
              o16 \<leftarrow> PCUT_ASSERT_THAT_COORD stack ''target'' target ''PCUT_IS_EQUAL(bad)'' (PCUT_IS_EQUAL bad);
              o17 \<leftarrow> PCUT_ASSERT_THAT_COORD stack ''target'' target ''PCUT_IS_ANY_OF(good, bad)'' (PCUT_IS_ANY_OF no_count [good, bad]);
              greetings \<leftarrow> Some (cstr ''hello'');
              words \<leftarrow> Some [cstr ''hullo'', cstr ''hello'', cstr ''hallo''];
              o18 \<leftarrow> PCUT_ASSERT_THAT_STRING stack ''greetings'' greetings (''PCUT_IS_EQUAL('' @ [CHR 0x22] @ ''hello'' @ [CHR 0x22] @ '')'')
                       (PCUT_IS_EQUAL (cstr ''hello''));
              o19 \<leftarrow> PCUT_ASSERT_THAT_STRING stack ''greetings'' greetings (''PCUT_IS_EQUAL('' @ [CHR 0x22] @ ''hullo'' @ [CHR 0x22] @ '')'')
                       (PCUT_IS_EQUAL (cstr ''hullo''));
              q \<leftarrow> Some (''PCUT_IS_ANY_OF('' @ [CHR 0x22] @ ''hullo'' @ [CHR 0x22] @ '', '' @ [CHR 0x22] @ ''hello'' @
                     [CHR 0x22] @ '', '' @ [CHR 0x22] @ ''hallo'' @ [CHR 0x22] @ '')'');
              o20 \<leftarrow> PCUT_ASSERT_THAT_STRING stack ''greetings'' greetings q (PCUT_IS_ANY_OF no_count words);
              o21 \<leftarrow> PCUT_ASSERT_THAT_STRING stack ''greetings'' greetings (''PCUT_IS_NOT('' @ q @ '')'')
                       (PCUT_IS_NOT (PCUT_IS_ANY_OF no_count words));
              Some (concat [o1, o2, o3, o4, o5, o6, o7, o8, o9, o10, o11, o12, o13, o14, o15, o16, o17, o18, o19,
                o20, o21]) })"

end
