(* ===== verification/MatchersSpec.thy ===== *)
theory MatchersSpec
  imports MatchersFmt
begin

text \<open>
  What an assertion over matchers prints: the description of the matcher and the value, after the
  verdict that the formula it stands for has.  The specification is exact: an assertion has a result
  if and only if its text fits into the buffer.  The comparator and the formatter of a type are an
  interface, the locale \<open>matched_type\<close>.
\<close>

section \<open>Matchers as formulas\<close>

datatype 'v formula = Equal 'v | Negation "'v formula" | Any_of "'v list"

fun matcher_of :: "('v \<Rightarrow> int option) \<Rightarrow> 'v formula \<Rightarrow> 'v matcher" where
  "matcher_of as_count (Equal v) = PCUT_IS_EQUAL v"
| "matcher_of as_count (Negation f) = PCUT_IS_NOT (matcher_of as_count f)"
| "matcher_of as_count (Any_of vs) = PCUT_IS_ANY_OF as_count vs"

text \<open>One to eleven values can be counted; the first seven of them are compared.\<close>

fun countable_lists :: "'v formula \<Rightarrow> bool" where
  "countable_lists (Equal v) \<longleftrightarrow> True"
| "countable_lists (Negation f) \<longleftrightarrow> countable_lists f"
| "countable_lists (Any_of vs) \<longleftrightarrow> 1 \<le> length vs \<and> length vs \<le> 11"

fun formula_values :: "'v formula \<Rightarrow> 'v list" where
  "formula_values (Equal v) = [v]"
| "formula_values (Negation f) = formula_values f"
| "formula_values (Any_of vs) = vs"

fun satisfies :: "'v \<Rightarrow> 'v formula \<Rightarrow> bool" where
  "satisfies x (Equal v) \<longleftrightarrow> x = v"
| "satisfies x (Negation f) \<longleftrightarrow> \<not> satisfies x f"
| "satisfies x (Any_of vs) \<longleftrightarrow> x \<in> set (take 7 vs)"

definition too_small :: string where
  "too_small = '' !!! INTERNAL ERROR (PCUT_IS_ANY_OF too small) !!! ''"

fun commas :: "string list \<Rightarrow> string" where
  "commas [] = []"
| "commas [s] = s"
| "commas (s # ss) = s @ '', '' @ commas ss"

text \<open>The error text is printed for seven values already, although all of them were compared.\<close>

fun describe :: "('v \<Rightarrow> string) \<Rightarrow> 'v formula \<Rightarrow> string" where
  "describe show_value (Equal v) = ''equal to '' @ show_value v"
| "describe show_value (Negation f) = ''not ('' @ describe show_value f @ '')''"
| "describe show_value (Any_of vs) =
     ''any of { '' @ commas (map show_value (take 7 vs)) @ (if length vs < 7 then [] else too_small) @ '' }''"

section \<open>Texts in a buffer\<close>

text \<open>The buffer holds a text; it has a fixed size.\<close>

definition holds_text :: "bytes \<Rightarrow> string \<Rightarrow> bool" where
  "holds_text b s \<longleftrightarrow> nul_free s \<and> (\<exists>r. b = s @ NUL # r) \<and> length b = PCUT_ASSERTION_TEXT_BUFFER_LENGTH"

text \<open>An operation that is defined exactly if the text fits, and then leaves it in the buffer.\<close>

definition yields :: "bytes option \<Rightarrow> string \<Rightarrow> bool" where
  "yields m s \<longleftrightarrow> (case m of None \<Rightarrow> PCUT_ASSERTION_TEXT_BUFFER_LENGTH \<le> length s | Some b \<Rightarrow> holds_text b s)"

lemma holds_text_fits: "holds_text b s \<Longrightarrow> length s < PCUT_ASSERTION_TEXT_BUFFER_LENGTH"
  by (auto simp: holds_text_def dest: arg_cong [where f = length])

lemma holds_text_read: "holds_text b s \<Longrightarrow> c_text b = Some s"
  by (auto simp: holds_text_def c_text_app)

lemma yields_bind:
  assumes "yields m s" and "\<And>b. holds_text b s \<Longrightarrow> yields (f b) (s @ t)"
  shows "yields (m \<bind> f) (s @ t)"
  using assms by (cases m) (auto simp: yields_def)

lemma strcat_yields:
  assumes b: "holds_text b s" and t: "nul_free t"
  shows "yields (c_strcat b (t @ NUL # r)) (s @ t)"
proof -
  from b obtain q where q: "b = s @ NUL # q" "nul_free s" "length b = PCUT_ASSERTION_TEXT_BUFFER_LENGTH"
    by (auto simp: holds_text_def)
  have "c_strcat b (t @ NUL # r) = store b (length s) (t @ [NUL])"
    using q(1,2) t by (simp add: c_strcat_def c_text_app strlen_app)
  moreover have "holds_text (s @ t @ NUL # drop (length t) q) (s @ t)" if "length (s @ t) < length b"
    using that q t by (simp add: holds_text_def)
  ultimately show ?thesis using q by (auto simp: yields_def store_def)
qed

lemma append_yields: "holds_text b s \<Longrightarrow> nul_free t \<Longrightarrow> yields (pcut_assertion_text_buffer_append b (cstr t)) (s @ t)"
  using strcat_yields [of b s t "[]"] by (simp add: pcut_assertion_text_buffer_append_def cstr_def)

lemma sprintf48_text: "length txt < 48 \<Longrightarrow> \<exists>r. sprintf48 txt = Some (txt @ NUL # r)"
  by (auto simp: sprintf48_def store_def)

section \<open>The interface of a type\<close>

locale matched_type =
  fixes C :: "'v comparator" and F :: "'v formatter" and show_value :: "'v \<Rightarrow> string" and valid :: "'v \<Rightarrow> bool"
  assumes compare_law: "valid a \<Longrightarrow> valid b \<Longrightarrow> \<exists>d. C a b = Some d \<and> (d = 0 \<longleftrightarrow> a = b)"
    and format_law: "valid v \<Longrightarrow> holds_text buf s \<Longrightarrow> s \<noteq> [] \<Longrightarrow> yields (F buf v) (s @ show_value v)"
    and show_nul_free: "valid v \<Longrightarrow> nul_free (show_value v)"
begin

text \<open>The state of a matcher: its buffer holds a text that is not empty, and the result is a truth value.\<close>

definition at :: "'v that \<Rightarrow> string \<Rightarrow> bool \<Rightarrow> bool" where
  "at st s r \<longleftrightarrow> holds_text (pcut_that_buffer st) s \<and> s \<noteq> [] \<and> pcut_that_result st = (if r then 1 else 0)"

definition reaches :: "'v that option \<Rightarrow> string \<Rightarrow> bool \<Rightarrow> bool" where
  "reaches m s r \<longleftrightarrow> (case m of None \<Rightarrow> PCUT_ASSERTION_TEXT_BUFFER_LENGTH \<le> length s | Some st \<Rightarrow> at st s r)"

lemma reaches_bind:
  assumes "reaches m s r" and "\<And>st. at st s r \<Longrightarrow> reaches (f st) (s @ t) q"
  shows "reaches (m \<bind> f) (s @ t) q"
  using assms by (cases m) (auto simp: reaches_def)

lemma reaches_Some [simp]: "reaches (Some st) s r \<longleftrightarrow> at st s r"
  by (simp add: reaches_def)

lemma describe_step: "at st s r \<Longrightarrow> nul_free t \<Longrightarrow> reaches (PCUT_ASSERT_THAT_APPEND_DESCRIPTION t st) (s @ t) r"
  using append_yields [of "pcut_that_buffer st" s t]
  by (auto simp: PCUT_ASSERT_THAT_APPEND_DESCRIPTION_def at_def reaches_def yields_def split: option.splits bind_splits)

lemma value_step: "at st s r \<Longrightarrow> valid v \<Longrightarrow> reaches (PCUT_ASSERT_THAT_APPEND_VALUE F v st) (s @ show_value v) r"
  using format_law [of v "pcut_that_buffer st" s]
  by (auto simp: PCUT_ASSERT_THAT_APPEND_VALUE_def at_def reaches_def yields_def split: option.splits bind_splits)

lemma compare_step:
  "at st s r \<Longrightarrow> valid x \<Longrightarrow> valid (pcut_that_tmp_value_eval st) \<Longrightarrow>
   \<exists>st'. compare_with_actual C x st = Some st' \<and> at st' s (x = pcut_that_tmp_value_eval st) \<and>
     pcut_that_tmp_value_eval st' = pcut_that_tmp_value_eval st"
  using compare_law [of x "pcut_that_tmp_value_eval st"]
  by (auto simp: compare_with_actual_def at_def)

lemma is_equal_step:
  assumes "at st s r" and "valid x" and "valid v"
  shows "reaches (PCUT_IS_EQUAL v C F x st) (s @ ''equal to '' @ show_value v) (x = v)"
proof -
  have "at (st\<lparr>pcut_that_tmp_value_eval := v\<rparr>) s r" using assms(1) by (simp add: at_def)
  from compare_step [OF this assms(2)] assms(3) obtain st' where
    st': "compare_with_actual C x (st\<lparr>pcut_that_tmp_value_eval := v\<rparr>) = Some st'" "at st' s (x = v)"
      "pcut_that_tmp_value_eval st' = v" by auto
  have tmp: "pcut_that_tmp_value_eval t = pcut_that_tmp_value_eval st'"
    if "PCUT_ASSERT_THAT_APPEND_DESCRIPTION str st' = Some t" for str t
    using that by (auto simp: PCUT_ASSERT_THAT_APPEND_DESCRIPTION_def bind_Some_conv)
  have "reaches (PCUT_ASSERT_THAT_APPEND_DESCRIPTION ''equal to '' st' \<bind>
      (\<lambda>st. PCUT_ASSERT_THAT_APPEND_VALUE F v st)) ((s @ ''equal to '') @ show_value v) (x = v)"
    by (rule reaches_bind [OF describe_step [OF st'(2)]], simp add: nul_free_def, erule value_step, rule assms(3))
  moreover have "PCUT_IS_EQUAL v C F x st = PCUT_ASSERT_THAT_APPEND_DESCRIPTION ''equal to '' st' \<bind>
      (\<lambda>st. PCUT_ASSERT_THAT_APPEND_VALUE F v st)"
    using st' tmp by (cases "PCUT_ASSERT_THAT_APPEND_DESCRIPTION ''equal to '' st'") (simp_all add: PCUT_IS_EQUAL_def)
  ultimately show ?thesis by simp
qed

text \<open>One value of a list, and what the code does after it.\<close>

definition separator :: "int \<Rightarrow> string" where
  "separator i = (if i > 0 then '', '' else [])"

lemma compare_again:
  assumes "at st s r" and "valid x" and "pcut_that_tmp_value_eval st = v" and "valid v"
  shows "\<exists>st'. (if pcut_that_result st = 0 then compare_with_actual C x st else Some st) = Some st' \<and> at st' s (r \<or> x = v)"
  using compare_step [OF assms(1,2)] assms by (cases r) (auto simp: at_def)

lemma next_value_step:
  assumes "at st s r" and "valid x" and "valid v" and "i < count"
    and rest: "\<And>st'. at st' (s @ separator i @ show_value v) (r \<or> x = v) \<Longrightarrow>
      reaches (k st') (s @ separator i @ show_value v @ t) q"
  shows "reaches (PCUT_IS_ANY_OF_NEXT_VALUE C F x count i v st \<bind> (\<lambda>(leave, st). if leave then Some st else k st))
    (s @ separator i @ show_value v @ t) q"
proof -
  let ?rest_of = "\<lambda>st. PCUT_ASSERT_THAT_APPEND_VALUE F v (st\<lparr>pcut_that_tmp_value_eval := v\<rparr>) \<bind>
    (\<lambda>st. (if pcut_that_result st = 0 then compare_with_actual C x st else Some st) \<bind> k)"
  have tail: "reaches (?rest_of st) ((s @ separator i) @ show_value v @ t) q" if st: "at st (s @ separator i) r" for st
  proof -
    have "at (st\<lparr>pcut_that_tmp_value_eval := v\<rparr>) (s @ separator i) r" using st by (simp add: at_def)
    note app = value_step [OF this assms(3)]
    show ?thesis
    proof (cases "PCUT_ASSERT_THAT_APPEND_VALUE F v (st\<lparr>pcut_that_tmp_value_eval := v\<rparr>)")
      case None
      with app show ?thesis by (simp add: reaches_def)
    next
      case (Some st1)
      then have "pcut_that_tmp_value_eval st1 = v"
        by (auto simp: PCUT_ASSERT_THAT_APPEND_VALUE_def bind_Some_conv)
      from compare_again [OF _ assms(2) this assms(3), of "(s @ separator i) @ show_value v" r] app Some obtain st2 where
        "(if pcut_that_result st1 = 0 then compare_with_actual C x st1 else Some st1) = Some st2"
        "at st2 (s @ separator i @ show_value v) (r \<or> x = v)" by auto
      with Some rest [of st2] show ?thesis by simp
    qed
  qed
  have "reaches ((if 0 < i then PCUT_ASSERT_THAT_APPEND_DESCRIPTION '', '' st else Some st) \<bind> ?rest_of)
      ((s @ separator i) @ show_value v @ t) q"
  proof (cases "0 < i")
    case True
    have "reaches (PCUT_ASSERT_THAT_APPEND_DESCRIPTION '', '' st \<bind> ?rest_of) ((s @ separator i) @ show_value v @ t) q"
      by (rule reaches_bind [OF _ tail]) (use True describe_step [OF assms(1), of "'', ''"] in \<open>simp_all add: separator_def nul_free_def\<close>)
    with True show ?thesis by simp
  next
    case False
    with tail [of st] assms(1) show ?thesis by (simp add: separator_def)
  qed
  moreover have "PCUT_IS_ANY_OF_NEXT_VALUE C F x count i v st \<bind> (\<lambda>(leave, st). if leave then Some st else k st) =
      (if 0 < i then PCUT_ASSERT_THAT_APPEND_DESCRIPTION '', '' st else Some st) \<bind> ?rest_of"
    using assms(4)
    by (auto simp: PCUT_IS_ANY_OF_NEXT_VALUE_def PCUT_ASSERT_THAT_APPEND_VALUE_def split: bind_splits)
  ultimately show ?thesis by simp
qed

text \<open>The values from an index on, up to the count or to the end of the seven places.\<close>

definition listed :: "int \<Rightarrow> 'v list \<Rightarrow> string" where
  "listed i vs = (if i = 0 then commas (map show_value vs) else concat (map (\<lambda>v. '', '' @ show_value v) vs))"

lemma commas_Cons: "commas (s # ss) = s @ concat (map (\<lambda>t. '', '' @ t) ss)"
  by (induction ss arbitrary: s) auto

lemma listed_Cons: "0 \<le> i \<Longrightarrow> listed i (v # vs) = separator i @ show_value v @ listed (i + 1) vs"
  by (simp add: listed_def separator_def commas_Cons comp_def)

lemma next_values_steps:
  "at st s r \<Longrightarrow> valid x \<Longrightarrow> list_all valid vs \<Longrightarrow> 0 \<le> i \<Longrightarrow> i \<le> count \<Longrightarrow>
   reaches (next_values C F x count i vs st)
     (s @ listed i (take (nat (count - i)) vs) @ (if nat (count - i) < length vs then [] else too_small))
     (r \<or> x \<in> set (take (nat (count - i)) vs))"
proof (induction vs arbitrary: st s r i)
  case Nil
  then show ?case
    using describe_step [OF Nil.prems(1), of too_small]
    by (simp add: listed_def too_small_def nul_free_def)
next
  case (Cons v vs)
  show ?case
  proof (cases "i < count")
    case False
    with Cons.prems show ?thesis by (simp add: PCUT_IS_ANY_OF_NEXT_VALUE_def listed_def)
  next
    case True
    let ?n = "nat (count - (i + 1))"
    have n: "nat (count - i) = Suc ?n" using True by simp
    have "reaches (PCUT_IS_ANY_OF_NEXT_VALUE C F x count i v st \<bind>
        (\<lambda>(leave, st). if leave then Some st else next_values C F x count (i + 1) vs st))
      (s @ separator i @ show_value v @ listed (i + 1) (take ?n vs) @ (if ?n < length vs then [] else too_small))
      ((r \<or> x = v) \<or> x \<in> set (take ?n vs))"
    proof (rule next_value_step [OF Cons.prems(1,2) _ True])
      show "valid v" using Cons.prems(3) by simp
      fix st' assume "at st' (s @ separator i @ show_value v) (r \<or> x = v)"
      from Cons.IH [OF this Cons.prems(2), of "i + 1"] Cons.prems(3,4) True
      show "reaches (next_values C F x count (i + 1) vs st') (s @ separator i @ show_value v @ listed (i + 1) (take ?n vs) @
          (if ?n < length vs then [] else too_small)) ((r \<or> x = v) \<or> x \<in> set (take ?n vs))" by simp
    qed
    then show ?thesis unfolding n by (simp add: listed_Cons Cons.prems(4) disj_assoc)
  qed
qed

lemma var_arg_count: "1 \<le> length vs \<Longrightarrow> length vs \<le> 11 \<Longrightarrow> PCUT_VAR_ARG_COUNT vs = Some (Inr (int (length vs)))"
proof -
  assume "1 \<le> length vs" "length vs \<le> 11"
  moreover have "[11, 10, 9, 8, 7, 6, 5, 4, 3, 2, 1] = map (\<lambda>k. 11 - int k) [0..<11]" by (simp add: upt_rec)
  ultimately show ?thesis
    by (simp add: PCUT_VAR_ARG_COUNT_def PCUT_VAR_ARG_COUNT_INTERNAL_def nth_append del: list.map upt_Suc)
qed

text \<open>A list of values: the padding is never looked at unless the list is too long anyway.\<close>

lemma any_of_step:
  assumes "at st s r" and "valid x" and "list_all valid vs" and "1 \<le> length vs" "length vs \<le> 11"
  shows "reaches (PCUT_IS_ANY_OF as_count vs C F x st) (s @ describe show_value (Any_of vs)) (satisfies x (Any_of vs))"
proof -
  let ?n = "int (length vs)" and ?ws = "take 7 (vs @ replicate 11 x)"
  have tk: "take (nat (?n - 0)) ?ws = take 7 vs" "nat (?n - 0) < length ?ws \<longleftrightarrow> length vs < 7"
    by (cases "length vs \<le> 7"; simp)+
  have valid: "list_all valid ?ws" using assms(2,3) by (auto simp: list_all_iff dest: in_set_takeD)
  have "at (st\<lparr>pcut_that_result := 0\<rparr>) s False" using assms(1) by (simp add: at_def)
  note start = describe_step [OF this, of "''any of { ''"]
  have "reaches (PCUT_ASSERT_THAT_APPEND_DESCRIPTION ''any of { '' (st\<lparr>pcut_that_result := 0\<rparr>) \<bind> (\<lambda>st.
      PCUT_IS_ANY_OF_COUNTED ?n (vs @ replicate 11 x) C F x st \<bind> (\<lambda>st. PCUT_ASSERT_THAT_APPEND_DESCRIPTION '' }'' st)))
    ((s @ ''any of { '') @ (commas (map show_value (take 7 vs)) @ (if length vs < 7 then [] else too_small)) @ '' }'')
    (x \<in> set (take 7 vs))"
  proof (rule reaches_bind [OF start])
    show "nul_free ''any of { ''" by (simp add: nul_free_def)
    fix st' assume st': "at st' (s @ ''any of { '') False"
    have "reaches (PCUT_IS_ANY_OF_COUNTED ?n (vs @ replicate 11 x) C F x st')
        ((s @ ''any of { '') @ commas (map show_value (take 7 vs)) @ (if length vs < 7 then [] else too_small)) (x \<in> set (take 7 vs))"
      using next_values_steps [OF st' assms(2) valid, of 0 ?n, unfolded tk]
      by (simp add: PCUT_IS_ANY_OF_COUNTED_def listed_def)
    then have "reaches (PCUT_IS_ANY_OF_COUNTED ?n (vs @ replicate 11 x) C F x st' \<bind> (\<lambda>st. PCUT_ASSERT_THAT_APPEND_DESCRIPTION '' }'' st))
        (((s @ ''any of { '') @ commas (map show_value (take 7 vs)) @ (if length vs < 7 then [] else too_small)) @ '' }'')
        (x \<in> set (take 7 vs))"
      by (rule reaches_bind) (erule describe_step, simp add: nul_free_def)
    then show "reaches (PCUT_IS_ANY_OF_COUNTED ?n (vs @ replicate 11 x) C F x st' \<bind> (\<lambda>st. PCUT_ASSERT_THAT_APPEND_DESCRIPTION '' }'' st))
        ((s @ ''any of { '') @ (commas (map show_value (take 7 vs)) @ (if length vs < 7 then [] else too_small)) @ '' }'')
        (x \<in> set (take 7 vs))" by simp
  qed
  then show ?thesis by (simp add: PCUT_IS_ANY_OF_def var_arg_count [OF assms(4,5)] split del: if_split)
qed

lemma matcher_step:
  assumes "at st s r" and "valid x" and "list_all valid (formula_values f)" and "countable_lists f"
  shows "reaches (matcher_of as_count f C F x st) (s @ describe show_value f) (satisfies x f)"
  using assms
proof (induction f arbitrary: st s r)
  case (Equal v)
  then show ?case using is_equal_step [of st s r x v] by simp
next
  case (Negation f)
  let ?not = "\<lambda>st. PCUT_ASSERT_THAT_APPEND_DESCRIPTION '')''
    (st\<lparr>pcut_that_result := (if pcut_that_result st = 0 then 1 else 0)\<rparr>)"
  have "reaches (PCUT_ASSERT_THAT_APPEND_DESCRIPTION ''not ('' st \<bind> (\<lambda>st. matcher_of as_count f C F x st \<bind> ?not))
      ((s @ ''not ('') @ describe show_value f @ '')'') (\<not> satisfies x f)"
  proof (rule reaches_bind [OF describe_step [OF Negation.prems(1)]])
    show "nul_free ''not (''" by (simp add: nul_free_def)
    fix st' assume "at st' (s @ ''not ('') r"
    from Negation.IH [OF this] Negation.prems
    have "reaches (matcher_of as_count f C F x st') ((s @ ''not ('') @ describe show_value f) (satisfies x f)" by simp
    then have "reaches (matcher_of as_count f C F x st' \<bind> ?not) (((s @ ''not ('') @ describe show_value f) @ '')'') (\<not> satisfies x f)"
      by (rule reaches_bind) (rule describe_step, simp_all add: at_def nul_free_def)
    then show "reaches (matcher_of as_count f C F x st' \<bind> ?not) ((s @ ''not ('') @ describe show_value f @ '')'') (\<not> satisfies x f)"
      by simp
  qed
  then show ?case by (simp add: PCUT_IS_NOT_def)
next
  case (Any_of vs)
  then show ?case using any_of_step [of st s r x vs] by (simp del: describe.simps satisfies.simps)
qed

text \<open>The text of an assertion, and the assertion as a whole.\<close>

definition assertion_text :: "string \<Rightarrow> 'v \<Rightarrow> string \<Rightarrow> 'v formula \<Rightarrow> string" where
  "assertion_text q_actual x name f = ''Expected '' @ q_actual @ '' is '' @ describe show_value f @
     '' but got '' @ show_value x @ '' ['' @ name @ ''].''"

lemma verdict_step:
  assumes "at st s r" and "valid x" and "nul_free name"
  shows "reaches (PCUT_ASSERT_THAT_APPEND_DESCRIPTION '' but got '' st \<bind> (\<lambda>st.
      PCUT_ASSERT_THAT_APPEND_VALUE F x st \<bind> (\<lambda>st. PCUT_ASSERT_THAT_APPEND_DESCRIPTION ('' ['' @ name @ ''].'') st)))
    (s @ '' but got '' @ show_value x @ '' ['' @ name @ ''].'') r"
proof -
  let ?last = "\<lambda>st. PCUT_ASSERT_THAT_APPEND_DESCRIPTION ('' ['' @ name @ ''].'') st"
  have "reaches (PCUT_ASSERT_THAT_APPEND_DESCRIPTION '' but got '' st \<bind> (\<lambda>st. PCUT_ASSERT_THAT_APPEND_VALUE F x st \<bind> ?last))
      ((s @ '' but got '') @ show_value x @ '' ['' @ name @ ''].'') r"
  proof (rule reaches_bind [OF describe_step [OF assms(1)]])
    show "nul_free '' but got ''" by (simp add: nul_free_def)
    fix st' assume "at st' (s @ '' but got '') r"
    note val = value_step [OF this assms(2)]
    have "reaches (PCUT_ASSERT_THAT_APPEND_VALUE F x st' \<bind> ?last) (((s @ '' but got '') @ show_value x) @ '' ['' @ name @ ''].'') r"
      by (rule reaches_bind [OF val], rule describe_step, assumption) (use assms(3) in \<open>simp add: nul_free_def\<close>)
    then show "reaches (PCUT_ASSERT_THAT_APPEND_VALUE F x st' \<bind> ?last) ((s @ '' but got '') @ show_value x @ '' ['' @ name @ ''].'') r"
      by simp
  qed
  then show ?thesis by simp
qed

lemma assertion_steps:
  assumes x: "valid x" and f: "list_all valid (formula_values f)" "countable_lists f"
    and names: "nul_free q_actual" "nul_free name" and b: "holds_text b []"
  shows "reaches (PCUT_ASSERT_THAT_APPEND_DESCRIPTION (''Expected '' @ q_actual @ '' is '')
        \<lparr>pcut_that_tmp_value_eval = x, pcut_that_result = 1, pcut_that_buffer = b\<rparr> \<bind> (\<lambda>st.
      matcher_of as_count f C F x st \<bind> (\<lambda>st.
      PCUT_ASSERT_THAT_APPEND_DESCRIPTION '' but got '' st \<bind> (\<lambda>st.
      PCUT_ASSERT_THAT_APPEND_VALUE F x st \<bind> (\<lambda>st. PCUT_ASSERT_THAT_APPEND_DESCRIPTION ('' ['' @ name @ ''].'') st)))))
    (assertion_text q_actual x name f) (satisfies x f)"
proof -
  let ?init = "\<lparr>pcut_that_tmp_value_eval = x, pcut_that_result = 1, pcut_that_buffer = b\<rparr>"
  let ?head = "''Expected '' @ q_actual @ '' is ''"
  let ?tail = "'' but got '' @ show_value x @ '' ['' @ name @ ''].''"
  let ?closing = "\<lambda>st. PCUT_ASSERT_THAT_APPEND_DESCRIPTION '' but got '' st \<bind> (\<lambda>st.
      PCUT_ASSERT_THAT_APPEND_VALUE F x st \<bind> (\<lambda>st. PCUT_ASSERT_THAT_APPEND_DESCRIPTION ('' ['' @ name @ ''].'') st))"
  have "nul_free ?head" using names by (simp add: nul_free_def)
  from append_yields [OF b this] have start: "reaches (PCUT_ASSERT_THAT_APPEND_DESCRIPTION ?head ?init) ?head True"
    by (auto simp: PCUT_ASSERT_THAT_APPEND_DESCRIPTION_def at_def reaches_def yields_def split: option.splits bind_splits)
  have "reaches (PCUT_ASSERT_THAT_APPEND_DESCRIPTION ?head ?init \<bind> (\<lambda>st. matcher_of as_count f C F x st \<bind> ?closing))
      (?head @ (describe show_value f @ ?tail)) (satisfies x f)"
  proof (rule reaches_bind [OF start])
    fix st assume "at st ?head True"
    from matcher_step [OF this x f] have "reaches (matcher_of as_count f C F x st) (?head @ describe show_value f) (satisfies x f)" .
    then have "reaches (matcher_of as_count f C F x st \<bind> ?closing) ((?head @ describe show_value f) @ ?tail) (satisfies x f)"
      by (rule reaches_bind) (erule verdict_step [OF _ x names(2)])
    then show "reaches (matcher_of as_count f C F x st \<bind> ?closing) (?head @ (describe show_value f @ ?tail)) (satisfies x f)" by simp
  qed
  then show ?thesis by (simp add: assertion_text_def)
qed

lemma assertion_prints:
  assumes "valid x" and "list_all valid (formula_values f)" and "countable_lists f"
    and "nul_free q_actual" and "nul_free name" and stack: "PCUT_ASSERTION_TEXT_BUFFER_LENGTH \<le> length stack"
  shows "PCUT_ASSERT_THAT_TYPED stack C F q_actual x name (matcher_of as_count f) =
    (if length (assertion_text q_actual x name f) < PCUT_ASSERTION_TEXT_BUFFER_LENGTH
     then Some ((if satisfies x f then '' OKAY: '' else ''ERROR: '') @ assertion_text q_actual x name f @ [NL])
     else None)"
proof -
  define b where "b = NUL # drop 1 (take PCUT_ASSERTION_TEXT_BUFFER_LENGTH stack)"
  have st: "store (take PCUT_ASSERTION_TEXT_BUFFER_LENGTH stack) 0 [NUL] = Some b"
    using stack by (auto simp: store_def b_def PCUT_ASSERTION_TEXT_BUFFER_LENGTH_def)
  have b: "holds_text b []"
    using stack by (auto simp: holds_text_def b_def PCUT_ASSERTION_TEXT_BUFFER_LENGTH_def)
  let ?r = "PCUT_ASSERT_THAT_APPEND_DESCRIPTION (''Expected '' @ q_actual @ '' is '')
        \<lparr>pcut_that_tmp_value_eval = x, pcut_that_result = 1, pcut_that_buffer = b\<rparr> \<bind> (\<lambda>st.
      matcher_of as_count f C F x st \<bind> (\<lambda>st.
      PCUT_ASSERT_THAT_APPEND_DESCRIPTION '' but got '' st \<bind> (\<lambda>st.
      PCUT_ASSERT_THAT_APPEND_VALUE F x st \<bind> (\<lambda>st. PCUT_ASSERT_THAT_APPEND_DESCRIPTION ('' ['' @ name @ ''].'') st))))"
  have run: "PCUT_ASSERT_THAT_TYPED stack C F q_actual x name (matcher_of as_count f) = ?r \<bind> (\<lambda>st.
      c_text (pcut_that_buffer st) \<bind> (\<lambda>txt.
      Some ((if pcut_that_result st = 0 then ''ERROR: '' else '' OKAY: '') @ txt @ [NL])))"
    by (simp add: PCUT_ASSERT_THAT_TYPED_def st)
  from assertion_steps [OF assms(1-5) b, of as_count] show ?thesis
    by (cases ?r) (auto simp: run reaches_def at_def holds_text_read dest: holds_text_fits simp del: append_Cons)
qed

end

end
