(* ===== verification/MatcherTypes.thy ===== *)
theory MatcherTypes
  imports MatchersSpec
begin

text \<open>
  The types of \<^verbatim>\<open>assert_that_fmt.c\<close>: numbers, strings and coordinates have the interface of
  \<open>matched_type\<close>.  The temporary arrays of 48 bytes are large enough for every number.
\<close>

section \<open>Lengths of numbers\<close>

lemma show_nat_length: "n < 10 ^ Suc k \<Longrightarrow> length (show_nat n) \<le> Suc k"
proof (induction k arbitrary: n)
  case 0
  then show ?case by (subst show_nat.simps) simp
next
  case (Suc k)
  show ?case
  proof (cases "n < 10")
    case True
    then show ?thesis by (subst show_nat.simps) simp
  next
    case False
    have "n div 10 < 10 ^ Suc k" using Suc.prems by (simp add: less_mult_imp_div_less)
    from Suc.IH [OF this] False show ?thesis by (subst show_nat.simps) simp
  qed
qed

lemma show_int_length: "\<bar>i\<bar> < 10 ^ Suc k \<Longrightarrow> length (show_int i) \<le> Suc (Suc k)"
  using show_nat_length [of "nat \<bar>i\<bar>" k] by (auto simp: show_int_def nat_less_iff abs_if split: if_splits)

section \<open>The types\<close>

definition long_long :: "int \<Rightarrow> bool" where
  "long_long i \<longleftrightarrow> - (2 ^ 63) \<le> i \<and> i < 2 ^ 63"

definition int_range :: "int \<Rightarrow> bool" where
  "int_range i \<longleftrightarrow> - (2 ^ 31) \<le> i \<and> i < 2 ^ 31"

lemma long_long_length: "long_long i \<Longrightarrow> length (show_int i) \<le> 20"
  using show_int_length [of i 18] by (simp add: long_long_def abs_if)

lemma int_range_length: "int_range i \<Longrightarrow> length (show_int i) \<le> 11"
  using show_int_length [of i 9] by (simp add: int_range_def abs_if)

text \<open>Texts in the temporary array.\<close>

lemma append_tmp_yields:
  assumes "holds_text b s" and "nul_free txt" and "length txt < 48"
  shows "yields (do { tmp \<leftarrow> sprintf48 txt; c_strcat b tmp }) (s @ txt)"
  using sprintf48_text [OF assms(3)] strcat_yields [OF assms(1,2)] by auto

interpretation integers: matched_type pcut_comparator_integer pcut_assertion_text_buffer_append_integer show_int long_long
proof
  fix v s and b :: bytes
  assume "long_long v" "holds_text b s"
  then show "yields (pcut_assertion_text_buffer_append_integer b v) (s @ show_int v)"
    using append_tmp_yields [of b s "show_int v"] long_long_length [of v]
    by (simp add: pcut_assertion_text_buffer_append_integer_def pcut_assertion_text_buffer_append_def)
qed (auto simp: pcut_comparator_integer_def)

definition c_string :: "bytes \<Rightarrow> bool" where
  "c_string b \<longleftrightarrow> (\<exists>s. b = cstr s \<and> nul_free s)"

definition quoted :: "bytes \<Rightarrow> string" where
  "quoted b = [CHR 0x22] @ takeWhile (\<lambda>c. c \<noteq> NUL) b @ [CHR 0x22]"

lemma cstr_take [simp]: "nul_free s \<Longrightarrow> takeWhile (\<lambda>c. c \<noteq> NUL) (cstr s) = s"
  unfolding cstr_def by (rule takeWhile_stop) (auto simp: nul_free_def)

lemma cstr_inject: "cstr s = cstr t \<longleftrightarrow> s = t"
  by (simp add: cstr_def)

interpretation strings: matched_type pcut_comparator_string pcut_assertion_text_buffer_append_string quoted c_string
proof
  fix a b assume "c_string a" "c_string b"
  then show "\<exists>d. pcut_comparator_string a b = Some d \<and> (d = 0) = (a = b)"
    using strcmp_cstr by (auto simp: c_string_def pcut_comparator_string_def cstr_inject)
next
  fix v s and b :: bytes
  assume "c_string v" and b: "holds_text b s"
  then obtain t where t: "v = cstr t" "nul_free t" by (auto simp: c_string_def)
  have q: "nul_free [CHR 0x22]" by simp
  have "yields (pcut_assertion_text_buffer_append b (cstr [CHR 0x22]) \<bind> (\<lambda>b.
      pcut_assertion_text_buffer_append b v \<bind> (\<lambda>b. pcut_assertion_text_buffer_append b (cstr [CHR 0x22]))))
    ((s @ [CHR 0x22]) @ t @ [CHR 0x22])"
  proof (rule yields_bind [OF append_yields [OF b q]])
    fix b' assume "holds_text b' (s @ [CHR 0x22])"
    from append_yields [OF this t(2)] have "yields (pcut_assertion_text_buffer_append b' v) ((s @ [CHR 0x22]) @ t)" by (simp add: t(1))
    then have "yields (pcut_assertion_text_buffer_append b' v \<bind> (\<lambda>b. pcut_assertion_text_buffer_append b (cstr [CHR 0x22])))
        (((s @ [CHR 0x22]) @ t) @ [CHR 0x22])"
      by (rule yields_bind) (erule append_yields [OF _ q])
    then show "yields (pcut_assertion_text_buffer_append b' v \<bind> (\<lambda>b. pcut_assertion_text_buffer_append b (cstr [CHR 0x22])))
        ((s @ [CHR 0x22]) @ t @ [CHR 0x22])" by simp
  qed
  then show "yields (pcut_assertion_text_buffer_append_string b v) (s @ quoted v)"
    using t by (simp add: pcut_assertion_text_buffer_append_string_def quoted_def)
next
  fix v assume "c_string v"
  then show "nul_free (quoted v)" by (auto simp: c_string_def quoted_def)
qed

definition show_coord :: "coord_t \<Rightarrow> string" where
  "show_coord v = ''['' @ show_int (coord_x v) @ '','' @ show_int (coord_y v) @ '']''"

definition coord_range :: "coord_t \<Rightarrow> bool" where
  "coord_range v \<longleftrightarrow> int_range (coord_x v) \<and> int_range (coord_y v)"

interpretation coords: matched_type coord_comparator coord_append_to_buffer show_coord coord_range
proof
  fix v s and b :: bytes
  assume "coord_range v" "holds_text b s"
  then show "yields (coord_append_to_buffer b v) (s @ show_coord v)"
    using append_tmp_yields [of b s "show_coord v"] int_range_length [of "coord_x v"] int_range_length [of "coord_y v"]
    by (simp add: coord_append_to_buffer_def show_coord_def coord_range_def)
qed (auto simp: coord_comparator_def show_coord_def)

end
