(* ===== verification/MatchersGeneric.thy ===== *)
theory MatchersGeneric
  imports MatcherTypes
begin

text \<open>
  The third experiment with assertions over matchers, \<^verbatim>\<open>contrib/playground/assert_that_generic.c\<close>: the
  comparator and the formatter are found from the type of the value, with \<open>_Generic\<close>, and get
  pointers without a type.  Here such a pointer leads to a value with its type, and a function that
  is given a value of another type has no result.  The names start with \<open>gen\<close> where the macro of
  \<^verbatim>\<open>assert_that_fmt.c\<close> has the same name.
\<close>

section \<open>Values and their types\<close>

datatype cvalue = V_int int | V_str bytes | V_coord coord_t | V_other

record type_info_t =
  ti_compare :: "(cvalue \<Rightarrow> cvalue \<Rightarrow> int option) option"
  ti_append :: "(cvalue \<Rightarrow> bytes \<Rightarrow> nat \<Rightarrow> bytes option) option"

fun compare_coord :: "cvalue \<Rightarrow> cvalue \<Rightarrow> int option" where
  "compare_coord (V_coord a) (V_coord b) =
     Some (if coord_x a = coord_x b \<and> coord_y a = coord_y b then 0 else -1)"
| "compare_coord _ _ = None"

fun append_coord :: "cvalue \<Rightarrow> bytes \<Rightarrow> nat \<Rightarrow> bytes option" where
  "append_coord (V_coord v) buffer sz =
     do { tmp \<leftarrow> sprintf48 (''['' @ show_int (coord_x v) @ '','' @ show_int (coord_y v) @ '']'');
          c_strcat buffer tmp }"
| "append_coord _ buffer sz = None"

definition type_info_coord :: type_info_t where
  "type_info_coord = \<lparr>ti_compare = Some compare_coord, ti_append = Some append_coord\<rparr>"

definition gen_comparator_integer :: "int \<Rightarrow> int \<Rightarrow> int option" where
  "gen_comparator_integer a b = Some (if a = b then 0 else if a < b then -1 else 1)"

fun compare_int :: "cvalue \<Rightarrow> cvalue \<Rightarrow> int option" where
  "compare_int (V_int a) (V_int b) = gen_comparator_integer a b"
| "compare_int _ _ = None"

text \<open>The size that is passed to \<open>snprintf\<close> is that of the whole buffer, not of the rest of it.\<close>

fun append_int :: "cvalue \<Rightarrow> bytes \<Rightarrow> nat \<Rightarrow> bytes option" where
  "append_int (V_int a) buffer sz =
     do { n \<leftarrow> c_strlen buffer;
          c_snprintf buffer n sz (show_int a) }"
| "append_int _ buffer sz = None"

fun compare_str :: "cvalue \<Rightarrow> cvalue \<Rightarrow> int option" where
  "compare_str (V_str a) (V_str b) = c_strcmp a b"
| "compare_str _ _ = None"

fun append_str :: "cvalue \<Rightarrow> bytes \<Rightarrow> nat \<Rightarrow> bytes option" where
  "append_str (V_str a) buffer sz =
     do { n \<leftarrow> c_strlen buffer;
          txt \<leftarrow> c_text a;
          c_snprintf buffer n sz txt }"
| "append_str _ buffer sz = None"

definition type_info_int :: type_info_t where
  "type_info_int = \<lparr>ti_compare = Some compare_int, ti_append = Some append_int\<rparr>"

definition type_info_str :: type_info_t where
  "type_info_str = \<lparr>ti_compare = Some compare_str, ti_append = Some append_str\<rparr>"

definition type_info_default :: type_info_t where
  "type_info_default = \<lparr>ti_compare = None, ti_append = None\<rparr>"

fun GET_TYPE_INFO :: "cvalue \<Rightarrow> type_info_t" where
  "GET_TYPE_INFO (V_int _) = type_info_int"
| "GET_TYPE_INFO (V_str _) = type_info_str"
| "GET_TYPE_INFO (V_coord _) = type_info_coord"
| "GET_TYPE_INFO V_other = type_info_default"

section \<open>Counting arguments and the text buffer\<close>

definition gen_VAR_ARG_COUNT_INTERNAL :: "'t list \<Rightarrow> 't option" where
  "gen_VAR_ARG_COUNT_INTERNAL args = (if 12 \<le> length args then Some (args ! 11) else None)"

definition gen_VAR_ARG_COUNT :: "'a list \<Rightarrow> ('a + int) option" where
  "gen_VAR_ARG_COUNT args = gen_VAR_ARG_COUNT_INTERNAL
     (map Inl args @ map Inr [11, 10, 9, 8, 7, 6, 5, 4, 3, 2, 1])"

definition gen_TEXT_BUFFER_LENGTH :: nat where "gen_TEXT_BUFFER_LENGTH = 1024"

definition gen_text_buffer_append :: "bytes \<Rightarrow> bytes \<Rightarrow> bytes option" where
  "gen_text_buffer_append buffer txt = c_strcat buffer txt"

text \<open>Three functions that the program does not use.\<close>

definition gen_comparator_string :: "bytes \<Rightarrow> bytes \<Rightarrow> int option" where
  "gen_comparator_string a b = c_strcmp a b"

definition gen_text_buffer_append_integer :: "bytes \<Rightarrow> int \<Rightarrow> bytes option" where
  "gen_text_buffer_append_integer buffer v =
     do { tmp \<leftarrow> sprintf48 (show_int v);
          gen_text_buffer_append buffer tmp }"

definition gen_text_buffer_append_string :: "bytes \<Rightarrow> bytes \<Rightarrow> bytes option" where
  "gen_text_buffer_append_string buffer v =
     do { buffer \<leftarrow> gen_text_buffer_append buffer (cstr [CHR 0x22]);
          buffer \<leftarrow> gen_text_buffer_append buffer v;
          gen_text_buffer_append buffer (cstr [CHR 0x22]) }"

section \<open>Matchers\<close>

text \<open>The variables of a matcher are those of the other experiment.\<close>

type_synonym gen_matcher = "type_info_t \<Rightarrow> cvalue \<Rightarrow> cvalue that \<Rightarrow> cvalue that option"

definition gen_APPEND_DESCRIPTION :: "string \<Rightarrow> cvalue that \<Rightarrow> cvalue that option" where
  "gen_APPEND_DESCRIPTION str st =
     do { b \<leftarrow> gen_text_buffer_append (pcut_that_buffer st) (cstr str);
          Some (st\<lparr>pcut_that_buffer := b\<rparr>) }"

text \<open>A call through a null pointer has no result.\<close>

definition gen_APPEND_VALUE :: "type_info_t \<Rightarrow> cvalue \<Rightarrow> cvalue that \<Rightarrow> cvalue that option" where
  "gen_APPEND_VALUE info v st =
     do { append \<leftarrow> ti_append info;
          b \<leftarrow> append v (pcut_that_buffer st) gen_TEXT_BUFFER_LENGTH;
          Some (st\<lparr>pcut_that_buffer := b\<rparr>) }"

definition gen_compare_with_actual :: "type_info_t \<Rightarrow> cvalue \<Rightarrow> cvalue that \<Rightarrow> cvalue that option" where
  "gen_compare_with_actual info actual st =
     do { compare \<leftarrow> ti_compare info;
          d \<leftarrow> compare actual (pcut_that_tmp_value_eval st);
          Some (st\<lparr>pcut_that_result := (if d = 0 then 1 else 0)\<rparr>) }"

definition gen_IS_EQUAL :: "cvalue \<Rightarrow> gen_matcher" where
  "gen_IS_EQUAL v info actual st =
     do { st \<leftarrow> gen_compare_with_actual info actual (st\<lparr>pcut_that_tmp_value_eval := v\<rparr>);
          st \<leftarrow> gen_APPEND_DESCRIPTION ''equal to '' st;
          gen_APPEND_VALUE info (pcut_that_tmp_value_eval st) st }"

definition gen_IS_NOT :: "gen_matcher \<Rightarrow> gen_matcher" where
  "gen_IS_NOT matcher info actual st =
     do { st \<leftarrow> gen_APPEND_DESCRIPTION ''not ('' st;
          st \<leftarrow> matcher info actual st;
          st \<leftarrow> Some (st\<lparr>pcut_that_result := (if pcut_that_result st = 0 then 1 else 0)\<rparr>);
          gen_APPEND_DESCRIPTION '')'' st }"

definition gen_IS_ANY_OF_NEXT_VALUE ::
    "type_info_t \<Rightarrow> cvalue \<Rightarrow> int \<Rightarrow> int \<Rightarrow> cvalue \<Rightarrow> cvalue that \<Rightarrow> (bool \<times> cvalue that) option" where
  "gen_IS_ANY_OF_NEXT_VALUE info actual count current_index v st =
     (if current_index \<ge> count then Some (True, st)
      else do { st \<leftarrow> (if current_index > 0 then gen_APPEND_DESCRIPTION '', '' st else Some st);
                st \<leftarrow> Some (st\<lparr>pcut_that_tmp_value_eval := v\<rparr>);
                st \<leftarrow> gen_APPEND_VALUE info (pcut_that_tmp_value_eval st) st;
                st \<leftarrow> (if pcut_that_result st = 0 then gen_compare_with_actual info actual st else Some st);
                Some (False, st) })"

fun gen_next_values :: "type_info_t \<Rightarrow> cvalue \<Rightarrow> int \<Rightarrow> int \<Rightarrow> cvalue list \<Rightarrow> cvalue that \<Rightarrow> cvalue that option" where
  "gen_next_values info actual count i [] st =
     gen_APPEND_DESCRIPTION '' !!! INTERNAL ERROR (PCUT_IS_ANY_OF too small) !!! '' st"
| "gen_next_values info actual count i (v # vs) st =
     do { (leave, st) \<leftarrow> gen_IS_ANY_OF_NEXT_VALUE info actual count i v st;
          if leave then Some st else gen_next_values info actual count (i + 1) vs st }"

definition gen_IS_ANY_OF_COUNTED :: "int \<Rightarrow> cvalue list \<Rightarrow> gen_matcher" where
  "gen_IS_ANY_OF_COUNTED count vs info actual st = gen_next_values info actual count 0 (take 7 vs) st"

text \<open>Only numbers can stand for the count, when there are more than eleven values.\<close>

fun cvalue_count :: "cvalue \<Rightarrow> int option" where
  "cvalue_count (V_int i) = Some i"
| "cvalue_count _ = None"

definition gen_IS_ANY_OF :: "cvalue list \<Rightarrow> gen_matcher" where
  "gen_IS_ANY_OF vs info actual st =
     do { st \<leftarrow> Some (st\<lparr>pcut_that_result := 0\<rparr>);
          st \<leftarrow> gen_APPEND_DESCRIPTION ''any of { '' st;
          n \<leftarrow> gen_VAR_ARG_COUNT vs;
          count \<leftarrow> (case n of Inr k \<Rightarrow> Some k | Inl v \<Rightarrow> cvalue_count v);
          st \<leftarrow> gen_IS_ANY_OF_COUNTED count (vs @ replicate 11 actual) info actual st;
          gen_APPEND_DESCRIPTION '' }'' st }"

section \<open>Assertions\<close>

definition gen_ASSERT_THAT_TYPED :: "bytes \<Rightarrow> type_info_t \<Rightarrow> string \<Rightarrow> cvalue \<Rightarrow> string \<Rightarrow> gen_matcher \<Rightarrow> string option" where
  "gen_ASSERT_THAT_TYPED stack info q_actual actual matcher_name matcher =
     do { b \<leftarrow> store (take gen_TEXT_BUFFER_LENGTH stack) 0 [NUL];
          st \<leftarrow> Some \<lparr>pcut_that_tmp_value_eval = actual, pcut_that_result = 1, pcut_that_buffer = b\<rparr>;
          st \<leftarrow> gen_APPEND_DESCRIPTION (''Expected '' @ q_actual @ '' is '') st;
          st \<leftarrow> matcher info actual st;
          st \<leftarrow> gen_APPEND_DESCRIPTION '' but got '' st;
          st \<leftarrow> gen_APPEND_VALUE info actual st;
          st \<leftarrow> gen_APPEND_DESCRIPTION ('' ['' @ matcher_name @ ''].'') st;
          txt \<leftarrow> c_text (pcut_that_buffer st);
          Some ((if pcut_that_result st = 0 then ''ERROR: '' else '' OKAY: '') @ txt @ [NL]) }"

definition gen_ASSERT_THAT :: "bytes \<Rightarrow> string \<Rightarrow> cvalue \<Rightarrow> string \<Rightarrow> gen_matcher \<Rightarrow> string option" where
  "gen_ASSERT_THAT stack q_actual actual q_matcher matcher =
     gen_ASSERT_THAT_TYPED stack (GET_TYPE_INFO actual) q_actual actual q_matcher matcher"

definition gen_ASSERT_THAT_T :: "bytes \<Rightarrow> type_info_t \<Rightarrow> string \<Rightarrow> cvalue \<Rightarrow> string \<Rightarrow> gen_matcher \<Rightarrow> string option" where
  "gen_ASSERT_THAT_T stack info q_actual actual q_matcher matcher =
     gen_ASSERT_THAT_TYPED stack info q_actual actual q_matcher matcher"

text \<open>A matcher of the user, for numbers.\<close>

fun GEN_FAVOURITE :: gen_matcher where
  "GEN_FAVOURITE info (V_int actual) st =
     gen_APPEND_DESCRIPTION ''favourite'' (st\<lparr>pcut_that_result := (if actual = 42 then 1 else 0)\<rparr>)"
| "GEN_FAVOURITE info _ st = None"

text \<open>The program.\<close>

definition gen_main :: "bytes \<Rightarrow> string option" where
  "gen_main stack =
     (let x = 40 + 2; ints = (\<lambda>is. gen_IS_ANY_OF (map V_int is)); eq = (\<lambda>i. gen_IS_EQUAL (V_int i))
      in do { o1 \<leftarrow> gen_ASSERT_THAT stack ''x'' (V_int x) ''PCUT_IS_EQUAL(42)'' (eq 42);
              o2 \<leftarrow> gen_ASSERT_THAT stack ''x + 1'' (V_int (x + 1)) ''PCUT_IS_EQUAL(42 - 2)'' (eq (42 - 2));
              o3 \<leftarrow> gen_ASSERT_THAT stack ''x'' (V_int x) ''PCUT_IS_NOT(PCUT_IS_EQUAL(42))'' (gen_IS_NOT (eq 42));
              o4 \<leftarrow> gen_ASSERT_THAT stack ''x'' (V_int x) ''PCUT_IS_NOT(PCUT_IS_EQUAL(40))'' (gen_IS_NOT (eq 40));
              o5 \<leftarrow> gen_ASSERT_THAT stack ''x'' (V_int x) ''PCUT_IS_ANY_OF(4, 5, 23, 42)'' (ints [4, 5, 23, 42]);
              o6 \<leftarrow> gen_ASSERT_THAT stack ''x'' (V_int x) ''PCUT_IS_ANY_OF(4, 5, 23, 12, 42)'' (ints [4, 5, 23, 12, 42]);
              o7 \<leftarrow> gen_ASSERT_THAT stack ''x'' (V_int x) ''PCUT_IS_ANY_OF(4, 5, 23, 41)'' (ints [4, 5, 23, 41]);
              o8 \<leftarrow> gen_ASSERT_THAT stack ''x'' (V_int x) ''PCUT_IS_ANY_OF(4)'' (ints [4]);
              o9 \<leftarrow> gen_ASSERT_THAT stack ''x'' (V_int x) ''PCUT_IS_NOT(PCUT_IS_ANY_OF(4, 5, 23, 42))''
                      (gen_IS_NOT (ints [4, 5, 23, 42]));
              y \<leftarrow> Some 41;
              o10 \<leftarrow> gen_ASSERT_THAT stack ''x++'' (V_int x) ''PCUT_IS_EQUAL(++y)'' (eq (y + 1));
              x \<leftarrow> Some (x + 1);
              o11 \<leftarrow> gen_ASSERT_THAT stack ''x'' (V_int x) ''FAVOURITE()'' GEN_FAVOURITE;
              o12 \<leftarrow> gen_ASSERT_THAT stack ''x'' (V_int x) ''PCUT_IS_NOT(FAVOURITE())'' (gen_IS_NOT GEN_FAVOURITE);
              o13 \<leftarrow> gen_ASSERT_THAT stack ''x + 1'' (V_int (x + 1)) ''FAVOURITE()'' GEN_FAVOURITE;
              o14 \<leftarrow> gen_ASSERT_THAT stack ''x + 1'' (V_int (x + 1)) ''PCUT_IS_NOT(FAVOURITE())'' (gen_IS_NOT GEN_FAVOURITE);
              target \<leftarrow> Some (V_coord \<lparr>coord_x = 4, coord_y = 5\<rparr>);
              good \<leftarrow> Some (V_coord \<lparr>coord_x = 4, coord_y = 5\<rparr>);
              bad \<leftarrow> Some (V_coord \<lparr>coord_x = 4, coord_y = 6\<rparr>);
              o15 \<leftarrow> gen_ASSERT_THAT stack ''target'' target ''PCUT_IS_EQUAL(good)'' (gen_IS_EQUAL good);
              o16 \<leftarrow> gen_ASSERT_THAT stack ''target'' target ''PCUT_IS_EQUAL(good)'' (gen_IS_EQUAL good);
              o17 \<leftarrow> gen_ASSERT_THAT stack ''target'' target ''PCUT_IS_EQUAL(good)'' (gen_IS_EQUAL good);
              o18 \<leftarrow> gen_ASSERT_THAT stack ''target'' target ''PCUT_IS_EQUAL(bad)'' (gen_IS_EQUAL bad);
              o19 \<leftarrow> gen_ASSERT_THAT stack ''target'' target ''PCUT_IS_ANY_OF(good, bad)'' (gen_IS_ANY_OF [good, bad]);
              greetings \<leftarrow> Some (V_str (cstr ''hello''));
              words \<leftarrow> Some [V_str (cstr ''hullo''), V_str (cstr ''hello''), V_str (cstr ''hallo'')];
              o20 \<leftarrow> gen_ASSERT_THAT stack ''greetings'' greetings (''PCUT_IS_EQUAL('' @ [CHR 0x22] @ ''hello'' @ [CHR 0x22] @ '')'')
                       (gen_IS_EQUAL (V_str (cstr ''hello'')));
              o21 \<leftarrow> gen_ASSERT_THAT stack ''greetings'' greetings (''PCUT_IS_EQUAL('' @ [CHR 0x22] @ ''hullo'' @ [CHR 0x22] @ '')'')
                       (gen_IS_EQUAL (V_str (cstr ''hullo'')));
              q \<leftarrow> Some (''PCUT_IS_ANY_OF('' @ [CHR 0x22] @ ''hullo'' @ [CHR 0x22] @ '', '' @ [CHR 0x22] @ ''hello'' @
                     [CHR 0x22] @ '', '' @ [CHR 0x22] @ ''hallo'' @ [CHR 0x22] @ '')'');
              o22 \<leftarrow> gen_ASSERT_THAT stack ''greetings'' greetings q (gen_IS_ANY_OF words);
              o23 \<leftarrow> gen_ASSERT_THAT stack ''greetings'' greetings (''PCUT_IS_NOT('' @ q @ '')'')
                       (gen_IS_NOT (gen_IS_ANY_OF words));
              Some (concat [o1, o2, o3, o4, o5, o6, o7, o8, o9, o10, o11, o12, o13, o14, o15, o16, o17, o18, o19,
                o20, o21, o22, o23]) })"

section \<open>The same code with the functions of the type\<close>

text \<open>
  With a structure whose pointers are not null, the macros are those of \<^verbatim>\<open>assert_that_fmt.c\<close> with
  the functions that the pointers lead to.
\<close>

definition formatter_of :: "(cvalue \<Rightarrow> bytes \<Rightarrow> nat \<Rightarrow> bytes option) \<Rightarrow> cvalue formatter" where
  "formatter_of f b v = f v b gen_TEXT_BUFFER_LENGTH"

definition info_of :: "(cvalue \<Rightarrow> cvalue \<Rightarrow> int option) \<Rightarrow> (cvalue \<Rightarrow> bytes \<Rightarrow> nat \<Rightarrow> bytes option) \<Rightarrow> type_info_t" where
  "info_of c f = \<lparr>ti_compare = Some c, ti_append = Some f\<rparr>"

lemma gen_description: "gen_APPEND_DESCRIPTION str st = PCUT_ASSERT_THAT_APPEND_DESCRIPTION str st"
  by (simp add: gen_APPEND_DESCRIPTION_def PCUT_ASSERT_THAT_APPEND_DESCRIPTION_def gen_text_buffer_append_def
      pcut_assertion_text_buffer_append_def)

lemma gen_value: "gen_APPEND_VALUE (info_of c f) v st = PCUT_ASSERT_THAT_APPEND_VALUE (formatter_of f) v st"
  by (simp add: gen_APPEND_VALUE_def PCUT_ASSERT_THAT_APPEND_VALUE_def info_of_def formatter_of_def)

lemma gen_compare: "gen_compare_with_actual (info_of c f) x st = compare_with_actual c x st"
  by (simp add: gen_compare_with_actual_def compare_with_actual_def info_of_def)

lemma gen_next_value:
  "gen_IS_ANY_OF_NEXT_VALUE (info_of c f) x n i v st = PCUT_IS_ANY_OF_NEXT_VALUE c (formatter_of f) x n i v st"
  by (simp add: gen_IS_ANY_OF_NEXT_VALUE_def PCUT_IS_ANY_OF_NEXT_VALUE_def gen_description gen_value gen_compare cong: if_cong)

lemma gen_next_values_eq: "gen_next_values (info_of c f) x n i vs st = next_values c (formatter_of f) x n i vs st"
  by (induction vs arbitrary: i st) (simp_all add: gen_description gen_next_value cong: if_cong)

lemma gen_count: "gen_VAR_ARG_COUNT vs = PCUT_VAR_ARG_COUNT vs"
  by (simp add: gen_VAR_ARG_COUNT_def gen_VAR_ARG_COUNT_INTERNAL_def PCUT_VAR_ARG_COUNT_def PCUT_VAR_ARG_COUNT_INTERNAL_def)

fun gen_matcher_of :: "cvalue formula \<Rightarrow> gen_matcher" where
  "gen_matcher_of (Equal v) = gen_IS_EQUAL v"
| "gen_matcher_of (Negation f) = gen_IS_NOT (gen_matcher_of f)"
| "gen_matcher_of (Any_of vs) = gen_IS_ANY_OF vs"

lemma gen_matcher_eq: "gen_matcher_of m (info_of c f) x st = matcher_of cvalue_count m c (formatter_of f) x st"
  by (induction m arbitrary: st)
    (simp_all add: gen_IS_EQUAL_def PCUT_IS_EQUAL_def gen_IS_NOT_def PCUT_IS_NOT_def gen_IS_ANY_OF_def PCUT_IS_ANY_OF_def
      gen_IS_ANY_OF_COUNTED_def PCUT_IS_ANY_OF_COUNTED_def gen_description gen_value gen_compare gen_next_values_eq gen_count)

lemma gen_assertion_eq:
  "gen_ASSERT_THAT_TYPED stack (info_of c f) q x name (gen_matcher_of m) =
   PCUT_ASSERT_THAT_TYPED stack c (formatter_of f) q x name (matcher_of cvalue_count m)"
  by (simp add: gen_ASSERT_THAT_TYPED_def PCUT_ASSERT_THAT_TYPED_def gen_description gen_value gen_matcher_eq
      gen_TEXT_BUFFER_LENGTH_def PCUT_ASSERTION_TEXT_BUFFER_LENGTH_def)

end
