(* ===== verification/MatcherProps.thy ===== *)
theory MatcherProps
  imports MatchersGeneric
begin

text \<open>
  The types of \<^verbatim>\<open>assert_that_generic.c\<close> have the interface of \<open>matched_type\<close>, and the properties of
  assertions over matchers.
\<close>

section \<open>Values with their types\<close>

fun show_cvalue :: "cvalue \<Rightarrow> string" where
  "show_cvalue (V_int i) = show_int i"
| "show_cvalue (V_str b) = takeWhile (\<lambda>c. c \<noteq> NUL) b"
| "show_cvalue (V_coord v) = show_coord v"
| "show_cvalue V_other = []"

text \<open>The values of each of the three types.\<close>

fun int_value :: "cvalue \<Rightarrow> bool" where
  "int_value (V_int i) \<longleftrightarrow> int_range i" | "int_value _ \<longleftrightarrow> False"

fun str_value :: "cvalue \<Rightarrow> bool" where
  "str_value (V_str b) \<longleftrightarrow> c_string b" | "str_value _ \<longleftrightarrow> False"

fun coord_value :: "cvalue \<Rightarrow> bool" where
  "coord_value (V_coord v) \<longleftrightarrow> coord_range v" | "coord_value _ \<longleftrightarrow> False"

text \<open>
  \<open>snprintf\<close> with the size of the whole buffer: behind a text that is not empty it is defined exactly
  if the new text fits.
\<close>

lemma snprintf_yields:
  assumes "holds_text b s" and "s \<noteq> []" and "nul_free t"
  shows "yields (c_snprintf b (length s) gen_TEXT_BUFFER_LENGTH t) (s @ t)"
proof -
  from assms(1) obtain r where b: "b = s @ NUL # r" "nul_free s" "length b = PCUT_ASSERTION_TEXT_BUFFER_LENGTH"
    by (auto simp: holds_text_def)
  have fits: "holds_text (s @ t @ NUL # drop (length t) r) (s @ t)" if "length (s @ t) < length b"
    using that b assms(3) by (simp add: holds_text_def)
  show ?thesis
  proof (cases "length (s @ t) < length b")
    case True
    then have "take 1023 t = t" using b(3) by (simp add: PCUT_ASSERTION_TEXT_BUFFER_LENGTH_def)
    with True fits b show ?thesis
      by (simp add: c_snprintf_def store_def yields_def gen_TEXT_BUFFER_LENGTH_def)
  next
    case False
    then have "\<not> length s + length (take 1023 t @ [NUL]) \<le> length b"
      using assms(2) b(3) by (cases s) (auto simp: PCUT_ASSERTION_TEXT_BUFFER_LENGTH_def min_def)
    with False b(3) show ?thesis
      by (simp add: c_snprintf_def store_def yields_def gen_TEXT_BUFFER_LENGTH_def)
  qed
qed

lemma holds_text_strlen: "holds_text b s \<Longrightarrow> c_strlen b = Some (length s)"
  by (auto simp: holds_text_def strlen_app)

interpretation gen_ints: matched_type compare_int "formatter_of append_int" show_cvalue int_value
proof
  fix a b assume "int_value a" "int_value b"
  then show "\<exists>d. compare_int a b = Some d \<and> (d = 0) = (a = b)"
    by (cases a; cases b) (auto simp: gen_comparator_integer_def)
next
  fix v s and b :: bytes
  assume "int_value v" "holds_text b s" "s \<noteq> []"
  then show "yields (formatter_of append_int b v) (s @ show_cvalue v)"
    using snprintf_yields [of b s "show_cvalue v"] holds_text_strlen [of b s]
    by (cases v) (auto simp: formatter_of_def)
next
  fix v assume "int_value v"
  then show "nul_free (show_cvalue v)" by (cases v) auto
qed

interpretation gen_strs: matched_type compare_str "formatter_of append_str" show_cvalue str_value
proof
  fix a b assume "str_value a" "str_value b"
  then show "\<exists>d. compare_str a b = Some d \<and> (d = 0) = (a = b)"
    using strings.compare_law by (cases a; cases b) (auto simp: pcut_comparator_string_def)
next
  fix v s and b :: bytes
  assume "str_value v" "holds_text b s" "s \<noteq> []"
  then show "yields (formatter_of append_str b v) (s @ show_cvalue v)"
    using snprintf_yields [of b s "show_cvalue v"] holds_text_strlen [of b s]
    by (cases v) (auto simp: formatter_of_def c_string_def c_text_cstr)
next
  fix v assume "str_value v"
  then show "nul_free (show_cvalue v)" by (cases v) (auto simp: c_string_def)
qed

interpretation gen_coords: matched_type compare_coord "formatter_of append_coord" show_cvalue coord_value
proof
  fix a b assume "coord_value a" "coord_value b"
  then show "\<exists>d. compare_coord a b = Some d \<and> (d = 0) = (a = b)"
    by (cases a; cases b) auto
next
  fix v s and b :: bytes
  assume "coord_value v" "holds_text b s" "s \<noteq> []"
  then show "yields (formatter_of append_coord b v) (s @ show_cvalue v)"
    using coords.format_law [of _ b s] by (cases v) (auto simp: formatter_of_def coord_append_to_buffer_def)
next
  fix v assume "coord_value v"
  then show "nul_free (show_cvalue v)" using coords.show_nul_free by (cases v) auto
qed

section \<open>What assertions print\<close>

text \<open>A matcher for values of one of the types.\<close>

definition of_type :: "(cvalue \<Rightarrow> bool) \<Rightarrow> cvalue \<Rightarrow> cvalue formula \<Rightarrow> bool" where
  "of_type T x f \<longleftrightarrow> T x \<and> list_all T (formula_values f)"

definition well_typed :: "cvalue \<Rightarrow> cvalue formula \<Rightarrow> bool" where
  "well_typed x f \<longleftrightarrow> of_type int_value x f \<or> of_type str_value x f \<or> of_type coord_value x f"

definition text_of :: "string \<Rightarrow> cvalue \<Rightarrow> string \<Rightarrow> cvalue formula \<Rightarrow> string" where
  "text_of q_actual x name f = ''Expected '' @ q_actual @ '' is '' @ describe show_cvalue f @
     '' but got '' @ show_cvalue x @ '' ['' @ name @ ''].''"

lemma gen_assertion_prints:
  assumes "well_typed x f" and "countable_lists f" and "nul_free q_actual" and "nul_free name" and "1024 \<le> length stack"
  shows "gen_ASSERT_THAT stack q_actual x name (gen_matcher_of f) =
    (if length (text_of q_actual x name f) < 1024
     then Some ((if satisfies x f then '' OKAY: '' else ''ERROR: '') @ text_of q_actual x name f @ [NL])
     else None)"
proof -
  have stack: "PCUT_ASSERTION_TEXT_BUFFER_LENGTH \<le> length stack" using assms(5) by (simp add: PCUT_ASSERTION_TEXT_BUFFER_LENGTH_def)
  have info: "type_info_int = info_of compare_int append_int" "type_info_str = info_of compare_str append_str"
    "type_info_coord = info_of compare_coord append_coord"
    by (simp_all add: info_of_def type_info_int_def type_info_str_def type_info_coord_def)
  note prints = gen_ints.assertion_prints [OF _ _ assms(2-4) stack, of x cvalue_count]
    gen_strs.assertion_prints [OF _ _ assms(2-4) stack, of x cvalue_count]
    gen_coords.assertion_prints [OF _ _ assms(2-4) stack, of x cvalue_count]
  note texts = gen_ints.assertion_text_def gen_strs.assertion_text_def gen_coords.assertion_text_def text_of_def
  from assms(1) consider "of_type int_value x f" | "of_type str_value x f" | "of_type coord_value x f"
    by (auto simp: well_typed_def)
  then show ?thesis
  proof cases
    case 1
    then have "GET_TYPE_INFO x = info_of compare_int append_int" by (cases x) (simp_all add: of_type_def info)
    with 1 prints(1) show ?thesis
      by (simp add: gen_ASSERT_THAT_def gen_assertion_eq of_type_def texts PCUT_ASSERTION_TEXT_BUFFER_LENGTH_def)
  next
    case 2
    then have "GET_TYPE_INFO x = info_of compare_str append_str" by (cases x) (simp_all add: of_type_def info)
    with 2 prints(2) show ?thesis
      by (simp add: gen_ASSERT_THAT_def gen_assertion_eq of_type_def texts PCUT_ASSERTION_TEXT_BUFFER_LENGTH_def)
  next
    case 3
    then have "GET_TYPE_INFO x = info_of compare_coord append_coord" by (cases x) (simp_all add: of_type_def info)
    with 3 prints(3) show ?thesis
      by (simp add: gen_ASSERT_THAT_def gen_assertion_eq of_type_def texts PCUT_ASSERTION_TEXT_BUFFER_LENGTH_def)
  qed
qed

text \<open>C30: \<open>PCUT_ASSERT_THAT\<close> chooses the functions of the type of the value, and prints the text of the
  assertion after the verdict of the formula that the matchers stand for: equality, negation, and
  being one of the first seven values of a list.  It does so for every content of the stack, exactly
  if the text fits into the 1024 bytes of the buffer; otherwise it writes behind the buffer.\<close>

theorem assertion_over_matchers:
  assumes "well_typed x f" and "countable_lists f" and "nul_free q_actual" and "nul_free name" and "1024 \<le> length stack"
  shows "gen_ASSERT_THAT stack q_actual x name (gen_matcher_of f) =
    (if length (text_of q_actual x name f) < 1024
     then Some ((if satisfies x f then '' OKAY: '' else ''ERROR: '') @ text_of q_actual x name f @ [NL])
     else None)"
  by (rule gen_assertion_prints [OF assms])

theorem assertion_over_matchers_witness:
  "gen_ASSERT_THAT (replicate 1024 (CHR ''?'')) ''x'' (V_int 42) ''m''
     (gen_IS_NOT (gen_IS_ANY_OF [V_int 4, V_int 5, V_int 42])) =
   Some (''ERROR: Expected x is not (any of { 4, 5, 42 }) but got 42 [m].'' @ [NL])"
proof -
  have "gen_ASSERT_THAT (replicate 1024 (CHR ''?'')) ''x'' (V_int 42) ''m''
      (gen_matcher_of (Negation (Any_of [V_int 4, V_int 5, V_int 42]))) =
    (if length (text_of ''x'' (V_int 42) ''m'' (Negation (Any_of [V_int 4, V_int 5, V_int 42]))) < 1024
     then Some ((if satisfies (V_int 42) (Negation (Any_of [V_int 4, V_int 5, V_int 42])) then '' OKAY: '' else ''ERROR: '') @
       text_of ''x'' (V_int 42) ''m'' (Negation (Any_of [V_int 4, V_int 5, V_int 42])) @ [NL]) else None)"
    by (rule assertion_over_matchers) (simp_all add: well_typed_def of_type_def int_range_def nul_free_def)
  moreover have "text_of ''x'' (V_int 42) ''m'' (Negation (Any_of [V_int 4, V_int 5, V_int 42])) =
      ''Expected x is not (any of { 4, 5, 42 }) but got 42 [m].''" by code_simp
  ultimately show ?thesis by simp
qed

section \<open>The two implementations\<close>

lemma satisfies_map: "inj g \<Longrightarrow> satisfies (g x) (map_formula g f) = satisfies x f"
  by (induction f) (auto simp: take_map inj_eq)

lemma describe_map: "describe sh (map_formula g f) = describe (sh \<circ> g) f"
  by (induction f) (auto simp: take_map comp_def)

lemma countable_map: "countable_lists (map_formula g f) = countable_lists f"
  by (induction f) auto

lemma values_map: "formula_values (map_formula g f) = map g (formula_values f)"
  by (induction f) auto

text \<open>C31: for numbers and for coordinates the two implementations, with the functions given by name and
  with the functions found by type, print the same, and write behind their buffer for the same
  arguments.\<close>

theorem implementations_agree:
  assumes "countable_lists f" and "countable_lists g" and "nul_free q_actual" and "nul_free name" and "1024 \<le> length stack"
    and "int_range x" and "list_all int_range (formula_values f)"
    and "coord_range c" and "list_all coord_range (formula_values g)"
  shows "gen_ASSERT_THAT stack q_actual (V_int x) name (gen_matcher_of (map_formula V_int f)) =
      PCUT_ASSERT_THAT_INT stack q_actual x name (matcher_of Some f) \<and>
    gen_ASSERT_THAT stack q_actual (V_coord c) name (gen_matcher_of (map_formula V_coord g)) =
      PCUT_ASSERT_THAT_COORD stack q_actual c name (matcher_of no_count g)"
proof
  have len: "PCUT_ASSERTION_TEXT_BUFFER_LENGTH \<le> length stack" "PCUT_ASSERTION_TEXT_BUFFER_LENGTH = 1024"
    using assms(5) by (simp_all add: PCUT_ASSERTION_TEXT_BUFFER_LENGTH_def)
  have inj: "inj V_int" "inj V_coord" by (auto intro: injI)
  have show_comp: "show_cvalue \<circ> V_int = show_int" "show_cvalue \<circ> V_coord = show_coord" by auto
  have valid: "long_long x" "list_all long_long (formula_values f)"
    using assms(6,7) by (auto simp: list_all_iff int_range_def long_long_def)
  have ty: "well_typed (V_int x) (map_formula V_int f)" "well_typed (V_coord c) (map_formula V_coord g)"
    using assms(6-9) by (auto simp: well_typed_def of_type_def values_map list_all_iff)
  show "gen_ASSERT_THAT stack q_actual (V_int x) name (gen_matcher_of (map_formula V_int f)) =
      PCUT_ASSERT_THAT_INT stack q_actual x name (matcher_of Some f)"
    unfolding PCUT_ASSERT_THAT_INT_def integers.assertion_prints [OF valid assms(1,3,4) len(1)] integers.assertion_text_def
    using gen_assertion_prints [OF ty(1) _ assms(3-5)] assms(1)
    by (simp add: countable_map satisfies_map [OF inj(1)] text_of_def describe_map show_comp len(2))
  show "gen_ASSERT_THAT stack q_actual (V_coord c) name (gen_matcher_of (map_formula V_coord g)) =
      PCUT_ASSERT_THAT_COORD stack q_actual c name (matcher_of no_count g)"
    unfolding PCUT_ASSERT_THAT_COORD_def coords.assertion_prints [OF assms(8,9,2,3,4) len(1)] coords.assertion_text_def
    using gen_assertion_prints [OF ty(2) _ assms(3-5)] assms(2)
    by (simp add: countable_map satisfies_map [OF inj(2)] text_of_def describe_map show_comp len(2))
qed

theorem implementations_agree_witness:
  "gen_ASSERT_THAT (replicate 1024 (CHR ''?'')) ''x'' (V_int 42) ''m'' (gen_matcher_of (map_formula V_int (Any_of [4, 42]))) =
     PCUT_ASSERT_THAT_INT (replicate 1024 (CHR ''?'')) ''x'' 42 ''m'' (matcher_of Some (Any_of [4, 42])) \<and>
   gen_ASSERT_THAT (replicate 1024 (CHR ''?'')) ''x'' (V_coord \<lparr>coord_x = 1, coord_y = 2\<rparr>) ''m''
       (gen_matcher_of (map_formula V_coord (Negation (Equal \<lparr>coord_x = 1, coord_y = 3\<rparr>)))) =
     PCUT_ASSERT_THAT_COORD (replicate 1024 (CHR ''?'')) ''x'' \<lparr>coord_x = 1, coord_y = 2\<rparr> ''m''
       (matcher_of no_count (Negation (Equal \<lparr>coord_x = 1, coord_y = 3\<rparr>)))"
  by (rule implementations_agree)
    (simp_all add: int_range_def coord_range_def nul_free_def)

end
