(* ===== verification/Meaning.thy ===== *)
theory Meaning
  imports AnyChild
begin

text \<open>
  What a program means, read from its macro uses alone: which suites it has, with which tests, which
  set-up and which tear-down function, and which results they have.  No items, addresses, links or
  hidden kinds are left here; the list that the library builds from the static items of the macros
  has exactly this meaning.
\<close>

section \<open>Uses of macros\<close>

datatype macro_use = Use_test string fptr int | Use_suite string | Use_before fptr | Use_after fptr

fun opens_suite :: "macro_use \<Rightarrow> bool" where
  "opens_suite (Use_suite name) \<longleftrightarrow> True"
| "opens_suite _ \<longleftrightarrow> False"

text \<open>The extras before the first end mark; the last time-out counts, and one mark is enough to skip a test.\<close>

definition extras_given :: "pcut_extra list \<Rightarrow> pcut_extra list" where
  "extras_given es = takeWhile (\<lambda>e. extra_type e \<noteq> PCUT_EXTRA_LAST) es"

definition given_timeout :: "pcut_extra list \<Rightarrow> int" where
  "given_timeout es = last (PCUT_DEFAULT_TEST_TIMEOUT # map timeout (filter (\<lambda>e. extra_type e = PCUT_EXTRA_TIMEOUT) (extras_given es)))"

definition given_skip :: "pcut_extra list \<Rightarrow> bool" where
  "given_skip es \<longleftrightarrow> (\<exists>e \<in> set (extras_given es). extra_type e = PCUT_EXTRA_SKIP)"

text \<open>The uses that count; an imported file starts with its suite \<open>Default\<close>.\<close>

fun decl_uses :: "decl \<Rightarrow> macro_use list" and uses :: "decl list \<Rightarrow> macro_use list" where
  "decl_uses (D_test name f es) = (if given_skip es then [] else [Use_test name f (given_timeout es)])"
| "decl_uses (D_suite name) = [Use_suite name]"
| "decl_uses (D_before f) = [Use_before f]"
| "decl_uses (D_after f) = [Use_after f]"
| "decl_uses (D_import exp_name ds) = Use_suite ''Default'' # uses ds"
| "uses [] = []"
| "uses (d # ds) = decl_uses d @ uses ds"

section \<open>Suites\<close>

text \<open>A suite: its name, its set-up and tear-down function, and its tests with their functions and time-outs.\<close>

type_synonym suite_plan = "string \<times> fptr option \<times> fptr option \<times> (string \<times> fptr \<times> int) list"

definition last_of :: "'a list \<Rightarrow> 'a option" where
  "last_of xs = (if xs = [] then None else Some (last xs))"

definition befores :: "macro_use list \<Rightarrow> fptr list" where
  "befores us = concat (map (\<lambda>u. case u of Use_before f \<Rightarrow> [f] | _ \<Rightarrow> []) us)"

definition afters :: "macro_use list \<Rightarrow> fptr list" where
  "afters us = concat (map (\<lambda>u. case u of Use_after f \<Rightarrow> [f] | _ \<Rightarrow> []) us)"

definition tests_used :: "macro_use list \<Rightarrow> (string \<times> fptr \<times> int) list" where
  "tests_used us = concat (map (\<lambda>u. case u of Use_test name f t \<Rightarrow> [(name, f, t)] | _ \<Rightarrow> []) us)"

lemmas used_defs = befores_def afters_def tests_used_def

function plan :: "macro_use list \<Rightarrow> suite_plan list" where
  "plan [] = []"
| "plan (u # us) =
     (case u of
        Use_suite name \<Rightarrow>
          (let seg = takeWhile (\<lambda>u. \<not> opens_suite u) us
           in (name, last_of (befores seg), last_of (afters seg), tests_used seg) #
             plan (dropWhile (\<lambda>u. \<not> opens_suite u) us))
      | _ \<Rightarrow> plan us)"
  by pat_completeness auto
termination
  by (relation "measure length") (auto simp: less_Suc_eq_le length_dropWhile_le)

text \<open>The suites of a program.\<close>

definition program_plan :: "decl list \<Rightarrow> suite_plan list" where
  "program_plan ds = plan (Use_suite ''Default'' # uses ds)"

section \<open>Items are uses\<close>

definition item_uses :: "pcut_item \<Rightarrow> macro_use list" where
  "item_uses it =
     (case kind it of
        PCUT_KIND_TEST \<Rightarrow> [Use_test (item_name it) (the (test_func it)) (the (pcut_get_test_timeout it))]
      | PCUT_KIND_TESTSUITE \<Rightarrow> [Use_suite (item_name it)]
      | PCUT_KIND_SETUP \<Rightarrow> [Use_before (the (setup_func it))]
      | PCUT_KIND_TEARDOWN \<Rightarrow> [Use_after (the (teardown_func it))]
      | _ \<Rightarrow> [])"

text \<open>What the macros leave in an item: a suite has no functions yet, and the others have what they need.\<close>

definition item_complete :: "pcut_item \<Rightarrow> bool" where
  "item_complete it \<longleftrightarrow>
     (case kind it of
        PCUT_KIND_TEST \<Rightarrow> test_func it \<noteq> None \<and> pcut_get_test_timeout it \<noteq> None
      | PCUT_KIND_TESTSUITE \<Rightarrow> setup_func it = None \<and> teardown_func it = None
      | PCUT_KIND_SETUP \<Rightarrow> setup_func it \<noteq> None
      | PCUT_KIND_TEARDOWN \<Rightarrow> teardown_func it \<noteq> None
      | _ \<Rightarrow> True)"

text \<open>The same before the list is fixed, when tests with the mark to skip are still there.\<close>

definition use_at :: "heap \<Rightarrow> addr \<Rightarrow> macro_use list" where
  "use_at h a = (case h a of None \<Rightarrow> [] | Some it \<Rightarrow> if kind it = PCUT_KIND_TEST \<and> skip_marked it then [] else item_uses it)"

definition complete_at :: "heap \<Rightarrow> addr \<Rightarrow> bool" where
  "complete_at h a \<longleftrightarrow> (case h a of None \<Rightarrow> False | Some it \<Rightarrow> item_complete it)"

lemma at_Some:
  "h a = Some it \<Longrightarrow> use_at h a = (if kind it = PCUT_KIND_TEST \<and> skip_marked it then [] else item_uses it)"
  "h a = Some it \<Longrightarrow> complete_at h a \<longleftrightarrow> item_complete it"
  by (simp_all add: use_at_def complete_at_def)

lemma has_skip_given: "has_skip_extra (es @ [PCUT_TEST_EXTRA_LAST]) = Some (given_skip es)"
proof (induction es)
  case (Cons e es)
  then show ?case by (cases "extra_type e") (auto simp: given_skip_def extras_given_def)
qed (simp add: given_skip_def extras_given_def PCUT_TEST_EXTRA_LAST_def)

lemma timeout_loop_given:
  "timeout_loop (es @ [PCUT_TEST_EXTRA_LAST]) t =
     Some (last (t # map timeout (filter (\<lambda>e. extra_type e = PCUT_EXTRA_TIMEOUT) (extras_given es))))"
proof (induction es arbitrary: t)
  case (Cons e es)
  then show ?case by (cases "extra_type e") (auto simp: extras_given_def)
qed (simp add: extras_given_def PCUT_TEST_EXTRA_LAST_def)

text \<open>A test item is the use of its macro.\<close>

lemma test_item_use:
  assumes "PCUT_TEST names n name f es = Some it" and "h a = Some it"
  shows "use_at h a = decl_uses (D_test name f es)" "complete_at h a"
proof -
  from assms(1) have it: "kind it = PCUT_KIND_TEST" "item_name it = name" "test_func it = Some f"
    "extras it = Some (es @ [PCUT_TEST_EXTRA_LAST])" by (auto simp: macro_defs)
  then have "pcut_get_test_timeout it = Some (given_timeout es)"
    by (simp add: pcut_get_test_timeout_def timeout_loop_given given_timeout_def)
  with it assms(2) show "use_at h a = decl_uses (D_test name f es)" "complete_at h a"
    by (simp_all add: at_Some item_uses_def item_complete_def skip_marked_def has_skip_given)
qed

lemma place_uses:
  "place_decl d names n a = Some (cells, x, b) \<Longrightarrow> holds_cells h cells \<Longrightarrow>
   concat (map (use_at h) (flat x)) = decl_uses d \<and> list_all (complete_at h) (flat x)"
  "place_list ds names n a = Some (lcells, xs, names', n', c) \<Longrightarrow> holds_cells h lcells \<Longrightarrow>
   concat (map (use_at h) (order xs)) = uses ds \<and> list_all (complete_at h) (order xs)"
proof (induction d names n a and ds names n a arbitrary: cells x b and lcells xs names' n' c
    rule: place_decl_place_list.induct)
  case (1 name f es names n a)
  then obtain it where it: "PCUT_TEST names n name f es = Some it" "cells = [(a, it)]" "x = Leaf a" by auto
  with test_item_use [OF it(1), of h a] "1.prems"(2) show ?case by simp
next
  case (5 exp_name ds names n a)
  from "5.prems"(1) obtain dflt icells ixs inames in' c export import where
    dflt: "PCUT_TEST_SUITE_WITH_NUMBER [0 \<mapsto> a] 1 ''Default'' = Some dflt" and
    list: "place_list ds [0 \<mapsto> a, 1 \<mapsto> a + 1] 2 (a + 2) = Some (icells, ixs, inames, in', c)" and
    ex: "PCUT_EXPORT_WITH_NUMBER inames in' exp_name = Some export" and
    im: "PCUT_IMPORT_WITH_NUMBER names n exp_name c = Some import" and
    cells: "cells = [(a, PCUT_INIT_item), (a + 1, dflt)] @ icells @ [(c, export), (c + 1, import)]" and
    x: "x = Import (c + 1) (Leaf c # ixs @ [Leaf (a + 1), Leaf a])"
    by (auto simp: bind_Some_conv)
  have k: "kind export = PCUT_KIND_SKIP" "kind import = PCUT_KIND_NESTED" "kind PCUT_INIT_item = PCUT_KIND_SKIP"
    "setup_func dflt = None" "teardown_func dflt = None"
    using ex im dflt by (auto simp: macro_defs)
  with "5.IH" [OF dflt list] "5.prems"(2) file_start(3,4) [OF dflt] show ?case
    by (simp add: x cells at_Some item_uses_def item_complete_def)
next
  case (7 d ds names n a)
  from "7.prems"(1) obtain dcells x b tcells txs where
    d: "place_decl d names n a = Some (dcells, x, b)" and
    ds: "place_list ds (names(n \<mapsto> src_addr x)) (n + 1) b = Some (tcells, txs, names', n', c)" and
    eqs: "lcells = dcells @ tcells" "xs = txs @ [x]"
    by (auto simp: bind_Some_conv)
  with "7.IH"(1) [OF d] "7.IH"(2) [OF d refl refl ds] "7.prems"(2) show ?case by simp
qed (auto simp: macro_defs at_Some item_uses_def item_complete_def)

section \<open>The fixed list\<close>

lemma fixed_use:
  assumes "fixed it it'" and "item_complete it"
  shows "item_uses it' = (if kind it = PCUT_KIND_TEST \<and> skip_marked it then [] else item_uses it)" "item_complete it'"
proof -
  have c: "item_name it' = item_name it" "test_func it' = test_func it" "setup_func it' = setup_func it"
    "teardown_func it' = teardown_func it" "extras it' = extras it" "kind it' = final_kind it"
    using assms(1) by (cases it; cases it'; simp add: fixed_def core_def)+
  then have t: "pcut_get_test_timeout it' = pcut_get_test_timeout it" by (simp add: pcut_get_test_timeout_def)
  show "item_uses it' = (if kind it = PCUT_KIND_TEST \<and> skip_marked it then [] else item_uses it)"
    by (cases "kind it") (simp_all add: item_uses_def c t final_kind_def)
  show "item_complete it'"
    using assms(2) by (cases "kind it") (simp_all add: item_complete_def c t final_kind_def)
qed

definition uses_in :: "heap \<Rightarrow> addr list \<Rightarrow> macro_use list" where
  "uses_in h as = concat (map (\<lambda>a. item_uses (the (h a))) as)"

definition complete_in :: "heap \<Rightarrow> addr list \<Rightarrow> bool" where
  "complete_in h as \<longleftrightarrow> (\<forall>a \<in> set as. \<exists>it. h a = Some it \<and> item_complete it)"

lemma uses_in_simps [simp]:
  "uses_in h [] = []" "uses_in h (a # as) = item_uses (the (h a)) @ uses_in h as" "uses_in h (as @ bs) = uses_in h as @ uses_in h bs"
  by (simp_all add: uses_in_def)

lemma complete_in_simps [simp]:
  "complete_in h []" "complete_in h (a # as) \<longleftrightarrow> (\<exists>it. h a = Some it \<and> item_complete it) \<and> complete_in h as"
  "complete_in h (as @ bs) \<longleftrightarrow> complete_in h as \<and> complete_in h bs"
  by (auto simp: complete_in_def)

text \<open>The library's list of the items of a program has the uses that were declared.\<close>

lemma program_items:
  assumes "program ds mx = Some (h, l, xs)" and "pcut_fix_list_get_real_head h l = Some (h1, first)"
  shows "uses_in h1 (order xs) = Use_suite ''Default'' # uses ds" "complete_in h1 (order xs)"
proof -
  from assms(1) obtain dflt cells ys names n last q where
    dflt: "PCUT_TEST_SUITE_WITH_NUMBER [0 \<mapsto> 0] 1 ''Default'' = Some dflt" and
    list: "place_list ds [0 \<mapsto> 0, 1 \<mapsto> 1] 2 2 = Some (cells, ys, names, n, l)" and
    xs: "xs = Leaf l # ys @ [Leaf 1, Leaf 0]" and
    cells: "holds_cells h ([(0, PCUT_INIT_item), (1, dflt)] @ cells @ [(l, last)])" and last: "kind last = PCUT_KIND_SKIP"
    by (rule program_cells)
  have k: "kind PCUT_INIT_item = PCUT_KIND_SKIP" "setup_func dflt = None" "teardown_func dflt = None"
    "kind dflt = PCUT_KIND_TESTSUITE" "item_name dflt = ''Default''"
    using dflt by (auto simp: macro_defs)
  have all: "concat (map (use_at h) (order xs)) = Use_suite ''Default'' # uses ds" "list_all (complete_at h) (order xs)"
    using place_uses(2) [OF list, of h] cells last k by (simp_all add: xs at_Some item_uses_def item_complete_def)
  from fix_list_correct [OF program_ok(1) [OF assms(1)]] assms(2) have rel: "hrel (fix_rel (order xs)) h h1"
    by (auto simp: fix_ok_def)
  have one: "\<exists>it'. h1 a = Some it' \<and> item_complete it' \<and> item_uses it' = use_at h a" if a: "a \<in> set (order xs)" for a
  proof -
    from all(2) a obtain it where it: "h a = Some it" "item_complete it"
      by (auto simp: list_all_iff complete_at_def split: option.splits)
    from hrelD [OF rel it(1)] a obtain it' where "h1 a = Some it'" "fixed it it'" by (auto simp: fix_rel_def)
    with fixed_use [OF this(2) it(2)] it show ?thesis by (simp add: at_Some)
  qed
  have "map (\<lambda>a. item_uses (the (h1 a))) (order xs) = map (use_at h) (order xs)"
    by (rule map_cong) (use one in force)+
  with all(1) show "uses_in h1 (order xs) = Use_suite ''Default'' # uses ds" by (simp only: uses_in_def)
  show "complete_in h1 (order xs)" using one by (auto simp: complete_in_def)
qed

section \<open>Segments of the list\<close>

lemma item_opens: "h a = Some it \<Longrightarrow> is_suite h a \<Longrightarrow> item_uses it = [Use_suite (item_name it)]"
  by (simp add: is_suite_Some item_uses_def)

lemma item_opens_not: "h a = Some it \<Longrightarrow> \<not> is_suite h a \<Longrightarrow> u \<in> set (item_uses it) \<Longrightarrow> \<not> opens_suite u"
  by (auto simp: is_suite_Some item_uses_def split: kind.splits)

lemma uses_segment:
  "complete_in h as \<Longrightarrow>
   takeWhile (\<lambda>u. \<not> opens_suite u) (uses_in h as) = uses_in h (takeWhile (\<lambda>a. \<not> is_suite h a) as) \<and>
   dropWhile (\<lambda>u. \<not> opens_suite u) (uses_in h as) = uses_in h (dropWhile (\<lambda>a. \<not> is_suite h a) as)"
proof (induction as)
  case (Cons a as)
  from Cons.prems obtain it where it: "h a = Some it" by auto
  from Cons item_opens [of h a it] item_opens_not [of h a it] it show ?case
    by (cases "is_suite h a") (simp_all add: takeWhile_append2 dropWhile_append2)
qed simp

lemma last_map_of: "last_of (map f xs) = (if xs = [] then None else Some (f (last xs)))"
  by (simp add: last_of_def last_map)

text \<open>The hooks and the tests of a segment are those that were used in it.\<close>

lemma segment_items:
  assumes "complete_in h as"
  shows "befores (uses_in h as) = map (\<lambda>a. the (setup_func (the (h a)))) (filter (\<lambda>a. kind_at h a = PCUT_KIND_SETUP) as)"
    and "afters (uses_in h as) = map (\<lambda>a. the (teardown_func (the (h a)))) (filter (\<lambda>a. kind_at h a = PCUT_KIND_TEARDOWN) as)"
    and "tests_used (uses_in h as) = map (\<lambda>a. (item_name (the (h a)), the (test_func (the (h a))),
      the (pcut_get_test_timeout (the (h a))))) (filter (is_test h) as)"
  using assms
  by (induction as; auto simp: used_defs is_test_def kind_at_Some item_uses_def split: kind.splits)+

lemma last_hook_used:
  assumes "complete_in h seg"
  shows "last_hook setup_func PCUT_KIND_SETUP h seg None = last_of (befores (uses_in h seg))"
    and "last_hook teardown_func PCUT_KIND_TEARDOWN h seg None = last_of (afters (uses_in h seg))"
proof -
  have l: "\<exists>it. h (last (filter (\<lambda>a. kind_at h a = k) seg)) = Some it \<and> item_complete it \<and> kind it = k"
    if "filter (\<lambda>a. kind_at h a = k) seg \<noteq> []" for k
    using last_in_set [OF that] assms by (auto simp: complete_in_def kind_at_Some)
  show "last_hook setup_func PCUT_KIND_SETUP h seg None = last_of (befores (uses_in h seg))"
    using l [of PCUT_KIND_SETUP]
    by (auto simp: last_hook_def segment_items [OF assms] last_map_of item_complete_def split: list.splits)
  show "last_hook teardown_func PCUT_KIND_TEARDOWN h seg None = last_of (afters (uses_in h seg))"
    using l [of PCUT_KIND_TEARDOWN]
    by (auto simp: last_hook_def segment_items [OF assms] last_map_of item_complete_def split: list.splits)
qed

section \<open>Results\<close>

text \<open>
  The results of a plan, given what a test with a set-up function, a tear-down function and a time-out
  answers from a state.
\<close>

type_synonym 'u meaning = "fptr option \<Rightarrow> fptr \<Rightarrow> fptr option \<Rightarrow> int \<Rightarrow> 'u \<Rightarrow> 'u answer option"

fun tests_meaning :: "'u meaning \<Rightarrow> 'u \<Rightarrow> fptr option \<Rightarrow> fptr option \<Rightarrow> (string \<times> fptr \<times> int) list \<Rightarrow> test_result list option" where
  "tests_meaning meaning u su td [] = Some []"
| "tests_meaning meaning u su td ((name, f, t) # ts) =
     do { (_, _, outcome, e, te, x) \<leftarrow> meaning su f td t u;
          rs \<leftarrow> tests_meaning meaning u su td ts;
          Some ((name, outcome, e, te, x) # rs) }"

fun plan_results :: "'u meaning \<Rightarrow> 'u \<Rightarrow> suite_plan list \<Rightarrow> (string \<times> test_result list) list option" where
  "plan_results meaning u [] = Some []"
| "plan_results meaning u ((name, su, td, ts) # ss) =
     do { rs \<leftarrow> tests_meaning meaning u su td ts;
          rss \<leftarrow> plan_results meaning u ss;
          Some ((name, rs) # rss) }"

text \<open>The search for the suite of a test goes back to the suite that the test follows.\<close>

lemma find_parent_back:
  "dll g p (bs @ a # seg) e \<Longrightarrow> is_suite g a \<Longrightarrow> \<forall>b \<in> set seg. \<not> is_suite g b \<Longrightarrow>
   find_parent_loop g (last_ptr None (a # seg)) = Some (Some a)"
proof (induction seg arbitrary: e rule: rev_induct)
  case Nil
  then obtain it where "g a = Some it" by (auto simp: dll_append split: option.splits)
  with Nil.prems(2) show ?case by (subst find_parent_loop.simps) (simp add: is_suite_Some)
next
  case (snoc b seg)
  from snoc.prems(1) obtain it where it: "g b = Some it" "previous it = last_ptr None (a # seg)" "dll g p (bs @ a # seg) (Some b)"
    using dll_append [of g p "bs @ a # seg" "[b]" e] by (auto simp: last_ptr_append split: option.splits)
  from snoc.IH [OF it(3)] snoc.prems(2,3) have "find_parent_loop g (last_ptr None (a # seg)) = Some (Some a)" by simp
  with it(1,2) snoc.prems(3) show ?case
    by (subst find_parent_loop.simps) (simp add: is_suite_Some last_ptr_def)
qed

lemma parent_in_suite:
  assumes "dll g p (bs @ a # seg @ cs) e" and "is_suite g a" and "\<forall>b \<in> set seg. \<not> is_suite g b" and "b \<in> set seg"
  shows "parent_item g b = g a"
proof -
  from assms(4) obtain s1 s2 where seg: "seg = s1 @ b # s2" by (auto simp: in_set_conv_decomp)
  with assms(1) have "dll g p ((bs @ a # (s1 @ [b])) @ s2 @ cs) e" by simp
  then have "dll g p (bs @ a # (s1 @ [b])) (hd_ptr (s2 @ cs) e)" by (simp only: dll_append)
  from find_parent_back [OF this assms(2)] assms(3) seg have "find_parent_loop g (Some b) = Some (Some a)"
    by (simp add: last_ptr_def)
  then show ?thesis by (simp add: parent_item_def)
qed

text \<open>After the hooks are given to the suites, the tests are those of the fixed list, and suites are still suites.\<close>

lemma hooked_kinds:
  assumes "distinct as" and "complete_in h as" and "a \<in> set as"
  shows "is_suite (give_hooks h as) a = is_suite h a" "is_test (give_hooks h as) a = is_test h a"
    "is_test h a \<Longrightarrow> give_hooks h as a = h a"
proof -
  from assms(2,3) obtain it where it: "h a = Some it" by (auto simp: complete_in_def)
  from kind_give_hooks [where h = h, OF assms(1,3) it] it
  show "is_suite (give_hooks h as) a = is_suite h a" "is_test (give_hooks h as) a = is_test h a"
    by (auto simp: is_suite_def is_test_def kind_at_Some)
  from assms(3) obtain bs cs where "as = bs @ a # cs" by (auto simp: in_set_conv_decomp)
  with give_hooks_at [of bs a cs h] assms(1) it show "is_test h a \<Longrightarrow> give_hooks h as a = h a"
    by (simp add: hook_item_def is_test_Some)
qed

text \<open>A way to run tests whose answers depend on the functions and the time-out of a test only.\<close>

locale test_meaning =
  fixes answer :: "heap \<Rightarrow> addr \<Rightarrow> 'u \<Rightarrow> 'u answer option" and meaning :: "'u meaning"
  assumes answer_meaning: "h test = Some it \<Longrightarrow> test_func it = Some f \<Longrightarrow> pcut_get_test_timeout it = Some t \<Longrightarrow>
    parent_item h test = Some s \<Longrightarrow> answer h test u = meaning (setup_func s) f (teardown_func s) t u"
begin

lemma results_meaning:
  assumes "\<And>a. a \<in> set ts \<Longrightarrow> \<exists>it. h a = Some it \<and> g a = Some it \<and> kind it = PCUT_KIND_TEST \<and> item_complete it \<and> parent_item g a = Some s"
  shows "results answer g u ts = tests_meaning meaning u (setup_func s) (teardown_func s)
    (map (\<lambda>a. (item_name (the (h a)), the (test_func (the (h a))), the (pcut_get_test_timeout (the (h a))))) ts)"
  using assms
proof (induction ts)
  case (Cons a ts)
  from Cons.prems [of a] obtain it where it: "h a = Some it" "g a = Some it" "kind it = PCUT_KIND_TEST" "item_complete it"
    "parent_item g a = Some s" by auto
  then obtain f t where "test_func it = Some f" "pcut_get_test_timeout it = Some t" by (auto simp: item_complete_def)
  with answer_meaning [of g a it f t s u] it Cons.IH Cons.prems show ?case by simp
qed simp

lemma suite_meaning:
  assumes dll: "dll h None (bs @ a # seg @ cs) None" and dist: "distinct (bs @ a # seg @ cs)"
    and comp: "complete_in h (bs @ a # seg @ cs)" and suite: "is_suite h a" and seg: "seg = takeWhile (\<lambda>b. \<not> is_suite h b) (seg @ cs)"
  defines "g \<equiv> give_hooks h (bs @ a # seg @ cs)"
  shows "results answer g u (filter (is_test g) seg) =
      tests_meaning meaning u (last_of (befores (uses_in h seg))) (last_of (afters (uses_in h seg))) (tests_used (uses_in h seg))"
    and "\<exists>it s. h a = Some it \<and> g a = Some s \<and> item_name s = item_name it"
proof -
  let ?as = "bs @ a # seg @ cs"
  from comp obtain it where it: "h a = Some it" "item_complete it" by auto
  have none: "setup_func it = None" "teardown_func it = None" "kind it = PCUT_KIND_TESTSUITE"
    using it suite by (simp_all add: item_complete_def is_suite_Some)
  have cseg: "complete_in h seg" using comp by simp
  define s where "s = with_hooks h seg it"
  have ga: "g a = Some s"
    using give_hooks_at [OF dist, of h] it(1) none(3) seg by (simp add: g_def hook_item_def before_suite_def s_def)
  have hooks: "setup_func s = last_of (befores (uses_in h seg))" "teardown_func s = last_of (afters (uses_in h seg))"
    "item_name s = item_name it" using last_hook_used [OF cseg] none by (simp_all add: s_def with_hooks_def)
  have kinds: "is_suite g b = is_suite h b" "is_test g b = is_test h b" "is_test h b \<Longrightarrow> g b = h b" if "b \<in> set ?as" for b
    unfolding g_def by (rule hooked_kinds [OF dist comp that], assumption?)+
  have dllg: "dll g None ?as None" unfolding g_def by (rule dll_give_hooks [OF dll])
  have no: "\<forall>b \<in> set seg. \<not> is_suite g b" using kinds(1) set_takeWhileD seg by (metis Un_iff set_append list.set_intros(2))
  have f: "filter (is_test g) seg = filter (is_test h) seg" by (rule filter_cong) (use kinds(2) in auto)
  have "\<exists>it. h b = Some it \<and> g b = Some it \<and> kind it = PCUT_KIND_TEST \<and> item_complete it \<and> parent_item g b = Some s"
    if "b \<in> set (filter (is_test h) seg)" for b
  proof -
    from that have b: "b \<in> set seg" "is_test h b" by simp_all
    then obtain i where "h b = Some i" "item_complete i" using cseg by (auto simp: complete_in_def)
    with b kinds(3) [of b] parent_in_suite [OF dllg _ no b(1)] kinds(1) [of a] suite ga show ?thesis
      by (auto simp: is_test_Some)
  qed
  from results_meaning [of "filter (is_test h) seg" h g s u, OF this]
  show "results answer g u (filter (is_test g) seg) =
      tests_meaning meaning u (last_of (befores (uses_in h seg))) (last_of (afters (uses_in h seg))) (tests_used (uses_in h seg))"
    unfolding f hooks segment_items(3) [OF cseg] .
  show "\<exists>it s. h a = Some it \<and> g a = Some s \<and> item_name s = item_name it" using it(1) ga hooks(3) by blast
qed

lemma suites_meaning:
  "dll h None (bs @ cs) None \<Longrightarrow> distinct (bs @ cs) \<Longrightarrow> complete_in h (bs @ cs) \<Longrightarrow>
   suite_results answer (give_hooks h (bs @ cs)) u (suites_of (give_hooks h (bs @ cs)) cs) = plan_results meaning u (plan (uses_in h cs))"
proof (induction "length cs" arbitrary: bs cs rule: less_induct)
  case less
  show ?case
  proof (cases cs)
    case (Cons a rest)
    let ?g = "give_hooks h (bs @ a # rest)"
    from less.prems(3) Cons obtain it where it: "h a = Some it" by auto
    have suite: "is_suite ?g b = is_suite h b" if "b \<in> set (bs @ a # rest)" for b
      using hooked_kinds(1) [of "bs @ a # rest" h b] less.prems(2,3) that Cons by simp
    show ?thesis
    proof (cases "is_suite h a")
      case False
      then have "plan (item_uses it @ uses_in h rest) = plan (uses_in h rest)"
        using it by (cases "kind it") (simp_all add: item_uses_def is_suite_Some)
      with less.hyps [of rest "bs @ [a]"] less.prems Cons False suite it show ?thesis by simp
    next
      case True
      define seg aft where "seg = takeWhile (\<lambda>b. \<not> is_suite h b) rest" "aft = dropWhile (\<lambda>b. \<not> is_suite h b) rest"
      have rest: "rest = seg @ aft" by (simp add: seg_aft_def)
      have g: "takeWhile (\<lambda>b. \<not> is_suite ?g b) rest = seg" "dropWhile (\<lambda>b. \<not> is_suite ?g b) rest = aft"
        unfolding seg_aft_def using suite by (auto intro!: takeWhile_cong dropWhile_cong)
      have p: "plan (uses_in h cs) = (item_name it, last_of (befores (uses_in h seg)), last_of (afters (uses_in h seg)),
          tests_used (uses_in h seg)) # plan (uses_in h aft)"
        using uses_segment [of h rest] less.prems(3) Cons item_opens [of h a it] it True by (simp add: seg_aft_def Let_def)
      have "seg = takeWhile (\<lambda>b. \<not> is_suite h b) (seg @ aft)" using rest by (simp add: seg_aft_def)
      with suite_meaning(1) [of h bs a seg aft u] suite_meaning(2) [of h bs a seg aft] less.prems Cons rest it True
      have r: "results answer ?g u (filter (is_test ?g) seg) = tests_meaning meaning u (last_of (befores (uses_in h seg)))
          (last_of (afters (uses_in h seg))) (tests_used (uses_in h seg))"
        "\<exists>s. ?g a = Some s \<and> item_name s = item_name it" by auto
      have "suite_results answer ?g u (suites_of ?g aft) = plan_results meaning u (plan (uses_in h aft))"
        using less.hyps [of aft "bs @ a # seg"] less.prems Cons rest by simp
      with r g p suite [of a] True Cons show ?thesis by auto
    qed
  qed simp
qed

text \<open>What the list of a program gives is what its macro uses mean.\<close>

lemma program_results:
  assumes "program ds mx = Some (h, l, xs)" and "pcut_fix_list_get_real_head h l = Some (h1, first)"
  shows "suite_results answer (give_hooks h1 (order xs)) u (suites_of (give_hooks h1 (order xs)) (order xs)) =
    plan_results meaning u (program_plan ds)"
proof -
  note fl = fix_list_dll [OF program_ok(1) [OF assms(1)] assms(2)]
  from suites_meaning [of h1 "[]" "order xs" u] fl(1,3) program_items [OF assms] show ?thesis by (simp add: program_plan_def)
qed

end

section \<open>Tests in children\<close>

text \<open>The answer for a test in a child on Unix, if the kernel delivers its output.\<close>

definition unix_meaning :: "kernel \<Rightarrow> 'u code \<Rightarrow> 'u meaning" where
  "unix_meaning K E su f td t u =
     (case sandbox E su f td u of (es, _, v) \<Rightarrow>
        if delivers K (forked_acts es) (end_of v) (alarm_of t) \<and> fits es
        then Some ([], u, unix_outcome v, error_text (chunks_of es), [], kept_stdio es)
        else None)"

interpretation unix_test: test_meaning "unix_promise K E" "unix_meaning K E" for K E
  by unfold_locales (simp add: unix_promise_def unix_meaning_def test_spec_def split: prod.splits)

text \<open>The same for any kernel.\<close>

definition raw_meaning :: "kernel \<Rightarrow> 'u code \<Rightarrow> 'u meaning" where
  "raw_meaning K E su f td t u =
     (case sandbox E su f td u of (es, _, v) \<Rightarrow>
        map_option (\<lambda>(outcome, e, x). ([], u, outcome, e, [], x)) (raw_result K (forked_acts es) (end_of v) (alarm_of t)))"

interpretation raw_test: test_meaning "raw_promise K E" "raw_meaning K E" for K E
proof
  fix h :: heap and test it f t s u
  assume "h test = Some it" "test_func it = Some f" "pcut_get_test_timeout it = Some t" "parent_item h test = Some s"
  then show "raw_promise K E h test u = raw_meaning K E (setup_func s) f (teardown_func s) t u"
    by (cases "raw_result K (forked_acts (fst (sandbox E (setup_func s) f (teardown_func s) u)))
        (end_of (snd (snd (sandbox E (setup_func s) f (teardown_func s) u)))) (alarm_of t)")
      (auto simp: raw_promise_def raw_meaning_def test_spec_def split: prod.splits)
qed

section \<open>Programs\<close>

text \<open>C2: what a program prints can be read from its macro uses: if no file has more uses than there are numbers,
  the program compiles and prints, on Unix, the report of the results of its plan and returns whether all
  tests passed.  The plan has the suites in the order of their declarations, those of imported files at the place of the import;
  every suite has the set-up and the tear-down function that is declared last in it; a test has the last time-out that it is
  given, and is left out if it is marked to be skipped.\<close>

theorem program_meaning:
  assumes "length ds \<le> 298" and "numbers_suffice ds" and "code_ok E"
    and "plan_results (unix_meaning K E) u (program_plan ds) = Some rss"
  shows "\<exists>h l xs s'. program ds [PCUT_MAIN_EXTRA_SET_LAST] = Some (h, l, xs) \<and>
    pcut_main E H (\<lambda>_. pcut_run_test_forking K E) l (p # options rp PCUT_RUN_MODE_FORKING) (start_state h u) =
      Some (Returned (if list_all passed (all_results rss) then PCUT_OUTCOME_PASS else PCUT_OUTCOME_FAIL), s') \<and>
    stdout_of (trace s') = document rp rss \<and> user s' = u"
proof -
  from program_total [OF assms(1,2)] obtain h l xs where p: "program ds [PCUT_MAIN_EXTRA_SET_LAST] = Some (h, l, xs)" by blast
  from fix_list_correct [OF program_ok(1) [OF p]] obtain h1 first where fixl: "pcut_fix_list_get_real_head h l = Some (h1, first)"
    by (auto simp: fix_ok_def)
  have "suite_results (unix_answer K E) (give_hooks h1 (order xs)) u (suites_of (give_hooks h1 (order xs)) (order xs)) = Some rss"
    using unix_test.program_results [OF p fixl, of K E u] assms(3,4) by (simp add: unix_answer_def)
  from isolated.plain_document [OF p fixl refl this] p show ?thesis by blast
qed

theorem program_meaning_witness:
  "\<exists>h l xs s'. program demo_program [PCUT_MAIN_EXTRA_SET_LAST] = Some (h, l, xs) \<and>
     pcut_main demo_code (\<lambda>_ a. a) (\<lambda>_. pcut_run_test_forking demo_kernel demo_code) l [cstr ''prog''] (start_state h 0) =
       Some (Returned PCUT_OUTCOME_FAIL, s') \<and>
     stdout_of (trace s') = ''1..3'' @ [NL] @ ''#> Starting suite main_suite.'' @ [NL] @
       ''ok 1 good'' @ [NL] @ ''# stdio: upwork'' @ [NL] @ ''#> Finished suite main_suite (passed).'' @ [NL] @
       ''#> Starting suite other.'' @ [NL] @ ''ok 2 imported'' @ [NL] @
       ''not ok 3 bad failed'' @ [NL] @ ''# error: demo.c:7: Expected <42>'' @ [NL] @
       ''#> Finished suite other (failed 1 of 2).'' @ [NL] @ ''#> Done: 1 of 3 tests failed.'' @ [NL]"
proof -
  let ?rss = "[(''Default'', []), (''main_suite'', [(''good'', PCUT_OUTCOME_PASS, [], [], ''upwork'')]), (''Default'', []),
    (''other'', [(''imported'', PCUT_OUTCOME_PASS, [], [], []), (''bad'', PCUT_OUTCOME_FAIL, ''demo.c:7: Expected <42>'' @ [NL], [], [])])]"
  have n: "length demo_program \<le> 298" "numbers_suffice demo_program" by (simp_all add: demo_program_def)
  have r: "plan_results (unix_meaning demo_kernel demo_code) 0 (program_plan demo_program) = Some ?rss" by code_simp
  have d: "document Report_tap ?rss = ''1..3'' @ [NL] @ ''#> Starting suite main_suite.'' @ [NL] @
       ''ok 1 good'' @ [NL] @ ''# stdio: upwork'' @ [NL] @ ''#> Finished suite main_suite (passed).'' @ [NL] @
       ''#> Starting suite other.'' @ [NL] @ ''ok 2 imported'' @ [NL] @
       ''not ok 3 bad failed'' @ [NL] @ ''# error: demo.c:7: Expected <42>'' @ [NL] @
       ''#> Finished suite other (failed 1 of 2).'' @ [NL] @ ''#> Done: 1 of 3 tests failed.'' @ [NL]" by code_simp
  have f: "list_all passed (all_results ?rss) = False" by code_simp
  from program_meaning [OF n demo_code_ok r, of "\<lambda>_ a. a" "cstr ''prog''" Report_tap, unfolded d f]
  show ?thesis by (auto simp: options_def)
qed

end
