(* ===== verification/TestRuns.thy ===== *)
theory TestRuns
  imports Meaning
begin

text \<open>
  What a test program prints, as an executable function of its uses of the macros and of the code of its
  tests, and that the program itself prints this.  The kernel is one that delivers everything, on
  which only sleeping takes time, so that alarms go off, and the standard error stream is kept.
\<close>

section \<open>A kernel with a clock\<close>

text \<open>What a child does before its alarm, and whether the alarm ends it.\<close>

fun before_alarm :: "nat option \<Rightarrow> act list \<Rightarrow> act list \<times> bool" where
  "before_alarm al [] = ([], False)"
| "before_alarm al (Sleep n # as) =
     (case al of
        None \<Rightarrow> (case before_alarm None as of (done, killed) \<Rightarrow> (Sleep n # done, killed))
      | Some m \<Rightarrow>
          if n < m then (case before_alarm (Some (m - n)) as of (done, killed) \<Rightarrow> (Sleep n # done, killed))
          else ([], True))"
| "before_alarm al (a # as) = (case before_alarm al as of (done, killed) \<Rightarrow> (a # done, killed))"

text \<open>The status of a child; one that hangs is ended by its alarm too.\<close>

definition clock_status :: "bool \<Rightarrow> proc_end \<Rightarrow> int" where
  "clock_status killed e = (if killed \<or> e = Hung then 9 else status_of e)"

definition clock_kernel :: kernel where
  "clock_kernel = \<lparr>pipe_stdout_ok = True, pipe_stderr_ok = True, fork_ok = True, strerror = (\<lambda>_. ''error''),
     run_child = (\<lambda>acts e al. case before_alarm al acts of (done, killed) \<Rightarrow>
       ([stderr_of done], [stdout_of done], clock_status killed e))\<rparr>"

lemma before_alarm_prefix: "before_alarm al as = (done, killed) \<Longrightarrow> \<exists>rest. as = done @ rest \<and> (killed \<longleftrightarrow> rest \<noteq> [])"
  by (induction al as arbitrary: "done" rule: before_alarm.induct) (auto split: prod.splits option.splits if_splits)

text \<open>A child that sleeps for less than the time of its alarm is not touched.\<close>

lemma before_alarm_quick: "(case al of None \<Rightarrow> True | Some n \<Rightarrow> time_of as < n) \<Longrightarrow> before_alarm al as = (as, False)"
  by (induction al as rule: before_alarm.induct) (auto split: option.splits)

section \<open>The texts of a child\<close>

text \<open>
  The messages and the text that the parent finds after a child with the events \<open>es\<close> has done \<open>done\<close>:
  those of the events, if it has done all and wrote to its standard output only; else the plain
  text of the one stream to which it wrote.
\<close>

definition plain_text :: "string \<Rightarrow> string option" where
  "plain_text s =
     (if nul_free s \<and> length s < BUFFER_SIZE then Some (chomp s) else None)"

definition seen_texts :: "event list \<Rightarrow> act list \<Rightarrow> (string \<times> string) option" where
  "seen_texts es done =
     (if done = forked_acts es \<and> fits es then Some (error_text (chunks_of es), kept_stdio es)
      else if stderr_of done = [] then map_option (Pair []) (plain_text (stdout_of done))
      else if stdout_of done = [] then map_option (Pair []) (plain_text (stderr_of done))
      else None)"

text \<open>For evaluation: the length of a text is not computed, it is counted down from the bound.\<close>

fun shorter :: "int \<Rightarrow> 'a list \<Rightarrow> bool" where
  "shorter n [] \<longleftrightarrow> 0 < n"
| "shorter n (x # xs) \<longleftrightarrow> shorter (n - 1) xs"

lemma shorter_length: "shorter n xs \<longleftrightarrow> int (length xs) < n"
  by (induction n xs rule: shorter.induct) auto

lemma fits_code [code]:
  "fits es \<longleftrightarrow> list_all chunk_ok (chunks_of es) \<and> stderr_of (forked_acts es) = [] \<and>
     shorter 8191 (stdout_of (forked_acts es)) \<and> shorter 4096 (stdio_text (chunks_of es)) \<and> shorter 4096 (error_text (chunks_of es))"
  by (simp add: fits_def shorter_length BUFFER_SIZE_def OUTPUT_BUFFER_SIZE_def)

lemma plain_text_code [code]: "plain_text s = (if nul_free s \<and> shorter 4096 s then Some (chomp s) else None)"
  by (simp add: plain_text_def shorter_length BUFFER_SIZE_def)

text \<open>It does not matter to which of the streams a text is written, if nothing is written to the other.\<close>

lemma raw_texts_other:
  assumes "stream ou = []" and "length (stream er) < OUTPUT_BUFFER_SIZE - 1"
  shows "raw_texts er ou = raw_texts ou er"
proof -
  let ?b = "replicate OUTPUT_BUFFER_SIZE NUL" and ?n = "OUTPUT_BUFFER_SIZE - 1"
  have len: "length (chomp (stream er)) \<le> length (stream er)" by (simp add: chomp_def)
  define b where "b = chomp (stream er) @ replicate (length (stream er) - length (chomp (stream er))) NUL @ drop (length (stream er)) ?b"
  have lb: "length b = OUTPUT_BUFFER_SIZE" using len assms(2) by (simp add: b_def)
  have er: "read_all er ?b ?n = Some (b, length (chomp (stream er)))"
    using read_all_stream [of ?n ?b er] assms(2) by (simp add: b_def Let_def)
  have ou: "read_all ou c m = Some (c, 0)" if "0 < m" "m \<le> length c" for c m
    using read_all_stream [OF that(2,1), of ou] assms(1) by (simp add: chomp_def)
  show ?thesis
    using ou [of "?n - length (chomp (stream er))" b] ou [of ?n ?b] er lb len assms(2)
    by (simp add: raw_texts_def OUTPUT_BUFFER_SIZE_def)
qed

lemma plain_text_raw:
  assumes "stream er = []" and "plain_text (stream ou) = Some x"
  shows "raw_texts er ou = Some ([], x)"
proof -
  let ?es = "[Did [Out (stream ou)]]"
  have f: "fits ?es" using assms(2) by (simp add: fits_def plain_text_def BUFFER_SIZE_def OUTPUT_BUFFER_SIZE_def split: if_splits)
  from raw_texts_fits [OF f assms(1)] assms(2) show ?thesis
    by (simp add: kept_stdio_def plain_text_def chomp_def split: if_splits)
qed

lemma seen_texts_raw:
  assumes "seen_texts es done = Some (e, x)"
  shows "raw_texts [stderr_of done] [stdout_of done] = Some (e, x)"
proof -
  have s: "stream [t] = t" for t by (cases t) simp_all
  show ?thesis
  proof (cases "done = forked_acts es \<and> fits es")
    case True
    with assms raw_texts_fits [of es "[stderr_of done]" "[stdout_of done]"] s show ?thesis
      by (simp add: seen_texts_def fits_def)
  next
    case False
    with assms consider "stderr_of done = []" "plain_text (stdout_of done) = Some x" "e = []"
      | "stdout_of done = []" "plain_text (stderr_of done) = Some x" "e = []"
      by (auto simp: seen_texts_def split: if_splits)
    then show ?thesis
    proof cases
      case 1
      then show ?thesis using plain_text_raw [of "[stderr_of done]" "[stdout_of done]" x] s by simp
    next
      case 2
      then have "length (stderr_of done) < OUTPUT_BUFFER_SIZE - 1"
        by (simp add: plain_text_def BUFFER_SIZE_def OUTPUT_BUFFER_SIZE_def split: if_splits)
      with 2 show ?thesis
        using plain_text_raw [of "[stdout_of done]" "[stderr_of done]" x] raw_texts_other [of "[stdout_of done]" "[stderr_of done]"] s
        by simp
    qed
  qed
qed

text \<open>The kernel delivers what the specification of the launcher asks for: everything of a child that is quick, and a signal after
  the part before the alarm of one that is not.\<close>

lemma clock_kernel_delivers:
  assumes "case al of None \<Rightarrow> True | Some n \<Rightarrow> time_of as < n"
    and "case e of Exited _ \<Rightarrow> True | Signaled n \<Rightarrow> 0 < n \<and> n < 127 | Hung \<Rightarrow> False"
  shows "delivers clock_kernel as e al"
  using before_alarm_quick [OF assms(1)] assms(2) by (auto simp: clock_kernel_def delivers_def clock_status_def)

lemma clock_kernel_kills:
  assumes "before_alarm al as = (done, True)" and "stderr_of as = []"
  shows "kills clock_kernel as e al (stdout_of done)"
proof -
  from before_alarm_prefix [OF assms(1)] obtain rest where "as = done @ rest" by blast
  with assms show ?thesis by (auto simp: clock_kernel_def kills_def clock_status_def)
qed

section \<open>What a program prints\<close>

text \<open>What a test answers on this kernel.\<close>

definition clock_meaning :: "'u code \<Rightarrow> 'u meaning" where
  "clock_meaning E su f td t u =
     (case sandbox E su f td u of (es, _, v) \<Rightarrow>
        case before_alarm (alarm_of t) (forked_acts es) of (done, killed) \<Rightarrow>
          map_option (\<lambda>(e, x). ([], u, convert_wait_status_to_outcome (clock_status killed (end_of v)), e, [], x)) (seen_texts es done))"

lemma clock_meaning_raw:
  assumes "clock_meaning E su f td t u = Some a"
  shows "raw_meaning clock_kernel E su f td t u = Some a"
proof -
  obtain es w v p killed where b: "sandbox E su f td u = (es, w, v)" "before_alarm (alarm_of t) (forked_acts es) = (p, killed)"
    by (metis prod.collapse)
  with assms obtain e x where x: "seen_texts es p = Some (e, x)"
    "a = ([], u, convert_wait_status_to_outcome (clock_status killed (end_of v)), e, [], x)"
    by (auto simp: clock_meaning_def)
  from b x(2) seen_texts_raw [OF x(1)] show ?thesis by (simp add: raw_meaning_def raw_result_def clock_kernel_def)
qed

lemma clock_tests:
  "tests_meaning (clock_meaning E) u su td ts = Some rs \<Longrightarrow> tests_meaning (raw_meaning clock_kernel E) u su td ts = Some rs"
proof (induction "clock_meaning E" u su td ts arbitrary: rs rule: tests_meaning.induct)
  case (2 u su td name f t ts)
  then obtain as u' outcome e te x rs' where "clock_meaning E su f td t u = Some (as, u', outcome, e, te, x)"
    "tests_meaning (clock_meaning E) u su td ts = Some rs'" "rs = (name, outcome, e, te, x) # rs'"
    by (auto simp: bind_Some_conv)
  with 2 clock_meaning_raw show ?case by fastforce
qed simp

lemma clock_plan:
  "plan_results (clock_meaning E) u ss = Some rss \<Longrightarrow> plan_results (raw_meaning clock_kernel E) u ss = Some rss"
  by (induction "clock_meaning E" u ss arbitrary: rss rule: plan_results.induct) (auto simp: bind_Some_conv dest: clock_tests)

text \<open>
  What the specification of a run says that a program prints when it is called without arguments, and
  its result: an executable function.
\<close>

definition spec_listing :: "decl list \<Rightarrow> pcut_main_extra list \<Rightarrow> string option" where
  "spec_listing ds mx =
     do { (h, l, xs) \<leftarrow> program ds mx;
          (h1, first) \<leftarrow> pcut_fix_list_get_real_head h l;
          pcut_print_tests h1 (Some first) }"

definition spec_output :: "decl list \<Rightarrow> pcut_main_extra list \<Rightarrow> 'u code \<Rightarrow> hooks \<Rightarrow> 'u \<Rightarrow> (string \<times> int) option" where
  "spec_output ds mx E H u =
     do { (as1, argv, dflt, u1) \<leftarrow> preinit_spec E H mx [cstr ''prog''] Report_tap u;
          if argv = [cstr ''prog'', cstr ''-l''] then map_option (\<lambda>out. (stdout_of as1 @ out, PCUT_OUTCOME_PASS)) (spec_listing ds mx)
          else if argv = [cstr ''prog''] \<and> length ds \<le> 298 \<and> numbers_suffice ds
          then
            do { (as2, u2) \<leftarrow> init_spec E mx u1;
                 rss \<leftarrow> plan_results (clock_meaning E) u2 (program_plan ds);
                 Some (stdout_of (as1 @ as2) @ document dflt rss,
                   if list_all passed (all_results rss) then PCUT_OUTCOME_PASS else PCUT_OUTCOME_FAIL) }
          else None }"

text \<open>The program itself prints \<open>out\<close> and returns \<open>rc\<close>.\<close>

definition prints :: "decl list \<Rightarrow> pcut_main_extra list \<Rightarrow> 'u code \<Rightarrow> hooks \<Rightarrow> 'u \<Rightarrow> string \<Rightarrow> int \<Rightarrow> bool" where
  "prints ds mx E H u out rc \<longleftrightarrow>
     (\<exists>h l xs s'. program ds mx = Some (h, l, xs) \<and>
        pcut_main E H (\<lambda>_. pcut_run_test_forking clock_kernel E) l [cstr ''prog''] (start_state h u) = Some (Returned rc, s') \<and>
        stdout_of (trace s') = out)"

lemma prints_report:
  assumes "length ds \<le> 298" and "numbers_suffice ds" and "code_ok E"
    and "preinit_spec E H mx [cstr ''prog''] Report_tap u = Some (as1, [cstr ''prog''], dflt, u1)"
    and "init_spec E mx u1 = Some (as2, u2)" and "plan_results (clock_meaning E) u2 (program_plan ds) = Some rss"
  shows "prints ds mx E H u (stdout_of (as1 @ as2) @ document dflt rss)
    (if list_all passed (all_results rss) then PCUT_OUTCOME_PASS else PCUT_OUTCOME_FAIL)"
proof -
  from program_total [OF assms(1,2)] obtain h l xs where p: "program ds mx = Some (h, l, xs)" by blast
  from fix_list_correct [OF program_ok(1) [OF p]] obtain h1 first where fixl: "pcut_fix_list_get_real_head h l = Some (h1, first)"
    by (auto simp: fix_ok_def)
  have r: "suite_results (raw_answer clock_kernel E) (give_hooks h1 (order xs)) u2 (suites_of (give_hooks h1 (order xs)) (order xs)) = Some rss"
    using raw_test.program_results [OF p fixl, of clock_kernel E u2] clock_plan [OF assms(6)] assms(3) by (simp add: raw_answer_def)
  have o: "cstr ''prog'' # options Report_tap PCUT_RUN_MODE_FORKING = [cstr ''prog'']" by (simp add: options_def)
  from any_child.custom_document [OF p fixl refl assms(4) [folded o] assms(5) r] p
  show ?thesis by (auto simp: prints_def final_report_def o)
qed

text \<open>With \<open>-l\<close> the tests are listed, after the hooks that run before the arguments are read.\<close>

lemma prints_listing:
  assumes "program ds mx = Some (h, l, xs)" and fixl: "pcut_fix_list_get_real_head h l = Some (h1, first)"
    and pre: "preinit_spec E H mx [cstr ''prog''] Report_tap u = Some (as1, [cstr ''prog'', cstr ''-l''], dflt, u1)"
    and out: "pcut_print_tests h1 (Some first) = Some out"
  shows "prints ds mx E H u (stdout_of as1 @ out) PCUT_OUTCOME_PASS"
proof -
  from program_ok(3) [OF assms(1)] obtain lit where lit: "h l = Some lit" "main_extras lit = Some mx" by blast
  note fl = fix_list_dll [OF program_ok(1) [OF assms(1)] fixl]
  from fl(4) [OF fl(5) lit(1)] obtain lit' where l: "h1 l = Some lit'" "core lit' = core lit" by blast
  then have lit': "main_extras lit' = Some mx" using core_main_extras [OF l(2)] lit(2) by simp
  define s where "s = pcut_report_register_handler Report_tap ((start_state h u)\<lparr>items := h1\<rparr>)"
  have s: "items s = h1" "user s = u" "report_ops s = Some Report_tap" "trace s = []" "items (start_state h u) = h"
    by (simp_all add: s_def pcut_report_register_handler_def start_state_def)
  have "preinit_loop E H mx [cstr ''prog''] s = (Returned [cstr ''prog'', cstr ''-l''], after_hooks as1 dflt u1 s)"
    by (rule preinit_loop_spec) (use pre s in simp_all)
  with fixl l(1) lit' out s assms(1) show ?thesis
    by (simp add: prints_def pcut_main_def lift_opt_def s_def [symmetric] arg_list after_hooks_def emit_def del: arg_loop.simps)
qed

lemma prints_spec:
  assumes "code_ok E" and "spec_output ds mx E H u = Some (out, rc)"
  shows "prints ds mx E H u out rc"
proof -
  from assms(2) obtain as1 argv dflt u1 where
    pre: "preinit_spec E H mx [cstr ''prog''] Report_tap u = Some (as1, argv, dflt, u1)"
    by (auto simp: spec_output_def bind_Some_conv)
  show ?thesis
  proof (cases "argv = [cstr ''prog'', cstr ''-l'']")
    case True
    with assms(2) pre obtain h l xs h1 first t where t: "program ds mx = Some (h, l, xs)"
      "pcut_fix_list_get_real_head h l = Some (h1, first)" "pcut_print_tests h1 (Some first) = Some t"
      "out = stdout_of as1 @ t" "rc = PCUT_OUTCOME_PASS"
      by (auto simp: spec_output_def spec_listing_def bind_Some_conv)
    from prints_listing [OF t(1,2) pre [unfolded True] t(3)] t(4,5) show ?thesis by simp
  next
    case False
    with assms(2) pre obtain as2 u2 rss where t: "init_spec E mx u1 = Some (as2, u2)" "argv = [cstr ''prog'']"
      "plan_results (clock_meaning E) u2 (program_plan ds) = Some rss" "length ds \<le> 298" "numbers_suffice ds"
      "out = stdout_of (as1 @ as2) @ document dflt rss"
      "rc = (if list_all passed (all_results rss) then PCUT_OUTCOME_PASS else PCUT_OUTCOME_FAIL)"
      by (auto simp: spec_output_def bind_Some_conv split: if_splits)
    from prints_report [OF t(4,5) assms(1) pre [unfolded t(2)] t(1,3)] t(6,7) show ?thesis by simp
  qed
qed

section \<open>The code of a program\<close>

text \<open>The code of a program is a table of functions; a test is a list of assertions with their lines.\<close>

definition code_table :: "(fptr \<times> ('u \<Rightarrow> 'u effect)) list \<Rightarrow> 'u code" where
  "code_table table f u = (case map_of table f of None \<Rightarrow> Effect [] u U_return | Some body \<Rightarrow> body u)"

fun asserting :: "string \<Rightarrow> (int \<times> assertion) list \<Rightarrow> user_end" where
  "asserting filename [] = U_return"
| "asserting filename ((line, a) # as) =
     (case a of None \<Rightarrow> asserting filename as | Some _ \<Rightarrow> asserted filename line a)"

definition does :: "act list \<Rightarrow> string \<Rightarrow> (int \<times> assertion) list \<Rightarrow> 'u \<Rightarrow> 'u effect" where
  "does acts filename as u = Effect acts u (asserting filename as)"

text \<open>An assertion on strings; the arrays here are all terminated.\<close>

definition defined :: "assertion option \<Rightarrow> assertion" where
  "defined a = (case a of None \<Rightarrow> Some (''undefined'', []) | Some a \<Rightarrow> a)"

definition str_equals :: "string \<Rightarrow> string \<Rightarrow> string \<Rightarrow> string \<Rightarrow> assertion" where
  "str_equals e a q_e q_a = defined (PCUT_ASSERT_STR_EQUALS (Some (cstr e)) (Some (cstr a)) q_e q_a)"

lemma code_table_ok:
  assumes "list_all (\<lambda>(f, body). \<forall>u. effect_ok (body u)) table"
  shows "code_ok (code_table table)"
proof -
  have "effect_ok (code_table table f u)" for f u
  proof (cases "map_of table f")
    case None
    then show ?thesis by (simp add: code_table_def effect_ok_def end_ok_def)
  next
    case (Some body)
    then have "(f, body) \<in> set table" by (rule map_of_SomeD)
    with assms have "effect_ok (body u)" by (auto simp: list_all_iff)
    with Some show ?thesis by (simp add: code_table_def)
  qed
  then show ?thesis by (simp add: code_ok_def)
qed

lemma effect_ok_does: "effect_ok (does acts filename as u) \<longleftrightarrow> end_ok (asserting filename as)"
  by (simp add: effect_ok_def does_def)

lemma effect_ok_Effect: "effect_ok (Effect acts u e) \<longleftrightarrow> end_ok e"
  by (simp add: effect_ok_def)

lemma end_ok_return: "end_ok U_return"
  by (simp add: end_ok_def)

end
