(* ===== verification/SelfTests.thy ===== *)
theory SelfTests
  imports TestRuns
begin

text \<open>
  The test programs of the repository, \<^verbatim>\<open>tests/*.c\<close>, as uses of the macros with the code of their
  tests, and the output that the repository expects of them, \<^verbatim>\<open>tests/*.expected\<close>, with the texts of the
  system for its wildcards.  Each output is found by evaluating \<open>spec_output\<close>.
\<close>

section \<open>The functions under test\<close>

text \<open>\<^verbatim>\<open>tested.c\<close>.\<close>

definition intpow :: "int \<Rightarrow> int \<Rightarrow> int" where
  "intpow base e = 0"

definition intmin :: "int \<Rightarrow> int \<Rightarrow> int" where
  "intmin a b = a"

text \<open>A program without extras.\<close>

definition plain_main :: "pcut_main_extra list" where
  "plain_main = [PCUT_MAIN_EXTRA_SET_LAST]"

definition no_hooks :: hooks where
  "no_hooks f argv = argv"

section \<open>One suite, several suites, several files\<close>

definition simple_code :: "unit code" where
  "simple_code = code_table
     [(1, does [] ''simple.c'' [(35, PCUT_ASSERT_INT_EQUALS 1 (intpow 2 0) ''1'' ''intpow(2, 0)'')]),
      (2, does [] ''simple.c'' [(39, PCUT_ASSERT_INT_EQUALS 2 (intpow 2 1) ''2'' ''intpow(2, 1)''),
            (40, PCUT_ASSERT_INT_EQUALS 39 (intpow 39 1) ''39'' ''intpow(39, 1)'')]),
      (3, does [] ''simple.c'' [(45, str_equals ''xyz'' ''xyz'' ([DQ] @ ''xyz'' @ [DQ]) ''p''),
            (46, str_equals ''abc'' (drop 3 ''XXXabd'') ([DQ] @ ''abc'' @ [DQ]) (''&'' @ ([DQ] @ ''XXXabd'' @ [DQ]) @ ''[3]''))])]"

definition simple_c :: "decl list" where
  "simple_c = [D_test ''zero_exponent'' 1 [], D_test ''one_exponent'' 2 [], D_test ''same_strings'' 3 []]"

definition simple_expected :: string where
  "simple_expected =
     ''1..3'' @ [NL] @
     ''#> Starting suite Default.'' @ [NL] @
     ''not ok 1 zero_exponent failed'' @ [NL] @
     ''# error: simple.c:35: Expected <1> but got <0> (1 != intpow(2, 0))'' @ [NL] @
     ''not ok 2 one_exponent failed'' @ [NL] @
     ''# error: simple.c:39: Expected <2> but got <0> (2 != intpow(2, 1))'' @ [NL] @
     ''not ok 3 same_strings failed'' @ [NL] @
     ''# error: simple.c:46: Expected <abc> but got <abd> ('' @ [DQ] @ ''abc'' @ [DQ] @ '' != &'' @ [DQ] @ ''XXXabd'' @ [DQ] @ ''[3])'' @ [NL] @
     ''#> Finished suite Default (failed 3 of 3).'' @ [NL] @
     ''#> Done: 3 of 3 tests failed.'' @ [NL]"

lemma simple_ok: "code_ok simple_code"
  unfolding simple_code_def by (rule code_table_ok) (simp add: effect_ok_does, code_simp)

lemma simple_prints: "prints simple_c plain_main simple_code no_hooks () simple_expected PCUT_OUTCOME_FAIL"
  by (rule prints_spec [OF simple_ok]) code_simp

definition suites_code :: "unit code" where
  "suites_code = code_table
     [(1, does [] ''suites.c'' [(37, PCUT_ASSERT_INT_EQUALS 1 (intpow 2 0) ''1'' ''intpow(2, 0)'')]),
      (2, does [] ''suites.c'' [(41, PCUT_ASSERT_INT_EQUALS 2 (intpow 2 1) ''2'' ''intpow(2, 1)''),
            (42, PCUT_ASSERT_INT_EQUALS 39 (intpow 39 1) ''39'' ''intpow(39, 1)'')]),
      (3, does [] ''suites.c'' [(48, PCUT_ASSERT_INT_EQUALS 5 (intmin 5 654) ''5'' ''intmin(5, 654)''),
            (49, PCUT_ASSERT_INT_EQUALS 5 (intmin 654 5) ''5'' ''intmin(654, 5)''),
            (51, PCUT_ASSERT_INT_EQUALS (-17) (intmin (-17) (-2)) ''-17'' ''intmin(-17, -2)'')])]"

definition suites_c :: "decl list" where
  "suites_c = [D_suite ''intpow'', D_test ''zero_exponent'' 1 [], D_test ''one_exponent'' 2 [],
     D_suite ''intmin'', D_test ''test_min'' 3 []]"

definition suites_expected :: string where
  "suites_expected =
     ''1..3'' @ [NL] @
     ''#> Starting suite intpow.'' @ [NL] @
     ''not ok 1 zero_exponent failed'' @ [NL] @
     ''# error: suites.c:37: Expected <1> but got <0> (1 != intpow(2, 0))'' @ [NL] @
     ''not ok 2 one_exponent failed'' @ [NL] @
     ''# error: suites.c:41: Expected <2> but got <0> (2 != intpow(2, 1))'' @ [NL] @
     ''#> Finished suite intpow (failed 2 of 2).'' @ [NL] @
     ''#> Starting suite intmin.'' @ [NL] @
     ''not ok 3 test_min failed'' @ [NL] @
     ''# error: suites.c:49: Expected <5> but got <654> (5 != intmin(654, 5))'' @ [NL] @
     ''#> Finished suite intmin (failed 1 of 1).'' @ [NL] @
     ''#> Done: 3 of 3 tests failed.'' @ [NL]"

lemma suites_ok: "code_ok suites_code"
  unfolding suites_code_def by (rule code_table_ok) (simp add: effect_ok_does effect_ok_def end_ok_def, code_simp)

lemma suites_prints: "prints suites_c plain_main suites_code no_hooks () suites_expected PCUT_OUTCOME_FAIL"
  by (rule prints_spec [OF suites_ok]) code_simp

text \<open>The suites of two other files are imported.\<close>

definition multisuite_code :: "unit code" where
  "multisuite_code = code_table
     [(1, does [] ''suite1.c'' [(37, PCUT_ASSERT_INT_EQUALS 1 (intpow 2 0) ''1'' ''intpow(2, 0)'')]),
      (2, does [] ''suite1.c'' [(41, PCUT_ASSERT_INT_EQUALS 2 (intpow 2 1) ''2'' ''intpow(2, 1)''),
            (42, PCUT_ASSERT_INT_EQUALS 39 (intpow 39 1) ''39'' ''intpow(39, 1)'')]),
      (3, does [] ''suite2.c'' [(37, PCUT_ASSERT_INT_EQUALS 5 (intmin 5 654) ''5'' ''intmin(5, 654)''),
            (38, PCUT_ASSERT_INT_EQUALS 5 (intmin 654 5) ''5'' ''intmin(654, 5)''),
            (40, PCUT_ASSERT_INT_EQUALS (-17) (intmin (-17) (-2)) ''-17'' ''intmin(-17, -2)'')]),
      (4, does [] ''suite2.c'' [(44, PCUT_ASSERT_INT_EQUALS 5 (intmin 5 5) ''5'' ''intmin(5, 5)''),
            (45, PCUT_ASSERT_INT_EQUALS 719 (intmin 719 719) ''719'' ''intmin(719, 719)''),
            (46, PCUT_ASSERT_INT_EQUALS (-4589) (intmin (-4589) 4589) ''-4589'' ''intmin(-4589, 4589)'')])]"

definition suite1_c :: "decl list" where
  "suite1_c = [D_suite ''intpow'', D_test ''zero_exponent'' 1 [], D_test ''one_exponent'' 2 []]"

definition suite2_c :: "decl list" where
  "suite2_c = [D_suite ''intmin'', D_test ''test_min'' 3 [], D_test ''test_same_numbers'' 4 []]"

definition multisuite_c :: "decl list" where
  "multisuite_c = [D_import ''intpow_suite'' suite1_c, D_import ''intmin_suite'' suite2_c]"

definition multisuite_expected :: string where
  "multisuite_expected =
     ''1..4'' @ [NL] @
     ''#> Starting suite intpow.'' @ [NL] @
     ''not ok 1 zero_exponent failed'' @ [NL] @
     ''# error: suite1.c:37: Expected <1> but got <0> (1 != intpow(2, 0))'' @ [NL] @
     ''not ok 2 one_exponent failed'' @ [NL] @
     ''# error: suite1.c:41: Expected <2> but got <0> (2 != intpow(2, 1))'' @ [NL] @
     ''#> Finished suite intpow (failed 2 of 2).'' @ [NL] @
     ''#> Starting suite intmin.'' @ [NL] @
     ''not ok 3 test_min failed'' @ [NL] @
     ''# error: suite2.c:38: Expected <5> but got <654> (5 != intmin(654, 5))'' @ [NL] @
     ''ok 4 test_same_numbers'' @ [NL] @
     ''#> Finished suite intmin (failed 1 of 2).'' @ [NL] @
     ''#> Done: 3 of 4 tests failed.'' @ [NL]"

lemma multisuite_ok: "code_ok multisuite_code"
  unfolding multisuite_code_def by (rule code_table_ok) (simp add: effect_ok_does effect_ok_def end_ok_def, code_simp)

lemma multisuite_prints: "prints multisuite_c plain_main multisuite_code no_hooks () multisuite_expected PCUT_OUTCOME_FAIL"
  by (rule prints_spec [OF multisuite_ok]) code_simp

section \<open>Set-up, tear-down, skipped tests and aborts\<close>

definition teardown_code :: "unit code" where
  "teardown_code = code_table
     [(1, does [Out (''This is teardown-function.'' @ [NL])] ''teardown.c'' []),
      (2, does [] ''teardown.c'' []),
      (3, does [] ''teardown.c'' [(47, PCUT_ASSERT_INT_EQUALS 10 (intmin 1 2) ''10'' ''intmin(1, 2)'')]),
      (4, does [Out (''This is failing teardown-function.'' @ [NL])] ''teardown.c''
            [(56, PCUT_ASSERT_INT_EQUALS 42 (intmin 10 20) ''42'' ''intmin(10, 20)'')]),
      (5, does [] ''teardown.c'' []),
      (6, does [Out (''Printed before test failure.'' @ [NL])] ''teardown.c''
            [(64, PCUT_ASSERT_INT_EQUALS 0 (intmin (-17) (-19)) ''0'' ''intmin(-17, -19)'')]),
      (7, does [] ''teardown.c'' [(68, PCUT_ASSERT_INT_EQUALS 12 (intmin 3 5) ''12'' ''intmin(3, 5)'')])]"

definition teardown_c :: "decl list" where
  "teardown_c = [D_suite ''with_teardown'', D_after 1, D_test ''empty'' 2 [], D_test ''failing'' 3 [],
     D_suite ''with_failing_teardown'', D_after 4, D_test ''empty2'' 5 [], D_test ''printing2'' 6 [], D_test ''failing2'' 7 []]"

definition teardown_expected :: string where
  "teardown_expected =
     ''1..5'' @ [NL] @
     ''#> Starting suite with_teardown.'' @ [NL] @
     ''ok 1 empty'' @ [NL] @
     ''# stdio: This is teardown-function.'' @ [NL] @
     ''not ok 2 failing failed'' @ [NL] @
     ''# error: teardown.c:47: Expected <10> but got <1> (10 != intmin(1, 2))'' @ [NL] @
     ''# stdio: This is teardown-function.'' @ [NL] @
     ''#> Finished suite with_teardown (failed 1 of 2).'' @ [NL] @
     ''#> Starting suite with_failing_teardown.'' @ [NL] @
     ''not ok 3 empty2 failed'' @ [NL] @
     ''# error: teardown.c:56: Expected <42> but got <10> (42 != intmin(10, 20))'' @ [NL] @
     ''# stdio: This is failing teardown-function.'' @ [NL] @
     ''not ok 4 printing2 failed'' @ [NL] @
     ''# error: teardown.c:64: Expected <0> but got <-17> (0 != intmin(-17, -19))'' @ [NL] @
     ''# error: teardown.c:56: Expected <42> but got <10> (42 != intmin(10, 20))'' @ [NL] @
     ''# stdio: Printed before test failure.'' @ [NL] @
     ''# stdio: This is failing teardown-function.'' @ [NL] @
     ''not ok 5 failing2 failed'' @ [NL] @
     ''# error: teardown.c:68: Expected <12> but got <3> (12 != intmin(3, 5))'' @ [NL] @
     ''# error: teardown.c:56: Expected <42> but got <10> (42 != intmin(10, 20))'' @ [NL] @
     ''# stdio: This is failing teardown-function.'' @ [NL] @
     ''#> Finished suite with_failing_teardown (failed 3 of 3).'' @ [NL] @
     ''#> Done: 4 of 5 tests failed.'' @ [NL]"

lemma teardown_ok: "code_ok teardown_code"
  unfolding teardown_code_def by (rule code_table_ok) (simp add: effect_ok_does effect_ok_def end_ok_def, code_simp)

lemma teardown_prints: "prints teardown_c plain_main teardown_code no_hooks () teardown_expected PCUT_OUTCOME_FAIL"
  by (rule prints_spec [OF teardown_ok]) code_simp

text \<open>The static variable \<open>buffer\<close> is the state of the program; \<open>malloc\<close> does not fail.\<close>

definition buffer_assertion :: "bytes option \<Rightarrow> assertion" where
  "buffer_assertion buffer = defined (PCUT_ASSERT_STR_EQUALS (Some (cstr ''56-abcd'')) buffer ([DQ] @ ''56-abcd'' @ [DQ]) ''buffer'')"

fun beforeafter_test :: "bytes option \<Rightarrow> bytes option effect" where
  "beforeafter_test buffer =
     (let buffer = Option.bind buffer (\<lambda>b. c_snprintf b 0 511 (show_int 56 @ ''-'' @ ''abcd''))
      in does [] ''beforeafter.c'' [(60, buffer_assertion buffer)] buffer)"

definition beforeafter_code :: "bytes option code" where
  "beforeafter_code = code_table
     [(1, \<lambda>_. does [] ''beforeafter.c'' [(45, PCUT_ASSERT_NOT_NULL (Some (replicate 512 NUL)) ''buffer'')] (Some (replicate 512 NUL))),
      (2, \<lambda>_. does [] ''beforeafter.c'' [] None),
      (3, beforeafter_test),
      (4, \<lambda>buffer. does [] ''beforeafter.c'' [(66, PCUT_ASSERT_NULL (map_option (\<lambda>_. ''0x1'') buffer) ''buffer'')] buffer)]"

definition beforeafter_c :: "decl list" where
  "beforeafter_c = [D_suite ''suite_with_setup_and_teardown'', D_before 1, D_after 2,
     D_test ''test_with_setup_and_teardown'' 3 [],
     D_suite ''another_without_setup'', D_test ''test_without_any_setup_or_teardown'' 4 []]"

definition beforeafter_expected :: string where
  "beforeafter_expected =
     ''1..2'' @ [NL] @
     ''#> Starting suite suite_with_setup_and_teardown.'' @ [NL] @
     ''ok 1 test_with_setup_and_teardown'' @ [NL] @
     ''#> Finished suite suite_with_setup_and_teardown (passed).'' @ [NL] @
     ''#> Starting suite another_without_setup.'' @ [NL] @
     ''ok 2 test_without_any_setup_or_teardown'' @ [NL] @
     ''#> Finished suite another_without_setup (passed).'' @ [NL] @
     ''#> Done: all tests passed.'' @ [NL]"

text \<open>The assertion of the test, whatever the buffer holds.\<close>

lemma beforeafter_assertion_ok:
  "end_ok (asserting ''beforeafter.c'' [(60, buffer_assertion buffer)])"
  using c_text_split [of "the buffer"]
  by (cases buffer)
    (auto simp: buffer_assertion_def PCUT_ASSERT_STR_EQUALS_def PCUT_ASSERT_NOT_NULL_WITH_NAME_def PCUT_ASSERTION_FAILED_def defined_def
      asserted_def end_ok_def bind_Some_conv c_text_cstr nul_free_def split: option.splits)

lemma null_assertion_ok:
  "end_ok (asserting ''beforeafter.c'' [(66, PCUT_ASSERT_NULL (map_option (\<lambda>_. ''0x1'') buffer) ''buffer'')])"
  by (cases buffer) (simp_all add: PCUT_ASSERT_NULL_def PCUT_ASSERTION_FAILED_def asserted_def end_ok_def nul_free_def)

lemma not_null_assertion_ok:
  "end_ok (asserting ''beforeafter.c'' [(45, PCUT_ASSERT_NOT_NULL (Some b) ''buffer'')])"
  by (simp add: PCUT_ASSERT_NOT_NULL_def PCUT_ASSERT_NOT_NULL_WITH_NAME_def end_ok_def)

lemma beforeafter_ok: "code_ok beforeafter_code"
  unfolding beforeafter_code_def
  by (rule code_table_ok)
    (simp add: effect_ok_does end_ok_return beforeafter_assertion_ok null_assertion_ok not_null_assertion_ok Let_def
      del: asserting.simps(2))

lemma beforeafter_prints: "prints beforeafter_c plain_main beforeafter_code no_hooks None beforeafter_expected PCUT_OUTCOME_PASS"
  by (rule prints_spec [OF beforeafter_ok]) code_simp

definition skip_code :: "unit code" where
  "skip_code = code_table
     [(1, does [] ''skip.c'' [(35, PCUT_ASSERT_INT_EQUALS 1 1 ''1'' ''1'')]),
      (2, does [] ''skip.c'' [(39, str_equals ''skip'' ''not skipped'' ([DQ] @ ''skip'' @ [DQ]) ([DQ] @ ''not skipped'' @ [DQ]))]),
      (3, does [] ''skip.c'' [(43, PCUT_ASSERT_INT_EQUALS 1 1 ''1'' ''1'')])]"

definition skip_c :: "decl list" where
  "skip_c = [D_test ''normal_test'' 1 [], D_test ''skipped'' 2 [PCUT_TEST_SKIP], D_test ''again_normal_test'' 3 []]"

definition skip_expected :: string where
  "skip_expected =
     ''1..2'' @ [NL] @
     ''#> Starting suite Default.'' @ [NL] @
     ''ok 1 normal_test'' @ [NL] @
     ''ok 2 again_normal_test'' @ [NL] @
     ''#> Finished suite Default (passed).'' @ [NL] @
     ''#> Done: all tests passed.'' @ [NL]"

lemma skip_ok: "code_ok skip_code"
  unfolding skip_code_def by (rule code_table_ok) (simp add: effect_ok_does effect_ok_def end_ok_def, code_simp)

lemma skip_prints: "prints skip_c plain_main skip_code no_hooks () skip_expected PCUT_OUTCOME_PASS"
  by (rule prints_spec [OF skip_ok]) code_simp

text \<open>\<open>abort\<close> ends the process by the signal 6.\<close>

definition abort_code :: "unit code" where
  "abort_code = code_table [(1, \<lambda>u. Effect [] u (U_signal 6))]"

definition abort_c :: "decl list" where
  "abort_c = [D_test ''access_null_pointer'' 1 []]"

definition abort_expected :: string where
  "abort_expected =
     ''1..1'' @ [NL] @
     ''#> Starting suite Default.'' @ [NL] @
     ''not ok 1 access_null_pointer aborted'' @ [NL] @
     ''#> Finished suite Default (failed 1 of 1).'' @ [NL] @
     ''#> Done: 1 of 1 tests failed.'' @ [NL]"

lemma abort_ok: "code_ok abort_code"
  unfolding abort_code_def by (rule code_table_ok) (simp add: effect_ok_def end_ok_def)

lemma abort_prints: "prints abort_c plain_main abort_code no_hooks () abort_expected PCUT_OUTCOME_FAIL"
  by (rule prints_spec [OF abort_ok]) code_simp

definition teardownaborts_code :: "unit code" where
  "teardownaborts_code = code_table
     [(1, \<lambda>u. Effect [] u (U_signal 6)),
      (2, does [Out (''Tear-down will cause null pointer access...'' @ [NL])] ''teardownaborts.c''
            [(41, PCUT_ASSERT_NOT_NULL (None :: bytes option) ''NULL'')])]"

definition teardownaborts_c :: "decl list" where
  "teardownaborts_c = [D_after 1, D_test ''print_and_fail'' 2 []]"

definition teardownaborts_expected :: string where
  "teardownaborts_expected =
     ''1..1'' @ [NL] @
     ''#> Starting suite Default.'' @ [NL] @
     ''not ok 1 print_and_fail aborted'' @ [NL] @
     ''# error: teardownaborts.c:41: Pointer <NULL> ought not to be NULL'' @ [NL] @
     ''# stdio: Tear-down will cause null pointer access...'' @ [NL] @
     ''#> Finished suite Default (failed 1 of 1).'' @ [NL] @
     ''#> Done: 1 of 1 tests failed.'' @ [NL]"

lemma teardownaborts_ok: "code_ok teardownaborts_code"
  unfolding teardownaborts_code_def by (rule code_table_ok) (simp add: effect_ok_does effect_ok_def end_ok_def, code_simp)

lemma teardownaborts_prints: "prints teardownaborts_c plain_main teardownaborts_code no_hooks () teardownaborts_expected PCUT_OUTCOME_FAIL"
  by (rule prints_spec [OF teardownaborts_ok]) code_simp

section \<open>Programs with extras\<close>

text \<open>The state is the variable \<open>init_counter\<close>.\<close>

definition inithook_code :: "int code" where
  "inithook_code = code_table
     [(1, \<lambda>n. Effect [] (n + 1) U_return),
      (2, \<lambda>n. does [] ''inithook.c'' [(41, PCUT_ASSERT_INT_EQUALS 1 n ''1'' ''init_counter'')] (if n = 1 then n + 1 else n)),
      (3, \<lambda>n. does [] ''inithook.c'' [(46, PCUT_ASSERT_INT_EQUALS 2 n ''2'' ''init_counter'')] n),
      (4, \<lambda>n. does [] ''inithook.c'' [(50, PCUT_ASSERT_INT_EQUALS 2 n ''2'' ''init_counter'')] n)]"

definition inithook_c :: "decl list" where
  "inithook_c = [D_before 2, D_test ''check_init_counter'' 3 [], D_test ''check_init_counter_2'' 4 []]"

definition inithook_main :: "pcut_main_extra list" where
  "inithook_main = [PCUT_MAIN_SET_INIT_HOOK 1, PCUT_MAIN_EXTRA_SET_LAST]"

definition inithook_expected :: string where
  "inithook_expected =
     ''1..2'' @ [NL] @
     ''#> Starting suite Default.'' @ [NL] @
     ''ok 1 check_init_counter'' @ [NL] @
     ''ok 2 check_init_counter_2'' @ [NL] @
     ''#> Finished suite Default (passed).'' @ [NL] @
     ''#> Done: all tests passed.'' @ [NL]"

lemma int_assertion_ok:
  "nul_free filename \<Longrightarrow> nul_free q_e \<Longrightarrow> nul_free q_a \<Longrightarrow>
   end_ok (asserting filename [(line, PCUT_ASSERT_INT_EQUALS e a q_e q_a)])"
  by (simp add: PCUT_ASSERT_INT_EQUALS_def PCUT_ASSERTION_FAILED_def asserted_def end_ok_def Let_def)

lemma inithook_ok: "code_ok inithook_code"
  unfolding inithook_code_def
  by (rule code_table_ok) (simp add: effect_ok_does effect_ok_Effect end_ok_return int_assertion_ok nul_free_def del: asserting.simps)

lemma inithook_prints: "prints inithook_c inithook_main inithook_code no_hooks 0 inithook_expected PCUT_OUTCOME_PASS"
  by (rule prints_spec [OF inithook_ok]) code_simp

text \<open>
  The hook before the arguments are read doubles \<open>init_counter\<close>, which starts with 1, and the other
  hook then adds 1: the set-up, which expects 4, finds 3.  The build does not notice, because it
  compiles \<^verbatim>\<open>inithook.c\<close> under the name of this program.
\<close>

definition preinithook_code :: "int code" where
  "preinithook_code = code_table
     [(1, \<lambda>n. Effect [] (n + 1) U_return),
      (2, \<lambda>n. Effect [] (n * 2) U_return),
      (3, \<lambda>n. does [] ''preinithook.c'' [(47, PCUT_ASSERT_INT_EQUALS 4 n ''4'' ''init_counter'')] (if n = 4 then n + 1 else n)),
      (4, \<lambda>n. does [] ''preinithook.c'' [(52, PCUT_ASSERT_INT_EQUALS 5 n ''5'' ''init_counter'')] n),
      (5, \<lambda>n. does [] ''preinithook.c'' [(56, PCUT_ASSERT_INT_EQUALS 5 n ''5'' ''init_counter'')] n)]"

definition preinithook_c :: "decl list" where
  "preinithook_c = [D_before 3, D_test ''check_init_counter'' 4 [], D_test ''check_init_counter_2'' 5 []]"

definition preinithook_main :: "pcut_main_extra list" where
  "preinithook_main = [PCUT_MAIN_SET_INIT_HOOK 1, PCUT_MAIN_SET_PREINIT_HOOK 2, PCUT_MAIN_EXTRA_SET_LAST]"

lemma preinithook_ok: "code_ok preinithook_code"
  unfolding preinithook_code_def
  by (rule code_table_ok) (simp add: effect_ok_does effect_ok_Effect end_ok_return int_assertion_ok nul_free_def del: asserting.simps)

lemma preinithook_prints: "prints preinithook_c preinithook_main preinithook_code no_hooks 1
    (''1..2'' @ [NL] @ ''#> Starting suite Default.'' @ [NL] @
     ''not ok 1 check_init_counter failed'' @ [NL] @
     ''# error: preinithook.c:47: Expected <4> but got <3> (4 != init_counter)'' @ [NL] @
     ''not ok 2 check_init_counter_2 failed'' @ [NL] @
     ''# error: preinithook.c:47: Expected <4> but got <3> (4 != init_counter)'' @ [NL] @
     ''#> Finished suite Default (failed 2 of 2).'' @ [NL] @
     ''#> Done: 2 of 2 tests failed.'' @ [NL]) PCUT_OUTCOME_FAIL"
  by (rule prints_spec [OF preinithook_ok]) code_simp

definition xmlreport_code :: "unit code" where
  "xmlreport_code = code_table
     [(1, does [] ''xmlreport.c'' [(38, PCUT_ASSERT_INT_EQUALS 1 (intpow 2 0) ''1'' ''intpow(2, 0)'')]),
      (2, does [] ''xmlreport.c'' [(42, PCUT_ASSERT_INT_EQUALS 2 (intpow 2 1) ''2'' ''intpow(2, 1)''),
            (43, PCUT_ASSERT_INT_EQUALS 39 (intpow 39 1) ''39'' ''intpow(39, 1)'')]),
      (3, does [] ''xmlreport.c'' [(48, str_equals ''xyz'' ''xyz'' ([DQ] @ ''xyz'' @ [DQ]) ''p''),
            (49, str_equals ''abc'' (drop 3 ''XXXabd'') ([DQ] @ ''abc'' @ [DQ]) (''&'' @ ([DQ] @ ''XXXabd'' @ [DQ]) @ ''[3]''))])]"

definition xmlreport_main :: "pcut_main_extra list" where
  "xmlreport_main = [PCUT_MAIN_SET_XML_REPORT, PCUT_MAIN_EXTRA_SET_LAST]"

definition xmlreport_expected :: string where
  "xmlreport_expected =
     ''<?xml version='' @ [DQ] @ ''1.0'' @ [DQ] @ ''?>'' @ [NL] @
     ''<report tests-total='' @ [DQ] @ ''3'' @ [DQ] @ ''>'' @ [NL] @
     [TAB] @ ''<suite name='' @ [DQ] @ ''Default'' @ [DQ] @ ''>'' @ [NL] @
     [TAB] @ [TAB] @ ''<testcase name='' @ [DQ] @ ''zero_exponent'' @ [DQ] @ '' status='' @ [DQ] @ ''fail'' @ [DQ] @ ''>'' @ [NL] @
     [TAB] @ [TAB] @ [TAB] @ ''<error-message><![CDATA[xmlreport.c:38: Expected <1> but got <0> (1 != intpow(2, 0))'' @ [NL] @
     '']]></error-message>'' @ [NL] @
     [TAB] @ [TAB] @ ''</testcase><!-- zero_exponent -->'' @ [NL] @
     [TAB] @ [TAB] @ ''<testcase name='' @ [DQ] @ ''one_exponent'' @ [DQ] @ '' status='' @ [DQ] @ ''fail'' @ [DQ] @ ''>'' @ [NL] @
     [TAB] @ [TAB] @ [TAB] @ ''<error-message><![CDATA[xmlreport.c:42: Expected <2> but got <0> (2 != intpow(2, 1))'' @ [NL] @
     '']]></error-message>'' @ [NL] @
     [TAB] @ [TAB] @ ''</testcase><!-- one_exponent -->'' @ [NL] @
     [TAB] @ [TAB] @ ''<testcase name='' @ [DQ] @ ''same_strings'' @ [DQ] @ '' status='' @ [DQ] @ ''fail'' @ [DQ] @ ''>'' @ [NL] @
     [TAB] @ [TAB] @ [TAB] @ ''<error-message><![CDATA[xmlreport.c:49: Expected <abc> but got <abd> ('' @ [DQ] @ ''abc'' @ [DQ] @ '' != &'' @ [DQ] @ ''XXXabd'' @ [DQ] @ ''[3])'' @ [NL] @
     '']]></error-message>'' @ [NL] @
     [TAB] @ [TAB] @ ''</testcase><!-- same_strings -->'' @ [NL] @
     [TAB] @ ''</suite><!-- Default: 3 / 3 -->'' @ [NL] @
     ''</report>'' @ [NL]"

lemma xmlreport_ok: "code_ok xmlreport_code"
  unfolding xmlreport_code_def by (rule code_table_ok) (simp add: effect_ok_does effect_ok_def end_ok_def, code_simp)

lemma xmlreport_prints: "prints simple_c xmlreport_main xmlreport_code no_hooks () xmlreport_expected PCUT_OUTCOME_FAIL"
  by (rule prints_spec [OF xmlreport_ok]) code_simp

section \<open>Time, the standard error stream and the system\<close>

text \<open>The default time-out, \<open>PCUT_DEFAULT_TEST_TIMEOUT\<close>, is 3 seconds; the second test has 9.\<close>

definition sleeping_test :: "nat \<Rightarrow> unit effect" where
  "sleeping_test seconds = does [Out (''Text before sleeping.'' @ [NL]), Sleep seconds, Out (''Text after the sleep.'' @ [NL])] ''timeout.c'' [] ()"

definition timeout_code :: "unit code" where
  "timeout_code = code_table
     [(1, \<lambda>_. sleeping_test (nat PCUT_DEFAULT_TEST_TIMEOUT * 5)), (2, \<lambda>_. sleeping_test (nat PCUT_DEFAULT_TEST_TIMEOUT * 2))]"

definition timeout_c :: "decl list" where
  "timeout_c = [D_test ''shall_time_out'' 1 [], D_test ''custom_time_out'' 2 [PCUT_TEST_SET_TIMEOUT (PCUT_DEFAULT_TEST_TIMEOUT * 3)]]"

definition timeout_expected :: string where
  "timeout_expected =
     ''1..2'' @ [NL] @
     ''#> Starting suite Default.'' @ [NL] @
     ''not ok 1 shall_time_out aborted'' @ [NL] @
     ''# stdio: Text before sleeping.'' @ [NL] @
     ''ok 2 custom_time_out'' @ [NL] @
     ''# stdio: Text before sleeping.'' @ [NL] @
     ''# stdio: Text after the sleep.'' @ [NL] @
     ''#> Finished suite Default (failed 1 of 2).'' @ [NL] @
     ''#> Done: 1 of 2 tests failed.'' @ [NL]"

lemma timeout_ok: "code_ok timeout_code"
  unfolding timeout_code_def by (rule code_table_ok) (simp add: sleeping_test_def effect_ok_does end_ok_return)

lemma timeout_prints: "prints timeout_c plain_main timeout_code no_hooks () timeout_expected PCUT_OUTCOME_FAIL"
  by (rule prints_spec [OF timeout_ok]) code_simp

definition printing_code :: "unit code" where
  "printing_code = code_table
     [(1, does [Out (''Printed from a test to stdout!'' @ [NL])] ''printing.c'' []),
      (2, does [Err (''Printed from a test to stderr!'' @ [NL])] ''printing.c'' []),
      (3, does [Out (''Printed from a test to stdout!'' @ [NL])] ''printing.c'' [(45, PCUT_ASSERT_NOT_NULL (None :: bytes option) ''0'')])]"

definition printing_c :: "decl list" where
  "printing_c = [D_test ''print_to_stdout'' 1 [], D_test ''print_to_stderr'' 2 [], D_test ''print_to_stdout_and_fail'' 3 []]"

definition printing_expected :: string where
  "printing_expected =
     ''1..3'' @ [NL] @
     ''#> Starting suite Default.'' @ [NL] @
     ''ok 1 print_to_stdout'' @ [NL] @
     ''# stdio: Printed from a test to stdout!'' @ [NL] @
     ''ok 2 print_to_stderr'' @ [NL] @
     ''# stdio: Printed from a test to stderr!'' @ [NL] @
     ''not ok 3 print_to_stdout_and_fail failed'' @ [NL] @
     ''# error: printing.c:45: Pointer <0> ought not to be NULL'' @ [NL] @
     ''# stdio: Printed from a test to stdout!'' @ [NL] @
     ''#> Finished suite Default (failed 1 of 3).'' @ [NL] @
     ''#> Done: 1 of 3 tests failed.'' @ [NL]"

lemma printing_ok: "code_ok printing_code"
  unfolding printing_code_def by (rule code_table_ok) (simp add: effect_ok_does effect_ok_def end_ok_def, code_simp)

lemma printing_prints: "prints printing_c plain_main printing_code no_hooks () printing_expected PCUT_OUTCOME_FAIL"
  by (rule prints_spec [OF printing_ok]) code_simp

text \<open>The state is \<open>errno\<close>; the texts of the errors are those of the GNU library.\<close>

definition gnu_strerror :: "int \<Rightarrow> string option" where
  "gnu_strerror n = Some (if n = 0 then ''Success'' else if n = 2 then ''No such file or directory'' else ''Unknown error '' @ show_int n)"

definition EOK :: int where
  "EOK = 0"

definition ENOENT :: int where
  "ENOENT = 2"

definition errno_value :: "(int \<times> assertion) list" where
  "errno_value =
     [(41, defined (PCUT_ASSERT_ERRNO_VAL gnu_strerror EOK EOK ''EOK'')),
      (43, defined (PCUT_ASSERT_ERRNO_VAL gnu_strerror ENOENT ENOENT ''ENOENT'')),
      (46, defined (PCUT_ASSERT_ERRNO_VAL gnu_strerror EOK ENOENT ''EOK''))]"

definition errno_variable :: "(int \<times> assertion) list" where
  "errno_variable =
     [(51, defined (PCUT_ASSERT_ERRNO gnu_strerror ENOENT ENOENT ''ENOENT'')),
      (54, defined (PCUT_ASSERT_ERRNO gnu_strerror ENOENT EOK ''EOK''))]"

definition errno_code :: "int code" where
  "errno_code = code_table
     [(1, does [] ''errno.c'' errno_value), (2, \<lambda>_. does [] ''errno.c'' errno_variable ENOENT)]"

definition errno_c :: "decl list" where
  "errno_c = [D_test ''errno_value'' 1 [], D_test ''errno_variable'' 2 []]"

definition errno_expected :: string where
  "errno_expected =
     ''1..2'' @ [NL] @
     ''#> Starting suite Default.'' @ [NL] @
     ''not ok 1 errno_value failed'' @ [NL] @
     ''# error: errno.c:46: Expected error 0 (EOK, Success) but got error 2 (No such file or directory)'' @ [NL] @
     ''not ok 2 errno_variable failed'' @ [NL] @
     ''# error: errno.c:54: Expected error 0 (EOK, Success) but got error 2 (No such file or directory)'' @ [NL] @
     ''#> Finished suite Default (failed 2 of 2).'' @ [NL] @
     ''#> Done: 2 of 2 tests failed.'' @ [NL]"

lemma errno_ends: "end_ok (asserting ''errno.c'' errno_value)" "end_ok (asserting ''errno.c'' errno_variable)"
  unfolding end_ok_def by code_simp+

lemma errno_ok: "code_ok errno_code"
  unfolding errno_code_def by (rule code_table_ok) (simp add: effect_ok_does errno_ends)

lemma errno_prints: "prints errno_c plain_main errno_code no_hooks 0 errno_expected PCUT_OUTCOME_FAIL"
  by (rule prints_spec [OF errno_ok]) code_simp

text \<open>The hook replaces the arguments by \<open>-l\<close>; the wildcards stand for the indentation.\<close>

definition testlist_hooks :: hooks where
  "testlist_hooks f argv = (if f = 2 then [hd argv, cstr ''-l''] else argv)"

definition testlist_code :: "unit code" where
  "testlist_code = code_table
     [(1, does [] ''testlist.c'' [(47, PCUT_ASSERT_TRUE False (''0 && '' @ [DQ] @ ''unreachable code'' @ [DQ]))]),
      (2, \<lambda>u. Effect [] u U_return)]"

definition testlist_c :: "decl list" where
  "testlist_c = [D_test ''unreachable'' 1 []]"

definition testlist_main :: "pcut_main_extra list" where
  "testlist_main = [PCUT_MAIN_SET_PREINIT_HOOK 2, PCUT_MAIN_EXTRA_SET_LAST]"

definition testlist_expected :: string where
  "testlist_expected =
     ''  Suite `Default'' @ [CHR 0x27] @ '' [1]'' @ [NL] @
     ''    Test `unreachable'' @ [CHR 0x27] @ '' [2]'' @ [NL]"

lemma testlist_ok: "code_ok testlist_code"
  unfolding testlist_code_def by (rule code_table_ok) (simp add: effect_ok_does effect_ok_def end_ok_def, code_simp)

lemma testlist_prints: "prints testlist_c testlist_main testlist_code testlist_hooks () testlist_expected PCUT_OUTCOME_PASS"
  by (rule prints_spec [OF testlist_ok]) code_simp

section \<open>The assertions\<close>

text \<open>
  The numbers of the tests have three decimal digits: here they are exact, in thousandths, and
  printed with six digits.
\<close>

definition decimals :: "int floating" where
  "decimals = \<lparr>f_sub = (-), f_neg = uminus, f_less = (<),
     f_show = (\<lambda>d. show_int (d div 1000) @ ''.'' @ show_int (d div 100 mod 10) @ show_int (d div 10 mod 10) @ show_int (d mod 10) @ ''000'')\<rparr>"

definition in_quotes :: "string \<Rightarrow> string" where
  "in_quotes s = [DQ] @ s @ [DQ]"

definition str_equals_or_null :: "string option \<Rightarrow> string option \<Rightarrow> string \<Rightarrow> string \<Rightarrow> assertion" where
  "str_equals_or_null e a q_e q_a = defined (PCUT_ASSERT_STR_EQUALS_OR_NULL (map_option cstr e) (map_option cstr a) q_e q_a)"

definition asserts_code :: "unit code" where
  "asserts_code = code_table
     [(1, does [] ''asserts.c'' [(35, PCUT_ASSERT_INT_EQUALS 1 1 ''1'' ''1''), (36, PCUT_ASSERT_INT_EQUALS 1 0 ''1'' ''0'')]),
      (2, does [] ''asserts.c'' [(40, PCUT_ASSERT_DOUBLE_EQUALS decimals 1000 1000 1 ''1.'' ''1.''),
            (41, PCUT_ASSERT_DOUBLE_EQUALS decimals 1000 500 400 ''1.'' ''0.5'')]),
      (3, does [] ''asserts.c'' [(45, str_equals ''xyz'' ''xyz'' (in_quotes ''xyz'') (in_quotes ''xyz'')),
            (46, str_equals ''abc'' ''xyz'' (in_quotes ''abc'') (in_quotes ''xyz''))]),
      (4, does [] ''asserts.c'' [(50, str_equals_or_null (Some ''xyz'') (Some ''xyz'') (in_quotes ''xyz'') (in_quotes ''xyz''))]),
      (5, does [] ''asserts.c'' [(54, str_equals_or_null (Some ''abc'') (Some ''xyz'') (in_quotes ''abc'') (in_quotes ''xyz''))]),
      (6, does [] ''asserts.c'' [(58, str_equals_or_null None (Some ''xyz'') ''NULL'' (in_quotes ''xyz''))]),
      (7, does [] ''asserts.c'' [(62, str_equals_or_null None None ''NULL'' ''NULL'')]),
      (8, does [] ''asserts.c'' [(66, PCUT_ASSERT_TRUE True ''42''), (67, PCUT_ASSERT_TRUE False ''0'')]),
      (9, does [] ''asserts.c'' [(71, PCUT_ASSERT_FALSE False ''0''), (72, PCUT_ASSERT_FALSE True ''42'')])]"

definition asserts_c :: "decl list" where
  "asserts_c = [D_test ''int_equals'' 1 [], D_test ''double_equals'' 2 [], D_test ''str_equals'' 3 [],
     D_test ''str_equals_or_null_base'' 4 [], D_test ''str_equals_or_null_different'' 5 [],
     D_test ''str_equals_or_null_one_null'' 6 [], D_test ''str_equals_or_null_both'' 7 [],
     D_test ''assert_true'' 8 [], D_test ''assert_false'' 9 []]"

definition asserts_expected :: string where
  "asserts_expected =
     ''1..9'' @ [NL] @
     ''#> Starting suite Default.'' @ [NL] @
     ''not ok 1 int_equals failed'' @ [NL] @
     ''# error: asserts.c:36: Expected <1> but got <0> (1 != 0)'' @ [NL] @
     ''not ok 2 double_equals failed'' @ [NL] @
     ''# error: asserts.c:41: Expected <1.000000+-0.400000> but got <0.500000> (1. != 0.5)'' @ [NL] @
     ''not ok 3 str_equals failed'' @ [NL] @
     ''# error: asserts.c:46: Expected <abc> but got <xyz> ('' @ [DQ] @ ''abc'' @ [DQ] @ '' != '' @ [DQ] @ ''xyz'' @ [DQ] @ '')'' @ [NL] @
     ''ok 4 str_equals_or_null_base'' @ [NL] @
     ''not ok 5 str_equals_or_null_different failed'' @ [NL] @
     ''# error: asserts.c:54: Expected <abc> but got <xyz> ('' @ [DQ] @ ''abc'' @ [DQ] @ '' != '' @ [DQ] @ ''xyz'' @ [DQ] @ '')'' @ [NL] @
     ''not ok 6 str_equals_or_null_one_null failed'' @ [NL] @
     ''# error: asserts.c:58: Expected <NULL> but got <xyz> (NULL != '' @ [DQ] @ ''xyz'' @ [DQ] @ '')'' @ [NL] @
     ''ok 7 str_equals_or_null_both'' @ [NL] @
     ''not ok 8 assert_true failed'' @ [NL] @
     ''# error: asserts.c:67: Expected true but got <0>'' @ [NL] @
     ''not ok 9 assert_false failed'' @ [NL] @
     ''# error: asserts.c:72: Expected false but got <42>'' @ [NL] @
     ''#> Finished suite Default (failed 7 of 9).'' @ [NL] @
     ''#> Done: 7 of 9 tests failed.'' @ [NL]"

lemma asserts_ok: "code_ok asserts_code"
  unfolding asserts_code_def by (rule code_table_ok) (simp add: effect_ok_does effect_ok_def end_ok_def, code_simp)

lemma asserts_prints: "prints asserts_c plain_main asserts_code no_hooks () asserts_expected PCUT_OUTCOME_FAIL"
  by (rule prints_spec [OF asserts_ok]) code_simp

text \<open>A file with 80 tests that do nothing, \<open>my_test_001\<close> to \<open>my_test_080\<close>.\<close>

definition many_name :: "nat \<Rightarrow> string" where
  "many_name i = ''my_test_0'' @ show_int (int (i div 10)) @ show_int (int (i mod 10))"

definition manytests_c :: "decl list" where
  "manytests_c = map (\<lambda>i. D_test (many_name i) i []) [1..<81]"

definition manytests_code :: "unit code" where
  "manytests_code = code_table (map (\<lambda>i. (i, \<lambda>u. Effect [] u U_return)) [1..<81])"

definition manytests_expected :: string where
  "manytests_expected =
     ''1..80'' @ [NL] @
     ''#> Starting suite Default.'' @ [NL] @
     concat (map (\<lambda>i. ''ok '' @ show_int (int i) @ '' '' @ many_name i @ [NL]) [1..<81]) @
     ''#> Finished suite Default (passed).'' @ [NL] @
     ''#> Done: all tests passed.'' @ [NL]"

lemma manytests_ok: "code_ok manytests_code"
  unfolding manytests_code_def by (rule code_table_ok) (simp add: list_all_iff effect_ok_Effect end_ok_return)

definition many_results :: "test_result list" where
  "many_results = map (\<lambda>i. (many_name i, PCUT_OUTCOME_PASS, [], [], [])) [1..<81]"

lemma many_test: "clock_meaning manytests_code None i None 3 () = Some ([], (), PCUT_OUTCOME_PASS, [], [], [])"
proof -
  have "manytests_code i () = Effect [] () U_return"
    by (auto simp: manytests_code_def code_table_def map_of_map_restrict restrict_map_def split: option.splits dest!: map_of_SomeD)
  then have "sandbox manytests_code None i None () = ([Did [], Did [], Did []], (), Passed)"
    by (simp add: sandbox_def call_opt_def run_body_def run_teardown_def prepend_def call_end_def)
  moreover have "convert_wait_status_to_outcome (clock_status False (end_of Passed)) = PCUT_OUTCOME_PASS" by code_simp
  ultimately show ?thesis
    by (simp add: clock_meaning_def seen_texts_def fits_def kept_stdio_def BUFFER_SIZE_def OUTPUT_BUFFER_SIZE_def)
qed

lemma many_meaning: "tests_meaning (clock_meaning manytests_code) () None None (map (\<lambda>i. (many_name i, i, 3)) is) =
    Some (map (\<lambda>i. (many_name i, PCUT_OUTCOME_PASS, [], [], [])) is)"
  by (induction "is") (simp_all add: many_test)

lemma many_plan: "program_plan manytests_c = [(''Default'', None, None, map (\<lambda>i. (many_name i, i, 3)) [1..<81])]"
proof -
  have u: "uses (map (\<lambda>i. D_test (many_name i) i []) is) = map (\<lambda>i. Use_test (many_name i) i 3) is" for "is"
    by (induction "is") (simp_all add: given_skip_def given_timeout_def extras_given_def PCUT_DEFAULT_TEST_TIMEOUT_def)
  have s: "befores (map (\<lambda>i. Use_test (many_name i) i 3) is) = []" "afters (map (\<lambda>i. Use_test (many_name i) i 3) is) = []"
    "tests_used (map (\<lambda>i. Use_test (many_name i) i 3) is) = map (\<lambda>i. (many_name i, i, 3)) is" for "is"
    by (induction "is") (simp_all add: used_defs)
  have t: "takeWhile (\<lambda>u. \<not> opens_suite u) (map (\<lambda>i. Use_test (many_name i) i 3) is) = map (\<lambda>i. Use_test (many_name i) i 3) is"
    "dropWhile (\<lambda>u. \<not> opens_suite u) (map (\<lambda>i. Use_test (many_name i) i 3) is) = []" for "is"
    by (induction "is") simp_all
  show ?thesis unfolding program_plan_def manytests_c_def u by (simp del: upt_rec_numeral add: t s last_of_def)
qed

lemma many_tap: "tap_tests (int k - 1) (map (\<lambda>i. (many_name i, PCUT_OUTCOME_PASS, [], [], [])) [k..<m]) =
    concat (map (\<lambda>i. ''ok '' @ show_int (int i) @ '' '' @ many_name i @ [NL]) [k..<m])"
proof (induction "m - k" arbitrary: k)
  case (Suc d)
  then have "k < m" "d = m - Suc k" by auto
  with Suc.hyps(1) [of "Suc k"] show ?case
    by (simp add: upt_conv_Cons tap_result_def prefixed_def)
qed simp

lemma manytests_prints: "prints manytests_c plain_main manytests_code no_hooks () manytests_expected PCUT_OUTCOME_PASS"
proof (rule prints_spec [OF manytests_ok])
  have passed: "list_all passed many_results" "failures many_results = 0" "length many_results = 80" "many_results \<noteq> []"
    by (simp_all add: many_results_def list_all_iff passed_def failures_def del: upt_rec_numeral)
  have r: "plan_results (clock_meaning manytests_code) () (program_plan manytests_c) = Some [(''Default'', many_results)]"
    unfolding many_plan by (simp add: many_meaning many_results_def del: upt_rec_numeral)
  have show_80: "show_int 80 = ''80''" by code_simp
  have n: "length manytests_c \<le> 298" by (simp add: manytests_c_def del: upt_rec_numeral)
  have "numbers_suffice (map (\<lambda>i. D_test (many_name i) i []) is)" for "is" by (induction "is") simp_all
  then have "numbers_suffice manytests_c" by (simp add: manytests_c_def del: upt_rec_numeral)
  moreover have "document Report_tap [(''Default'', many_results)] = manytests_expected"
    using passed many_tap [of 1 81] show_80
    by (simp add: tap_document_def tap_suite_def all_results_def manytests_expected_def many_results_def del: upt_rec_numeral)
  ultimately show "spec_output manytests_c plain_main manytests_code no_hooks () = Some (manytests_expected, PCUT_OUTCOME_PASS)"
    using n r passed(1) by (simp add: spec_output_def plain_main_def PCUT_MAIN_EXTRA_SET_LAST_def all_results_def)
qed

section \<open>All of them\<close>

text \<open>C14: the self tests of the repository, as programs of the model, print on a Unix system exactly
  the text that the repository expects of them, and return whether all their tests passed: simple tests,
  suites in one and in several files, set-up and tear-down, skipped tests, failing and aborting
  tear-downs, an aborted test, an initialization hook, the XML report, time-outs, the standard error stream, error
  numbers, the list of the tests, all assertions, and a file with eighty tests.\<close>

theorem self_tests_print_expected:
  "prints simple_c plain_main simple_code no_hooks () simple_expected PCUT_OUTCOME_FAIL \<and>
   prints suites_c plain_main suites_code no_hooks () suites_expected PCUT_OUTCOME_FAIL \<and>
   prints multisuite_c plain_main multisuite_code no_hooks () multisuite_expected PCUT_OUTCOME_FAIL \<and>
   prints teardown_c plain_main teardown_code no_hooks () teardown_expected PCUT_OUTCOME_FAIL \<and>
   prints beforeafter_c plain_main beforeafter_code no_hooks None beforeafter_expected PCUT_OUTCOME_PASS \<and>
   prints skip_c plain_main skip_code no_hooks () skip_expected PCUT_OUTCOME_PASS \<and>
   prints abort_c plain_main abort_code no_hooks () abort_expected PCUT_OUTCOME_FAIL \<and>
   prints teardownaborts_c plain_main teardownaborts_code no_hooks () teardownaborts_expected PCUT_OUTCOME_FAIL \<and>
   prints inithook_c inithook_main inithook_code no_hooks 0 inithook_expected PCUT_OUTCOME_PASS \<and>
   prints simple_c xmlreport_main xmlreport_code no_hooks () xmlreport_expected PCUT_OUTCOME_FAIL \<and>
   prints timeout_c plain_main timeout_code no_hooks () timeout_expected PCUT_OUTCOME_FAIL \<and>
   prints printing_c plain_main printing_code no_hooks () printing_expected PCUT_OUTCOME_FAIL \<and>
   prints errno_c plain_main errno_code no_hooks 0 errno_expected PCUT_OUTCOME_FAIL \<and>
   prints testlist_c testlist_main testlist_code testlist_hooks () testlist_expected PCUT_OUTCOME_PASS \<and>
   prints asserts_c plain_main asserts_code no_hooks () asserts_expected PCUT_OUTCOME_FAIL \<and>
   prints manytests_c plain_main manytests_code no_hooks () manytests_expected PCUT_OUTCOME_PASS"
  by (intro conjI simple_prints suites_prints multisuite_prints teardown_prints beforeafter_prints skip_prints abort_prints
    teardownaborts_prints inithook_prints xmlreport_prints timeout_prints printing_prints errno_prints testlist_prints
    asserts_prints manytests_prints)

end
