(* ===== verification/Spec2Isabelle.thy ===== *)
theory Spec2Isabelle
  imports ListProps TestProps UnixProps DeclProps Building TypeProps Preproc LauncherProps Killer PipeProps AnyChild Threads AssertThat MatcherProps SelfTests
begin

text \<open>
  PCUT is a unit testing framework for C.  A program declares its tests with macros, which build
  static items that are linked backwards; \<open>pcut_main\<close> turns them into a list, reads the arguments and
  runs the tests, each in a process of its own (or, with \<open>-u\<close>, in its own process), and a report is
  printed in one of two formats.  This development models the library and proves what a run does.

  \<^bold>\<open>Parts and theories.\<close>  Paths are those of the repository.

  \<^item> \<open>Items\<close> is \<^verbatim>\<open>include/pcut/datadef.h\<close>: items live in a heap of addresses, null pointers are \<open>None\<close>.
  \<^item> \<open>Decls\<close> is \<^verbatim>\<open>include/pcut/tests.h\<close> and \<^verbatim>\<open>prevs.h\<close>: the items that each macro defines, and \<open>program\<close>,
    the memory of a whole program of several files.  \<open>Building\<close> has the identifiers that the macros define,
    and \<open>build\<close>, which accepts the programs that compile and link.
  \<^item> \<open>Preproc\<close> is \<^verbatim>\<open>src/preproc.c\<close>, the filter that numbers items where the compiler cannot.
  \<^item> \<open>ItemList\<close> is \<^verbatim>\<open>src/list.c\<close>: linking forwards, inlining imports, hiding skipped tests, numbering,
    counting.  \<open>Printing\<close> is \<^verbatim>\<open>src/print.c\<close>.
  \<^item> \<open>CString\<close> is \<^verbatim>\<open>src/os/stdc.c\<close> and \<^verbatim>\<open>src/helper.c\<close> with the part of the C library they use.
  \<^item> \<open>Asserts\<close> is \<^verbatim>\<open>include/pcut/asserts.h\<close> with the code of the user that runs the macros; \<open>Runner\<close> is
    \<^verbatim>\<open>src/run.c\<close> and \<^verbatim>\<open>src/assert.c\<close>: set-up, test, tear-down, failed assertions and long jumps, over the
    static variables in the record \<open>process\<close> of \<open>State\<close>.
  \<^item> \<open>Lines\<close>, \<open>Tap\<close>, \<open>Xml\<close> are \<^verbatim>\<open>src/report/tap.c\<close> and \<^verbatim>\<open>xml.c\<close>; \<open>Output\<close> and \<open>Report\<close> are
    \<^verbatim>\<open>src/report/report.c\<close>: the messages between zero bytes, their parser, and the dispatch to a report.
  \<^item> \<open>OsUnix\<close>, \<open>OsGeneric\<close>, \<open>OsWindows\<close>, \<open>OsHelenos\<close> are the launchers in \<^verbatim>\<open>src/os\<close>, with \<open>Reexec\<close> for
    what the last three share; \<open>Pipes\<close> has the processes of a test on Unix with their pipes and the
    handler of the alarm, \<open>Threads\<close> the child, the reader thread and the main thread on Windows, and
    \<open>Killer\<close> the time-out fibrils on HelenOS, all as step relations.
  \<^item> \<open>MainLoop\<close> is \<^verbatim>\<open>src/main.c\<close>.
  \<^item> \<open>CustomMain\<close> has the main functions with extras of \<^verbatim>\<open>include/pcut/tests.h\<close>: hooks and the choice of
    the report.  \<open>AnyChild\<close> has complete runs with the processes of \<open>Pipes\<close>.  \<open>Meaning\<close> reads from the
    uses of the macros alone what a program prints, \<open>TestRuns\<close> makes this executable, and \<open>SelfTests\<close> has the
    programs in \<^verbatim>\<open>tests\<close> that check the library.
  \<^item> \<open>AssertThat\<close>, \<open>MatchersFmt\<close> and \<open>MatchersGeneric\<close> are the programs in \<^verbatim>\<open>contrib/playground\<close>, the
    experiments with assertions over matchers.

  \<^bold>\<open>How the parts fit.\<close>  \<open>RunSpec\<close> has the specification of one test, \<open>sandbox\<close> and \<open>test_spec\<close>: events
  and a verdict, without buffers, flags and jumps; the runner implements it in both modes.
  \<open>MainSpec\<close> has the specification of a run, \<open>run_spec\<close>: the suites of the list with their tests, and
  an answer for every test.  How a test is run is the interface of the control loop, the locale
  \<open>launcher\<close>; it is interpreted for tests in the process (\<open>in_process\<close>), in a forked child (\<open>in_child\<close>),
  and through the locale \<open>isolated_launcher\<close> of \<open>Select\<close>, where tests leave the state of the runner alone,
  for Unix (\<open>isolated\<close>, and \<open>any_child\<close> for any kernel), the shell (\<open>in_shell\<close>), Windows (\<open>on_windows\<close>) and HelenOS (\<open>on_helenos\<close>).  The two
  reports are interpretations of the locale \<open>report_backend\<close> of \<open>Report\<close>.  \<open>RunAll\<close> and \<open>Select\<close> take the
  main function from the lists that the macros build, through the arguments, to the report.  The
  child of the last three launchers is the same main function with the argument \<open>-t\<close>: \<open>reexec\<close>.
  \<open>Documents\<close> says which TAP and XML documents the reports of a whole run are.  \<open>Typing\<close> has the declared
  shape of the static variables and what every function does to it, in the locale \<open>keeping\<close>, and the
  same for a run over any launcher of the locale \<open>launcher_type\<close>, which all four launchers are.
  \<open>MatchersSpec\<close> has the formulas that matchers stand for, over any type with a comparator and a
  formatter (the locale \<open>matched_type\<close>); \<open>MatcherTypes\<close> and \<open>MatcherProps\<close> interpret it for the types of
  the two experiments.  The locale \<open>test_meaning\<close> is the interface between the list of items and the
  meaning of a program: the answer for a test depends on its functions and its time-out only.

  \<^bold>\<open>What is shown.\<close>  \<open>ListProps\<close>: fixing the list returns for every list that the macros can build and
  gives one doubly linked list in order.  \<open>Building\<close>: which programs compile and link; \<open>DeclProps\<close>: what their lists are, and
  the document that a run of such a program prints.  \<open>TypeProps\<close>: nothing that a test or a run does
  breaks the shape of the static memory.
  \<open>TestProps\<close>: tests meet their specification, messages survive the way through the pipe, the parser
  is safe, reports count right.  \<open>UnixProps\<close>, \<open>LauncherProps\<close>, \<open>Killer\<close>: what the parents report, also when
  the system fails or a test is killed.  \<open>PipeProps\<close>: what the parent has read whatever the order of the
  steps, which tests come to their end without the alarm, and that the alarm ends the others; \<open>Threads\<close>:
  the same for Windows, and the reader thread that may outlive its test.  \<open>MatcherProps\<close> and \<open>AssertThat\<close>: assertions over matchers print
  what the formula says.  \<open>CustomMain\<close>: what a program with hooks prints; \<open>AnyChild\<close>: what a
  program prints when every test runs in a child that is interleaved with its parent and its alarm;
  \<open>Meaning\<close>: the list that the library builds and hides items in has the suites, hooks and tests that are
  read from the macro uses; \<open>SelfTests\<close>: the programs under \<^verbatim>\<open>tests\<close> print what the repository expects.  This theory: complete runs and the arguments.  \<open>Example\<close> is
  the program on which the theorems are applied.  Some theorems state what the code does where it is
  not what it means to do; the texts before them say so.

  \<^bold>\<open>Conventions.\<close>  A function that reads or writes memory gives an \<open>option\<close>, where \<open>None\<close> is undefined
  behaviour; a call that may jump or exit gives an \<open>outcome\<close>.  The loops of \<^verbatim>\<open>list.c\<close> and \<^verbatim>\<open>main.c\<close> over
  linked lists are \<open>partial_function\<close>s, so that a loop without end is \<open>None\<close> too; that they return is part
  of the theorems on them.  No loop has fuel.  An \<open>int\<close> is an \<open>int\<close>
  with its conversions written out (\<open>to_int\<close>, \<open>alarm_of\<close>, \<open>time_out_millis\<close>); sizes are natural numbers,
  and the subtraction on \<open>size_t\<close> is \<open>size_sub\<close>.  What a process writes is its \<open>trace\<close>.

  \<^bold>\<open>Parameters.\<close>  The code of the user (\<open>code\<close>: for every function and state its output, new state and how
  it ends), the kernel and the other systems (records \<open>kernel\<close>, \<open>system\<close>, \<open>windows\<close>, \<open>helenos\<close>), and the
  string library of HelenOS.  The theorems on runs assume, in the definition of the answer of the
  launcher, that the system delivers the output of a child and its end.

  \<^bold>\<open>Not modelled.\<close>  The debugging output of \<open>PCUT_DEBUG\<close>, which is empty in normal builds; the variant
  \<open>PCUT_NO_LONG_JUMP\<close>; the rendering of floating point numbers and pointers; failures of writing to the standard streams; on Windows, the reports after a reader thread was left behind
  (\<open>Threads\<close> shows that it can be).A kernel of the complete runs
  (\<open>run_child\<close>) gives the same fate to two children with the same actions, end and alarm; the step relations
  of \<open>Pipes\<close> and \<open>Threads\<close> have no such limit.  The arguments that a hook leaves (\<open>hooks\<close>) are a function of the
  arguments that it gets, and not of the state of the program.  An \<open>ANY_OF\<close> of \<^verbatim>\<open>assert_that.c\<close> with a single
  value, which does not compile, accepts that value in the model.  The programs under \<^verbatim>\<open>tests\<close> are run on a kernel on
  which only sleeping takes time and with the error texts of the GNU library.
\<close>

section \<open>The example\<close>

definition demo_report :: "act list" where
  "demo_report = map Out
     [''1..3'' @ [NL],
      ''#> Starting suite main_suite.'' @ [NL],
      ''ok 1 good'' @ [NL] @ ''# stdio: upworkdown'' @ [NL],
      ''not ok 2 bad failed'' @ [NL] @ ''# error: demo.c:7: Expected <42>'' @ [NL] @ ''# stdio: updown'' @ [NL],
      ''#> Finished suite main_suite (failed 1 of 2).'' @ [NL],
      ''#> Starting suite other.'' @ [NL],
      ''ok 3 imported'' @ [NL],
      ''#> Finished suite other (passed).'' @ [NL],
      ''#> Done: 1 of 3 tests failed.'' @ [NL]]"

lemma demo_run:
  "run_spec (unix_answer demo_kernel demo_code) Report_tap (give_hooks demo_fixed (order demo_srcs))
     (order demo_srcs) (tap_zero, xml_zero) 0 = Some (demo_report, 0, False)"
proof -
  have "run_spec (unix_promise demo_kernel demo_code) Report_tap (give_hooks demo_fixed demo_order) demo_order
      (tap_zero, xml_zero) 0 = Some (demo_report, 0, False)" by code_simp
  then show ?thesis by (simp add: unix_answer_def demo_code_ok demo_order)
qed

section \<open>Complete runs\<close>

text \<open>C1: a run with the forking launcher, from the lists that the macros build to the last line of
  the report: what is printed is the specification \<open>run_spec\<close> of the declared suites and tests with
  the hooks they were given, the result says whether all tests passed, and nothing that a test does
  to the memory of its process is seen by the runner.\<close>

theorem run_in_children:
  assumes "decls_ok h l xs" and "h l = Some lit" and "no_extras lit"
    and "pcut_fix_list_get_real_head h l = Some (h1, first)"
    and "run_spec (unix_answer K E) rp (give_hooks h1 (order xs)) (order xs) (tap_zero, xml_zero) u = Some (acts, u', ok)"
  shows "\<exists>s'. pcut_main E H (\<lambda>_. pcut_run_test_forking K E) l (p # options rp PCUT_RUN_MODE_FORKING) (start_state h u) =
      Some (Returned (if ok then PCUT_OUTCOME_PASS else PCUT_OUTCOME_FAIL), s') \<and> trace s' = acts \<and> user s' = u"
proof -
  have "u' = u" using isolated.run_isolated [OF assms(5)] by simp
  with in_child.main_spec [OF assms(1-4) refl assms(5)] show ?thesis by auto
qed

theorem run_in_children_witness:
  "\<exists>s'. pcut_main demo_code (\<lambda>_ a. a) (\<lambda>_. pcut_run_test_forking demo_kernel demo_code) 9 [cstr ''prog''] (start_state demo_heap 0) =
      Some (Returned PCUT_OUTCOME_FAIL, s') \<and> trace s' = demo_report \<and> user s' = 0"
  using run_in_children [OF demo_decls demo_last demo_plain demo_fix demo_run]
  by (simp add: options_def)

text \<open>C16: on every system, for any lists, arguments, tests and answers of the system: a run that ends leaves
  the static memory of the library in its declared shape, every array with its size and every index
  and pointer inside its array, and everything it did is appended to what was done before.\<close>

theorem run_keeps_types:
  assumes "forking \<in> {(\<lambda>_. pcut_run_test_forking K E), generic_run_test_forking S, windows_run_test_forking W,
      helenos_run_test_forking T}"
    and "pcut_main E H forking l argv s = Some (r, s')" and "well_formed s"
  shows "well_formed s' \<and> (\<exists>as. trace s' = trace s @ as)"
  using any_launcher_keeps_types [OF assms] by (simp add: goes_on_def)

theorem run_keeps_types_witness:
  "\<exists>s'. pcut_main demo_code (\<lambda>_ a. a) (\<lambda>_. pcut_run_test_forking demo_kernel demo_code) 9 [cstr ''prog''] (start_state demo_heap 0) =
      Some (Returned PCUT_OUTCOME_FAIL, s') \<and> well_formed s' \<and> trace s' = demo_report"
proof -
  from in_child.main_spec [OF demo_decls demo_last demo_plain demo_fix refl demo_run, of "\<lambda>_ a. a" "cstr ''prog''"] obtain s' where
    s': "pcut_main demo_code (\<lambda>_ a. a) (\<lambda>_. pcut_run_test_forking demo_kernel demo_code) 9 [cstr ''prog''] (start_state demo_heap 0) =
      Some (Returned PCUT_OUTCOME_FAIL, s')" "trace s' = demo_report" by (auto simp: options_def)
  from run_keeps_types [OF _ s'(1) well_formed_start] s' show ?thesis by blast
qed

text \<open>C15: the exit status of such a run is \<open>PCUT_OUTCOME_PASS\<close> exactly if every test of every suite,
  run on its own from the initial state of the program, passes: no test depends on what ran before it.\<close>

theorem status_says_all_passed:
  assumes "decls_ok h l xs" and "h l = Some lit" and "no_extras lit"
    and "pcut_fix_list_get_real_head h l = Some (h1, first)"
    and "run_spec (unix_answer K E) rp (give_hooks h1 (order xs)) (order xs) (tap_zero, xml_zero) u = Some (acts, u', ok)"
  shows "map_option fst (pcut_main E H (\<lambda>_. pcut_run_test_forking K E) l (p # options rp PCUT_RUN_MODE_FORKING) (start_state h u)) =
    Some (Returned
      (if list_all (\<lambda>s. list_all (passes (unix_answer K E) (give_hooks h1 (order xs)) u) (snd s))
            (suites_of (give_hooks h1 (order xs)) (order xs))
       then PCUT_OUTCOME_PASS else PCUT_OUTCOME_FAIL))"
  using in_child.main_spec [OF assms(1-4) refl assms(5)] isolated.run_isolated [OF assms(5)] by force

theorem status_says_all_passed_witness:
  "map_option fst (pcut_main demo_code (\<lambda>_ a. a) (\<lambda>_. pcut_run_test_forking demo_kernel demo_code) 9 [cstr ''prog'']
     (start_state demo_heap 0)) = Some (Returned PCUT_OUTCOME_FAIL) \<and>
   \<not> passes (unix_answer demo_kernel demo_code) (give_hooks demo_fixed demo_order) 0 6"
proof -
  have "\<not> passes (unix_promise demo_kernel demo_code) (give_hooks demo_fixed demo_order) 0 6" by code_simp
  then have bad: "\<not> passes (unix_answer demo_kernel demo_code) (give_hooks demo_fixed demo_order) 0 6"
    by (simp add: unix_answer_def demo_code_ok)
  have "suites_of (give_hooks demo_fixed demo_order) demo_order = [(1, []), (2, [5, 6]), (11, [12])]" by code_simp
  with status_says_all_passed [OF demo_decls demo_last demo_plain demo_fix demo_run, of "\<lambda>_ a. a" "cstr ''prog''"] bad
  show ?thesis by (simp add: options_def demo_order)
qed

text \<open>C17: a run with \<open>-u\<close>, where the tests run in the process of the runner and the state that one
  leaves behind is the state in which the next one starts.\<close>

theorem run_in_process:
  assumes "decls_ok h l xs" and "h l = Some lit" and "no_extras lit"
    and "pcut_fix_list_get_real_head h l = Some (h1, first)"
    and "run_spec (single_answer E) rp (give_hooks h1 (order xs)) (order xs) (tap_zero, xml_zero) u = Some (acts, u', ok)"
  shows "\<exists>s'. pcut_main E H F l (p # options rp PCUT_RUN_MODE_SINGLE) (start_state h u) =
      Some (Returned (if ok then PCUT_OUTCOME_PASS else PCUT_OUTCOME_FAIL), s') \<and> trace s' = acts \<and> user s' = u'"
  by (rule in_process.main_spec [OF assms(1-4) refl assms(5)])

theorem run_in_process_witness:
  "\<exists>s'. pcut_main demo_code (\<lambda>_ a. a) (\<lambda>_. pcut_run_test_forking demo_kernel demo_code) 9 [cstr ''prog'', cstr ''-u'']
      (start_state demo_heap 0) = Some (Returned PCUT_OUTCOME_FAIL, s') \<and> user s' = 2 \<and> length (trace s') = 14"
proof -
  have "map_option (\<lambda>(acts, r). (length acts, r)) (run_spec (single_promise demo_code) Report_tap
      (give_hooks demo_fixed demo_order) demo_order (tap_zero, xml_zero) 0) = Some (14, 2, False)" by code_simp
  then obtain acts where "length acts = 14" "run_spec (single_promise demo_code) Report_tap
      (give_hooks demo_fixed demo_order) demo_order (tap_zero, xml_zero) 0 = Some (acts, 2, False)" by auto
  then have run: "length acts = 14" "run_spec (single_answer demo_code) Report_tap (give_hooks demo_fixed (order demo_srcs))
      (order demo_srcs) (tap_zero, xml_zero) 0 = Some (acts, 2, False)"
    by (simp_all add: single_answer_def demo_code_ok demo_order)
  from run_in_process [OF demo_decls demo_last demo_plain demo_fix run(2), of "\<lambda>_ a. a"
      "\<lambda>_. pcut_run_test_forking demo_kernel demo_code" "cstr ''prog''"] run(1) show ?thesis
    by (auto simp: options_def)
qed

section \<open>Arguments\<close>

text \<open>\<open>-l\<close> lists the tests and nothing is run, whatever arguments follow.\<close>

theorem listing_runs_nothing:
  assumes "decls_ok h l xs" and "h l = Some lit" and "no_extras lit"
    and "pcut_fix_list_get_real_head h l = Some (h1, first)" and "pcut_print_tests h1 (Some first) = Some out"
  shows "\<exists>s'. pcut_main E H F l (p # cstr ''-l'' # args) (start_state h u) = Some (Returned PCUT_OUTCOME_PASS, s') \<and>
    trace s' = [Out out] \<and> user s' = u"
  using main_args [OF assms(1-4), of E H F p "cstr ''-l'' # args" u] assms(5)
  by (simp add: arg_list emit_def del: arg_loop.simps)

text \<open>A suite and a test together are refused, and nothing is run.\<close>

theorem suite_and_test_refused:
  assumes "decls_ok h l xs" and "h l = Some lit" and "no_extras lit"
    and "pcut_fix_list_get_real_head h l = Some (h1, first)"
    and "0 \<le> i" "i < 2 ^ 31" "0 \<le> j" "j < 2 ^ 31"
  shows "\<exists>s'. pcut_main E H F l [p, cstr (''-s'' @ show_int i), cstr (''-t'' @ show_int j)] (start_state h u) =
      Some (Returned PCUT_OUTCOME_BAD_INVOCATION, s') \<and> trace s' = [Out (''Specify either -s or -t!'' @ [NL])]"
proof -
  have "arg_loop [cstr (''-s'' @ show_int i), cstr (''-t'' @ show_int j)] (Some first) (-1) (-1) (main_state h1 u) =
      (Returned (Some (i, j)), main_state h1 u)"
    by (simp only: arg_suite [OF assms(5,6)] arg_test [OF assms(7,8)] arg_loop.simps(1))
  from main_hooked [OF assms(1-4) this, of E H F p] assms(5,7) show ?thesis
    by (simp add: run_selected_def emit_def)
qed

text \<open>C34: \<open>-t\<close> with the id of a test runs that test and no other, as the process itself: it ends with
  the status of the verdict, and there is no report around it.\<close>

theorem selected_test_runs:
  assumes "decls_ok h l xs" and "h l = Some lit" and "no_extras lit"
    and "pcut_fix_list_get_real_head h l = Some (h1, first)"
    and "code_ok E" and "k < length (reals h1 (order xs))" and "1 + int k < 2 ^ 31"
    and "kind_at h1 (reals h1 (order xs) ! k) = PCUT_KIND_TEST"
    and "test_spec E (give_hooks h1 (order xs)) (reals h1 (order xs) ! k) u = Some (es, u', v)"
  shows "\<exists>s'. pcut_main E H F l [p, cstr (''-t'' @ show_int (1 + int k))] (start_state h u) = Some (verdict_status v, s') \<and>
    trace s' = forked_acts es \<and> user s' = u'"
  by (rule main_selected_test [OF assms])

theorem selected_test_runs_witness:
  "\<exists>s'. pcut_main demo_code (\<lambda>_ a. a) (\<lambda>_. pcut_run_test_forking demo_kernel demo_code) 9
      [cstr ''prog'', cstr (''-t'' @ show_int 6)] (start_state demo_heap 0) = Some (Ended (Exited 1), s') \<and>
    trace s' = [Out ''up'', Out (frame (Fail ''demo.c:7: Expected <42>'')), Out ''down'']"
proof -
  have rs: "reals demo_fixed (order demo_srcs) = [1, 2, 3, 4, 5, 6, 11, 12]" unfolding demo_order by (rule demo_reals)
  have k: "kind_at demo_fixed 6 = PCUT_KIND_TEST" by code_simp
  have sp: "test_spec demo_code (give_hooks demo_fixed (order demo_srcs)) 6 0 =
      Some ([Did [Out ''up''], Did [], Message ''demo.c:7: Expected <42>'', Did [Out ''down'']], 1,
        Failed ''demo.c:7: Expected <42>'' [])" unfolding demo_order by code_simp
  have "\<exists>s'. pcut_main demo_code (\<lambda>_ a. a) (\<lambda>_. pcut_run_test_forking demo_kernel demo_code) 9
      [cstr ''prog'', cstr (''-t'' @ show_int (1 + int 5))] (start_state demo_heap 0) =
        Some (verdict_status (Failed ''demo.c:7: Expected <42>'' []), s') \<and>
      trace s' = forked_acts [Did [Out ''up''], Did [], Message ''demo.c:7: Expected <42>'', Did [Out ''down'']] \<and>
      user s' = 1"
    by (rule selected_test_runs [OF demo_decls demo_last demo_plain demo_fix demo_code_ok])
      (use rs k sp in simp_all)
  then show ?thesis by (auto simp: verdict_status_def PCUT_OUTCOME_FAIL_def)
qed

text \<open>\<open>-t\<close> with an id that is not that of a test (too large, a suite, a set-up or a tear-down
  function) is refused with one line, and nothing is run.\<close>

theorem wrong_test_refused:
  assumes "decls_ok h l xs" and "h l = Some lit" and "no_extras lit"
    and "pcut_fix_list_get_real_head h l = Some (h1, first)" and "0 < i" "i < 2 ^ 31"
    and "i \<le> int (length (reals h1 (order xs))) \<Longrightarrow> kind_at h1 (reals h1 (order xs) ! nat (i - 1)) \<noteq> PCUT_KIND_TEST"
  shows "\<exists>s' msg. pcut_main E H F l [p, cstr (''-t'' @ show_int i)] (start_state h u) =
      Some (Returned PCUT_OUTCOME_BAD_INVOCATION, s') \<and> trace s' = [Out msg] \<and>
    msg \<in> {''Test not found, aborting!'' @ [NL], ''Invalid test id!'' @ [NL]}"
proof -
  let ?s = "hooked_state h1 (order xs) u" and ?a = "reals h1 (order xs) ! nat (i - 1)"
  note find = find_in_hooked [OF assms(1,4), of i]
  show ?thesis
  proof (cases "i \<le> int (length (reals h1 (order xs))) \<and> kind_at h1 ?a \<notin> {PCUT_KIND_SETUP, PCUT_KIND_TEARDOWN}")
    case True
    then have "nat (i - 1) < length (reals h1 (order xs))" using assms(5) by linarith
    then have "?a \<in> set (order xs)" using nth_mem by (fastforce simp: set_reals)
    from kind_hooked [OF assms(1,4) this] True obtain it where
      "items ?s ?a = Some it" "kind it = kind_at h1 ?a" by auto
    with True find assms(5,7) main_runs_test [OF assms(1-6), of E H F p u] show ?thesis
      by (auto simp: run_only_test_id_def kind_at_Some emit_def)
  next
    case False
    with find assms(5) have "pcut_find_by_id (items ?s) (Some first) i = Some None" by auto
    with main_runs_test [OF assms(1-6), of E H F p u] show ?thesis
      by (auto simp: run_only_test_id_def emit_def)
  qed
qed

text \<open>C35: \<open>-s\<close> with the id of a suite runs the tests of that suite only, with their report, but its
  result is \<open>PCUT_OUTCOME_PASS\<close> also when tests fail.\<close>

theorem selected_suite_always_passes:
  assumes "decls_ok h l xs" and "h l = Some lit" and "no_extras lit"
    and "pcut_fix_list_get_real_head h l = Some (h1, first)"
    and "order xs = bs @ a # cs" and "kind_at h1 a = PCUT_KIND_TESTSUITE" and "reals h1 (order xs) ! k = a"
    and "k < length (reals h1 (order xs))" and "1 + int k < 2 ^ 31"
    and "suite_spec (unix_answer K E) Report_tap (give_hooks h1 (order xs)) a
      (filter (is_test (give_hooks h1 (order xs))) (takeWhile (\<lambda>b. \<not> is_suite (give_hooks h1 (order xs)) b) cs))
      (tap_zero, xml_zero) u = Some (acts, r, u', ok)"
  shows "\<exists>s'. pcut_main E H (\<lambda>_. pcut_run_test_forking K E) l [p, cstr (''-s'' @ show_int (1 + int k))] (start_state h u) =
      Some (Returned PCUT_OUTCOME_PASS, s') \<and> trace s' = acts"
proof -
  let ?s = "hooked_state h1 (order xs) u" and ?g = "give_hooks h1 (order xs)"
  let ?seg = "takeWhile (\<lambda>b. \<not> is_suite ?g b) cs" and ?aft = "dropWhile (\<lambda>b. \<not> is_suite ?g b) cs"
  have "a \<in> set (order xs)" using assms(5) by simp
  from kind_hooked [OF assms(1,4) this] assms(6) obtain it where
    it: "items ?s a = Some it" "kind it = PCUT_KIND_TESTSUITE" by auto
  have find: "pcut_find_by_id (items ?s) (Some first) (1 + int k) = Some (Some a)"
    using find_in_hooked [OF assms(1,4), of "1 + int k"] assms(6-8) by simp
  have "dll (items ?s) None (bs @ a # ?seg @ ?aft) None"
    using dll_give_hooks [OF fix_list_dll(1) [OF assms(1,4)], of "order xs"] by (simp add: assms(5) [symmetric])
  moreover have "list_all (\<lambda>b. \<not> is_suite (items ?s) b) ?seg" by (auto simp: list_all_iff dest: set_takeWhileD)
  moreover have "?aft = [] \<or> is_suite (items ?s) (hd ?aft)" using dropWhile_suite [of ?g cs] by simp
  ultimately obtain s' last where
    "run_suite E (\<lambda>_. pcut_run_test_forking K E) (Some p) a ?s =
      Some (Returned (if ok then PCUT_OUTCOME_PASS else PCUT_OUTCOME_FAIL, last), s')" "trace s' = acts"
    using in_child.run_suite_spec [OF hooked_state_idle, of h1 "order xs" u None bs a ?seg ?aft K E acts r u' ok "Some p"]
      assms(10) by auto
  with main_runs_suite [OF assms(1-4), of "1 + int k" E H "\<lambda>_. pcut_run_test_forking K E" p u] assms(9) it find
  show ?thesis by (simp add: run_only_suite_id_def kind_at_Some)
qed

theorem selected_suite_always_passes_witness:
  "\<exists>s'. pcut_main demo_code (\<lambda>_ a. a) (\<lambda>_. pcut_run_test_forking demo_kernel demo_code) 9
      [cstr ''prog'', cstr (''-s'' @ show_int 2)] (start_state demo_heap 0) = Some (Returned PCUT_OUTCOME_PASS, s') \<and>
    trace s' = take 4 (tl demo_report)"
proof -
  let ?cs = "[3, 4, 5, 6, 7, 8, 10, 11, 12, 13, 9]"
  have ord: "order demo_srcs = [0, 1] @ 2 # ?cs" by (simp add: demo_order demo_order_def)
  have rs: "reals demo_fixed (order demo_srcs) = [1, 2, 3, 4, 5, 6, 11, 12]" unfolding demo_order by (rule demo_reals)
  have k: "kind_at demo_fixed 2 = PCUT_KIND_TESTSUITE" by code_simp
  have t: "filter (is_test (give_hooks demo_fixed (order demo_srcs)))
      (takeWhile (\<lambda>b. \<not> is_suite (give_hooks demo_fixed (order demo_srcs)) b) ?cs) = [5, 6]"
    unfolding demo_order by code_simp
  have "map_option (\<lambda>(acts, r, u, ok). (acts, ok)) (suite_spec (unix_promise demo_kernel demo_code) Report_tap
      (give_hooks demo_fixed demo_order) 2 [5, 6] (tap_zero, xml_zero) 0) = Some (take 4 (tl demo_report), False)"
    by code_simp
  then obtain r u' where "suite_spec (unix_answer demo_kernel demo_code) Report_tap
      (give_hooks demo_fixed (order demo_srcs)) 2 [5, 6] (tap_zero, xml_zero) 0 = Some (take 4 (tl demo_report), r, u', False)"
    by (auto simp: unix_answer_def demo_code_ok demo_order)
  then have "\<exists>s'. pcut_main demo_code (\<lambda>_ a. a) (\<lambda>_. pcut_run_test_forking demo_kernel demo_code) 9
      [cstr ''prog'', cstr (''-s'' @ show_int (1 + int 1))] (start_state demo_heap 0) = Some (Returned PCUT_OUTCOME_PASS, s') \<and>
    trace s' = take 4 (tl demo_report)"
    by (intro selected_suite_always_passes [OF demo_decls demo_last demo_plain demo_fix ord k, where r = r and u' = u'
          and ok = False]) (use rs t in \<open>simp_all del: takeWhile.simps\<close>)
  then show ?thesis by simp
qed

section \<open>Time-outs\<close>

text \<open>The time-out of a test is the one of its last \<open>PCUT_TEST_SET_TIMEOUT\<close>, and three seconds if
  there is none; other extras of the test do not matter.\<close>

theorem last_timeout_counts:
  assumes "extras it = Some (es @ l # r)" and "extra_type l = PCUT_EXTRA_LAST"
    and "list_all (\<lambda>e. extra_type e \<noteq> PCUT_EXTRA_LAST) es"
  shows "pcut_get_test_timeout it =
    Some (last (3 # map timeout (filter (\<lambda>e. extra_type e = PCUT_EXTRA_TIMEOUT) es)))"
  using timeout_loop_last [OF assms(3,2), of r PCUT_DEFAULT_TEST_TIMEOUT] assms(1)
  by (simp add: pcut_get_test_timeout_def PCUT_DEFAULT_TEST_TIMEOUT_def)

end
